(* ===== verification/Prelude.thy ===== *)
theory Prelude
  imports Main "HOL-Library.AList" "HOL-Library.Sublist" "HOL-Library.Word"
begin

text \<open>
  Shared vocabulary of the development: Go maps as association lists, error values, state
  transformers over a world, the functions of Go's \<open>strings\<close> and \<open>strconv\<close> packages that
  the plugin calls, and the generic lemmas and simplification rules the component theories
  share.  Nothing in this theory models a file of the repository.

  A Go map is an association list whose keys are distinct (\<open>map_ok\<close>).  The list order is the
  order in which a \<open>range\<close> loop visits the map; Go leaves that order unspecified, and so do
  the theorems, which hold for every association list.
\<close>

named_theorems map_ok_intros \<open>operations preserve distinctness of map keys\<close>

section \<open>Errors and effects\<close>

text \<open>
  Error values.  The texts of the messages are dropped; the constructors say which return
  statement produced the error.  \<open>Panic\<close> is a run-time panic: the process ends there, so nothing
  is claimed of what follows one.  \<open>errors.WithMessage\<close> keeps the cause (and maps nil to nil),
  so it is the identity here.
\<close>

datatype err =
    ConnectError
  | EtcdError
  | NoUnusedSubnets string
  | PoolExists string
  | PoolMissing string
  | PoolTakenBy string
  | SubnetError
  | NoReservations
  | NoUnusedIPs
  | NoMoreIPs string
  | InvalidIP string
  | InvalidIPv4
  | NotReserved string
  | AllocatedOtherwise string
  | RandomError
  | NoUniqueFwmark
  | DecodeError string
  | ConflictError
  | RetriesExhausted
  | Panic string
  | OtherError string

type_synonym 'a result = "err + 'a"

text \<open>A computation with effects on the world \<open>'w\<close> (etcd, clock, random source) that can fail.\<close>

type_synonym ('w, 'a) io = "'w \<Rightarrow> 'a result \<times> 'w"

definition with_message :: "err option \<Rightarrow> err option" where
  "with_message e = (case e of None \<Rightarrow> None | Some c \<Rightarrow> Some c)"

lemma with_message_id [simp]: "with_message e = e"
  by (simp add: with_message_def split: option.splits)

section \<open>Go maps\<close>

type_synonym ('k, 'v) gomap = "('k \<times> 'v) list"

definition map_ok :: "('k, 'v) gomap \<Rightarrow> bool" where
  "map_ok m \<longleftrightarrow> distinct (map fst m)"

definition map_get :: "('k, 'v) gomap \<Rightarrow> 'k \<Rightarrow> 'v option" where
  "map_get m = map_of m"

definition map_put :: "'k \<Rightarrow> 'v \<Rightarrow> ('k, 'v) gomap \<Rightarrow> ('k, 'v) gomap" where
  "map_put k v m = AList.update k v m"

definition map_del :: "'k \<Rightarrow> ('k, 'v) gomap \<Rightarrow> ('k, 'v) gomap" where
  "map_del k m = AList.delete k m"

definition map_keys :: "('k, 'v) gomap \<Rightarrow> 'k list" where
  "map_keys m = map fst m"

definition map_vals :: "('k, 'v) gomap \<Rightarrow> 'v list" where
  "map_vals m = map snd m"

abbreviation map_has :: "('k, 'v) gomap \<Rightarrow> 'k \<Rightarrow> bool" where
  "map_has m k \<equiv> map_get m k \<noteq> None"

lemma map_get_Nil [simp]: "map_get [] k = None"
  by (simp add: map_get_def)

lemma map_get_Cons [simp]: "map_get ((k, v) # m) k' = (if k = k' then Some v else map_get m k')"
  by (simp add: map_get_def)

lemma map_get_put [simp]: "map_get (map_put k v m) k' = (if k = k' then Some v else map_get m k')"
  by (simp add: map_get_def map_put_def update_conv')

lemma map_get_del [simp]: "map_get (map_del k m) k' = (if k = k' then None else map_get m k')"
  by (simp add: map_get_def map_del_def delete_conv')

lemma map_get_put_fun: "map_get (map_put k v m) = (map_get m)(k \<mapsto> v)"
  by (rule ext) simp

lemma map_get_del_fun: "map_get (map_del k m) = (map_get m)(k := None)"
  by (rule ext) simp

lemma map_ok_Nil [simp, map_ok_intros]: "map_ok []"
  by (simp add: map_ok_def)

lemma map_ok_put [simp, map_ok_intros]: "map_ok m \<Longrightarrow> map_ok (map_put k v m)"
  by (simp add: map_ok_def map_put_def distinct_update)

lemma map_ok_del [simp, map_ok_intros]: "map_ok m \<Longrightarrow> map_ok (map_del k m)"
  by (simp add: map_ok_def map_del_def distinct_delete)

lemma map_ok_filter [simp, map_ok_intros]: "map_ok m \<Longrightarrow> map_ok (filter P m)"
  by (simp add: map_ok_def distinct_map_filter)

lemma set_map_put: "set (map_put k v m) \<subseteq> insert (k, v) (set m)"
  by (induction m) (auto simp: map_put_def)

lemma set_map_keys [simp]: "set (map_keys m) = dom (map_get m)"
  by (simp add: map_keys_def map_get_def dom_map_of_conv_image_fst)

lemma set_map_keys_iff: "k \<in> set (map_keys m) \<longleftrightarrow> map_has m k"
  by auto

lemma map_get_Some_iff: "map_ok m \<Longrightarrow> map_get m k = Some v \<longleftrightarrow> (k, v) \<in> set m"
  by (simp add: map_ok_def map_get_def)

lemma map_get_None_iff: "map_get m k = None \<longleftrightarrow> k \<notin> fst ` set m"
  by (simp add: map_get_def map_of_eq_None_iff)

lemma map_get_in_set: "map_get m k = Some v \<Longrightarrow> (k, v) \<in> set m"
  by (simp add: map_get_def map_of_SomeD)

lemma set_map_vals: "map_ok m \<Longrightarrow> set (map_vals m) = ran (map_get m)"
  by (simp add: map_ok_def map_get_def map_vals_def ran_distinct)

lemma distinct_map_keys: "map_ok m \<Longrightarrow> distinct (map_keys m)"
  by (simp add: map_ok_def map_keys_def)

lemma map_get_filter_key:
  "map_get (filter (\<lambda>(k, _). P k) m) k = (if P k then map_get m k else None)"
  by (induction m) (auto simp: map_get_def)

lemma finite_dom_map_get [simp]: "finite (dom (map_get m))"
  by (simp add: map_get_def finite_dom_map_of)

section \<open>List helpers of samber/lo, by their documentation\<close>

text \<open>
  \<open>lo.Difference\<close> returns the elements of the first list missing from the second and the
  elements of the second missing from the first; \<open>lo.Some\<close> says whether a list contains at
  least one element of another.
\<close>

definition lo_Difference :: "'a list \<Rightarrow> 'a list \<Rightarrow> 'a list \<times> 'a list" where
  "lo_Difference xs ys = (filter (\<lambda>x. x \<notin> set ys) xs, filter (\<lambda>y. y \<notin> set xs) ys)"

definition lo_Some :: "'a list \<Rightarrow> 'a list \<Rightarrow> bool" where
  "lo_Some xs sub \<longleftrightarrow> list_ex (\<lambda>x. x \<in> set xs) sub"

lemma lo_Some_single [simp]: "lo_Some xs [x] \<longleftrightarrow> x \<in> set xs"
  by (simp add: lo_Some_def)

lemma set_fst_lo_Difference [simp]: "set (fst (lo_Difference xs ys)) = set xs - set ys"
  by (auto simp: lo_Difference_def)

lemma set_snd_lo_Difference [simp]: "set (snd (lo_Difference xs ys)) = set ys - set xs"
  by (auto simp: lo_Difference_def)

end
