(* ===== verification/Go_Strings.thy ===== *)
theory Go_Strings
  imports Prelude
begin

text \<open>
  The functions of Go's \<open>strings\<close> and \<open>strconv\<close> packages the plugin uses, on byte strings
  (a Go string is a sequence of bytes; HOL's \<open>char\<close> is a byte), with the round-trip lemmas
  the key layouts and the address texts need.
\<close>

section \<open>Prefixes, trimming, splitting, joining\<close>

definition trim_prefix :: "string \<Rightarrow> string \<Rightarrow> string" where
  "trim_prefix p s = (if prefix p s then drop (length p) s else s)"

definition trim_left :: "char \<Rightarrow> string \<Rightarrow> string" where
  "trim_left c s = dropWhile (\<lambda>x. x = c) s"

definition trim_right :: "char \<Rightarrow> string \<Rightarrow> string" where
  "trim_right c s = rev (dropWhile (\<lambda>x. x = c) (rev s))"

fun split_on :: "char \<Rightarrow> string \<Rightarrow> string list" where
  "split_on c [] = [[]]"
| "split_on c (x # xs) =
     (if x = c then [] # split_on c xs
      else (case split_on c xs of [] \<Rightarrow> [[x]] | y # ys \<Rightarrow> (x # y) # ys))"

fun join :: "string \<Rightarrow> string list \<Rightarrow> string" where
  "join sep [] = []"
| "join sep [x] = x"
| "join sep (x # y # zs) = x @ sep @ join sep (y # zs)"

definition replace_char :: "char \<Rightarrow> char \<Rightarrow> string \<Rightarrow> string" where
  "replace_char a b s = map (\<lambda>x. if x = a then b else x) s"

text \<open>\<open>strings.Contains\<close>: the second string occurs somewhere in the first.\<close>

fun str_contains :: "string \<Rightarrow> string \<Rightarrow> bool" where
  "str_contains [] sub = (sub = [])"
| "str_contains (x # xs) sub = (prefix sub (x # xs) \<or> str_contains xs sub)"

text \<open>\<open>strings.Fields\<close> and \<open>strings.TrimSpace\<close> on ASCII.\<close>

definition is_space :: "char \<Rightarrow> bool" where
  "is_space c \<longleftrightarrow> c = CHR '' '' \<or> c = CHR 0x09 \<or> c = CHR 0x0A \<or> c = CHR 0x0B \<or> c = CHR 0x0C \<or> c = CHR 0x0D"

definition go_fields :: "string \<Rightarrow> string list" where
  "go_fields s = filter (\<lambda>x. x \<noteq> []) (split_on CHR '' '' (map (\<lambda>c. if is_space c then CHR '' '' else c) s))"

definition trim_space :: "string \<Rightarrow> string" where
  "trim_space s = rev (dropWhile is_space (rev (dropWhile is_space s)))"

lemma trim_prefix_append [simp]: "trim_prefix p (p @ s) = s"
  by (simp add: trim_prefix_def)

lemma trim_left_id [simp]: "s = [] \<or> hd s \<noteq> c \<Longrightarrow> trim_left c s = s"
  by (cases s) (auto simp: trim_left_def)

lemma trim_left_Cons_same [simp]: "trim_left c (c # s) = trim_left c s"
  by (simp add: trim_left_def)

lemma hd_trim_left: "trim_left c s \<noteq> [] \<Longrightarrow> hd (trim_left c s) \<noteq> c"
  unfolding trim_left_def by (metis (mono_tags) hd_dropWhile)

lemma last_trim_right: "trim_right c s \<noteq> [] \<Longrightarrow> last (trim_right c s) \<noteq> c"
  unfolding trim_right_def by (metis (mono_tags) hd_dropWhile last_rev rev_is_Nil_conv)

lemma trim_right_id [simp]: "s = [] \<or> last s \<noteq> c \<Longrightarrow> trim_right c s = s"
  by (cases s rule: rev_cases) (auto simp: trim_right_def)

lemma split_on_not_Nil [simp]: "split_on c s \<noteq> []"
  by (cases s) (auto split: list.splits)

lemma split_on_none [simp]: "c \<notin> set s \<Longrightarrow> split_on c s = [s]"
  by (induction s) auto

lemma split_on_append: "c \<notin> set a \<Longrightarrow> split_on c (a @ c # b) = a # split_on c b"
  by (induction a) auto

lemma split_on_no_sep: "x \<in> set (split_on c s) \<Longrightarrow> c \<notin> set x"
  by (induction s arbitrary: x) (auto split: if_splits list.splits)

lemma join_split_on: "join [c] (split_on c s) = s"
proof (induction s)
  case (Cons x xs)
  obtain y ys where yys: "split_on c xs = y # ys"
    by (meson neq_Nil_conv split_on_not_Nil)
  show ?case
  proof (cases "x = c")
    case True
    with Cons yys show ?thesis by simp
  next
    case False
    with Cons yys show ?thesis by (cases ys) auto
  qed
qed simp

lemma split_on_join:
  "xs \<noteq> [] \<Longrightarrow> (\<And>x. x \<in> set xs \<Longrightarrow> c \<notin> set x) \<Longrightarrow> split_on c (join [c] xs) = xs"
proof (induction "[c]" xs rule: join.induct)
  case (3 x y zs)
  then have "split_on c (join [c] (y # zs)) = y # zs" and "c \<notin> set x"
    by simp_all
  then show ?case by (simp add: split_on_append)
qed simp_all

lemma length_split_on_1: "length (split_on c s) = 1 \<longleftrightarrow> c \<notin> set s"
  by (induction s) (auto split: list.splits)

lemma set_join_chars: "set (join sep xs) \<subseteq> set sep \<union> (\<Union>x\<in>set xs. set x)"
  by (induction sep xs rule: join.induct) auto

lemma replace_char_inverse: "b \<notin> set s \<Longrightarrow> replace_char b a (replace_char a b s) = s"
  by (induction s) (auto simp: replace_char_def)

lemma replace_char_not_in: "a \<noteq> b \<Longrightarrow> a \<notin> set (replace_char a b s)"
  by (auto simp: replace_char_def)

section \<open>Decimal numbers\<close>

definition digit_char :: "nat \<Rightarrow> char" where
  "digit_char n = char_of (48 + n)"

definition is_digit :: "char \<Rightarrow> bool" where
  "is_digit c \<longleftrightarrow> 48 \<le> (of_char c :: nat) \<and> (of_char c :: nat) \<le> 57"

text \<open>\<open>strconv.FormatUint(n, 10)\<close>.\<close>

fun format_dec :: "nat \<Rightarrow> string" where
  "format_dec n = (if n < 10 then [digit_char n] else format_dec (n div 10) @ [digit_char (n mod 10)])"

declare format_dec.simps [simp del]

definition digits_val :: "string \<Rightarrow> nat" where
  "digits_val s = foldl (\<lambda>a c. 10 * a + (of_char c - 48)) 0 s"

text \<open>A non-empty run of ASCII digits, as a number.\<close>

definition parse_dec :: "string \<Rightarrow> nat option" where
  "parse_dec s = (if s \<noteq> [] \<and> list_all is_digit s then Some (digits_val s) else None)"

text \<open>\<open>strconv.ParseUint(s, 10, 32)\<close>; \<open>None\<close> is any error.\<close>

definition parse_uint32 :: "string \<Rightarrow> 32 word option" where
  "parse_uint32 s = (case parse_dec s of
      None \<Rightarrow> None
    | Some n \<Rightarrow> if n < 2 ^ 32 then Some (word_of_nat n) else None)"

lemma of_char_digit_char: "n < 10 \<Longrightarrow> (of_char (digit_char n) :: nat) = 48 + n"
  by (simp add: digit_char_def of_char_of)

lemma is_digit_digit_char: "n < 10 \<Longrightarrow> is_digit (digit_char n)"
  by (simp add: is_digit_def of_char_digit_char)

lemma digits_val_snoc: "digits_val (s @ [c]) = 10 * digits_val s + (of_char c - 48)"
  by (simp add: digits_val_def)

lemma format_dec_nonempty [simp]: "format_dec n \<noteq> []"
  by (subst format_dec.simps) simp

lemma format_dec_digits: "list_all is_digit (format_dec n)"
proof (induction n rule: format_dec.induct)
  case (1 n)
  then show ?case
    by (subst format_dec.simps) (auto simp: is_digit_digit_char)
qed

lemma digits_val_format_dec: "digits_val (format_dec n) = n"
proof (induction n rule: format_dec.induct)
  case (1 n)
  show ?case
  proof (cases "n < 10")
    case True
    then show ?thesis
      by (subst format_dec.simps) (simp add: digits_val_def of_char_digit_char)
  next
    case False
    with 1 show ?thesis
      by (subst format_dec.simps) (simp add: digits_val_snoc of_char_digit_char)
  qed
qed

lemma parse_dec_format_dec [simp]: "parse_dec (format_dec n) = Some n"
  by (simp add: parse_dec_def format_dec_digits digits_val_format_dec)

lemma parse_uint32_format [simp]: "parse_uint32 (format_dec (unat w)) = Some w"
proof -
  have "unat w < 2 ^ 32"
    using unsigned_less [where 'a = nat, of w] by simp
  then show ?thesis by (simp add: parse_uint32_def)
qed

lemma format_dec_inj: "format_dec m = format_dec n \<longleftrightarrow> m = n"
  by (metis digits_val_format_dec)

text \<open>The canonical text of a number: no leading zero.\<close>

definition canonical_dec :: "string \<Rightarrow> bool" where
  "canonical_dec s \<longleftrightarrow> s \<noteq> [] \<and> list_all is_digit s \<and> (length s = 1 \<or> hd s \<noteq> CHR ''0'')"

lemma is_digit_cases: "is_digit c \<Longrightarrow> \<exists>d<10. c = digit_char d"
  unfolding is_digit_def digit_char_def
  by (rule exI [of _ "of_char c - 48"]) auto

lemma digit_char_zero: "n < 10 \<Longrightarrow> digit_char n = CHR ''0'' \<longleftrightarrow> n = 0"
proof
  assume n: "n < 10" and "digit_char n = CHR ''0''"
  then have "(of_char (digit_char n) :: nat) = of_char (CHR ''0'')" by simp
  then show "n = 0" using n by (simp add: of_char_digit_char)
qed (simp add: digit_char_def char_of_def bit_0)

lemma digits_val_pos: "canonical_dec s \<Longrightarrow> length s \<noteq> 1 \<Longrightarrow> 0 < digits_val s"
proof (induction s rule: rev_induct)
  case (snoc c s)
  then have s: "s \<noteq> []" "list_all is_digit s" and hd: "hd s \<noteq> CHR ''0''"
    by (auto simp: canonical_dec_def)
  have "0 < digits_val s"
  proof (cases "length s = 1")
    case True
    then obtain d where [simp]: "s = [d]" by (cases s) auto
    from s obtain n where n: "n < 10" "d = digit_char n"
      using is_digit_cases by auto
    with hd have "n \<noteq> 0" by (auto simp: digit_char_zero)
    with n show ?thesis by (simp add: digits_val_def of_char_digit_char)
  next
    case False
    with snoc.IH s hd show ?thesis by (simp add: canonical_dec_def)
  qed
  then show ?case by (simp add: digits_val_snoc)
qed (simp add: canonical_dec_def)

lemma format_dec_digits_val: "canonical_dec s \<Longrightarrow> format_dec (digits_val s) = s"
proof (induction s rule: rev_induct)
  case (snoc c s)
  then obtain d where d: "d < 10" "c = digit_char d"
    using is_digit_cases by (auto simp: canonical_dec_def)
  have v: "digits_val (s @ [c]) = 10 * digits_val s + d"
    using d by (simp add: digits_val_snoc of_char_digit_char)
  show ?case
  proof (cases "s = []")
    case True
    with d v show ?thesis
      by (subst format_dec.simps) (simp add: digits_val_def)
  next
    case False
    with snoc.prems have cs: "canonical_dec s" and hd: "hd s \<noteq> CHR ''0''"
      by (auto simp: canonical_dec_def)
    have pos: "0 < digits_val s"
    proof (cases "length s = 1")
      case True
      then obtain e where [simp]: "s = [e]" by (cases s) auto
      from cs obtain n where n: "n < 10" "e = digit_char n"
        using is_digit_cases by (auto simp: canonical_dec_def)
      with hd have "n \<noteq> 0" by (auto simp: digit_char_zero)
      with n show ?thesis by (simp add: digits_val_def of_char_digit_char)
    qed (use cs digits_val_pos in blast)
    with d v snoc.IH [OF cs] show ?thesis
      by (subst format_dec.simps) simp
  qed
qed (simp add: canonical_dec_def)

lemma format_dec_hd: "2 \<le> length (format_dec n) \<Longrightarrow> hd (format_dec n) \<noteq> CHR ''0''"
proof (induction n rule: format_dec.induct)
  case (1 n)
  show ?case
  proof (cases "n < 10")
    case True
    with "1.prems" show ?thesis by (simp add: format_dec.simps [of n])
  next
    case False
    have hdeq: "hd (format_dec n) = hd (format_dec (n div 10))"
      using False by (simp add: format_dec.simps [of n])
    show ?thesis
    proof (cases "n div 10 < 10")
      case True
      have "n div 10 \<noteq> 0" using False by simp
      then have "digit_char (n div 10) \<noteq> CHR ''0''"
        using True by (simp add: digit_char_zero)
      with hdeq True show ?thesis by (simp add: format_dec.simps [of "n div 10"])
    next
      case nested: False
      have "2 \<le> length (format_dec (n div 10))"
        using nested by (subst format_dec.simps) (simp add: Suc_le_eq)
      with 1 False hdeq show ?thesis by simp
    qed
  qed
qed

lemma canonical_format_dec: "canonical_dec (format_dec n)"
proof -
  have "length (format_dec n) = 1 \<or> 2 \<le> length (format_dec n)"
    using format_dec_nonempty [of n] by (cases "format_dec n" rule: remdups_adj.cases) auto
  then show ?thesis
    using format_dec_hd by (auto simp: canonical_dec_def format_dec_digits)
qed

lemma not_digit_not_in_format: "\<not> is_digit c \<Longrightarrow> c \<notin> set (format_dec n)"
  using format_dec_digits [of n] by (auto simp: list_all_iff)

end
