(* ===== verification/Net.thy ===== *)
theory Net
  imports Go_Strings
begin

unbundle bit_operations_syntax

text \<open>
  The part of Go's \<open>net\<close> package the plugin uses.  A \<open>net.IP\<close> is a byte slice (\<open>[]\<close> is nil),
  4 bytes for an IPv4 address or 16 bytes, where an IPv4 address may also be held in its
  16-byte mapped form; an \<open>net.IPNet\<close> is an address and a mask.  Texts: the dotted decimal
  syntax of IPv4 is modelled in full.  The plugin refuses IPv6 pools, and the textual syntax of
  IPv6 is outside the model: \<open>ParseIP\<close> accepts IPv4 texts only, and the text of a 16-byte
  address that is not an IPv4 one is the hexadecimal listing of its bytes.
\<close>

section \<open>Addresses\<close>

type_synonym u8 = "8 word"
type_synonym u32 = "32 word"
type_synonym ip = "u8 list"

definition v4_prefix :: ip where
  "v4_prefix = replicate 10 0 @ [255, 255]"

text \<open>\<open>IP.To4\<close>; \<open>None\<close> is the nil result.\<close>

definition ip_To4 :: "ip \<Rightarrow> ip option" where
  "ip_To4 x = (if length x = 4 then Some x
     else if length x = 16 \<and> take 12 x = v4_prefix then Some (drop 12 x)
     else None)"

definition ip_Equal :: "ip \<Rightarrow> ip \<Rightarrow> bool" where
  "ip_Equal x y =
     (if length x = length y then x = y
      else if length x = 4 \<and> length y = 16 then take 12 y = v4_prefix \<and> x = drop 12 y
      else if length x = 16 \<and> length y = 4 then take 12 x = v4_prefix \<and> y = drop 12 x
      else False)"

definition hex_digit :: "nat \<Rightarrow> char" where
  "hex_digit n = (if n < 10 then digit_char n else char_of (87 + n))"

definition hex_byte :: "u8 \<Rightarrow> string" where
  "hex_byte b = [hex_digit (unat b div 16), hex_digit (unat b mod 16)]"

definition dotted :: "ip \<Rightarrow> string" where
  "dotted x = join ''.'' (map (\<lambda>b. format_dec (unat b)) x)"

definition ip_String :: "ip \<Rightarrow> string" where
  "ip_String x = (if x = [] then ''<nil>''
     else case ip_To4 x of Some y \<Rightarrow> dotted y | None \<Rightarrow> CHR ''?'' # concat (map hex_byte x))"

text \<open>
  One field of a dotted quad: one to three digits without a leading zero, at most 255.
\<close>

definition parse_octet :: "string \<Rightarrow> u8 option" where
  "parse_octet s = (if canonical_dec s \<and> digits_val s \<le> 255
     then Some (word_of_nat (digits_val s)) else None)"

definition parse_v4 :: "string \<Rightarrow> ip option" where
  "parse_v4 s = (case split_on CHR ''.'' s of
      [a, b, c, d] \<Rightarrow>
        (case (parse_octet a, parse_octet b, parse_octet c, parse_octet d) of
          (Some w, Some x, Some y, Some z) \<Rightarrow> Some [w, x, y, z]
        | _ \<Rightarrow> None)
    | _ \<Rightarrow> None)"

text \<open>\<open>net.ParseIP\<close> returns IPv4 addresses in 16-byte form.\<close>

definition ParseIP :: "string \<Rightarrow> ip option" where
  "ParseIP s = map_option (\<lambda>x. v4_prefix @ x) (parse_v4 s)"

lemma length_v4_prefix [simp]: "length v4_prefix = 12"
  by (simp add: v4_prefix_def)

lemma ip_To4_len4 [simp]: "length x = 4 \<Longrightarrow> ip_To4 x = Some x"
  by (simp add: ip_To4_def)

lemma ip_To4_mapped [simp]: "length x = 4 \<Longrightarrow> ip_To4 (v4_prefix @ x) = Some x"
  by (simp add: ip_To4_def)

lemma length_ip_To4: "ip_To4 x = Some y \<Longrightarrow> length y = 4"
  by (auto simp: ip_To4_def split: if_splits)

lemma ip_Equal_refl [simp]: "ip_Equal x x"
  by (simp add: ip_Equal_def)

lemma ip_Equal_sym: "ip_Equal x y \<longleftrightarrow> ip_Equal y x"
  by (auto simp: ip_Equal_def)

lemma ip_String_v4: "length x = 4 \<Longrightarrow> ip_String x = dotted x"
  by (auto simp: ip_String_def)

lemma v4_prefix_not_Nil [simp]: "v4_prefix \<noteq> []"
  by (simp add: v4_prefix_def)

lemma ip_String_mapped: "length x = 4 \<Longrightarrow> ip_String (v4_prefix @ x) = dotted x"
  by (simp add: ip_String_def)

lemma len4_cases:
  assumes "length x = 4"
  obtains a b c d where "x = [a, b, c, d]"
  using assms by (auto simp: numeral_eq_Suc length_Suc_conv)

lemma parse_octet_format [simp]: "parse_octet (format_dec (unat (b :: u8))) = Some b"
proof -
  have "unat b < 256" using unsigned_less [where 'a = nat, of b] by simp
  then show ?thesis
    by (simp add: parse_octet_def canonical_format_dec digits_val_format_dec)
qed

lemma dot_not_digit: "\<not> is_digit CHR ''.''"
  by (simp add: is_digit_def)

lemma split_dotted: "x \<noteq> [] \<Longrightarrow> split_on CHR ''.'' (dotted x) = map (\<lambda>b. format_dec (unat b)) x"
  unfolding dotted_def
  by (rule split_on_join) (auto simp: not_digit_not_in_format dot_not_digit)

lemma parse_v4_dotted: "length x = 4 \<Longrightarrow> parse_v4 (dotted x) = Some x"
  by (elim len4_cases) (simp add: parse_v4_def split_dotted)

lemma parse_octet_Some:
  "parse_octet s = Some b \<Longrightarrow> format_dec (unat b) = s"
  by (auto simp: parse_octet_def unat_of_nat format_dec_digits_val split: if_splits)

lemma parse_v4_Some:
  assumes "parse_v4 s = Some x"
  shows "length x = 4 \<and> dotted x = s"
proof -
  from assms obtain a b c d w1 w2 w3 w4 where
    sp: "split_on CHR ''.'' s = [a, b, c, d]" and
    oc: "parse_octet a = Some w1" "parse_octet b = Some w2" "parse_octet c = Some w3"
      "parse_octet d = Some w4" and x: "x = [w1, w2, w3, w4]"
    by (auto simp: parse_v4_def split: list.splits option.splits)
  have "dotted x = join ''.'' (split_on CHR ''.'' s)"
    using oc [THEN parse_octet_Some] by (simp add: dotted_def sp x)
  then show ?thesis by (simp add: x join_split_on)
qed

text \<open>Round trips between IPv4 addresses and their texts.\<close>

lemma ParseIP_dotted: "length x = 4 \<Longrightarrow> ParseIP (dotted x) = Some (v4_prefix @ x)"
  by (simp add: ParseIP_def parse_v4_dotted)

lemma ParseIP_Some:
  assumes "ParseIP s = Some x"
  obtains y where "length y = 4" and "x = v4_prefix @ y" and "dotted y = s"
  using assms by (auto simp: ParseIP_def dest: parse_v4_Some)

lemma ip_String_ParseIP [simp]: "ParseIP s = Some x \<Longrightarrow> ip_String x = s"
  by (auto elim!: ParseIP_Some simp: ip_String_mapped)

section \<open>Networks\<close>

record ipnet =
  net_ip :: ip
  net_mask :: "u8 list"

definition ip_and :: "ip \<Rightarrow> ip \<Rightarrow> ip" where
  "ip_and x m = map2 (AND) x m"

text \<open>\<open>IP.Mask\<close>; \<open>None\<close> is the nil result.\<close>

definition all_ff :: "u8 list \<Rightarrow> bool" where
  "all_ff m = list_all (\<lambda>b. b = 255) m"

definition ip_Mask :: "ip \<Rightarrow> u8 list \<Rightarrow> ip option" where
  "ip_Mask x m =
     (let m' = (if length m = 16 \<and> length x = 4 \<and> all_ff (take 12 m) then drop 12 m else m);
          x' = (if length m' = 4 \<and> length x = 16 \<and> take 12 x = v4_prefix then drop 12 x else x)
      in if length x' \<noteq> length m' then None else Some (ip_and x' m'))"

definition networkNumberAndMask :: "ipnet \<Rightarrow> (ip \<times> u8 list) option" where
  "networkNumberAndMask n =
     (case (case ip_To4 (net_ip n) of Some y \<Rightarrow> Some y
            | None \<Rightarrow> if length (net_ip n) = 16 then Some (net_ip n) else None) of
        None \<Rightarrow> None
      | Some y \<Rightarrow>
          if length (net_mask n) = 4 then (if length y = 4 then Some (y, net_mask n) else None)
          else if length (net_mask n) = 16 then
            (if length y = 4 then Some (y, drop 12 (net_mask n)) else Some (y, net_mask n))
          else None)"

definition ipnet_Contains :: "ipnet \<Rightarrow> ip \<Rightarrow> bool" where
  "ipnet_Contains n x =
     (let x' = (case ip_To4 x of Some y \<Rightarrow> y | None \<Rightarrow> x)
      in case networkNumberAndMask n of
           None \<Rightarrow> x' = []
         | Some (nn, m) \<Rightarrow> length x' = length nn \<and> ip_and nn m = ip_and x' m)"

definition cidr_mask_byte :: "nat \<Rightarrow> u8" where
  "cidr_mask_byte k = NOT (drop_bit k 255)"

text \<open>\<open>CIDRMask\<close> for \<open>n\<close> bytes.\<close>

fun cidr_mask :: "nat \<Rightarrow> nat \<Rightarrow> u8 list" where
  "cidr_mask ones 0 = []"
| "cidr_mask ones (Suc n) = cidr_mask_byte (min ones 8) # cidr_mask (ones - 8) n"

fun leading_ones :: "nat \<Rightarrow> u8 \<Rightarrow> nat \<times> u8" where
  "leading_ones 0 v = (0, v)"
| "leading_ones (Suc k) v =
     (if bit v 7 then (let (n, r) = leading_ones k (push_bit 1 v) in (Suc n, r)) else (0, v))"

text \<open>\<open>simpleMaskLength\<close>; \<open>None\<close> is the result -1.\<close>

fun simpleMaskLength :: "u8 list \<Rightarrow> nat option" where
  "simpleMaskLength [] = Some 0"
| "simpleMaskLength (v # m) =
     (if v = 255 then map_option ((+) 8) (simpleMaskLength m)
      else (case leading_ones 8 v of (n, r) \<Rightarrow>
        if r \<noteq> 0 then None else if list_all (\<lambda>b. b = 0) m then Some n else None))"

text \<open>\<open>IPMask.Size\<close> returns the number of leading ones and the length in bits.\<close>

definition mask_Size :: "u8 list \<Rightarrow> nat \<times> nat" where
  "mask_Size m = (case simpleMaskLength m of None \<Rightarrow> (0, 0) | Some n \<Rightarrow> (n, length m * 8))"

definition ipnet_String :: "ipnet \<Rightarrow> string" where
  "ipnet_String n = (case networkNumberAndMask n of
      None \<Rightarrow> ''<nil>''
    | Some (nn, m) \<Rightarrow>
        (case simpleMaskLength m of
          None \<Rightarrow> ip_String nn @ ''/'' @ concat (map hex_byte m)
        | Some l \<Rightarrow> ip_String nn @ ''/'' @ format_dec l))"

text \<open>\<open>net.ParseCIDR\<close> on IPv4 texts: the address (16 bytes) and the masked network.\<close>

definition ParseCIDR :: "string \<Rightarrow> (ip \<times> ipnet) option" where
  "ParseCIDR s = (if CHR ''/'' \<notin> set s then None
     else let a = takeWhile (\<lambda>c. c \<noteq> CHR ''/'') s; l = tl (dropWhile (\<lambda>c. c \<noteq> CHR ''/'') s)
     in case (parse_v4 a, parse_dec l) of
          (Some x, Some n) \<Rightarrow>
            if n \<le> 32
            then Some (v4_prefix @ x, \<lparr>net_ip = ip_and x (cidr_mask n 4), net_mask = cidr_mask n 4\<rparr>)
            else None
        | _ \<Rightarrow> None)"

section \<open>Addresses as numbers\<close>

text \<open>The big-endian value of a byte list, and its inverse for a fixed length.\<close>

fun ip_val :: "ip \<Rightarrow> nat" where
  "ip_val [] = 0"
| "ip_val (b # bs) = unat b * 256 ^ length bs + ip_val bs"

fun ip_of :: "nat \<Rightarrow> nat \<Rightarrow> ip" where
  "ip_of 0 v = []"
| "ip_of (Suc n) v = word_of_nat (v div 256 ^ n) # ip_of n (v mod 256 ^ n)"

lemma length_ip_of [simp]: "length (ip_of n v) = n"
  by (induction n arbitrary: v) auto

lemma unat_u8_less: "unat (b :: u8) < 256"
  using unsigned_less [where 'a = nat, of b] by simp

lemma ip_val_less: "ip_val x < 256 ^ length x"
proof (induction x)
  case (Cons b bs)
  have "unat b * 256 ^ length bs + ip_val bs < (unat b + 1) * 256 ^ length bs"
    using Cons by simp
  also have "\<dots> \<le> 256 * 256 ^ length bs"
    using unat_u8_less [of b] by (intro mult_right_mono) auto
  finally show ?case by simp
qed simp

lemma ip_val_ip_of: "v < 256 ^ n \<Longrightarrow> ip_val (ip_of n v) = v"
proof (induction n arbitrary: v)
  case (Suc n)
  have d: "v div 256 ^ n < 256"
    using Suc.prems by (simp add: less_mult_imp_div_less mult.commute)
  then have "unat (word_of_nat (v div 256 ^ n) :: u8) = v div 256 ^ n"
    by (simp add: unat_of_nat)
  with Suc.IH [of "v mod 256 ^ n"] show ?case by (simp add: div_mult_mod_eq)
qed simp

lemma ip_of_ip_val: "ip_of (length x) (ip_val x) = x"
proof (induction x)
  case (Cons b bs)
  have "(unat b * 256 ^ length bs + ip_val bs) div 256 ^ length bs = unat b"
    using ip_val_less [of bs] by simp
  moreover have "(unat b * 256 ^ length bs + ip_val bs) mod 256 ^ length bs = ip_val bs"
    using ip_val_less [of bs] by simp
  ultimately show ?case using Cons by simp
qed simp

lemma ip_val_inject: "length x = length y \<Longrightarrow> ip_val x = ip_val y \<longleftrightarrow> x = y"
  by (metis ip_of_ip_val)

lemma ip_val_append: "ip_val (x @ y) = ip_val x * 256 ^ length y + ip_val y"
  by (induction x) (simp_all add: power_add algebra_simps)

text \<open>Masking with a CIDR mask compares the leading bits of the values.\<close>

lemma and_not_mask_eq_iff:
  "x AND NOT (mask j) = y AND NOT (mask j) \<longleftrightarrow> drop_bit j x = drop_bit j (y :: 'a::len word)"
proof
  assume eq: "x AND NOT (mask j) = y AND NOT (mask j)"
  show "drop_bit j x = drop_bit j y"
  proof (rule bit_word_eqI)
    fix n assume "n < LENGTH('a)"
    from eq have "bit (x AND NOT (mask j)) (j + n) = bit (y AND NOT (mask j)) (j + n)" by simp
    then show "bit (drop_bit j x) n = bit (drop_bit j y) n"
      by (auto simp: bit_simps dest: bit_imp_le_length)
  qed
next
  assume eq: "drop_bit j x = drop_bit j y"
  show "x AND NOT (mask j) = y AND NOT (mask j)"
  proof (rule bit_word_eqI)
    fix n assume "n < LENGTH('a)"
    have "bit (drop_bit j x) (n - j) = bit (drop_bit j y) (n - j)" by (simp add: eq)
    then show "bit (x AND NOT (mask j)) n = bit (y AND NOT (mask j)) n"
      by (auto simp: bit_simps)
  qed
qed

lemma cidr_mask_byte_eq: "k \<le> 8 \<Longrightarrow> cidr_mask_byte k = NOT (mask (8 - k))"
proof -
  assume k: "k \<le> 8"
  have "drop_bit k (mask 8 :: u8) = mask (8 - k)"
    using k by (auto intro!: bit_word_eqI simp: bit_simps)
  moreover have "(mask 8 :: u8) = 255" by (simp add: mask_eq_exp_minus_1)
  ultimately show ?thesis by (simp add: cidr_mask_byte_def)
qed

lemma unat_div_drop: "unat x div 2 ^ j = unat (drop_bit j (x :: 'a::len word))"
  by (simp only: unat_drop_bit_eq) (simp add: drop_bit_eq_div)

lemma unsigned_word_eqI_iff: "unat x = unat y \<longleftrightarrow> x = (y :: 'a::len word)"
  by (simp add: word_unat_eq_iff)

lemma and_cidr_mask_byte:
  "k \<le> 8 \<Longrightarrow> x AND cidr_mask_byte k = y AND cidr_mask_byte k \<longleftrightarrow>
     unat x div 2 ^ (8 - k) = unat y div 2 ^ (8 - k)"
  by (simp add: cidr_mask_byte_eq and_not_mask_eq_iff unat_div_drop unsigned_word_eqI_iff)

lemma length_cidr_mask [simp]: "length (cidr_mask p n) = n"
  by (induction p n rule: cidr_mask.induct) auto

lemma cidr_mask_zero: "cidr_mask 0 n = replicate n 0"
  by (induction n) (auto simp: cidr_mask_byte_def)

lemma ip_and_zero: "length x = n \<Longrightarrow> ip_and x (replicate n 0) = replicate n 0"
  by (induction x arbitrary: n) (auto simp: ip_and_def)

lemma pair_div_eq_iff:
  fixes a b c d k :: nat
  assumes "c < k" "d < k"
  shows "a * k + c = b * k + d \<longleftrightarrow> a = b \<and> c = d"
proof
  assume eq: "a * k + c = b * k + d"
  have "(a * k + c) div k = a" "(b * k + d) div k = b"
    using assms by auto
  with eq show "a = b \<and> c = d" by simp
qed simp

lemma ip_and_cidr_mask_eq_iff:
  "length x = n \<Longrightarrow> length y = n \<Longrightarrow> p \<le> 8 * n \<Longrightarrow>
   ip_and x (cidr_mask p n) = ip_and y (cidr_mask p n) \<longleftrightarrow>
   ip_val x div 2 ^ (8 * n - p) = ip_val y div 2 ^ (8 * n - p)"
proof (induction p n arbitrary: x y rule: cidr_mask.induct)
  case (2 p n)
  then obtain a xs b ys where [simp]: "x = a # xs" "y = b # ys"
    by (metis length_Suc_conv)
  have len [simp]: "length xs = n" "length ys = n" using "2.prems" by auto
  have bound: "ip_val xs < 2 ^ (8 * n)" "ip_val ys < 2 ^ (8 * n)"
    using ip_val_less [of xs] ip_val_less [of ys] by (simp_all add: power_mult)
  have pw: "(256 :: nat) ^ n = 2 ^ (8 * n)" by (simp add: power_mult)
  show ?case
  proof (cases "8 \<le> p")
    case True
    define q where "q = p - 8"
    define r where "r = 8 * n - q"
    have q: "q \<le> 8 * n" and sum: "8 * n = q + r" and sh: "8 + 8 * n - p = r"
      using True "2.prems" by (auto simp: q_def r_def)
    have div: "(c * 256 ^ n + v) div 2 ^ r = c * 2 ^ q + v div 2 ^ r" for c v :: nat
      by (simp add: pw sum power_add mult.assoc [symmetric])
    have small: "v div 2 ^ r < 2 ^ q" if "v < 2 ^ (8 * n)" for v :: nat
      using that by (simp add: sum power_add less_mult_imp_div_less)
    have IH: "ip_and xs (cidr_mask q n) = ip_and ys (cidr_mask q n) \<longleftrightarrow>
        ip_val xs div 2 ^ r = ip_val ys div 2 ^ r"
      using "2.IH" [of xs ys] q by (simp add: q_def r_def)
    have "min p 8 = 8" using True by simp
    then show ?thesis
      using IH bound small
      by (simp add: ip_and_def and_cidr_mask_byte sh div pair_div_eq_iff q_def [symmetric])
  next
    case False
    define d where "d = 8 - p"
    have sh: "8 + 8 * n - p = 8 * n + d" using False by (simp add: d_def)
    have div: "(c * 256 ^ n + v) div 2 ^ (8 * n + d) = c div 2 ^ d"
      if "v < 2 ^ (8 * n)" for c v :: nat
      using that by (simp add: pw power_add div_mult2_eq)
    have "p - 8 = 0" and "min p 8 = p" using False by auto
    then show ?thesis
      using False bound
      by (simp add: ip_and_def and_cidr_mask_byte sh div cidr_mask_zero
          ip_and_zero [unfolded ip_and_def] d_def [symmetric])
  qed
qed simp

text \<open>An IPv4 network with its host bits cleared, as \<open>ParseCIDR\<close> returns it.\<close>

definition v4net :: "nat \<Rightarrow> nat \<Rightarrow> ipnet" where
  "v4net base p = \<lparr>net_ip = ip_of 4 base, net_mask = cidr_mask p 4\<rparr>"

lemma Contains_v4net:
  assumes "length x = 4" and "p \<le> 32" and "base < 2 ^ 32"
  shows "ipnet_Contains (v4net base p) x \<longleftrightarrow> ip_val x div 2 ^ (32 - p) = base div 2 ^ (32 - p)"
proof -
  have "networkNumberAndMask (v4net base p) = Some (ip_of 4 base, cidr_mask p 4)"
    by (simp add: networkNumberAndMask_def v4net_def)
  then have "ipnet_Contains (v4net base p) x \<longleftrightarrow>
      ip_and (ip_of 4 base) (cidr_mask p 4) = ip_and x (cidr_mask p 4)"
    using assms by (simp add: ipnet_Contains_def)
  also have "\<dots> \<longleftrightarrow> ip_val (ip_of 4 base) div 2 ^ (32 - p) = ip_val x div 2 ^ (32 - p)"
    using assms ip_and_cidr_mask_eq_iff [of "ip_of 4 base" 4 x p] by simp
  finally show ?thesis
    using assms by (auto simp: ip_val_ip_of)
qed

lemma Contains_To4: "ip_To4 x = Some y \<Longrightarrow> ipnet_Contains n x = ipnet_Contains n y"
  by (auto simp: ipnet_Contains_def dest: length_ip_To4 split: option.splits)

lemma slash_not_in_dotted: "CHR ''/'' \<notin> set (dotted x)" and dash_not_in_dotted: "CHR ''-'' \<notin> set (dotted x)"
proof -
  have "c \<notin> set (dotted x)" if "\<not> is_digit c" "c \<noteq> CHR ''.''" for c
    using set_join_chars [of "''.''" "map (\<lambda>b. format_dec (unat b)) x"] that
    by (auto simp: dotted_def dest: not_digit_not_in_format)
  then show "CHR ''/'' \<notin> set (dotted x)" "CHR ''-'' \<notin> set (dotted x)" by (auto simp: is_digit_def)
qed

lemma ParseCIDR_dotted:
  assumes "length x = 4" and "k \<le> 32"
  shows "ParseCIDR (dotted x @ ''/'' @ format_dec k) =
    Some (v4_prefix @ x, \<lparr>net_ip = ip_and x (cidr_mask k 4), net_mask = cidr_mask k 4\<rparr>)"
proof -
  let ?s = "dotted x @ ''/'' @ format_dec k"
  have "takeWhile (\<lambda>c. c \<noteq> CHR ''/'') ?s = dotted x" "dropWhile (\<lambda>c. c \<noteq> CHR ''/'') ?s = ''/'' @ format_dec k"
    using slash_not_in_dotted [of x] by (auto simp: takeWhile_append dropWhile_append)
  then show ?thesis using assms by (simp add: ParseCIDR_def Let_def parse_v4_dotted)
qed

end
