(* ===== verification/Ipam_Util.thy ===== *)
theory Ipam_Util
  imports Net
begin

text \<open>
  \<open>plugin/pkg/ipam/util.go\<close>: splitting the address space into pool subnets, enumerating the
  addresses of a subnet, and choosing the next free address.  \<open>cidr.Subnet\<close> of the package
  go-cidr is a parameter (\<open>cidr_Subnet\<close>) with its documented behaviour on IPv4 networks as the
  hypothesis \<open>cidr_contract\<close>.
\<close>

section \<open>Allocations\<close>

text \<open>
  \<open>Allocation\<close> of \<open>pool.go\<close>.  A \<open>time.Time\<close> is its instant in nanoseconds; the zero time is 0.
  A nil address is the empty list.
\<close>

record Allocation =
  a_ip :: ip
  allocationType :: string
  allocatedAt :: int
  dataKey :: string
  data :: string

section \<open>Subnets of the address space\<close>

text \<open>\<open>1 << uint(d)\<close> on a 64-bit int, as a number of loop iterations.\<close>

definition numSubnets :: "int \<Rightarrow> nat" where
  "numSubnets d = (if 0 \<le> d \<and> d < 63 then 2 ^ nat d else 0)"

fun subnets_of :: "(ipnet \<Rightarrow> int \<Rightarrow> nat \<Rightarrow> ipnet result) \<Rightarrow> ipnet \<Rightarrow> int \<Rightarrow> nat list \<Rightarrow> ipnet list result"
where
  "subnets_of cidr_Subnet n d [] = Inr []"
| "subnets_of cidr_Subnet n d (i # is) =
     (case cidr_Subnet n d i of
        Inl e \<Rightarrow> Inl e
      | Inr s \<Rightarrow> (case subnets_of cidr_Subnet n d is of Inl e \<Rightarrow> Inl e | Inr ss \<Rightarrow> Inr (s # ss)))"

fun generateAllSubnets ::
  "(ipnet \<Rightarrow> int \<Rightarrow> nat \<Rightarrow> ipnet result) \<Rightarrow> ipnet list \<Rightarrow> int \<Rightarrow> ipnet list result"
where
  "generateAllSubnets cidr_Subnet [] poolSize = Inr []"
| "generateAllSubnets cidr_Subnet (n # ns) poolSize =
     (let d = poolSize - int (fst (mask_Size (net_mask n))) in
      case subnets_of cidr_Subnet n d [0..<numSubnets d] of
        Inl e \<Rightarrow> Inl e
      | Inr ss \<Rightarrow>
          (case generateAllSubnets cidr_Subnet ns poolSize of
             Inl e \<Rightarrow> Inl e
           | Inr rest \<Rightarrow> Inr (ss @ rest)))"

text \<open>
  \<open>cidr.Subnet(base, newBits, num)\<close>: the subnet number \<open>num\<close> of \<open>base\<close> with \<open>newBits\<close>
  further prefix bits.
\<close>

definition cidr_contract :: "(ipnet \<Rightarrow> int \<Rightarrow> nat \<Rightarrow> ipnet result) \<Rightarrow> bool" where
  "cidr_contract cidr_Subnet \<longleftrightarrow>
     (\<forall>base p d i. base < 2 ^ 32 \<and> base mod 2 ^ (32 - p) = 0 \<and> p + d \<le> 32 \<and> i < 2 ^ d \<longrightarrow>
        cidr_Subnet (v4net base p) (int d) i = Inr (v4net (base + i * 2 ^ (32 - (p + d))) (p + d)))"

section \<open>Walking a subnet\<close>

fun inc_le :: "ip \<Rightarrow> ip" where
  "inc_le [] = []"
| "inc_le (b # bs) = (if b + 1 \<noteq> 0 then (b + 1) # bs else (b + 1) # inc_le bs)"

text \<open>\<open>nextIP\<close>: the loop runs from the last byte to the first.\<close>

definition nextIP :: "ip \<Rightarrow> ip" where
  "nextIP x = rev (inc_le (rev x))"

text \<open>\<open>getBroadcastIP\<close>; \<open>None\<close> is the index panic on a mask shorter than the address.\<close>

definition getBroadcastIP :: "ipnet \<Rightarrow> ip option" where
  "getBroadcastIP n =
     (if length (net_mask n) < length (net_ip n) then None
      else Some (map2 (\<lambda>b m. b OR NOT m) (net_ip n) (net_mask n)))"

text \<open>
  The loop of \<open>ipsInSubnet\<close>: it ends when the next address leaves the subnet.  \<open>None\<close> is a loop
  that never ends.
\<close>

partial_function (option) ips_loop ::
  "ipnet \<Rightarrow> bool \<Rightarrow> bool \<Rightarrow> ip \<Rightarrow> ip \<Rightarrow> ip \<Rightarrow> ip list \<Rightarrow> ip list option"
where
  "ips_loop n excludeGateway excludeBroadcast gatewayIP broadcastIP x ips =
     (if \<not> ipnet_Contains n (nextIP x) then Some ips
      else if ip_Equal (nextIP x) (net_ip n)
           \<or> (excludeGateway \<and> ip_Equal (nextIP x) gatewayIP)
           \<or> (excludeBroadcast \<and> ip_Equal (nextIP x) broadcastIP)
      then ips_loop n excludeGateway excludeBroadcast gatewayIP broadcastIP (nextIP x) ips
      else ips_loop n excludeGateway excludeBroadcast gatewayIP broadcastIP (nextIP x)
             (ips @ [nextIP x]))"

definition ipsInSubnet :: "ipnet \<Rightarrow> bool \<Rightarrow> bool \<Rightarrow> ip list option" where
  "ipsInSubnet n excludeGateway excludeBroadcast =
     (case getBroadcastIP n of
        None \<Rightarrow> None
      | Some broadcastIP \<Rightarrow>
          ips_loop n excludeGateway excludeBroadcast (nextIP (net_ip n)) broadcastIP
            (case ip_Mask (net_ip n) (net_mask n) of None \<Rightarrow> [] | Some x \<Rightarrow> x) [])"

section \<open>Choosing the next address\<close>

definition ipToInt :: "ip \<Rightarrow> u32 result" where
  "ipToInt x = (case ip_To4 x of
      Some [a, b, c, d] \<Rightarrow>
        Inr (push_bit 24 (ucast a) OR push_bit 16 (ucast b) OR push_bit 8 (ucast c) OR ucast d)
    | _ \<Rightarrow> Inl InvalidIPv4)"

fun last_reserved :: "Allocation list \<Rightarrow> Allocation option \<Rightarrow> Allocation option" where
  "last_reserved [] acc = acc"
| "last_reserved (r # rs) acc =
     (case acc of
        None \<Rightarrow> last_reserved rs (Some r)
      | Some l \<Rightarrow> last_reserved rs (if allocatedAt r > allocatedAt l then Some r else Some l))"

definition getLastReservedIP :: "(string, Allocation) gomap \<Rightarrow> ip result" where
  "getLastReservedIP reservations =
     (case last_reserved (map_vals reservations) None of
        None \<Rightarrow> Inl NoReservations
      | Some l \<Rightarrow> Inr (a_ip l))"

text \<open>The comparison function of \<open>sortIPs\<close>; \<open>sort.Slice\<close> as an insertion sort with it.\<close>

definition ip_less :: "ip \<Rightarrow> ip \<Rightarrow> bool" where
  "ip_less x y = (case (ip_To4 x, ip_To4 y) of
      (None, _) \<Rightarrow> False
    | (Some _, None) \<Rightarrow> True
    | (Some a, Some b) \<Rightarrow>
        (case (ipToInt a, ipToInt b) of (Inr i, Inr j) \<Rightarrow> i < j | _ \<Rightarrow> False))"

fun insert_by :: "('a \<Rightarrow> 'a \<Rightarrow> bool) \<Rightarrow> 'a \<Rightarrow> 'a list \<Rightarrow> 'a list" where
  "insert_by lt x [] = [x]"
| "insert_by lt x (y # ys) = (if lt y x then y # insert_by lt x ys else x # y # ys)"

definition sort_slice :: "('a \<Rightarrow> 'a \<Rightarrow> bool) \<Rightarrow> 'a list \<Rightarrow> 'a list" where
  "sort_slice lt xs = foldr (insert_by lt) xs []"

definition sortIPs :: "ip list \<Rightarrow> ip list" where
  "sortIPs ips = sort_slice ip_less ips"

fun first_above :: "u32 \<Rightarrow> ip list \<Rightarrow> ip option" where
  "first_above l [] = None"
| "first_above l (x # xs) =
     (if x = [] then first_above l xs
      else case ipToInt x of
        Inl _ \<Rightarrow> first_above l xs
      | Inr i \<Rightarrow> if i > l then Some x else first_above l xs)"

definition getNextAvailableIP :: "ip list \<Rightarrow> (string, Allocation) gomap \<Rightarrow> ip result" where
  "getNextAvailableIP availableUnusedIPs reservedIPs =
     (if availableUnusedIPs = [] then Inl NoUnusedIPs
      else case getLastReservedIP reservedIPs of
        Inl _ \<Rightarrow> Inr (hd (sortIPs availableUnusedIPs))
      | Inr lastReservedIP \<Rightarrow>
          (case ipToInt lastReservedIP of
             Inl e \<Rightarrow> Inl e
           | Inr l \<Rightarrow>
               (case first_above l (sortIPs availableUnusedIPs) of
                  Some x \<Rightarrow> Inr x
                | None \<Rightarrow> Inr (hd (sortIPs availableUnusedIPs)))))"

section \<open>Lemmas: the walk\<close>

lemma length_inc_le [simp]: "length (inc_le x) = length x"
  by (induction x) auto

lemma length_nextIP [simp]: "length (nextIP x) = length x"
  by (simp add: nextIP_def)

lemma unat_u8_inc: "b + 1 \<noteq> (0 :: u8) \<Longrightarrow> unat (b + 1) = unat b + 1"
  using unatSuc [of b] by (simp add: add.commute)

lemma u8_inc_zero: "b + 1 = (0 :: u8) \<Longrightarrow> unat b = 255"
proof -
  assume "b + 1 = (0 :: u8)"
  then have "b = 255" by (simp add: eq_neg_iff_add_eq_0 [symmetric])
  then show ?thesis by simp
qed

lemma ip_val_rev_inc_le:
  "ip_val (rev (inc_le x)) = (ip_val (rev x) + 1) mod 256 ^ length x"
proof (induction x)
  case (Cons b bs)
  let ?v = "ip_val (rev bs)" and ?m = "(256 :: nat) ^ length bs"
  have v: "?v < ?m" using ip_val_less [of "rev bs"] by simp
  show ?case
  proof (cases "b + 1 = 0")
    case False
    have "unat b + 1 < 256" using False unat_u8_inc [OF False] unat_u8_less [of "b + 1"] by simp
    then have "?v * 256 + unat b + 1 < ?m * 256" using v by simp
    with False show ?thesis by (simp add: ip_val_append unat_u8_inc mult.commute)
  next
    case True
    have "(?v * 256 + 256) mod (256 * ?m) = 256 * ((?v + 1) mod ?m)"
      by (simp add: mult_mod_right algebra_simps)
    with True Cons show ?thesis
      by (simp add: ip_val_append u8_inc_zero mult.commute add.commute)
  qed
qed simp

lemma ip_val_nextIP: "ip_val (nextIP x) = (ip_val x + 1) mod 256 ^ length x"
  using ip_val_rev_inc_le [of "rev x"] by (simp add: nextIP_def)

lemma or_mask_nat: "(x :: nat) OR mask j = x div 2 ^ j * 2 ^ j + (2 ^ j - 1)"
proof -
  have "x OR mask j = push_bit j (drop_bit j (x OR mask j)) + take_bit j (x OR mask j)"
    by (rule bits_ident [symmetric])
  also have "drop_bit j (x OR mask j) = drop_bit j x"
    by (auto intro!: bit_eqI simp: bit_simps)
  also have "take_bit j (x OR mask j) = mask j"
    by (auto intro!: bit_eqI simp: bit_simps)
  finally show ?thesis
    by (simp add: push_bit_eq_mult drop_bit_eq_div mask_eq_exp_minus_1)
qed

lemma unat_or_mask_u8: "j \<le> 8 \<Longrightarrow> unat ((b :: u8) OR mask j) = unat b div 2 ^ j * 2 ^ j + (2 ^ j - 1)"
proof -
  assume j: "j \<le> 8"
  have "unat (mask j :: u8) = mask j"
    using j by (auto intro!: bit_eqI simp: bit_simps)
  then show ?thesis by (simp add: unsigned_or_eq or_mask_nat)
qed

lemma carry_arith:
  fixes A D N :: nat
  assumes "0 < D" and "0 < N"
  shows "(A * D + (D - 1)) * N + (N - 1) = A * (N * D) + (N * D - 1)"
  using assms by (cases D; cases N) (auto simp: algebra_simps)

lemma ip_val_replicate_255: "ip_val (replicate n 255) = 256 ^ n - 1"
proof (induction n)
  case (Suc n)
  have "unat (255 :: u8) = 255" by simp
  moreover have "(1 :: nat) \<le> 256 ^ n" by simp
  ultimately show ?case using Suc by (simp del: unsigned_numeral) 
qed simp

lemma ip_val_broadcast:
  "length x = n \<Longrightarrow> p \<le> 8 * n \<Longrightarrow>
   ip_val (map2 (\<lambda>b m. b OR NOT m) x (cidr_mask p n)) =
     ip_val x div 2 ^ (8 * n - p) * 2 ^ (8 * n - p) + (2 ^ (8 * n - p) - 1)"
proof (induction p n arbitrary: x rule: cidr_mask.induct)
  case (2 p n)
  then obtain a xs where [simp]: "x = a # xs" and len [simp]: "length xs = n"
    by (metis length_Suc_conv)
  have v: "ip_val xs < 2 ^ (8 * n)"
    using ip_val_less [of xs] by (simp add: power_mult)
  have pw: "(256 :: nat) ^ n = 2 ^ (8 * n)" by (simp add: power_mult)
  have not_byte: "NOT (cidr_mask_byte k) = mask (8 - k)" if "k \<le> 8" for k
    using that by (simp add: cidr_mask_byte_eq)
  show ?case
  proof (cases "8 \<le> p")
    case True
    define q where "q = p - 8"
    define r where "r = 8 * n - q"
    have q: "q \<le> 8 * n" and sum: "8 * n = q + r" and sh: "8 + 8 * n - p = r"
      using True "2.prems" by (auto simp: q_def r_def)
    have div: "(unat a * 2 ^ (8 * n) + ip_val xs) div 2 ^ r = unat a * 2 ^ q + ip_val xs div 2 ^ r"
      by (simp add: sum power_add mult.assoc [symmetric])
    have e: "2 ^ q * 2 ^ r = (2 :: nat) ^ (8 * n)" by (simp add: sum power_add)
    have "unat (a OR mask 0) = unat a" by simp
    moreover have "min p 8 = 8" using True by simp
    moreover have one: "(1 :: nat) \<le> 2 ^ r" by simp
    ultimately show ?thesis
      using "2.IH" [of xs] q not_byte [of 8]
      by (simp add: q_def [symmetric] r_def [symmetric] sh pw div add_mult_distrib mult.assoc e;
          use one in linarith)
  next
    case False
    define d where "d = 8 - p"
    have sh: "8 + 8 * n - p = 8 * n + d" using False by (simp add: d_def)
    have div: "(unat a * 2 ^ (8 * n) + ip_val xs) div 2 ^ (8 * n + d) = unat a div 2 ^ d"
      using v by (simp add: power_add div_mult2_eq)
    have "p - 8 = 0" "min p 8 = p" using False by auto
    moreover have "ip_val (map2 (\<lambda>b m. b OR NOT m) xs (replicate n 0)) = 2 ^ (8 * n) - 1"
    proof -
      have "map2 (\<lambda>b m. b OR NOT m) xs (replicate n 0) = replicate n 255"
        using len by (induction xs arbitrary: n) auto
      then show ?thesis by (simp add: pw ip_val_replicate_255)
    qed
    moreover have "unat (a OR mask d) = unat a div 2 ^ d * 2 ^ d + (2 ^ d - 1)"
      by (rule unat_or_mask_u8) (simp add: d_def)
    moreover have "NOT (cidr_mask_byte p) = mask d"
      using not_byte [of p] False by (simp add: d_def)
    ultimately have "ip_val (map2 (\<lambda>b m. b OR NOT m) x (cidr_mask p (Suc n))) =
        (unat a div 2 ^ d * 2 ^ d + (2 ^ d - 1)) * 2 ^ (8 * n) + (2 ^ (8 * n) - 1)"
      by (simp add: pw cidr_mask_zero)
    also have "\<dots> = unat a div 2 ^ d * 2 ^ (8 * n + d) + (2 ^ (8 * n + d) - 1)"
      using carry_arith [of "2 ^ d" "2 ^ (8 * n)"] by (simp add: power_add)
    finally show ?thesis using sh div pw by simp
  qed
qed simp

lemma getBroadcastIP_v4net:
  assumes "base < 2 ^ 32" and "p \<le> 32" and "base mod 2 ^ (32 - p) = 0"
  shows "getBroadcastIP (v4net base p) = Some (ip_of 4 (base + (2 ^ (32 - p) - 1)))"
proof -
  let ?b = "map2 (\<lambda>b m. b OR NOT m) (ip_of 4 base) (cidr_mask p 4)"
  have "ip_val ?b = base div 2 ^ (32 - p) * 2 ^ (32 - p) + (2 ^ (32 - p) - 1)"
    using ip_val_broadcast [of "ip_of 4 base" 4 p] assms by (simp add: ip_val_ip_of)
  also have "base div 2 ^ (32 - p) * 2 ^ (32 - p) = base"
    using assms(3) by (simp add: mod_0_imp_dvd)
  finally have "ip_val ?b = base + (2 ^ (32 - p) - 1)" .
  then have "?b = ip_of 4 (base + (2 ^ (32 - p) - 1))"
    using ip_of_ip_val [of ?b] by simp
  then show ?thesis by (simp add: getBroadcastIP_def v4net_def)
qed

text \<open>The hosts of a block of \<open>2 ^ k\<close> addresses lie below the top of the address range.\<close>

lemma block_top:
  assumes "base < 2 ^ 32" and "k \<le> 32" and "base mod 2 ^ k = 0"
  shows "base + 2 ^ k \<le> (2 :: nat) ^ 32"
proof -
  obtain q where q: "base = 2 ^ k * q" using assms(3) by auto
  have e: "(2 :: nat) ^ 32 = 2 ^ k * 2 ^ (32 - k)"
    using assms(2) by (simp add: power_add [symmetric])
  have "2 ^ k * q < 2 ^ k * (2 :: nat) ^ (32 - k)"
    using assms(1) by (simp only: q e)
  then have "q < 2 ^ (32 - k)" by (simp only: mult_less_cancel1)
  then have "2 ^ k * (q + 1) \<le> (2 :: nat) ^ k * 2 ^ (32 - k)" by (intro mult_left_mono) auto
  with e q show ?thesis by simp
qed

lemma Contains_next_iff:
  assumes "base < 2 ^ 32" "1 \<le> p" "p \<le> 32" "base mod 2 ^ (32 - p) = 0"
    and x: "length x = 4" "ip_val x = base + i" "i < 2 ^ (32 - p)"
  shows "ipnet_Contains (v4net base p) (nextIP x) \<longleftrightarrow> i + 1 < 2 ^ (32 - p)"
proof -
  let ?K = "2 ^ (32 - p) :: nat"
  have top: "base + ?K \<le> 2 ^ 32" using assms by (intro block_top) auto
  have nv: "ip_val (nextIP x) = (base + i + 1) mod 2 ^ 32"
    using x by (simp add: ip_val_nextIP)
  have C: "ipnet_Contains (v4net base p) (nextIP x) \<longleftrightarrow> ip_val (nextIP x) div ?K = base div ?K"
    using assms by (intro Contains_v4net) auto
  obtain q where q: "base = ?K * q" using assms(4) by auto
  show ?thesis
  proof (cases "i + 1 < ?K")
    case True
    then have "ip_val (nextIP x) = base + (i + 1)" using nv top by simp
    moreover have "(i + 1 + ?K * q) div ?K = q + (i + 1) div ?K"
      by (rule div_mult_self2) simp
    then have "(base + (i + 1)) div ?K = base div ?K"
      using True q by (simp add: add.commute)
    ultimately show ?thesis using C True by simp
  next
    case False
    then have i1: "i + 1 = ?K" using x(3) by simp
    show ?thesis
    proof (cases "base + ?K = 2 ^ 32")
      case True
      have "base + i + 1 = 2 ^ 32" using i1 True by linarith
      then have "ip_val (nextIP x) = 0" using nv by simp
      moreover have "?K \<le> 2 ^ 31" using \<open>1 \<le> p\<close> by (intro power_increasing) auto
      then have "?K \<le> base" using True by simp
      then have "base div ?K \<noteq> 0" by (simp add: div_eq_0_iff)
      ultimately show ?thesis using C False by simp
    next
      case neq: False
      have "base + i + 1 = base + ?K" and "base + i + 1 < 2 ^ 32" using i1 top neq by linarith+
      then have "ip_val (nextIP x) = base + ?K" using nv by (simp only: mod_less)
      moreover have "(base + ?K) div ?K = base div ?K + 1" by (rule div_add_self2) simp
      ultimately show ?thesis using C False by simp
    qed
  qed
qed

lemma pow_256_4: "(256 :: nat) ^ 4 = 2 ^ 32"
  by simp

lemma ip_of_4_eq_iff: "a < 2 ^ 32 \<Longrightarrow> b < 2 ^ 32 \<Longrightarrow> ip_of 4 a = ip_of 4 b \<longleftrightarrow> a = b"
  using ip_val_ip_of [of a 4] ip_val_ip_of [of b 4] by (metis pow_256_4)

lemma ip_Equal_ip_of_4:
  "a < 2 ^ 32 \<Longrightarrow> b < 2 ^ 32 \<Longrightarrow> ip_Equal (ip_of 4 a) (ip_of 4 b) \<longleftrightarrow> a = b"
  by (simp add: ip_Equal_def ip_of_4_eq_iff)

lemma nextIP_ip_of_4: "a + 1 < 2 ^ 32 \<Longrightarrow> nextIP (ip_of 4 a) = ip_of 4 (a + 1)"
proof -
  assume a: "a + 1 < 2 ^ 32"
  then have "ip_val (ip_of 4 a) = a" using ip_val_ip_of [of a 4] by (simp only: pow_256_4)
  then have "ip_val (nextIP (ip_of 4 a)) = a + 1"
    using a by (simp only: ip_val_nextIP length_ip_of pow_256_4 mod_less)
  then show ?thesis using ip_of_ip_val [of "nextIP (ip_of 4 a)"] by (simp only: length_nextIP length_ip_of)
qed

lemma unat_or_not_u8: "unat ((b :: u8) OR NOT m) = unat (b AND m) + unat (NOT m)"
proof -
  have "unat (b AND m) + unat (NOT m) = unat (b AND m) OR unat (NOT m)"
  proof (rule disjunctive_add)
    fix n show "\<not> bit (unat (b AND m)) n \<or> \<not> bit (unat (NOT m)) n"
      by (auto simp: bit_simps)
  qed
  also have "\<dots> = unat ((b AND m) OR NOT m)" by (simp only: unsigned_or_eq)
  also have "(b AND m) OR NOT m = b OR NOT m"
    by (auto intro!: bit_word_eqI simp: bit_simps)
  finally show ?thesis by simp
qed

lemma ip_val_or_not:
  "length x = length m \<Longrightarrow>
   ip_val (map2 (\<lambda>b m. b OR NOT m) x m) = ip_val (ip_and x m) + ip_val (map NOT m)"
  by (induction x m rule: list_induct2) (simp_all add: ip_and_def unat_or_not_u8 algebra_simps)

lemma ip_val_zeros: "ip_val (replicate n 0) = 0"
  by (induction n) auto

lemma ip_val_and_cidr_mask:
  assumes "length x = n" and "p \<le> 8 * n"
  shows "ip_val (ip_and x (cidr_mask p n)) = ip_val x div 2 ^ (8 * n - p) * 2 ^ (8 * n - p)"
proof -
  have "map2 (\<lambda>b m. b OR NOT m) (replicate n 0) m = map NOT m" if "length m = n" for m :: ip
    using that by (induction m arbitrary: n) auto
  then have "ip_val (map NOT (cidr_mask p n)) = 2 ^ (8 * n - p) - 1"
    using ip_val_broadcast [of "replicate n 0" n p] assms(2) by (simp add: ip_val_zeros)
  moreover have "ip_val (map2 (\<lambda>b m. b OR NOT m) x (cidr_mask p n)) =
      ip_val (ip_and x (cidr_mask p n)) + ip_val (map NOT (cidr_mask p n))"
    by (rule ip_val_or_not) (simp add: assms)
  ultimately show ?thesis
    using ip_val_broadcast [OF assms] by (simp only: add_right_cancel)
qed

lemma ip_Mask_v4net:
  assumes "base < 2 ^ 32" "p \<le> 32" "base mod 2 ^ (32 - p) = 0"
  shows "ip_Mask (ip_of 4 base) (cidr_mask p 4) = Some (ip_of 4 base)"
proof -
  have "base div 2 ^ (32 - p) * 2 ^ (32 - p) = base" using assms(3) by (simp add: mod_0_imp_dvd)
  then have "ip_val (ip_and (ip_of 4 base) (cidr_mask p 4)) = base"
    using ip_val_and_cidr_mask [of "ip_of 4 base" 4 p] assms by (simp add: ip_val_ip_of)
  moreover have "length (ip_and (ip_of 4 base) (cidr_mask p 4)) = 4" by (simp add: ip_and_def)
  ultimately have "ip_and (ip_of 4 base) (cidr_mask p 4) = ip_of 4 base"
    using ip_of_ip_val [of "ip_and (ip_of 4 base) (cidr_mask p 4)"] by simp
  then show ?thesis by (simp add: ip_Mask_def)
qed

lemma ips_loop_v4net:
  assumes base: "base < 2 ^ 32" "1 \<le> p" "p \<le> 32" "base mod 2 ^ (32 - p) = 0"
  shows "i < 2 ^ (32 - p) \<Longrightarrow>
    ips_loop (v4net base p) eg eb gw bc (ip_of 4 (base + i)) acc =
      Some (acc @ filter (\<lambda>x. \<not> (eg \<and> ip_Equal x gw) \<and> \<not> (eb \<and> ip_Equal x bc))
                    (map (ip_of 4) [base + i + 1..<base + 2 ^ (32 - p)]))"
proof (induction "2 ^ (32 - p) - i" arbitrary: i acc rule: less_induct)
  case less
  let ?K = "2 ^ (32 - p) :: nat"
  have top: "base + ?K \<le> 2 ^ 32" using base by (intro block_top) auto
  have small: "base + i < 2 ^ 32" using top less.prems by linarith
  have v: "ip_val (ip_of 4 (base + i)) = base + i"
    using small ip_val_ip_of [of "base + i" 4] by (simp only: pow_256_4)
  have C: "ipnet_Contains (v4net base p) (nextIP (ip_of 4 (base + i))) \<longleftrightarrow> i + 1 < ?K"
    using Contains_next_iff [OF base _ v less.prems] by simp
  show ?case
  proof (cases "i + 1 < ?K")
    case False
    with less.prems have "[base + i + 1..<base + ?K] = []" by simp
    with C False show ?thesis by (subst ips_loop.simps) simp
  next
    case True
    have lt: "base + (i + 1) < 2 ^ 32" using True top by linarith
    have nx: "nextIP (ip_of 4 (base + i)) = ip_of 4 (base + (i + 1))"
      using nextIP_ip_of_4 [of "base + i"] lt by (simp add: add.assoc)
    have ne: "\<not> ip_Equal (ip_of 4 (base + (i + 1))) (net_ip (v4net base p))"
      using ip_Equal_ip_of_4 [OF lt base(1)] by (simp add: v4net_def)
    have cons: "[base + i + 1..<base + ?K] = (base + (i + 1)) # [base + (i + 1) + 1..<base + ?K]"
      using True by (simp add: upt_conv_Cons)
    have "?K - (i + 1) < ?K - i" using True by linarith
    note IH = less.hyps [OF this True]
    let ?skip = "eg \<and> ip_Equal (ip_of 4 (base + (i + 1))) gw
      \<or> eb \<and> ip_Equal (ip_of 4 (base + (i + 1))) bc"
    show ?thesis
    proof (cases ?skip)
      case skip: True
      have "ips_loop (v4net base p) eg eb gw bc (ip_of 4 (base + i)) acc =
          ips_loop (v4net base p) eg eb gw bc (ip_of 4 (base + (i + 1))) acc"
        unfolding ips_loop.simps [of _ _ _ _ _ "ip_of 4 (base + i)"] nx
        using C True skip by (simp only: nx if_True if_False simp_thms)
      with IH show ?thesis using skip unfolding cons by auto
    next
      case keep: False
      have "ips_loop (v4net base p) eg eb gw bc (ip_of 4 (base + i)) acc =
          ips_loop (v4net base p) eg eb gw bc (ip_of 4 (base + (i + 1)))
            (acc @ [ip_of 4 (base + (i + 1))])"
        unfolding ips_loop.simps [of _ _ _ _ _ "ip_of 4 (base + i)"] nx
        using C True keep ne by (simp only: nx if_True if_False simp_thms)
      with IH show ?thesis using keep unfolding cons by auto
    qed
  qed
qed

text \<open>What \<open>ipsInSubnet\<close> computes: every host address but the gateway and the broadcast one.\<close>

lemma ipsInSubnet_v4net:
  assumes base: "base < 2 ^ 32" "1 \<le> p" "p \<le> 32" "base mod 2 ^ (32 - p) = 0"
  shows "ipsInSubnet (v4net base p) True True =
    Some (map (ip_of 4) [base + 2..<base + 2 ^ (32 - p) - 1])"
proof -
  let ?K = "2 ^ (32 - p) :: nat"
  let ?gw = "nextIP (ip_of 4 base)" and ?bc = "ip_of 4 (base + (?K - 1))"
  let ?keep = "\<lambda>x. \<not> ip_Equal x ?gw \<and> \<not> ip_Equal x ?bc"
  have K: "1 \<le> ?K" by simp
  have top: "base + ?K \<le> 2 ^ 32" using base by (intro block_top) auto
  have "ipsInSubnet (v4net base p) True True =
      ips_loop (v4net base p) True True ?gw ?bc (ip_of 4 (base + 0)) []"
    using base by (simp add: ipsInSubnet_def getBroadcastIP_v4net)
      (simp add: v4net_def ip_Mask_v4net base)
  also have "\<dots> = Some (filter ?keep (map (ip_of 4) [base + 1..<base + ?K]))"
    by (subst ips_loop_v4net [OF base]) simp_all
  also have "filter ?keep (map (ip_of 4) [base + 1..<base + ?K])
      = map (ip_of 4) (filter (\<lambda>v. v \<noteq> base + 1 \<and> v \<noteq> base + (?K - 1)) [base + 1..<base + ?K])"
  proof (cases "?K = 1")
    case False
    with K have "base + 1 < 2 ^ 32" using top by linarith
    then have gw: "?gw = ip_of 4 (base + 1)" by (rule nextIP_ip_of_4)
    have "?keep (ip_of 4 v) \<longleftrightarrow> v \<noteq> base + 1 \<and> v \<noteq> base + (?K - 1)"
      if "v \<in> set [base + 1..<base + ?K]" for v
    proof -
      have "v < 2 ^ 32" "base + 1 < 2 ^ 32" "base + (?K - 1) < 2 ^ 32"
        using that top by auto
      then show ?thesis unfolding gw by (simp only: ip_Equal_ip_of_4)
    qed
    then show ?thesis
      unfolding filter_map by (intro arg_cong [where f = "map (ip_of 4)"] filter_cong) simp_all
  qed simp
  also have "filter (\<lambda>v. v \<noteq> base + 1 \<and> v \<noteq> base + (?K - 1)) [base + 1..<base + ?K]
      = [base + 2..<base + ?K - 1]"
    by (rule sorted_distinct_set_unique) (auto simp: sorted_wrt_filter)
  finally show ?thesis .
qed

lemma set_ipsInSubnet_v4net:
  assumes "base < 2 ^ 32" "1 \<le> p" "p \<le> 32" "base mod 2 ^ (32 - p) = 0"
    and "ipsInSubnet (v4net base p) True True = Some ips"
  shows "distinct ips" and "\<forall>x \<in> set ips. length x = 4 \<and> ipnet_Contains (v4net base p) x"
    and "length ips = 2 ^ (32 - p) - 3"
proof -
  have ips: "ips = map (ip_of 4) [base + 2..<base + 2 ^ (32 - p) - 1]"
    using ipsInSubnet_v4net [OF assms(1-4)] assms(5) by simp
  have top: "base + 2 ^ (32 - p) \<le> 2 ^ 32" using assms by (intro block_top) auto
  show "distinct ips"
    unfolding ips distinct_map
  proof (intro conjI inj_onI)
    fix a b assume "a \<in> set [base + 2..<base + 2 ^ (32 - p) - 1]"
      "b \<in> set [base + 2..<base + 2 ^ (32 - p) - 1]" "ip_of 4 a = ip_of 4 b"
    then show "a = b" using ip_of_4_eq_iff [of a b] top by auto
  qed simp
  show "length ips = 2 ^ (32 - p) - 3" by (simp add: ips)
  have "ipnet_Contains (v4net base p) (ip_of 4 v)"
    if "base \<le> v" "v < base + 2 ^ (32 - p)" for v
  proof -
    define K :: nat where "K = 2 ^ (32 - p)"
    have "0 < K" by (simp add: K_def)
    define i where "i = v - base"
    have i: "v = base + i" "i < K" using that by (auto simp: i_def K_def)
    obtain q where q: "base = K * q" using assms(4) by (auto simp: K_def)
    have "v < 256 ^ 4" using that top by (simp only: pow_256_4)
    then have "ip_val (ip_of 4 v) = v" by (rule ip_val_ip_of)
    moreover have "v div K = base div K" using i \<open>0 < K\<close> by (simp add: q)
    ultimately show ?thesis
      using Contains_v4net [of "ip_of 4 v" p base] assms(1,3) by (simp add: K_def)
  qed
  then show "\<forall>x \<in> set ips. length x = 4 \<and> ipnet_Contains (v4net base p) x"
    by (auto simp: ips)
qed

section \<open>Lemmas: subnets of the address space\<close>

lemma leading_ones_cidr_mask_byte: "k \<le> 8 \<Longrightarrow> leading_ones 8 (cidr_mask_byte k) = (k, 0)"
proof -
  assume "k \<le> 8"
  then have "k \<in> {0, 1, 2, 3, 4, 5, 6, 7, 8}" by auto
  then show ?thesis by (elim insertE emptyE; hypsubst; code_simp)
qed

lemma cidr_mask_byte_255: "k < 8 \<Longrightarrow> cidr_mask_byte k \<noteq> 255"
proof -
  assume "k < 8"
  then have "k \<in> {0, 1, 2, 3, 4, 5, 6, 7}" by auto
  then show ?thesis by (elim insertE emptyE; hypsubst; code_simp)
qed

lemma simpleMaskLength_cidr_mask: "p \<le> 8 * n \<Longrightarrow> simpleMaskLength (cidr_mask p n) = Some p"
proof (induction p n rule: cidr_mask.induct)
  case (2 p n)
  show ?case
  proof (cases "8 \<le> p")
    case True
    moreover have "cidr_mask_byte 8 = 255" by code_simp
    ultimately show ?thesis using 2 by (simp add: min_def)
  next
    case False
    then show ?thesis
      by (simp add: min_def cidr_mask_byte_255 leading_ones_cidr_mask_byte cidr_mask_zero
          list_all_iff)
  qed
qed simp

lemma mask_Size_cidr_mask [simp]: "p \<le> 32 \<Longrightarrow> mask_Size (cidr_mask p 4) = (p, 32)"
  by (simp add: mask_Size_def simpleMaskLength_cidr_mask)

lemma net_mask_v4net [simp]: "net_mask (v4net base p) = cidr_mask p 4"
  by (simp add: v4net_def)

lemma net_ip_v4net [simp]: "net_ip (v4net base p) = ip_of 4 base"
  by (simp add: v4net_def)

lemma subnets_of_v4net:
  assumes "cidr_contract cidr_Subnet" "base < 2 ^ 32" "base mod 2 ^ (32 - p) = 0" "p + d \<le> 32"
  shows "\<forall>i \<in> set is. i < 2 ^ d \<Longrightarrow>
    subnets_of cidr_Subnet (v4net base p) (int d) is =
      Inr (map (\<lambda>i. v4net (base + i * 2 ^ (32 - (p + d))) (p + d)) is)"
proof (induction "is")
  case (Cons i "is")
  then have "cidr_Subnet (v4net base p) (int d) i =
      Inr (v4net (base + i * 2 ^ (32 - (p + d))) (p + d))"
    using assms unfolding cidr_contract_def by auto
  with Cons show ?case by simp
qed simp

text \<open>The subnets of a list of IPv4 networks, block after block.\<close>

definition blocks :: "nat \<Rightarrow> nat \<times> nat \<Rightarrow> ipnet list" where
  "blocks q bp = map (\<lambda>i. v4net (fst bp + i * 2 ^ (32 - q)) q) [0..<2 ^ (q - snd bp)]"

lemma generateAllSubnets_v4nets:
  assumes "cidr_contract cidr_Subnet" "q \<le> 32"
  shows "\<forall>(base, p) \<in> set nets. base < 2 ^ 32 \<and> base mod 2 ^ (32 - p) = 0 \<and> p \<le> q \<Longrightarrow>
    generateAllSubnets cidr_Subnet (map (\<lambda>(base, p). v4net base p) nets) (int q) =
      Inr (concat (map (blocks q) nets))"
proof (induction nets)
  case (Cons n nets)
  obtain base p where n: "n = (base, p)" by (cases n)
  have h: "base < 2 ^ 32" "base mod 2 ^ (32 - p) = 0" "p \<le> q" using Cons.prems n by auto
  have d: "int q - int p = int (q - p)" using h by simp
  have N: "numSubnets (int (q - p)) = 2 ^ (q - p)" using assms(2) by (simp add: numSubnets_def)
  have "subnets_of cidr_Subnet (v4net base p) (int (q - p)) [0..<2 ^ (q - p)] = Inr (blocks q n)"
    using subnets_of_v4net [OF assms(1) h(1,2), of "q - p" "[0..<2 ^ (q - p)]"] h(3) assms(2)
    by (simp add: blocks_def n)
  then show ?case using Cons h assms(2) by (simp add: n d N del: of_nat_diff)
qed simp

text \<open>A reference implementation of \<open>cidr.Subnet\<close> on IPv4 networks, for concrete inputs.\<close>

definition ref_cidr_Subnet :: "ipnet \<Rightarrow> int \<Rightarrow> nat \<Rightarrow> ipnet result" where
  "ref_cidr_Subnet n d i =
     (let q = fst (mask_Size (net_mask n)) + nat d in
      if 32 < q \<or> 2 ^ nat d \<le> i then Inl SubnetError
      else Inr (v4net (ip_val (net_ip n) + i * 2 ^ (32 - q)) q))"

lemma cidr_contract_ref: "cidr_contract ref_cidr_Subnet"
  by (auto simp: cidr_contract_def ref_cidr_Subnet_def ip_val_ip_of Let_def)

section \<open>Lemmas: the order of addresses\<close>

text \<open>
  The rank by which \<open>sortIPs\<close> orders: IPv4 addresses by their number, everything else last.
\<close>

datatype rank = Rank_v4 nat | Rank_none

instantiation rank :: linorder
begin

fun less_eq_rank :: "rank \<Rightarrow> rank \<Rightarrow> bool" where
  "Rank_v4 i \<le> Rank_v4 j \<longleftrightarrow> i \<le> j"
| "x \<le> Rank_none \<longleftrightarrow> True"
| "Rank_none \<le> Rank_v4 j \<longleftrightarrow> False"

definition less_rank :: "rank \<Rightarrow> rank \<Rightarrow> bool" where
  "less_rank x y \<longleftrightarrow> x \<le> y \<and> \<not> y \<le> x"

instance
proof
  fix x y z :: rank
  show "x < y \<longleftrightarrow> x \<le> y \<and> \<not> y \<le> x" by (rule less_rank_def)
  show "x \<le> x" by (cases x) auto
  show "x \<le> y \<Longrightarrow> y \<le> z \<Longrightarrow> x \<le> z" by (cases x; cases y; cases z) auto
  show "x \<le> y \<Longrightarrow> y \<le> x \<Longrightarrow> x = y" by (cases x; cases y) auto
  show "x \<le> y \<or> y \<le> x" by (cases x; cases y) auto
qed

end

definition ip_rank :: "ip \<Rightarrow> rank" where
  "ip_rank x = (case ip_To4 x of None \<Rightarrow> Rank_none | Some y \<Rightarrow> Rank_v4 (ip_val y))"

lemma bit_ucast_u8: "bit (ucast (a :: u8) :: u32) n \<longleftrightarrow> n < 8 \<and> bit a n"
  by (auto simp: bit_simps dest: bit_imp_le_length)

lemma or_bytes:
  "(push_bit 24 (ucast a) OR push_bit 16 (ucast b) OR push_bit 8 (ucast c) OR ucast d :: u32) =
     push_bit 24 (ucast (a :: u8)) + push_bit 16 (ucast (b :: u8)) + push_bit 8 (ucast (c :: u8))
       + ucast (d :: u8)"
proof -
  have 1: "push_bit 24 (ucast a) + push_bit 16 (ucast b) =
      (push_bit 24 (ucast a) OR push_bit 16 (ucast b) :: u32)"
    by (rule disjunctive_add_eq_or, rule bit_word_eqI)
      (auto simp: bit_simps dest!: bit_imp_le_length)
  have 2: "(push_bit 24 (ucast a) OR push_bit 16 (ucast b)) + push_bit 8 (ucast c) =
      ((push_bit 24 (ucast a) OR push_bit 16 (ucast b)) OR push_bit 8 (ucast c) :: u32)"
    by (rule disjunctive_add_eq_or, rule bit_word_eqI)
      (auto simp: bit_simps dest!: bit_imp_le_length)
  have 3: "((push_bit 24 (ucast a) OR push_bit 16 (ucast b)) OR push_bit 8 (ucast c)) + ucast d =
      (((push_bit 24 (ucast a) OR push_bit 16 (ucast b)) OR push_bit 8 (ucast c)) OR ucast d :: u32)"
    by (rule disjunctive_add_eq_or, rule bit_word_eqI)
      (auto simp: bit_simps dest!: bit_imp_le_length)
  show ?thesis by (simp only: 1 2 3 or.assoc [symmetric])
qed

lemma ipToInt_v4: "length x = 4 \<Longrightarrow> ipToInt x = Inr (word_of_nat (ip_val x))"
proof (elim len4_cases)
  fix a b c d assume x: "x = [a, b, c, d]"
  have u: "(ucast b' :: u32) = word_of_nat (unat b')" for b' :: u8
    by (simp add: unsigned_ucast_eq word_unat_eq_iff)
  have v: "ip_val x = unat a * 2 ^ 24 + unat b * 2 ^ 16 + unat c * 2 ^ 8 + unat d"
    by (simp add: x)
  have "ipToInt x = Inr (push_bit 24 (ucast a) + push_bit 16 (ucast b) + push_bit 8 (ucast c)
      + ucast d)"
    by (simp add: ipToInt_def x or_bytes)
  also have "\<dots> = Inr (word_of_nat (ip_val x))"
    unfolding v u push_bit_eq_mult by (simp only: of_nat_add of_nat_mult of_nat_power of_nat_numeral)
  finally show ?thesis .
qed

lemma ipToInt_conv:
  "ipToInt x = (case ip_To4 x of None \<Rightarrow> Inl InvalidIPv4 | Some y \<Rightarrow> Inr (word_of_nat (ip_val y)))"
proof (cases "ip_To4 x")
  case (Some y)
  then have "length y = 4" by (rule length_ip_To4)
  with Some ipToInt_v4 [of y] show ?thesis by (simp add: ipToInt_def)
qed (simp add: ipToInt_def)

lemma unat_ip_val: "length x = 4 \<Longrightarrow> unat (word_of_nat (ip_val x) :: u32) = ip_val x"
  using ip_val_less [of x] by (simp add: unat_of_nat)

lemma ip_less_rank: "ip_less x y \<longleftrightarrow> ip_rank x < ip_rank y"
  by (auto simp: ip_less_def ip_rank_def less_rank_def ipToInt_conv word_less_nat_alt unat_ip_val
      length_ip_To4 split: option.splits)

lemma insert_by_insort:
  "(\<And>a b. lt a b \<longleftrightarrow> f a < (f b :: 'b :: linorder)) \<Longrightarrow> insert_by lt x xs = insort_key f x xs"
  by (induction xs) auto

lemma sort_slice_sort_key:
  "(\<And>a b. lt a b \<longleftrightarrow> f a < (f b :: 'b :: linorder)) \<Longrightarrow> sort_slice lt xs = sort_key f xs"
proof -
  assume "\<And>a b. lt a b \<longleftrightarrow> f a < (f b :: 'b)"
  then have "insert_by lt = insort_key f" by (intro ext insert_by_insort)
  then show ?thesis by (simp add: sort_slice_def sort_key_def)
qed

lemma sortIPs_sort_key: "sortIPs = sort_key ip_rank"
  by (rule ext) (simp add: sortIPs_def sort_slice_sort_key [of _ ip_rank] ip_less_rank)

lemma first_above_Some:
  assumes "first_above l xs = Some x" and "sorted (map ip_rank xs)"
  shows "x \<in> set xs \<and> Rank_v4 (unat l) < ip_rank x \<and> ip_rank x \<noteq> Rank_none \<and>
    (\<forall>y \<in> set xs. Rank_v4 (unat l) < ip_rank y \<longrightarrow> ip_rank x \<le> ip_rank y)"
  using assms
proof (induction xs)
  case (Cons y ys)
  have r: "ip_rank y = (case ipToInt y of Inl _ \<Rightarrow> Rank_none | Inr i \<Rightarrow> Rank_v4 (unat i))"
    by (auto simp: ip_rank_def ipToInt_conv unat_ip_val length_ip_To4 split: option.splits)
  have nil: "y = [] \<Longrightarrow> ipToInt y = Inl InvalidIPv4"
    by (simp add: ipToInt_def ip_To4_def)
  show ?case
  proof (cases "\<exists>i. ipToInt y = Inr i \<and> i > l")
    case True
    then obtain i where i: "ipToInt y = Inr i" "l < i" by blast
    then have "y \<noteq> []" using nil by auto
    then have "x = y" using Cons.prems(1) i by simp
    then show ?thesis using Cons.prems(2) i r by (auto simp: less_rank_def word_less_nat_alt)
  next
    case False
    then have step: "first_above l (y # ys) = first_above l ys"
      by (auto split: sum.splits)
    then have IH: "x \<in> set ys \<and> Rank_v4 (unat l) < ip_rank x \<and> ip_rank x \<noteq> Rank_none \<and>
      (\<forall>y \<in> set ys. Rank_v4 (unat l) < ip_rank y \<longrightarrow> ip_rank x \<le> ip_rank y)"
      using Cons by simp
    have "ip_rank x \<le> ip_rank y" if "Rank_v4 (unat l) < ip_rank y"
    proof -
      have "ip_rank y = Rank_none"
        using that False r by (auto simp: less_rank_def word_less_nat_alt split: sum.splits)
      then show ?thesis by simp
    qed
    with IH show ?thesis by auto
  qed
qed simp

lemma first_above_None:
  assumes "first_above l xs = None" and "x \<in> set xs" and "ip_To4 x = Some y"
  shows "ip_val y \<le> unat l"
  using assms
proof (induction xs)
  case (Cons z zs)
  have "x \<noteq> []" using Cons.prems(3) by (auto simp: ip_To4_def)
  then show ?case
    using Cons by (auto simp: ipToInt_conv word_less_nat_alt unat_ip_val length_ip_To4
        split: if_splits sum.splits)
qed simp

lemma last_reserved_max:
  "last_reserved rs acc = Some l \<Longrightarrow>
   l \<in> set rs \<union> set_option acc \<and> (\<forall>r \<in> set rs \<union> set_option acc. allocatedAt r \<le> allocatedAt l)"
proof (induction rs arbitrary: acc)
  case (Cons r rs)
  show ?case
  proof (cases acc)
    case None
    then show ?thesis using Cons.IH [of "Some r"] Cons.prems by simp
  next
    case (Some a)
    then show ?thesis
      using Cons.IH [of "if allocatedAt r > allocatedAt a then Some r else Some a"] Cons.prems
      by (auto split: if_splits)
  qed
qed auto

lemma last_reserved_None: "last_reserved rs acc = None \<longleftrightarrow> rs = [] \<and> acc = None"
proof (induction rs arbitrary: acc)
  case (Cons r rs)
  then show ?case by (cases acc) auto
qed simp

lemma hd_sortIPs_least:
  assumes "avail \<noteq> []"
  shows "hd (sortIPs avail) \<in> set avail \<and> (\<forall>y \<in> set avail. ip_rank (hd (sortIPs avail)) \<le> ip_rank y)"
proof -
  obtain z zs where zs: "sortIPs avail = z # zs"
    using assms by (metis neq_Nil_conv set_empty set_sort sortIPs_sort_key)
  have set_eq: "set (z # zs) = set avail" by (simp only: zs [symmetric] sortIPs_sort_key set_sort)
  have "sorted (map ip_rank (z # zs))"
    by (simp only: zs [symmetric] sortIPs_sort_key sorted_sort_key)
  then show ?thesis using set_eq zs by auto
qed

lemma ip_rank_ipToInt: "ipToInt x = Inr i \<Longrightarrow> ip_rank x = Rank_v4 (unat i)"
  by (auto simp: ipToInt_conv ip_rank_def unat_ip_val length_ip_To4 split: option.splits)

lemma ipToInt_Inl_iff: "(\<exists>e. ipToInt x = Inl e) \<longleftrightarrow> ip_rank x = Rank_none"
  by (auto simp: ipToInt_conv ip_rank_def split: option.splits)

text \<open>The choice that \<open>getNextAvailableIP\<close> makes among the free addresses.\<close>

definition next_choice :: "rank option \<Rightarrow> ip list \<Rightarrow> ip \<Rightarrow> bool" where
  "next_choice lst avail x \<longleftrightarrow>
     x \<in> set avail \<and>
     (let above = (case lst of None \<Rightarrow> [] | Some l \<Rightarrow> filter (\<lambda>y. l < ip_rank y \<and> ip_rank y \<noteq> Rank_none) avail)
      in if above = [] then \<forall>y \<in> set avail. ip_rank x \<le> ip_rank y
         else x \<in> set above \<and> (\<forall>y \<in> set above. ip_rank x \<le> ip_rank y))"

lemma getNextAvailableIP_choice:
  assumes "getNextAvailableIP avail reserved = Inr x"
  shows "next_choice (case getLastReservedIP reserved of Inl _ \<Rightarrow> None | Inr l \<Rightarrow> Some (ip_rank l)) avail x"
proof -
  have ne: "avail \<noteq> []" using assms by (auto simp: getNextAvailableIP_def)
  note least = hd_sortIPs_least [OF ne]
  show ?thesis
  proof (cases "getLastReservedIP reserved")
    case (Inl e)
    with assms ne least show ?thesis by (auto simp: getNextAvailableIP_def next_choice_def)
  next
    case (Inr l)
    then obtain i where i: "ipToInt l = Inr i"
      using assms ne by (auto simp: getNextAvailableIP_def split: sum.splits)
    note r = ip_rank_ipToInt [OF i]
    have set_eq: "set (sortIPs avail) = set avail" by (simp add: sortIPs_sort_key)
    have srt: "sorted (map ip_rank (sortIPs avail))" by (simp add: sortIPs_sort_key)
    show ?thesis
    proof (cases "first_above i (sortIPs avail)")
      case None
      have "\<not> (Rank_v4 (unat i) < ip_rank y \<and> ip_rank y \<noteq> Rank_none)" if "y \<in> set avail" for y
        using first_above_None [OF None, of y] that set_eq
        by (auto simp: ip_rank_def less_rank_def split: option.splits)
      then show ?thesis
        using assms ne Inr i None least r
        by (auto simp: getNextAvailableIP_def next_choice_def filter_empty_conv)
    next
      case (Some z)
      then have "x = z" using assms ne Inr i by (simp add: getNextAvailableIP_def)
      moreover note first_above_Some [OF Some srt]
      ultimately show ?thesis using Inr r set_eq by (auto simp: next_choice_def filter_empty_conv)
    qed
  qed
qed

lemma getNextAvailableIP_Inl_iff:
  "(\<exists>e. getNextAvailableIP avail reserved = Inl e) \<longleftrightarrow>
     avail = [] \<or> (\<exists>l. getLastReservedIP reserved = Inr l \<and> ip_rank l = Rank_none)"
  by (auto simp: getNextAvailableIP_def ipToInt_Inl_iff [symmetric] split: sum.splits option.splits)

section \<open>Lemmas: coverage of the address space\<close>

lemma block_covers:
  assumes "base < 2 ^ 32" "base mod 2 ^ (32 - p) = 0" "p \<le> q" "q \<le> 32" "length x = 4"
  shows "(\<exists>s \<in> set (blocks q (base, p)). ipnet_Contains s x) \<longleftrightarrow> ipnet_Contains (v4net base p) x"
proof -
  define L N where "L = (2 :: nat) ^ (32 - q)" and "N = (2 :: nat) ^ (q - p)"
  have K: "2 ^ (32 - p) = L * N"
    using assms(3,4) by (simp add: L_def N_def power_add [symmetric])
  have pos: "0 < L" "0 < N" by (simp_all add: L_def N_def)
  obtain m where m: "base = L * N * m" using assms(2) unfolding K by auto
  have top: "base + L * N \<le> 2 ^ 32"
    using block_top [of base "32 - p"] assms(1,2) unfolding K [symmetric] by simp
  have sub: "ipnet_Contains (v4net (base + i * L) q) x \<longleftrightarrow> ip_val x div L = N * m + i" if "i < N" for i
  proof -
    have "i * L < L * N" using that pos by (simp add: mult.commute)
    then have "base + i * L < 2 ^ 32" using top by linarith
    moreover have "(base + i * L) div L = N * m + i"
    proof -
      have "base + i * L = (N * m + i) * L" by (simp add: m algebra_simps)
      then show ?thesis using pos by simp
    qed
    ultimately show ?thesis
      using Contains_v4net [OF assms(5,4)] by (simp add: L_def [symmetric] add.commute)
  qed
  have "(\<exists>s \<in> set (blocks q (base, p)). ipnet_Contains s x) \<longleftrightarrow> (\<exists>i < N. ip_val x div L = N * m + i)"
    using sub by (auto simp: blocks_def L_def N_def)
  also have "\<dots> \<longleftrightarrow> ip_val x div L div N = m"
  proof
    assume "ip_val x div L div N = m"
    then have "ip_val x div L = N * m + ip_val x div L mod N" by (metis mult_div_mod_eq)
    then show "\<exists>i < N. ip_val x div L = N * m + i" using pos by (metis mod_less_divisor)
  qed auto
  also have "ip_val x div L div N = ip_val x div (L * N)" by (simp add: div_mult2_eq)
  also have "\<dots> = m \<longleftrightarrow> ipnet_Contains (v4net base p) x"
    using Contains_v4net [OF assms(5), of p base] assms(1,3,4) pos by (simp add: K m)
  finally show ?thesis .
qed

lemma length_blocks [simp]: "length (blocks q bp) = 2 ^ (q - snd bp)"
  by (simp add: blocks_def)

lemma host_iff:
  assumes "base < 2 ^ 32" "1 \<le> p" "p \<le> 32" "base mod 2 ^ (32 - p) = 0"
  shows "x \<in> set (map (ip_of 4) [base + 2..<base + 2 ^ (32 - p) - 1]) \<longleftrightarrow>
      length x = 4 \<and> ipnet_Contains (v4net base p) x \<and>
      ip_val x \<noteq> base \<and> ip_val x \<noteq> base + 1 \<and> ip_val x \<noteq> base + 2 ^ (32 - p) - 1" (is "?l \<longleftrightarrow> ?r")
proof -
  define K :: nat where "K = 2 ^ (32 - p)"
  have K: "0 < K" by (simp add: K_def)
  have top: "base + K \<le> 2 ^ 32" using assms unfolding K_def by (intro block_top) auto
  obtain q where q: "base = K * q" using assms(4) by (auto simp: K_def)
  have C: "ipnet_Contains (v4net base p) x \<longleftrightarrow> base \<le> ip_val x \<and> ip_val x < base + K"
    if "length x = 4"
  proof -
    have "ip_val x div K = q \<longleftrightarrow> K * q \<le> ip_val x \<and> ip_val x < K * q + K"
      by (metis K add.commute div_less_iff_less_mult less_eq_div_iff_mult_less_eq
          mult.commute mult_Suc_right not_less_eq le_antisym less_Suc_eq_le order_refl)
    then show ?thesis using Contains_v4net [OF that assms(3,1)] K by (simp add: q K_def [symmetric])
  qed
  show ?thesis
  proof
    assume ?l
    then obtain v where v: "base + 2 \<le> v" "v < base + K - 1" "x = ip_of 4 v" by (auto simp: K_def)
    then have "v < 256 ^ 4" using top by (simp only: pow_256_4)
    then have "ip_val x = v" using v ip_val_ip_of by simp
    then show ?r using v C by (auto simp: K_def [symmetric])
  next
    assume r: ?r
    then have "base + 2 \<le> ip_val x" "ip_val x < base + K - 1" using C by (auto simp: K_def [symmetric])
    moreover have "x = ip_of 4 (ip_val x)" using r ip_of_ip_val [of x] by simp
    ultimately show ?l unfolding K_def by (auto simp del: ip_of.simps intro!: image_eqI)
  qed
qed

section \<open>Lemmas: the walk that never ends\<close>

text \<open>The network 0.0.0.0/0 contains every address, so the walk over it never leaves it.\<close>

lemma Contains_all: "length x = 4 \<Longrightarrow> ipnet_Contains (v4net 0 0) x"
  using Contains_v4net [of x 0 0] ip_val_less [of x] by simp

lemma ips_loop_all_diverges:
  assumes "ips_loop n eg eb gw bc x acc = Some r"
  shows "\<not> (length x = 4 \<and> n = v4net 0 0)"
proof (rule ips_loop.raw_induct
    [where P = "\<lambda>n eg eb gw bc x acc r. \<not> (length x = 4 \<and> n = v4net 0 0)"
       and xa = "((((((n, eg), eb), gw), bc), x), acc)" and y = r, simplified prod.case, OF _ assms])
  fix loop n eg eb gw bc x acc r
  assume IH: "\<And>n eg eb gw bc x acc r. loop n eg eb gw bc x acc = Some r \<Longrightarrow>
      \<not> (length x = 4 \<and> n = v4net 0 0)"
    and body: "(if \<not> ipnet_Contains n (nextIP x) then Some acc
      else if ip_Equal (nextIP x) (net_ip n) \<or> (eg \<and> ip_Equal (nextIP x) gw)
           \<or> (eb \<and> ip_Equal (nextIP x) bc)
      then loop n eg eb gw bc (nextIP x) acc
      else loop n eg eb gw bc (nextIP x) (acc @ [nextIP x])) = Some r"
  show "\<not> (length x = 4 \<and> n = v4net 0 0)"
  proof
    assume x: "length x = 4 \<and> n = v4net 0 0"
    then have "ipnet_Contains n (nextIP x)" using Contains_all [of "nextIP x"] by simp
    with IH body x show False by (metis length_nextIP)
  qed
qed

section \<open>Properties\<close>



text \<open>
  On the network 0.0.0.0/0 the loop of \<open>ipsInSubnet\<close> never ends, whatever it excludes: the
  address after 255.255.255.255 is 0.0.0.0, which the network contains again.
\<close>

theorem ipsInSubnet_all_diverges:
  "ipsInSubnet (v4net 0 0) excludeGateway excludeBroadcast = None"
proof -
  have "ips_loop (v4net 0 0) excludeGateway excludeBroadcast gw bc (ip_of 4 0) [] = None" for gw bc
    using ips_loop_all_diverges [of "v4net 0 0" excludeGateway excludeBroadcast gw bc "ip_of 4 0"]
    by (metis length_ip_of not_Some_eq)
  then show ?thesis
    using ip_Mask_v4net [of 0 0] by (auto simp: ipsInSubnet_def simp flip: numeral_eq_Suc split: option.split)
qed



text \<open>
  \<open>getNextAvailableIP\<close> returns a free address; the least one above the address reserved
  last when there is one, and the least free address otherwise (the wrap-around).  The address
  reserved last is one with the greatest reservation time.
\<close>

theorem getNextAvailableIP_least_above:
  assumes "getNextAvailableIP avail reserved = Inr x"
  shows "\<exists>l. next_choice l avail x \<and>
    (case l of None \<Rightarrow> reserved = []
     | Some r \<Rightarrow> \<exists>a \<in> set (map_vals reserved). r = ip_rank (a_ip a) \<and>
         (\<forall>b \<in> set (map_vals reserved). allocatedAt b \<le> allocatedAt a))"
proof -
  note C = getNextAvailableIP_choice [OF assms]
  show ?thesis
  proof (cases "last_reserved (map_vals reserved) None")
    case None
    then have "getLastReservedIP reserved = Inl NoReservations" and "reserved = []"
      by (simp_all add: getLastReservedIP_def last_reserved_None map_vals_def)
    with C show ?thesis by (intro exI [of _ None]) simp
  next
    case (Some a)
    then have "getLastReservedIP reserved = Inr (a_ip a)"
      by (simp add: getLastReservedIP_def)
    with C last_reserved_max [OF Some] show ?thesis
      by (intro exI [of _ "Some (ip_rank (a_ip a))"]) auto
  qed
qed

theorem getNextAvailableIP_least_above_witness:
  "let avail = [[10, 0, 0, 9], [10, 0, 0, 7], [10, 0, 0, 3]];
       reserved = [(''k'', \<lparr>a_ip = [10, 0, 0, 5], allocationType = [], allocatedAt = 4,
         dataKey = [], data = []\<rparr>)]
   in \<exists>l. next_choice l avail [10, 0, 0, 7] \<and>
    (case l of None \<Rightarrow> reserved = []
     | Some r \<Rightarrow> \<exists>a \<in> set (map_vals reserved). r = ip_rank (a_ip a) \<and>
         (\<forall>b \<in> set (map_vals reserved). allocatedAt b \<le> allocatedAt a))"
proof -
  have "getNextAvailableIP [[10, 0, 0, 9], [10, 0, 0, 7], [10, 0, 0, 3]]
      [(''k'', \<lparr>a_ip = [10, 0, 0, 5], allocationType = [], allocatedAt = 4, dataKey = [], data = []\<rparr>)]
    = Inr [10, 0, 0, 7]"
    by (simp add: getNextAvailableIP_def getLastReservedIP_def map_vals_def)
      (simp add: ipToInt_conv sortIPs_sort_key ip_rank_def)
  from getNextAvailableIP_least_above [OF this] show ?thesis unfolding Let_def .
qed

end
