(* ===== verification/Common.thy ===== *)
theory Common
  imports Net
begin

text \<open>
  \<open>plugin/pkg/common\<close>: the network data every component shares, the comparison functions of
  \<open>common.go\<close>, \<open>ConcurrentMap\<close> and \<open>ConcurrentDualKeyMap\<close>.  Each method of the two concurrent
  maps runs under the map's lock and is one step on the map; \<open>GetOrAdd\<close> takes the lock twice,
  so the map it finds the second time is a parameter.
\<close>

section \<open>Network data\<close>

record FlannelNetworkInfo =
  fi_FlannelID :: string
  fi_MTU :: int
  fi_Network :: "ipnet option"
  fi_HostSubnet :: "ipnet option"
  fi_LocalGateway :: ip

record NetworkInfo =
  DockerID :: string
  FlannelID :: string
  Subnet :: string
  Name :: string

definition IsFlannelNetwork :: "NetworkInfo \<Rightarrow> bool" where
  "IsFlannelNetwork n \<longleftrightarrow> FlannelID n \<noteq> ''''"

definition SubnetToKey :: "string \<Rightarrow> string" where
  "SubnetToKey s = replace_char CHR ''/'' CHR ''-'' s"

definition GetPtrFromMap :: "('k, 'v) gomap \<Rightarrow> 'k \<Rightarrow> 'v option" where
  "GetPtrFromMap m k = (case map_get m k of Some v \<Rightarrow> Some v | None \<Rightarrow> None)"

text \<open>\<open>other\<close> is \<open>None\<close> when its dynamic type is not \<open>NetworkInfo\<close>.\<close>

definition NetworkInfo_Equals :: "NetworkInfo \<Rightarrow> NetworkInfo option \<Rightarrow> bool" where
  "NetworkInfo_Equals n other = (case other of
      None \<Rightarrow> False
    | Some o' \<Rightarrow> if FlannelID n \<noteq> FlannelID o' \<or> Name n \<noteq> Name o' then False else True)"

definition go_Max :: "'a :: linorder \<Rightarrow> 'a \<Rightarrow> 'a" where
  "go_Max a b = (if a > b then a else b)"

section \<open>Comparing maps\<close>

text \<open>The map arguments of the comparison functions may be nil (\<open>None\<close>).\<close>

fun entries_match :: "('v \<Rightarrow> 'v \<Rightarrow> bool) \<Rightarrow> ('k, 'v) gomap \<Rightarrow> ('k, 'v) gomap \<Rightarrow> bool" where
  "entries_match eq [] b = True"
| "entries_match eq ((key, valA) # a) b =
     (case map_get b key of
        None \<Rightarrow> False
      | Some valB \<Rightarrow> if \<not> eq valA valB then False else entries_match eq a b)"

definition compare_maps ::
  "('v \<Rightarrow> 'v \<Rightarrow> bool) \<Rightarrow> ('k, 'v) gomap option \<Rightarrow> ('k, 'v) gomap option \<Rightarrow> bool" where
  "compare_maps eq a b = (case (a, b) of
      (None, None) \<Rightarrow> True
    | (None, Some _) \<Rightarrow> False
    | (Some _, None) \<Rightarrow> False
    | (Some a', Some b') \<Rightarrow> if length a' \<noteq> length b' then False else entries_match eq a' b')"

definition CompareIPMaps :: "(string, ip) gomap option \<Rightarrow> (string, ip) gomap option \<Rightarrow> bool" where
  "CompareIPMaps a b = compare_maps ip_Equal a b"

definition CompareStringMaps ::
  "(string, string) gomap option \<Rightarrow> (string, string) gomap option \<Rightarrow> bool" where
  "CompareStringMaps a b = compare_maps (=) a b"

fun slices_match :: "string list \<Rightarrow> string list \<Rightarrow> bool" where
  "slices_match (x # xs) (y # ys) = (if x \<noteq> y then False else slices_match xs ys)"
| "slices_match _ _ = True"

definition compareStringSlices :: "string list \<Rightarrow> string list \<Rightarrow> bool" where
  "compareStringSlices a b = (if length a \<noteq> length b then False else slices_match a b)"

definition CompareStringArrayMaps ::
  "(string, string list) gomap option \<Rightarrow> (string, string list) gomap option \<Rightarrow> bool" where
  "CompareStringArrayMaps a b = compare_maps compareStringSlices a b"

text \<open>\<open>AddOrUpdate\<close> on a plain map; \<open>update\<close> may be nil.\<close>

definition AddOrUpdate ::
  "(string, 'v) gomap \<Rightarrow> string \<Rightarrow> 'v \<Rightarrow> ('v \<Rightarrow> 'v) option \<Rightarrow> (string, 'v) gomap" where
  "AddOrUpdate store i valueToAdd update = (case map_get store i of
      Some existing \<Rightarrow>
        map_put i (case update of None \<Rightarrow> existing | Some u \<Rightarrow> u existing) store
    | None \<Rightarrow> map_put i valueToAdd store)"

section \<open>ConcurrentMap\<close>

type_synonym ('k, 'v) cmap = "('k, 'v) gomap"

definition NewConcurrentMap :: "('k, 'v) cmap" where
  "NewConcurrentMap = []"

definition cm_Get :: "'k \<Rightarrow> ('k, 'v) cmap \<Rightarrow> 'v option" where
  "cm_Get key cm = map_get cm key"

definition cm_Set :: "'k \<Rightarrow> 'v \<Rightarrow> ('k, 'v) cmap \<Rightarrow> ('k, 'v) cmap" where
  "cm_Set key v cm = map_put key v cm"

definition cm_Remove :: "'k \<Rightarrow> ('k, 'v) cmap \<Rightarrow> ('k, 'v) cmap" where
  "cm_Remove key cm = map_del key cm"

definition cm_TryRemove :: "'k \<Rightarrow> ('k, 'v) cmap \<Rightarrow> 'v option \<times> ('k, 'v) cmap" where
  "cm_TryRemove key cm = (case map_get cm key of
      Some v \<Rightarrow> (Some v, map_del key cm)
    | None \<Rightarrow> (None, cm))"

text \<open>
  \<open>GetOrAdd\<close>: the first look under the read lock sees \<open>cm\<close>; by the time the write lock is
  taken, other goroutines have turned it into \<open>others cm\<close>.  The factory has effects on the
  world.  The result is the value or the factory's error, and whether it was added.
\<close>

definition cm_GetOrAdd ::
  "(('k, 'v) cmap \<Rightarrow> ('k, 'v) cmap) \<Rightarrow> 'k \<Rightarrow> ('w, 'v) io \<Rightarrow> ('k, 'v) cmap \<Rightarrow> 'w \<Rightarrow>
    ('v result \<times> bool) \<times> ('k, 'v) cmap \<times> 'w" where
  "cm_GetOrAdd others key factory cm w = (case map_get cm key of
      Some v \<Rightarrow> ((Inr v, False), cm, w)
    | None \<Rightarrow>
        (let cm' = others cm in
         case map_get cm' key of
           Some v \<Rightarrow> ((Inr v, False), cm', w)
         | None \<Rightarrow>
             (case factory w of
                (Inr v, w') \<Rightarrow> ((Inr v, True), map_put key v cm', w')
              | (Inl e, w') \<Rightarrow> ((Inl e, False), cm', w'))))"

definition cm_TryAdd ::
  "(('k, 'v) cmap \<Rightarrow> ('k, 'v) cmap) \<Rightarrow> 'k \<Rightarrow> ('w, 'v) io \<Rightarrow> ('k, 'v) cmap \<Rightarrow> 'w \<Rightarrow>
    (bool \<times> err option) \<times> ('k, 'v) cmap \<times> 'w" where
  "cm_TryAdd others key factory cm w = (case cm_GetOrAdd others key factory cm w of
      ((r, wasSet), s) \<Rightarrow> ((wasSet, case r of Inl e \<Rightarrow> Some e | Inr _ \<Rightarrow> None), s))"

definition cm_AddOrUpdate ::
  "'k \<Rightarrow> 'v \<Rightarrow> ('v \<Rightarrow> 'v) \<Rightarrow> ('k, 'v) cmap \<Rightarrow> ('v \<times> bool) \<times> ('k, 'v) cmap" where
  "cm_AddOrUpdate key addValue updateFunc cm = (case map_get cm key of
      Some existing \<Rightarrow>
        (let updated = updateFunc existing in ((updated, True), map_put key updated cm))
    | None \<Rightarrow> ((addValue, False), map_put key addValue cm))"

definition cm_Count :: "('k, 'v) cmap \<Rightarrow> nat" where
  "cm_Count cm = length cm"

definition cm_Keys :: "('k, 'v) cmap \<Rightarrow> 'k list" where
  "cm_Keys cm = map_keys cm"

definition cm_Values :: "('k, 'v) cmap \<Rightarrow> 'v list" where
  "cm_Values cm = map_vals cm"

section \<open>ConcurrentDualKeyMap\<close>

record ('k1, 'k2, 'v) dkm =
  dkm_m1 :: "('k1, 'v) gomap"
  dkm_m2 :: "('k2, 'v) gomap"

text \<open>
  A key carries its two parts (\<open>getKey1\<close>, \<open>getKey2\<close>); \<open>z1\<close> and \<open>z2\<close> are the zero values of
  their types.
\<close>

definition NewConcurrentDualKeyMap :: "('k1, 'k2, 'v) dkm" where
  "NewConcurrentDualKeyMap = \<lparr>dkm_m1 = [], dkm_m2 = []\<rparr>"

definition dkm_Set ::
  "'k1 \<Rightarrow> 'k2 \<Rightarrow> 'k1 \<Rightarrow> 'k2 \<Rightarrow> 'v \<Rightarrow> ('k1, 'k2, 'v) dkm \<Rightarrow> ('k1, 'k2, 'v) dkm" where
  "dkm_Set z1 z2 k1 k2 v d =
     (let d1 = (if k1 \<noteq> z1 then d\<lparr>dkm_m1 := map_put k1 v (dkm_m1 d)\<rparr> else d)
      in if k2 \<noteq> z2 then d1\<lparr>dkm_m2 := map_put k2 v (dkm_m2 d1)\<rparr> else d1)"

definition dkm_Get ::
  "'k1 \<Rightarrow> 'k2 \<Rightarrow> 'k1 \<Rightarrow> 'k2 \<Rightarrow> ('k1, 'k2, 'v) dkm \<Rightarrow> 'v option result \<times> ('k1, 'k2, 'v) dkm" where
  "dkm_Get z1 z2 k1 k2 d = (case (map_get (dkm_m1 d) k1, map_get (dkm_m2 d) k2) of
      (Some v1, Some v2) \<Rightarrow> (if v1 \<noteq> v2 then (Inl ConflictError, d) else (Inr (Some v1), d))
    | (Some v1, None) \<Rightarrow>
        (Inr (Some v1), if k2 \<noteq> z2 then d\<lparr>dkm_m2 := map_put k2 v1 (dkm_m2 d)\<rparr> else d)
    | (None, Some v2) \<Rightarrow>
        (Inr (Some v2), if k1 \<noteq> z1 then d\<lparr>dkm_m1 := map_put k1 v2 (dkm_m1 d)\<rparr> else d)
    | (None, None) \<Rightarrow> (Inr None, d))"

definition dkm_Count :: "('k1, 'k2, 'v) dkm \<Rightarrow> nat" where
  "dkm_Count d = go_Max (length (dkm_m1 d)) (length (dkm_m2 d))"

definition dkm_Remove :: "'k1 \<Rightarrow> 'k2 \<Rightarrow> ('k1, 'k2, 'v) dkm \<Rightarrow> err option \<times> ('k1, 'k2, 'v) dkm" where
  "dkm_Remove k1 k2 d = (case (map_get (dkm_m1 d) k1, map_get (dkm_m2 d) k2) of
      (Some v1, Some v2) \<Rightarrow>
        (if v1 \<noteq> v2 then (Some ConflictError, d)
         else (None, d\<lparr>dkm_m1 := map_del k1 (dkm_m1 d), dkm_m2 := map_del k2 (dkm_m2 d)\<rparr>))
    | (Some v1, None) \<Rightarrow> (None, d\<lparr>dkm_m1 := map_del k1 (dkm_m1 d)\<rparr>)
    | (None, Some v2) \<Rightarrow> (None, d\<lparr>dkm_m2 := map_del k2 (dkm_m2 d)\<rparr>)
    | (None, None) \<Rightarrow> (None, d))"

definition dkm_Keys :: "('k1, 'k2, 'v) dkm \<Rightarrow> 'k1 list \<times> 'k2 list" where
  "dkm_Keys d = (map_keys (dkm_m1 d), map_keys (dkm_m2 d))"

section \<open>Interfaces\<close>

text \<open>
  \<open>Equaler\<close>: what the stores that compare items rely on.  An item may ignore some of its fields
  (\<open>NetworkInfo\<close> ignores the subnet and the Docker ID), so equality is a relation coarser than
  identity.
\<close>

locale equaler =
  fixes Equals :: "'a \<Rightarrow> 'a \<Rightarrow> bool"
  assumes Equals_refl: "Equals x x"
    and Equals_sym: "Equals x y \<Longrightarrow> Equals y x"
    and Equals_trans: "Equals x y \<Longrightarrow> Equals y z \<Longrightarrow> Equals x z"
begin

lemma not_Equals_neq: "\<not> Equals x y \<Longrightarrow> x \<noteq> y"
  using Equals_refl by auto

lemma Equals_cong: "Equals x y \<Longrightarrow> Equals x z \<longleftrightarrow> Equals y z"
  by (blast intro: Equals_sym Equals_trans)

lemma entries_match_Equals:
  "map_ok a \<Longrightarrow> entries_match Equals a b \<longleftrightarrow>
     (\<forall>k v. map_get a k = Some v \<longrightarrow> (\<exists>v'. map_get b k = Some v' \<and> Equals v v'))"
proof (induction a)
  case (Cons x a)
  obtain k v where x: "x = (k, v)" by (cases x)
  have k: "map_get a k = None" using Cons.prems by (simp add: x map_ok_def map_get_None_iff)
  have IH: "entries_match Equals a b \<longleftrightarrow>
     (\<forall>k v. map_get a k = Some v \<longrightarrow> (\<exists>v'. map_get b k = Some v' \<and> Equals v v'))"
    using Cons by (simp add: map_ok_def)
  have step: "(\<forall>k' v'. map_get ((k, v) # a) k' = Some v' \<longrightarrow> R k' v') \<longleftrightarrow>
      R k v \<and> (\<forall>k' v'. map_get a k' = Some v' \<longrightarrow> R k' v')" for R
  proof
    assume L: "\<forall>k' v'. map_get ((k, v) # a) k' = Some v' \<longrightarrow> R k' v'"
    have "R k' v'" if "map_get a k' = Some v'" for k' v'
      using L k that by (cases "k = k'") auto
    then show "R k v \<and> (\<forall>k' v'. map_get a k' = Some v' \<longrightarrow> R k' v')" using L by simp
  qed simp
  show ?case
    unfolding x step using IH by (cases "map_get b k") simp_all
qed simp

end

interpretation ni: equaler "\<lambda>a b. NetworkInfo_Equals a (Some b)"
  by unfold_locales (auto simp: NetworkInfo_Equals_def split: if_splits)

interpretation str: equaler "(=)"
  by unfold_locales auto

lemma mapped_eq:
  "take 12 x = v4_prefix \<Longrightarrow> take 12 y = v4_prefix \<Longrightarrow> drop 12 x = drop 12 y \<Longrightarrow> x = y"
  by (metis append_take_drop_id)

lemma ip_Equal_canon:
  "ip_Equal x y \<longleftrightarrow> (case (ip_To4 x, ip_To4 y) of
     (Some a, Some b) \<Rightarrow> a = b | (None, None) \<Rightarrow> x = y | _ \<Rightarrow> False)"
proof (cases "length x = length y")
  case True
  then show ?thesis using mapped_eq [of x y] by (auto simp: ip_Equal_def ip_To4_def)
next
  case False
  then have "x \<noteq> y" by auto
  with False show ?thesis by (auto simp: ip_Equal_def ip_To4_def)
qed

interpretation ipeq: equaler ip_Equal
  by unfold_locales (auto simp: ip_Equal_canon split: option.splits)

text \<open>The interface of \<open>ConcurrentMap\<close>, as its users rely on it.\<close>

locale concurrent_map =
  fixes get :: "'k \<Rightarrow> 'm \<Rightarrow> 'v option"
    and put :: "'k \<Rightarrow> 'v \<Rightarrow> 'm \<Rightarrow> 'm"
    and remove :: "'k \<Rightarrow> 'm \<Rightarrow> 'm"
    and keys :: "'m \<Rightarrow> 'k list"
  assumes get_put: "get k' (put k v m) = (if k = k' then Some v else get k' m)"
    and get_remove: "get k' (remove k m) = (if k = k' then None else get k' m)"
    and keys_get: "set (keys m) = {k. get k m \<noteq> None}"
begin

lemma get_fold_put:
  "get k (fold (\<lambda>(k, v). put k v) kvs m) =
     (case map_of (rev kvs) k of Some v \<Rightarrow> Some v | None \<Rightarrow> get k m)"
  by (induction kvs arbitrary: m) (auto simp: get_put map_add_def split: option.splits)

lemma get_fold_remove:
  "get k (fold remove ks m) = (if k \<in> set ks then None else get k m)"
  by (induction ks arbitrary: m) (auto simp: get_remove)

lemma keys_put: "set (keys (put k v m)) = insert k (set (keys m))"
  by (auto simp: keys_get get_put)

lemma keys_remove: "set (keys (remove k m)) = set (keys m) - {k}"
  by (auto simp: keys_get get_remove)

lemma remove_all: "set (keys m) \<subseteq> set ks \<Longrightarrow> keys (fold remove ks m) = []"
proof -
  assume "set (keys m) \<subseteq> set ks"
  then have "set (keys (fold remove ks m)) = {}" by (auto simp: keys_get get_fold_remove)
  then show ?thesis by simp
qed

end

interpretation cm: concurrent_map cm_Get cm_Set cm_Remove cm_Keys
  by unfold_locales (auto simp: cm_Get_def cm_Set_def cm_Remove_def cm_Keys_def)

section \<open>Lemmas\<close>

lemma map_ok_length_dom: "map_ok m \<Longrightarrow> card (dom (map_get m)) = length m"
  using distinct_card [of "map_keys m"] by (simp add: distinct_map_keys) (simp add: map_keys_def)

lemma compare_maps_iff:
  assumes "equaler eq" and "map_ok a" and "map_ok b"
  shows "compare_maps eq (Some a) (Some b) \<longleftrightarrow>
    (\<forall>k. rel_option eq (map_get a k) (map_get b k))"
proof -
  have E: "entries_match eq a b \<longleftrightarrow>
      (\<forall>k v. map_get a k = Some v \<longrightarrow> (\<exists>v'. map_get b k = Some v' \<and> eq v v'))"
    using assms(1,2) by (rule equaler.entries_match_Equals)
  have dom_eq: "dom (map_get a) = dom (map_get b)"
    if "length a = length b" "dom (map_get a) \<subseteq> dom (map_get b)"
    using that assms by (intro card_subset_eq) (simp_all add: map_ok_length_dom)
  have len: "length a = length b" if "dom (map_get a) = dom (map_get b)"
    using that assms by (metis map_ok_length_dom)
  show ?thesis
  proof
    assume cmp: "compare_maps eq (Some a) (Some b)"
    then have e: "\<forall>k v. map_get a k = Some v \<longrightarrow> (\<exists>v'. map_get b k = Some v' \<and> eq v v')"
      and "length a = length b" by (auto simp: compare_maps_def E split: if_splits)
    moreover from e have "dom (map_get a) \<subseteq> dom (map_get b)" by fastforce
    ultimately have "dom (map_get a) = dom (map_get b)" by (intro dom_eq)
    then have "map_get b k = None \<longleftrightarrow> map_get a k = None" for k
      by (metis domIff)
    with e show "\<forall>k. rel_option eq (map_get a k) (map_get b k)"
      by (simp add: rel_option_iff split: option.splits) (metis option.distinct(1) option.exhaust option.inject)
  next
    assume r: "\<forall>k. rel_option eq (map_get a k) (map_get b k)"
    then have "map_get b k = None \<longleftrightarrow> map_get a k = None" for k
      by (metis option_rel_Some1 option_rel_Some2 option.exhaust option.rel_distinct(1,2))
    then have "dom (map_get a) = dom (map_get b)" by (intro set_eqI) (simp add: domIff)
    moreover have "\<forall>k v. map_get a k = Some v \<longrightarrow> (\<exists>v'. map_get b k = Some v' \<and> eq v v')"
      using r by (metis option_rel_Some1)
    ultimately show "compare_maps eq (Some a) (Some b)" using len by (simp add: compare_maps_def E)
  qed
qed

lemma slices_match_iff: "length a = length b \<Longrightarrow> slices_match a b \<longleftrightarrow> a = b"
  by (induction a b rule: list_induct2) auto

lemma compareStringSlices_iff: "compareStringSlices a b \<longleftrightarrow> a = b"
  by (auto simp: compareStringSlices_def slices_match_iff)

interpretation slices: equaler compareStringSlices
  by unfold_locales (auto simp: compareStringSlices_iff)

text \<open>A dual-key map never holds an entry under a zero key, and its maps have distinct keys.\<close>

definition dkm_ok :: "'k1 \<Rightarrow> 'k2 \<Rightarrow> ('k1, 'k2, 'v) dkm \<Rightarrow> bool" where
  "dkm_ok z1 z2 d \<longleftrightarrow> map_ok (dkm_m1 d) \<and> map_ok (dkm_m2 d) \<and>
     map_get (dkm_m1 d) z1 = None \<and> map_get (dkm_m2 d) z2 = None"

lemma dkm_ok_New: "dkm_ok z1 z2 NewConcurrentDualKeyMap"
  by (simp add: dkm_ok_def NewConcurrentDualKeyMap_def)

lemma dkm_ok_Set: "dkm_ok z1 z2 d \<Longrightarrow> dkm_ok z1 z2 (dkm_Set z1 z2 k1 k2 v d)"
  by (simp add: dkm_ok_def dkm_Set_def Let_def)

lemma dkm_ok_Get: "dkm_ok z1 z2 d \<Longrightarrow> dkm_ok z1 z2 (snd (dkm_Get z1 z2 k1 k2 d))"
  by (auto simp: dkm_ok_def dkm_Get_def split: option.splits)

lemma dkm_ok_Remove: "dkm_ok z1 z2 d \<Longrightarrow> dkm_ok z1 z2 (snd (dkm_Remove k1 k2 d))"
  by (auto simp: dkm_ok_def dkm_Remove_def split: option.splits)

lemma dkm_Get_Set:
  "dkm_ok z1 z2 d \<Longrightarrow> k1 \<noteq> z1 \<or> k2 \<noteq> z2 \<Longrightarrow>
   fst (dkm_Get z1 z2 k1 k2 (dkm_Set z1 z2 k1 k2 v d)) = Inr (Some v)"
  by (cases "k1 = z1"; cases "k2 = z2") (simp_all add: dkm_ok_def dkm_Get_def dkm_Set_def)

lemma dkm_Get_Some:
  assumes "dkm_Get z1 z2 k1 k2 d = (Inr (Some u), d')"
  shows "(k1 \<noteq> z1 \<longrightarrow> map_get (dkm_m1 d') k1 = Some u) \<and> (k2 \<noteq> z2 \<longrightarrow> map_get (dkm_m2 d') k2 = Some u)"
  using assms
  by (cases "map_get (dkm_m1 d) k1"; cases "map_get (dkm_m2 d) k2") (auto simp: dkm_Get_def split: if_splits)

lemma dkm_Get_Remove:
  assumes "dkm_ok z1 z2 d" and "dkm_Get z1 z2 k1 k2 d = (Inr (Some u), d')"
  shows "fst (dkm_Remove k1 k2 d') = None \<and>
    fst (dkm_Get z1 z2 k1 k2 (snd (dkm_Remove k1 k2 d'))) = Inr None"
proof -
  have ok: "dkm_ok z1 z2 d'" using dkm_ok_Get [OF assms(1), of k1 k2] assms(2) by simp
  have "map_get (dkm_m1 d') k1 = (if k1 = z1 then None else Some u)"
    and "map_get (dkm_m2 d') k2 = (if k2 = z2 then None else Some u)"
    using ok dkm_Get_Some [OF assms(2)] by (auto simp: dkm_ok_def)
  then show ?thesis
    by (cases "k1 = z1"; cases "k2 = z2") (simp_all add: dkm_Remove_def dkm_Get_def)
qed

section \<open>Properties\<close>

text \<open>
  The comparison functions of \<open>common.go\<close> decide, on non-nil maps, whether the two maps
  bind the same keys to equal values (addresses up to their 4- and 16-byte forms), in whatever
  order the maps are visited.
\<close>

theorem Compare_maps_decide:
  assumes "map_ok a" "map_ok b" "map_ok c" "map_ok d" "map_ok e" "map_ok f"
  shows "(CompareIPMaps (Some a) (Some b) \<longleftrightarrow> (\<forall>k. rel_option ip_Equal (map_get a k) (map_get b k)))
    \<and> (CompareStringMaps (Some c) (Some d) \<longleftrightarrow> map_get c = map_get d)
    \<and> (CompareStringArrayMaps (Some e) (Some f) \<longleftrightarrow> map_get e = map_get f)"
  using compare_maps_iff [OF ipeq.equaler_axioms assms(1,2)]
    compare_maps_iff [OF str.equaler_axioms assms(3,4)]
    compare_maps_iff [OF slices.equaler_axioms assms(5,6)]
  by (auto simp: CompareIPMaps_def CompareStringMaps_def CompareStringArrayMaps_def
      option.rel_eq compareStringSlices_iff [abs_def] fun_eq_iff)

theorem Compare_maps_decide_witness:
  "let a = [(''x'', [10, 0, 0, 1])]; b = [(''x'', v4_prefix @ [10, 0, 0, 1])];
       c = [(''x'', ''1''), (''y'', ''2'')]; d = [(''y'', ''2''), (''x'', ''1'')];
       e = [(''x'', [''1''])]; f = [(''x'', [])]
   in (CompareIPMaps (Some a) (Some b) \<longleftrightarrow> (\<forall>k. rel_option ip_Equal (map_get a k) (map_get b k)))
    \<and> (CompareStringMaps (Some c) (Some d) \<longleftrightarrow> map_get c = map_get d)
    \<and> (CompareStringArrayMaps (Some e) (Some f) \<longleftrightarrow> map_get e = map_get f)"
  unfolding Let_def by (rule Compare_maps_decide) (simp_all add: map_ok_def)

text \<open>
  C15: whatever other goroutines do between the two looks of \<open>GetOrAdd\<close>, it never replaces a
  value: it returns the value the map holds afterwards, keeps every other entry the others
  left, adds only a key that was absent at both looks, and runs the factory only then; when the
  factory fails, nothing is stored.
\<close>

theorem GetOrAdd_never_replaces:
  assumes "cm_GetOrAdd others key factory cm w = ((r, added), cm', w')"
  shows "(\<forall>v. r = Inr v \<longrightarrow> cm_Get key cm' = Some v)
    \<and> (\<forall>v. cm_Get key cm = Some v \<longrightarrow> r = Inr v \<and> cm' = cm \<and> w' = w \<and> \<not> added)
    \<and> (\<forall>k v. cm_Get key cm = None \<and> cm_Get k (others cm) = Some v \<longrightarrow> cm_Get k cm' = Some v)
    \<and> (added \<longrightarrow> cm_Get key cm = None \<and> cm_Get key (others cm) = None \<and> r = fst (factory w))
    \<and> (\<forall>e. r = Inl e \<longrightarrow> cm' = others cm \<and> \<not> added \<and> factory w = (Inl e, w'))"
proof (cases "map_get cm key")
  case None
  note first = None
  obtain r' w'' where f: "factory w = (r', w'')" by (cases "factory w")
  show ?thesis
  proof (cases "map_get (others cm) key")
    case None
    have "r = r'" "w' = w''" "added = (\<exists>v. r' = Inr v)"
      "cm' = (case r' of Inl _ \<Rightarrow> others cm | Inr v \<Rightarrow> map_put key v (others cm))"
      using first f None assms by (auto simp: cm_GetOrAdd_def Let_def split: sum.splits)
    with first None f show ?thesis by (cases r') (simp_all add: cm_Get_def)
  next
    case (Some v)
    have "r = Inr v" "w' = w" "\<not> added" "cm' = others cm"
      using first Some assms by (simp_all add: cm_GetOrAdd_def)
    with first Some show ?thesis by (simp add: cm_Get_def)
  qed
next
  case (Some v)
  have "r = Inr v" "w' = w" "\<not> added" "cm' = cm"
    using Some assms by (simp_all add: cm_GetOrAdd_def)
  with Some show ?thesis by (simp add: cm_Get_def)
qed

theorem GetOrAdd_never_replaces_witness:
  "let others = (\<lambda>m. map_put ''b'' 2 m); factory = (\<lambda>w. (Inr 5 :: int result, w + (1 :: nat)));
       cm = [(''a'', 1)]; key = ''c''; r = Inr 5; added = True;
       cm' = [(''a'', 1), (''b'', 2), (''c'', 5)]; w' = 8; w = 7
   in (\<forall>v. r = Inr v \<longrightarrow> cm_Get key cm' = Some v)
    \<and> (\<forall>v. cm_Get key cm = Some v \<longrightarrow> r = Inr v \<and> cm' = cm \<and> w' = w \<and> \<not> added)
    \<and> (\<forall>k v. cm_Get key cm = None \<and> cm_Get k (others cm) = Some v \<longrightarrow> cm_Get k cm' = Some v)
    \<and> (added \<longrightarrow> cm_Get key cm = None \<and> cm_Get key (others cm) = None \<and> r = fst (factory w))
    \<and> (\<forall>e. r = Inl e \<longrightarrow> cm' = others cm \<and> \<not> added \<and> factory w = (Inl e, w'))"
proof -
  have "cm_GetOrAdd (map_put ''b'' 2) ''c'' (\<lambda>w. (Inr (5 :: int), w + 1)) [(''a'', 1)] (7 :: nat)
    = ((Inr 5, True), [(''a'', 1), (''b'', 2), (''c'', 5)], 8)"
    by (simp add: cm_GetOrAdd_def map_put_def)
  from GetOrAdd_never_replaces [OF this] show ?thesis unfolding Let_def .
qed

text \<open>
  \<open>ConcurrentDualKeyMap\<close>: after \<open>Set\<close> with at least one non-zero part, \<open>Get\<close> with the same
  key finds the value without a conflict; a \<open>Get\<close> that finds the value under one non-zero part
  records it under the other; \<open>Remove\<close> then makes both parts unknown.
\<close>

theorem dkm_Set_Get_Remove:
  assumes "dkm_ok z1 z2 d" and "k1 \<noteq> z1 \<or> k2 \<noteq> z2"
  shows "fst (dkm_Get z1 z2 k1 k2 (dkm_Set z1 z2 k1 k2 v d)) = Inr (Some v)
    \<and> (\<forall>u d'. dkm_Get z1 z2 k1 k2 d = (Inr (Some u), d') \<longrightarrow>
         (k1 \<noteq> z1 \<longrightarrow> map_get (dkm_m1 d') k1 = Some u) \<and> (k2 \<noteq> z2 \<longrightarrow> map_get (dkm_m2 d') k2 = Some u) \<and>
         fst (dkm_Remove k1 k2 d') = None \<and>
         fst (dkm_Get z1 z2 k1 k2 (snd (dkm_Remove k1 k2 d'))) = Inr None)
    \<and> dkm_ok z1 z2 (dkm_Set z1 z2 k1 k2 v d)"
proof (intro conjI allI impI)
  show "fst (dkm_Get z1 z2 k1 k2 (dkm_Set z1 z2 k1 k2 v d)) = Inr (Some v)"
    using assms by (rule dkm_Get_Set)
  show "dkm_ok z1 z2 (dkm_Set z1 z2 k1 k2 v d)"
    using assms(1) by (rule dkm_ok_Set)
qed (use dkm_Get_Some [of z1 z2 k1 k2 d] dkm_Get_Remove [OF assms(1), of k1 k2] in auto)

theorem dkm_Set_Get_Remove_witness:
  "let d = \<lparr>dkm_m1 = [(''n1'', 7 :: int)], dkm_m2 = []\<rparr>; z1 = []; z2 = []; k1 = ''n1''; k2 = ''d1''; v = 9
   in fst (dkm_Get z1 z2 k1 k2 (dkm_Set z1 z2 k1 k2 v d)) = Inr (Some v)
    \<and> (\<forall>u d'. dkm_Get z1 z2 k1 k2 d = (Inr (Some u), d') \<longrightarrow>
         (k1 \<noteq> z1 \<longrightarrow> map_get (dkm_m1 d') k1 = Some u) \<and> (k2 \<noteq> z2 \<longrightarrow> map_get (dkm_m2 d') k2 = Some u) \<and>
         fst (dkm_Remove k1 k2 d') = None \<and>
         fst (dkm_Get z1 z2 k1 k2 (snd (dkm_Remove k1 k2 d'))) = Inr None)
    \<and> dkm_ok z1 z2 (dkm_Set z1 z2 k1 k2 v d)"
  unfolding Let_def by (rule dkm_Set_Get_Remove) (simp_all add: dkm_ok_def map_ok_def)

end
