(* ===== verification/Service.thy ===== *)
theory Service
  imports Common
begin

text \<open>
  \<open>plugin/pkg/common/event.go\<close> and \<open>service.go\<close>: events with their subscribers, and the service
  object that announces its life cycle.  An operation of a service returns the new state and
  the events it raises, in order; an event that hands out the service carries the state at the
  moment it is raised.  The operations run one after the other: an operation that another
  goroutine starts between the critical section of \<open>SetNetworks\<close> and its \<open>Raise\<close> is not
  modelled.
\<close>

section \<open>Events\<close>

record 'h event =
  handlers :: "(nat, 'h) gomap"
  nextID :: nat

definition NewEvent :: "'h event" where
  "NewEvent = \<lparr>handlers = [], nextID = 0\<rparr>"

text \<open>\<open>Subscribe\<close> returns the identity that its unsubscribe function captures.\<close>

definition Subscribe :: "'h \<Rightarrow> 'h event \<Rightarrow> nat \<times> 'h event" where
  "Subscribe handler e =
     (let i = nextID e; e1 = e\<lparr>nextID := nextID e + 1\<rparr>
      in (i, e1\<lparr>handlers := map_put i handler (handlers e1)\<rparr>))"

definition unsubscribe :: "nat \<Rightarrow> 'h event \<Rightarrow> 'h event" where
  "unsubscribe i e = e\<lparr>handlers := map_del i (handlers e)\<rparr>"

text \<open>\<open>Raise\<close>: the handler calls it makes.\<close>

definition Raise :: "'d \<Rightarrow> 'h event \<Rightarrow> ('h \<times> 'd) list" where
  "Raise d e = map (\<lambda>(i, handler). (handler, d)) (handlers e)"

section \<open>Services\<close>

record ContainerInfo =
  c_ID :: string
  c_Name :: string
  c_ServiceID :: string
  c_ServiceName :: string
  c_SandboxKey :: string
  c_IPs :: "(string, ip) gomap"
  c_DNSNames :: "(string, string list) gomap"
  c_Endpoints :: "(string, string) gomap"

definition ServiceEndpointModeVip :: string where
  "ServiceEndpointModeVip = ''vip''"

definition ServiceEndpointModeDnsrr :: string where
  "ServiceEndpointModeDnsrr = ''dnsrr''"

record ServiceInfo =
  si_ID :: string
  si_Name :: string
  si_EndpointMode :: string
  si_Networks :: "string list"
  si_VIPs :: "(string, ip) gomap option"
  si_IpamVIPs :: "(string, ip) gomap option"
  si_Containers :: "(string, ContainerInfo) gomap"

record service =
  s_id :: string
  s_name :: string
  s_endpointMode :: string
  s_networks :: "string list"
  s_vips :: "(string, ip) gomap option"
  s_ipamVIPs :: "(string, ip) gomap option"
  s_containers :: "(string, ContainerInfo) gomap"

datatype svc_event =
    OnInitialized ServiceInfo
  | OnVIPsChanged ServiceInfo
  | OnNetworksChanged ServiceInfo
  | OnEndpointModeChanged ServiceInfo
  | OnContainerAdded ContainerInfo
  | OnContainerRemoved ContainerInfo

definition NewService :: "string \<Rightarrow> string \<Rightarrow> service" where
  "NewService i n = \<lparr>s_id = i, s_name = n, s_endpointMode = [], s_networks = [],
     s_vips = Some [], s_ipamVIPs = Some [], s_containers = []\<rparr>"

definition IsInitialized :: "service \<Rightarrow> bool" where
  "IsInitialized s \<longleftrightarrow> s_id s \<noteq> [] \<and> s_name s \<noteq> [] \<and> length (s_networks s) > 0 \<and>
     (s_endpointMode s = ServiceEndpointModeDnsrr \<or>
      (s_endpointMode s = ServiceEndpointModeVip \<and>
       (case s_ipamVIPs s of None \<Rightarrow> False | Some m \<Rightarrow> length m > 0)))"

definition GetInfo :: "service \<Rightarrow> ServiceInfo" where
  "GetInfo s = \<lparr>si_ID = s_id s, si_Name = s_name s, si_EndpointMode = s_endpointMode s,
     si_Networks = s_networks s, si_VIPs = s_vips s, si_IpamVIPs = s_ipamVIPs s,
     si_Containers = s_containers s\<rparr>"

definition SetVIPs :: "(string, ip) gomap option \<Rightarrow> service \<Rightarrow> service \<times> svc_event list" where
  "SetVIPs vips s =
     (let vipsChanged = CompareIPMaps (s_vips s) vips;
          s' = s\<lparr>s_vips := vips\<rparr>
      in (s', if IsInitialized s' \<and> vipsChanged then [OnVIPsChanged (GetInfo s')] else []))"

definition AddContainer :: "ContainerInfo \<Rightarrow> service \<Rightarrow> service \<times> svc_event list" where
  "AddContainer container s =
     (let s' = s\<lparr>s_containers := map_put (c_ID container) container (s_containers s)\<rparr>
      in (s', if IsInitialized s' then [OnContainerAdded container] else []))"

definition RemoveContainer :: "string \<Rightarrow> service \<Rightarrow> service \<times> svc_event list" where
  "RemoveContainer containerID s = (case map_get (s_containers s) containerID of
      Some container \<Rightarrow>
        (let s' = s\<lparr>s_containers := map_del (c_ID container) (s_containers s)\<rparr>
         in (s', if IsInitialized s' then [OnContainerRemoved container] else []))
    | None \<Rightarrow> (s, []))"

definition SetNetworks ::
  "string list \<Rightarrow> (string, ip) gomap option \<Rightarrow> service \<Rightarrow> service \<times> svc_event list" where
  "SetNetworks networks ipamVIPs s =
     (let wasInitialized = IsInitialized s;
          (deletedNetworks, addedNetworks) = lo_Difference networks (s_networks s);
          ipamVIPsChanged = CompareIPMaps (s_ipamVIPs s) ipamVIPs;
          s' = s\<lparr>s_networks := networks, s_ipamVIPs := ipamVIPs\<rparr>
      in (s', if IsInitialized s'
              then if \<not> wasInitialized then [OnInitialized (GetInfo s')]
                   else if ipamVIPsChanged \<or> length deletedNetworks > 0 \<or> length addedNetworks > 0
                        then [OnNetworksChanged (GetInfo s')] else []
              else []))"

definition SetEndpointMode :: "string \<Rightarrow> service \<Rightarrow> service \<times> svc_event list" where
  "SetEndpointMode endpointMode s =
     (let wasInitialized = IsInitialized s;
          endpointModeChanged = (endpointMode \<noteq> s_endpointMode s);
          s' = s\<lparr>s_endpointMode := endpointMode\<rparr>
      in (s', if IsInitialized s'
              then if \<not> wasInitialized then [OnInitialized (GetInfo s')]
                   else if endpointModeChanged then [OnEndpointModeChanged (GetInfo s')] else []
              else []))"

section \<open>Runs of a service\<close>

datatype svc_op =
    Op_SetVIPs "(string, ip) gomap option"
  | Op_AddContainer ContainerInfo
  | Op_RemoveContainer string
  | Op_SetNetworks "string list" "(string, ip) gomap option"
  | Op_SetEndpointMode string

fun svc_step :: "svc_op \<Rightarrow> service \<Rightarrow> service \<times> svc_event list" where
  "svc_step (Op_SetVIPs v) s = SetVIPs v s"
| "svc_step (Op_AddContainer c) s = AddContainer c s"
| "svc_step (Op_RemoveContainer i) s = RemoveContainer i s"
| "svc_step (Op_SetNetworks ns v) s = SetNetworks ns v s"
| "svc_step (Op_SetEndpointMode m) s = SetEndpointMode m s"

fun svc_run :: "svc_op list \<Rightarrow> service \<Rightarrow> service \<times> svc_event list" where
  "svc_run [] s = (s, [])"
| "svc_run (op # ops) s =
     (case svc_step op s of (s1, es1) \<Rightarrow> (case svc_run ops s1 of (s2, es2) \<Rightarrow> (s2, es1 @ es2)))"

text \<open>
  What a subscriber knows of the containers: it takes the set handed out with \<open>OnInitialized\<close>
  and follows the later additions and removals.  \<open>None\<close> before the first \<open>OnInitialized\<close>.
\<close>

fun observe :: "(string \<Rightarrow> ContainerInfo option) option \<Rightarrow> svc_event \<Rightarrow>
  (string \<Rightarrow> ContainerInfo option) option"
where
  "observe k (OnInitialized i) = Some (map_get (si_Containers i))"
| "observe k (OnContainerAdded c) = map_option (\<lambda>m. m(c_ID c \<mapsto> c)) k"
| "observe k (OnContainerRemoved c) = map_option (\<lambda>m. m(c_ID c := None)) k"
| "observe k _ = k"

section \<open>Lemmas\<close>

lemma IsInitialized_containers [simp]:
  "IsInitialized (s\<lparr>s_containers := c\<rparr>) = IsInitialized s"
  by (simp add: IsInitialized_def)

lemma IsInitialized_vips [simp]: "IsInitialized (s\<lparr>s_vips := v\<rparr>) = IsInitialized s"
  by (simp add: IsInitialized_def)

lemma GetInfo_containers [simp]: "si_Containers (GetInfo s) = s_containers s"
  by (simp add: GetInfo_def)

text \<open>The containers are stored under their own identifiers.\<close>

definition svc_ok :: "service \<Rightarrow> bool" where
  "svc_ok s \<longleftrightarrow> (\<forall>k c. map_get (s_containers s) k = Some c \<longrightarrow> c_ID c = k)"

lemmas svc_op_defs = SetVIPs_def AddContainer_def RemoveContainer_def SetNetworks_def
  SetEndpointMode_def Let_def

lemma svc_ok_New: "svc_ok (NewService i n)"
  by (simp add: svc_ok_def NewService_def)

lemma svc_ok_step: "svc_ok s \<Longrightarrow> svc_ok (fst (svc_step op s))"
  by (cases op) (auto simp: svc_ok_def svc_op_defs split: option.splits prod.splits)

text \<open>What a step announces, by whether the service was and is initialised.\<close>

lemma svc_step_uninit: "\<not> IsInitialized (fst (svc_step op s)) \<Longrightarrow> snd (svc_step op s) = []"
  by (cases op) (auto simp: svc_op_defs split: option.splits prod.splits)

lemma svc_step_becomes_init:
  assumes "\<not> IsInitialized s" and "IsInitialized (fst (svc_step op s))"
  shows "snd (svc_step op s) = [OnInitialized (GetInfo (fst (svc_step op s)))]"
  using assms by (cases op) (auto simp: svc_op_defs split: option.splits prod.splits if_splits)

lemma svc_step_stays_init:
  assumes "svc_ok s" and "IsInitialized s" and "IsInitialized (fst (svc_step op s))"
    and "k = Some (map_get (s_containers s))"
  shows "foldl observe k (snd (svc_step op s)) = Some (map_get (s_containers (fst (svc_step op s))))"
  using assms
  by (cases op) (auto simp: svc_op_defs svc_ok_def map_get_put_fun map_get_del_fun
      split: option.splits prod.splits if_splits)

lemma svc_run_observe:
  assumes "svc_ok s" and "IsInitialized s \<longrightarrow> k = Some (map_get (s_containers s))"
    and "IsInitialized (fst (svc_run ops s))"
  shows "foldl observe k (snd (svc_run ops s)) = Some (map_get (s_containers (fst (svc_run ops s))))"
  using assms
proof (induction ops arbitrary: s k)
  case (Cons op ops)
  let ?s1 = "fst (svc_step op s)" and ?es1 = "snd (svc_step op s)"
  have "svc_ok ?s1" using Cons.prems(1) by (rule svc_ok_step)
  moreover have "IsInitialized ?s1 \<longrightarrow> foldl observe k ?es1 = Some (map_get (s_containers ?s1))"
  proof (cases "IsInitialized s")
    case True
    then show ?thesis
      using Cons.prems(1,2) svc_step_stays_init [of s op k] by simp
  next
    case False
    then show ?thesis using svc_step_becomes_init [OF False, of op] by auto
  qed
  moreover have "IsInitialized (fst (svc_run ops ?s1))"
    using Cons.prems(3) by (simp add: case_prod_unfold)
  ultimately have "foldl observe (foldl observe k ?es1) (snd (svc_run ops ?s1)) =
      Some (map_get (s_containers (fst (svc_run ops ?s1))))"
    by (rule Cons.IH)
  then show ?case by (simp add: case_prod_unfold)
qed simp

lemma svc_run_first:
  assumes "\<not> IsInitialized s" and "snd (svc_run ops s) \<noteq> []"
  shows "\<exists>i. hd (snd (svc_run ops s)) = OnInitialized i"
  using assms
proof (induction ops arbitrary: s)
  case (Cons op ops)
  show ?case
  proof (cases "IsInitialized (fst (svc_step op s))")
    case True
    then show ?thesis
      using svc_step_becomes_init [OF Cons.prems(1) True] by (simp add: case_prod_unfold)
  next
    case False
    then show ?thesis
      using Cons svc_step_uninit [OF False] by (simp add: case_prod_unfold)
  qed
qed simp

section \<open>Properties\<close>



text \<open>
  \<open>SetVIPs\<close> on an initialised service raises \<open>OnVIPsChanged\<close> exactly when the new addresses
  are the ones it already had: the variable \<open>vipsChanged\<close> holds the result of \<open>CompareIPMaps\<close>,
  which is true for equal maps.
\<close>

theorem SetVIPs_announces_equal_maps:
  assumes "IsInitialized s" and "s_vips s = Some old" and "map_ok old" and "map_ok new"
  shows "snd (SetVIPs (Some new) s) \<noteq> [] \<longleftrightarrow>
    (\<forall>k. rel_option ip_Equal (map_get old k) (map_get new k))"
  using assms compare_maps_iff [OF ipeq.equaler_axioms assms(3,4)]
  by (simp add: SetVIPs_def CompareIPMaps_def Let_def)

theorem SetVIPs_announces_equal_maps_witness:
  "let s = \<lparr>s_id = ''s1'', s_name = ''web'', s_endpointMode = ''dnsrr'', s_networks = [''n1''],
         s_vips = Some [], s_ipamVIPs = None, s_containers = []\<rparr>
   in snd (SetVIPs (Some [(''n1'', [10, 0, 0, 4])]) s) \<noteq> [] \<longleftrightarrow>
    (\<forall>k. rel_option ip_Equal (map_get [] k) (map_get [(''n1'', [10, 0, 0, 4])] k))"
  unfolding Let_def
  by (rule SetVIPs_announces_equal_maps)
    (simp_all add: IsInitialized_def ServiceEndpointModeDnsrr_def map_ok_def)

end
