(* ===== verification/Init_Manager.thy ===== *)
theory Init_Manager
  imports Prelude
begin

text \<open>
  \<open>plugin/pkg/common/init_manager.go\<close>: an initialisation that runs once in the background.  The
  callers of \<open>Init\<close>, \<open>Cancel\<close> and the background goroutine interleave, so the manager is a
  step relation; the goroutine's program counter, the number of times the callback was called
  and its result are ghost fields.
\<close>

datatype im_pc =
    Idle                              \<comment> \<open>\<open>Init\<close> has not run\<close>
  | Running                           \<comment> \<open>inside \<open>initFunc\<close>\<close>
  | Returned "err option"             \<comment> \<open>\<open>initFunc\<close> returned, its result not yet stored\<close>
  | Stored                            \<comment> \<open>before the deferred \<open>close(m.done)\<close>\<close>
  | Closed

record InitManager =
  once_fired :: bool
  im_done :: bool
  cancel_set :: bool
  ctx_cancelled :: bool
  im_err :: "err option"
  pc :: im_pc
  calls :: nat
  outcome :: "err option option"

definition NewInitManager :: InitManager where
  "NewInitManager = \<lparr>once_fired = False, im_done = False, cancel_set = False,
     ctx_cancelled = False, im_err = None, pc = Idle, calls = 0, outcome = None\<rparr>"

datatype im_label = Init | Return "err option" | Store | Close | Cancel

text \<open>\<open>Init\<close>: the body of \<open>once.Do\<close> runs the first time only.\<close>

definition im_Init :: "InitManager \<Rightarrow> InitManager" where
  "im_Init m = (if once_fired m then m
     else m\<lparr>once_fired := True, cancel_set := True, pc := Running, calls := calls m + 1\<rparr>)"

definition im_IsDone :: "InitManager \<Rightarrow> bool" where
  "im_IsDone m \<longleftrightarrow> im_done m"

text \<open>\<open>Wait\<close>: \<open>None\<close> while it blocks, otherwise the error it returns.\<close>

definition im_Wait :: "InitManager \<Rightarrow> err option option" where
  "im_Wait m = (if im_done m then Some (im_err m) else None)"

definition im_Cancel :: "InitManager \<Rightarrow> InitManager" where
  "im_Cancel m = (if cancel_set m then m\<lparr>ctx_cancelled := True\<rparr> else m)"

text \<open>The goroutine started by \<open>Init\<close>, one statement per step.\<close>

inductive im_step :: "InitManager \<Rightarrow> im_label \<Rightarrow> InitManager \<Rightarrow> bool" where
  step_Init: "im_step m Init (im_Init m)"
| step_Cancel: "im_step m Cancel (im_Cancel m)"
| step_Return: "pc m = Running \<Longrightarrow> im_step m (Return e) (m\<lparr>pc := Returned e, outcome := Some e\<rparr>)"
| step_Store: "pc m = Returned e \<Longrightarrow>
    im_step m Store (m\<lparr>pc := Stored, im_err := (case e of None \<Rightarrow> im_err m | Some _ \<Rightarrow> e)\<rparr>)"
| step_Close: "pc m = Stored \<Longrightarrow> im_step m Close (m\<lparr>pc := Closed, im_done := True\<rparr>)"

inductive im_reach :: "InitManager \<Rightarrow> bool" where
  reach_New: "im_reach NewInitManager"
| reach_step: "im_reach m \<Longrightarrow> im_step m l m' \<Longrightarrow> im_reach m'"

inductive_cases im_stepE: "im_step m l m'"

section \<open>Lemmas\<close>

definition im_inv :: "InitManager \<Rightarrow> bool" where
  "im_inv m \<longleftrightarrow>
     calls m = (if once_fired m then 1 else 0) \<and>
     cancel_set m = once_fired m \<and>
     im_done m = (pc m = Closed) \<and>
     (case pc m of
        Idle \<Rightarrow> \<not> once_fired m \<and> outcome m = None \<and> im_err m = None
      | Running \<Rightarrow> once_fired m \<and> outcome m = None \<and> im_err m = None
      | Returned e \<Rightarrow> once_fired m \<and> outcome m = Some e \<and> im_err m = None
      | _ \<Rightarrow> once_fired m \<and> outcome m = Some (im_err m))"

lemma im_inv_New: "im_inv NewInitManager"
  by (simp add: im_inv_def NewInitManager_def)

lemma im_inv_step: "im_step m l m' \<Longrightarrow> im_inv m \<Longrightarrow> im_inv m'"
  by (elim im_stepE)
    (auto simp: im_inv_def im_Init_def im_Cancel_def split: im_pc.splits option.splits)

lemma im_inv_reach: "im_reach m \<Longrightarrow> im_inv m"
  by (induction rule: im_reach.induct) (auto intro: im_inv_New im_inv_step)

text \<open>Once \<open>Init\<close> has run, the goroutine can always go on until the manager is done.\<close>

lemma im_progress:
  assumes "pc m \<noteq> Idle" and "pc m \<noteq> Closed"
  shows "\<exists>l m'. l \<noteq> Init \<and> l \<noteq> Cancel \<and> im_step m l m'"
  using assms by (cases "pc m") (auto intro: im_step.intros)

section \<open>Properties\<close>


definition im_final :: InitManager where
  "im_final = NewInitManager\<lparr>once_fired := True, cancel_set := True, im_done := True,
     im_err := Some EtcdError, pc := Closed, calls := 1, outcome := Some (Some EtcdError)\<rparr>"

lemma im_final_reach: "im_reach im_final"
proof -
  let ?m1 = "im_Init NewInitManager"
  let ?m2 = "?m1\<lparr>pc := Returned (Some EtcdError), outcome := Some (Some EtcdError)\<rparr>"
  let ?m3 = "?m2\<lparr>pc := Stored, im_err := (case Some EtcdError of None \<Rightarrow> im_err ?m2
    | Some _ \<Rightarrow> Some EtcdError)\<rparr>"
  have "im_reach ?m1" using reach_New step_Init by (rule reach_step)
  moreover have "im_step ?m1 (Return (Some EtcdError)) ?m2"
    by (rule step_Return) (simp add: im_Init_def NewInitManager_def)
  ultimately have "im_reach ?m2" by (rule reach_step)
  moreover have "im_step ?m2 Store ?m3" by (rule step_Store) simp
  ultimately have "im_reach ?m3" by (rule reach_step)
  moreover have "im_step ?m3 Close (?m3\<lparr>pc := Closed, im_done := True\<rparr>)" by (rule step_Close) simp
  ultimately have "im_reach (?m3\<lparr>pc := Closed, im_done := True\<rparr>)" by (rule reach_step)
  then show ?thesis by (simp add: im_final_def im_Init_def NewInitManager_def)
qed


end
