(* ===== verification/Etcd.thy ===== *)
theory Etcd
  imports Common
begin

text \<open>
  \<open>plugin/pkg/etcd/client.go\<close> and \<open>connection.go\<close> over a model of the etcd service.  The service
  and its client library, the clock and the random source are not part of the repository: they
  are the fields of an environment \<open>env\<close>, and what the code relies on is \<open>etcd_contract\<close>, the
  documented behaviour of etcd: a transaction compares, reads and writes one keyspace
  atomically; a request that reports an error was carried out or was not.  Between two requests
  the other nodes may change the keyspace; \<open>rely\<close> says how.
\<close>

section \<open>Requests\<close>

type_synonym keyspace = "string \<Rightarrow> string option"

datatype cmp =
    ValueEq string string      \<comment> \<open>\<open>Compare(Value(k), "=", v)\<close>\<close>
  | ValueNe string string      \<comment> \<open>\<open>Compare(Value(k), "!=", v)\<close>\<close>
  | CreateRev0 string          \<comment> \<open>\<open>Compare(CreateRevision(k), "=", 0)\<close>\<close>

datatype eop =
    OpPut string string
  | OpDelete string
  | OpDeletePrefix string
  | OpGet string
  | OpGetPrefix string

datatype eresp = RespPut | RespDelete | RespRange "(string \<times> string) list"

record txn_resp =
  Succeeded :: bool
  Responses :: "eresp list"

text \<open>A comparison of the value of a key that does not exist is false, whatever the operator.\<close>

fun cmp_holds :: "keyspace \<Rightarrow> cmp \<Rightarrow> bool" where
  "cmp_holds m (ValueEq k v) = (m k = Some v)"
| "cmp_holds m (ValueNe k v) = (m k \<noteq> None \<and> m k \<noteq> Some v)"
| "cmp_holds m (CreateRev0 k) = (m k = None)"

fun op_effect :: "eop \<Rightarrow> keyspace \<Rightarrow> keyspace" where
  "op_effect (OpPut k v) m = m(k \<mapsto> v)"
| "op_effect (OpDelete k) m = m(k := None)"
| "op_effect (OpDeletePrefix p) m = (\<lambda>k. if prefix p k then None else m k)"
| "op_effect (OpGet k) m = m"
| "op_effect (OpGetPrefix p) m = m"

fun resp_ok :: "eop \<Rightarrow> keyspace \<Rightarrow> eresp \<Rightarrow> bool" where
  "resp_ok (OpPut k v) m r \<longleftrightarrow> r = RespPut"
| "resp_ok (OpDelete k) m r \<longleftrightarrow> r = RespDelete"
| "resp_ok (OpDeletePrefix p) m r \<longleftrightarrow> r = RespDelete"
| "resp_ok (OpGet k) m r \<longleftrightarrow> r = RespRange (case m k of None \<Rightarrow> [] | Some v \<Rightarrow> [(k, v)])"
| "resp_ok (OpGetPrefix p) m r \<longleftrightarrow> (\<exists>kvs. r = RespRange kvs \<and> distinct (map fst kvs) \<and>
     (\<forall>k v. (k, v) \<in> set kvs \<longleftrightarrow> prefix p k \<and> m k = Some v))"

fun run_ops :: "eop list \<Rightarrow> keyspace \<Rightarrow> eresp list \<Rightarrow> keyspace \<Rightarrow> bool" where
  "run_ops [] m [] m' \<longleftrightarrow> m' = m"
| "run_ops (op # ops) m (r # rs) m' \<longleftrightarrow> resp_ok op m r \<and> run_ops ops (op_effect op m) rs m'"
| "run_ops _ _ _ _ \<longleftrightarrow> False"

definition txn_effect :: "cmp list \<Rightarrow> eop list \<Rightarrow> eop list \<Rightarrow> keyspace \<Rightarrow> keyspace" where
  "txn_effect cs ts es m = fold op_effect (if list_all (cmp_holds m) cs then ts else es) m"

section \<open>The environment\<close>

text \<open>
  \<open>conn_new\<close> is \<open>clientv3.New\<close>: \<open>None\<close> is a connection, \<open>Some b\<close> an error, where \<open>b\<close> says whether
  the client it returns with the error is nil.  Times are instants in nanoseconds.
\<close>

record 'w env =
  conn_new :: "'w \<Rightarrow> bool option \<times> 'w"
  commit :: "cmp list \<Rightarrow> eop list \<Rightarrow> eop list \<Rightarrow> ('w, txn_resp) io"
  clock_now :: "'w \<Rightarrow> int \<times> 'w"
  rand_intn :: "nat \<Rightarrow> 'w \<Rightarrow> nat \<times> 'w"
  fmt_time :: "int \<Rightarrow> string"
  parse_time :: "string \<Rightarrow> int option"

definition etcd_contract ::
  "'w env \<Rightarrow> ('w \<Rightarrow> keyspace) \<Rightarrow> (keyspace \<Rightarrow> keyspace \<Rightarrow> bool) \<Rightarrow> bool"
where
  "etcd_contract E kv rely \<longleftrightarrow>
     reflp rely \<and> transp rely \<and>
     (\<forall>w. rely (kv w) (kv (snd (conn_new E w)))) \<and>
     (\<forall>w. kv (snd (clock_now E w)) = kv w) \<and>
     (\<forall>n w. kv (snd (rand_intn E n w)) = kv w \<and> (0 < n \<longrightarrow> fst (rand_intn E n w) < n)) \<and>
     (\<forall>cs ts es w. \<exists>m. rely (kv w) m \<and>
        (case commit E cs ts es w of
           (Inr r, w') \<Rightarrow> Succeeded r = list_all (cmp_holds m) cs \<and>
              run_ops (if Succeeded r then ts else es) m (Responses r) (kv w')
         | (Inl e, w') \<Rightarrow> kv w' = m \<or> kv w' = txn_effect cs ts es m))"

text \<open>Requests outside a transaction are transactions of one operation.\<close>

definition etcd_Put :: "'w env \<Rightarrow> string \<Rightarrow> string \<Rightarrow> ('w, unit) io" where
  "etcd_Put E k v w = (case commit E [] [OpPut k v] [] w of
      (Inl e, w') \<Rightarrow> (Inl e, w') | (Inr _, w') \<Rightarrow> (Inr (), w'))"

definition etcd_Delete :: "'w env \<Rightarrow> string \<Rightarrow> ('w, unit) io" where
  "etcd_Delete E k w = (case commit E [] [OpDelete k] [] w of
      (Inl e, w') \<Rightarrow> (Inl e, w') | (Inr _, w') \<Rightarrow> (Inr (), w'))"

definition etcd_DeletePrefix :: "'w env \<Rightarrow> string \<Rightarrow> ('w, unit) io" where
  "etcd_DeletePrefix E p w = (case commit E [] [OpDeletePrefix p] [] w of
      (Inl e, w') \<Rightarrow> (Inl e, w') | (Inr _, w') \<Rightarrow> (Inr (), w'))"

fun range_kvs :: "eresp list \<Rightarrow> nat \<Rightarrow> (string \<times> string) list" where
  "range_kvs (RespRange kvs # rs) 0 = kvs"
| "range_kvs (_ # rs) 0 = []"
| "range_kvs (_ # rs) (Suc n) = range_kvs rs n"
| "range_kvs [] n = []"

definition etcd_Get :: "'w env \<Rightarrow> string \<Rightarrow> ('w, (string \<times> string) list) io" where
  "etcd_Get E k w = (case commit E [] [OpGet k] [] w of
      (Inl e, w') \<Rightarrow> (Inl e, w') | (Inr r, w') \<Rightarrow> (Inr (range_kvs (Responses r) 0), w'))"

definition etcd_GetPrefix :: "'w env \<Rightarrow> string \<Rightarrow> ('w, (string \<times> string) list) io" where
  "etcd_GetPrefix E p w = (case commit E [] [OpGetPrefix p] [] w of
      (Inl e, w') \<Rightarrow> (Inl e, w') | (Inr r, w') \<Rightarrow> (Inr (range_kvs (Responses r) 0), w'))"

section \<open>Clients and connections\<close>

record etcdClient =
  dialTimeout :: int
  client_prefix :: string
  endpoints :: "string list"

definition NewEtcdClient :: "string list \<Rightarrow> int \<Rightarrow> string \<Rightarrow> etcdClient" where
  "NewEtcdClient eps t p =
     \<lparr>dialTimeout = t, client_prefix = trim_right CHR ''/'' p, endpoints = eps\<rparr>"

definition GetKey :: "etcdClient \<Rightarrow> string list \<Rightarrow> string" where
  "GetKey c subKeys = (if length subKeys = 0 then client_prefix c
     else client_prefix c @ ''/'' @ join ''/'' subKeys)"

definition CreateSubClient :: "etcdClient \<Rightarrow> string list \<Rightarrow> etcdClient" where
  "CreateSubClient c subKeys = NewEtcdClient (endpoints c) (dialTimeout c) (GetKey c subKeys)"

text \<open>The events of a watch channel; the value of a DELETE event is empty.\<close>

datatype watch_event = EvPut string string | EvDelete string

text \<open>\<open>Watch\<close> up to the start of the handler, which the components model on its events.\<close>

definition client_Watch :: "'w env \<Rightarrow> ('w, unit) io" where
  "client_Watch E w = (case conn_new E w of
      (Some _, w1) \<Rightarrow> (Inl ConnectError, w1) | (None, w1) \<Rightarrow> (Inr (), w1))"

text \<open>
  \<open>WithConnection\<close>.  The deferred \<open>Close\<close> runs also when \<open>NewConnection\<close> failed; on a nil client
  it is a nil dereference.
\<close>

definition WithConnection :: "'w env \<Rightarrow> ('w, 'a) io \<Rightarrow> ('w, 'a) io" where
  "WithConnection E fn w = (case conn_new E w of
      (Some client_nil, w1) \<Rightarrow> (Inl (if client_nil then Panic ''nil client'' else ConnectError), w1)
    | (None, w1) \<Rightarrow> fn w1)"

definition PutIfNewOrChanged :: "'w env \<Rightarrow> string \<Rightarrow> string \<Rightarrow> ('w, bool) io" where
  "PutIfNewOrChanged E key value w =
     (case commit E [CreateRev0 key] [OpPut key value] [] w of
        (Inl e, w1) \<Rightarrow> (Inl e, w1)
      | (Inr resp, w1) \<Rightarrow>
          if \<not> Succeeded resp
          then (case commit E [ValueNe key value] [OpPut key value] [] w1 of
                  (Inl e, w2) \<Rightarrow> (Inl e, w2)
                | (Inr resp2, w2) \<Rightarrow> (Inr (Succeeded resp2), w2))
          else (Inr (Succeeded resp), w1))"

text \<open>
  \<open>WaitUntilAvailable\<close>; \<open>n\<close> is the number of attempts left.  The variable \<open>err\<close> that the final
  error wraps is shadowed inside the loop and still nil there.
\<close>

fun wait_attempts :: "'w env \<Rightarrow> nat \<Rightarrow> ('w, unit) io" where
  "wait_attempts E 0 w = (Inl RetriesExhausted, w)"
| "wait_attempts E (Suc n) w =
     (case conn_new E w of
        (Some _, w1) \<Rightarrow> wait_attempts E n w1
      | (None, w1) \<Rightarrow>
          (case etcd_Get E ''healthcheck'' w1 of
             (Inr _, w2) \<Rightarrow> (Inr (), w2)
           | (Inl _, w2) \<Rightarrow> wait_attempts E n w2))"

definition WaitUntilAvailable :: "'w env \<Rightarrow> int \<Rightarrow> ('w, unit) io" where
  "WaitUntilAvailable E maxRetries w = wait_attempts E (nat maxRetries) w"

section \<open>A reference environment\<close>

text \<open>
  An etcd that never fails and has no other clients, over a finite keyspace and a clock; it
  shows that \<open>etcd_contract\<close> can hold and is the environment of the concrete examples.
\<close>

type_synonym ref_world = "(string, string) gomap \<times> int"

fun ref_op :: "eop \<Rightarrow> (string, string) gomap \<Rightarrow> eresp \<times> (string, string) gomap" where
  "ref_op (OpPut k v) m = (RespPut, map_put k v m)"
| "ref_op (OpDelete k) m = (RespDelete, map_del k m)"
| "ref_op (OpDeletePrefix p) m = (RespDelete, filter (\<lambda>(k, v). \<not> prefix p k) m)"
| "ref_op (OpGet k) m =
     (RespRange (case map_get m k of None \<Rightarrow> [] | Some v \<Rightarrow> [(k, v)]), m)"
| "ref_op (OpGetPrefix p) m =
     (RespRange (filter (\<lambda>(k, v). prefix p k) (AList.clearjunk m)), m)"

fun ref_ops :: "eop list \<Rightarrow> (string, string) gomap \<Rightarrow> eresp list \<times> (string, string) gomap" where
  "ref_ops [] m = ([], m)"
| "ref_ops (op # ops) m =
     (case ref_op op m of (r, m1) \<Rightarrow> (case ref_ops ops m1 of (rs, m2) \<Rightarrow> (r # rs, m2)))"

definition ref_commit :: "cmp list \<Rightarrow> eop list \<Rightarrow> eop list \<Rightarrow> (ref_world, txn_resp) io" where
  "ref_commit cs ts es w =
     (let ok = list_all (cmp_holds (map_get (fst w))) cs;
          (rs, m) = ref_ops (if ok then ts else es) (fst w)
      in (Inr \<lparr>Succeeded = ok, Responses = rs\<rparr>, (m, snd w)))"

definition ref_env :: "ref_world env" where
  "ref_env = \<lparr>conn_new = (\<lambda>w. (None, w)), commit = ref_commit,
     clock_now = (\<lambda>w. (snd w, (fst w, snd w + 1))),
     rand_intn = (\<lambda>n w. (0, w)),
     fmt_time = (\<lambda>t. if t < 0 then ''-'' @ format_dec (nat (- t)) else format_dec (nat t)),
     parse_time = (\<lambda>s. if s \<noteq> [] \<and> hd s = CHR ''-'' then map_option (\<lambda>n. - int n) (parse_dec (tl s))
        else map_option int (parse_dec s))\<rparr>"

lemma ref_env_simps [simp]:
  "conn_new ref_env w = (None, w)"
  "commit ref_env = ref_commit"
  "clock_now ref_env w = (snd w, (fst w, snd w + 1))"
  "rand_intn ref_env n w = (0, w)"
  by (simp_all add: ref_env_def)

abbreviation ref_kv :: "ref_world \<Rightarrow> keyspace" where
  "ref_kv w \<equiv> map_get (fst w)"

section \<open>Lemmas\<close>

lemma map_get_clearjunk: "map_get (AList.clearjunk m) = map_get m"
  by (simp add: map_get_def map_of_clearjunk)

lemma clearjunk_mem: "(k, v) \<in> set (AList.clearjunk m) \<longleftrightarrow> map_get m k = Some v"
  using map_get_Some_iff [of "AList.clearjunk m" k v]
  by (simp add: map_get_clearjunk map_ok_def)

lemma ref_op_ok:
  "ref_op op m = (r, m') \<Longrightarrow> resp_ok op (map_get m) r \<and> map_get m' = op_effect op (map_get m)"
proof (cases op)
  case (OpGetPrefix p)
  assume "ref_op op m = (r, m')"
  then have "r = RespRange (filter (\<lambda>(k, v). prefix p k) (AList.clearjunk m))" "m' = m"
    using OpGetPrefix by auto
  moreover have "distinct (map fst (filter (\<lambda>(k, v). prefix p k) (AList.clearjunk m)))"
    by (simp add: distinct_map_filter)
  ultimately show ?thesis using OpGetPrefix by (simp add: clearjunk_mem conj_commute)
next
  case (OpDeletePrefix p)
  assume "ref_op op m = (r, m')"
  moreover have "map_get (filter (\<lambda>(k, v). \<not> prefix p k) m) k = op_effect op (map_get m) k" for k
    using map_get_filter_key [of "\<lambda>k. \<not> prefix p k" m k] OpDeletePrefix by simp
  ultimately show ?thesis using OpDeletePrefix by auto
qed (auto simp: map_get_put_fun map_get_del_fun)

lemma ref_ops_ok: "ref_ops ops m = (rs, m') \<Longrightarrow> run_ops ops (map_get m) rs (map_get m')"
proof (induction ops arbitrary: m rs)
  case (Cons op ops)
  obtain r m1 where 1: "ref_op op m = (r, m1)" by (cases "ref_op op m")
  obtain rs2 m2 where 2: "ref_ops ops m1 = (rs2, m2)" by (cases "ref_ops ops m1")
  have "rs = r # rs2" and "m' = m2" using Cons.prems 1 2 by auto
  moreover have "run_ops ops (map_get m1) rs2 (map_get m')"
    using 2 \<open>m' = m2\<close> by (intro Cons.IH) simp
  ultimately show ?case using ref_op_ok [OF 1] by simp
qed simp

lemma etcd_contract_ref: "etcd_contract ref_env ref_kv (=)"
proof -
  have "\<exists>m. ref_kv w = m \<and> (case ref_commit cs ts es w of
      (Inr r, w') \<Rightarrow> Succeeded r = list_all (cmp_holds m) cs \<and>
         run_ops (if Succeeded r then ts else es) m (Responses r) (ref_kv w')
    | (Inl e, w') \<Rightarrow> ref_kv w' = m \<or> ref_kv w' = txn_effect cs ts es m)" for cs ts es w
    using ref_ops_ok by (auto simp: ref_commit_def Let_def split: prod.splits)
  then show ?thesis
    unfolding etcd_contract_def by (auto simp: ref_env_def reflp_def transp_def)
qed

lemma etcd_rely_refl: "etcd_contract E kv rely \<Longrightarrow> rely m m"
  by (simp add: etcd_contract_def reflp_def)

lemma etcd_rely_trans: "etcd_contract E kv rely \<Longrightarrow> rely a b \<Longrightarrow> rely b c \<Longrightarrow> rely a c"
  unfolding etcd_contract_def transp_def by blast

lemma conn_new_rely: "etcd_contract E kv rely \<Longrightarrow> conn_new E w = (r, w') \<Longrightarrow> rely (kv w) (kv w')"
  unfolding etcd_contract_def by (metis snd_conv)

lemma clock_now_kv: "etcd_contract E kv rely \<Longrightarrow> clock_now E w = (t, w') \<Longrightarrow> kv w' = kv w"
  unfolding etcd_contract_def by (metis snd_conv)

lemma rand_intn_kv:
  "etcd_contract E kv rely \<Longrightarrow> rand_intn E n w = (i, w') \<Longrightarrow> kv w' = kv w \<and> (0 < n \<longrightarrow> i < n)"
  unfolding etcd_contract_def by (metis fst_conv snd_conv)

lemma commit_Inr:
  assumes "etcd_contract E kv rely" and "commit E cs ts es w = (Inr r, w')"
  obtains m where "rely (kv w) m" and "Succeeded r = list_all (cmp_holds m) cs"
    and "run_ops (if Succeeded r then ts else es) m (Responses r) (kv w')"
proof -
  have "\<exists>m. rely (kv w) m \<and> (case commit E cs ts es w of
           (Inr r, w') \<Rightarrow> Succeeded r = list_all (cmp_holds m) cs \<and>
              run_ops (if Succeeded r then ts else es) m (Responses r) (kv w')
         | (Inl e, w') \<Rightarrow> kv w' = m \<or> kv w' = txn_effect cs ts es m)"
    using assms(1) unfolding etcd_contract_def by blast
  with assms(2) that show ?thesis by auto
qed

lemma commit_Inl:
  assumes "etcd_contract E kv rely" and "commit E cs ts es w = (Inl e, w')"
  obtains m where "rely (kv w) m" and "kv w' = m \<or> kv w' = txn_effect cs ts es m"
proof -
  have "\<exists>m. rely (kv w) m \<and> (case commit E cs ts es w of
           (Inr r, w') \<Rightarrow> Succeeded r = list_all (cmp_holds m) cs \<and>
              run_ops (if Succeeded r then ts else es) m (Responses r) (kv w')
         | (Inl e, w') \<Rightarrow> kv w' = m \<or> kv w' = txn_effect cs ts es m)"
    using assms(1) unfolding etcd_contract_def by blast
  with assms(2) that show ?thesis by auto
qed

lemma run_ops_Nil [simp]: "run_ops [] m rs m' \<longleftrightarrow> rs = [] \<and> m' = m"
  by (cases rs) auto

lemma run_ops_Cons:
  "run_ops (op # ops) m rs m' \<longleftrightarrow>
     (\<exists>r rs'. rs = r # rs' \<and> resp_ok op m r \<and> run_ops ops (op_effect op m) rs' m')"
  by (cases rs) auto

lemma run_ops_effect: "run_ops ops m rs m' \<Longrightarrow> m' = fold op_effect ops m"
  by (induction ops m rs m' rule: run_ops.induct) auto

lemma WithConnection_Inr:
  assumes "WithConnection E fn w = (Inr r, w')"
  obtains w1 where "conn_new E w = (None, w1)" and "fn w1 = (Inr r, w')"
  using assms by (auto simp: WithConnection_def split: prod.splits option.splits)

lemma WithConnection_Inl:
  assumes "WithConnection E fn w = (Inl e, w')"
  obtains b where "conn_new E w = (Some b, w')"
    | w1 where "conn_new E w = (None, w1)" and "fn w1 = (Inl e, w')"
  using assms by (auto simp: WithConnection_def split: prod.splits option.splits)

lemma GetKey_Nil [simp]: "GetKey c [] = client_prefix c"
  by (simp add: GetKey_def)

lemma GetKey_single: "GetKey c [k] = client_prefix c @ ''/'' @ k"
  by (simp add: GetKey_def)

text \<open>
  Invariants of the keyspace: a property that the other nodes keep and that every transaction
  keeps holds after a request, whether it reports an error or not.
\<close>

definition stable :: "(keyspace \<Rightarrow> keyspace \<Rightarrow> bool) \<Rightarrow> (keyspace \<Rightarrow> bool) \<Rightarrow> bool" where
  "stable rely I \<longleftrightarrow> (\<forall>m m'. rely m m' \<longrightarrow> I m \<longrightarrow> I m')"

lemma stableD: "stable rely I \<Longrightarrow> rely m m' \<Longrightarrow> I m \<Longrightarrow> I m'"
  by (simp add: stable_def)

lemma commit_inv:
  assumes C: "etcd_contract E kv rely" and S: "stable rely I"
    and T: "\<And>m. I m \<Longrightarrow> I (txn_effect cs ts es m)" and I: "I (kv w)"
  shows "I (kv (snd (commit E cs ts es w)))"
proof (cases "commit E cs ts es w")
  case (Pair r w')
  show ?thesis
  proof (cases r)
    case (Inl e)
    with Pair obtain m where "rely (kv w) m" "kv w' = m \<or> kv w' = txn_effect cs ts es m"
      using commit_Inl [OF C] by blast
    then show ?thesis using S T I Pair by (auto dest: stableD)
  next
    case (Inr t)
    with Pair obtain m where m: "rely (kv w) m" "Succeeded t = list_all (cmp_holds m) cs"
      "run_ops (if Succeeded t then ts else es) m (Responses t) (kv w')"
      using commit_Inr [OF C] by blast
    then have "kv w' = txn_effect cs ts es m"
      using run_ops_effect [OF m(3)] by (simp add: txn_effect_def)
    then show ?thesis using S T I m(1) Pair by (auto dest: stableD)
  qed
qed

lemma WithConnection_inv:
  assumes C: "etcd_contract E kv rely" and S: "stable rely I" and I: "I (kv w)"
    and F: "\<And>w. I (kv w) \<Longrightarrow> I (kv (snd (fn w)))"
  shows "I (kv (snd (WithConnection E fn w)))"
proof (cases "conn_new E w")
  case (Pair r w1)
  then have "I (kv w1)" using conn_new_rely [OF C Pair] S I by (auto dest: stableD)
  then show ?thesis using Pair F by (cases r) (auto simp: WithConnection_def)
qed

text \<open>Reading a range.\<close>

lemma etcd_GetPrefix_Inr:
  assumes C: "etcd_contract E kv rely" and "etcd_GetPrefix E p w = (Inr kvs, w')"
  shows "rely (kv w) (kv w')" and "distinct (map fst kvs)"
    and "(k, v) \<in> set kvs \<longleftrightarrow> prefix p k \<and> kv w' k = Some v"
proof -
  obtain t where t: "commit E [] [OpGetPrefix p] [] w = (Inr t, w')"
    and kvs: "kvs = range_kvs (Responses t) 0"
    using assms(2) by (auto simp: etcd_GetPrefix_def split: prod.splits sum.splits)
  from commit_Inr [OF C t] obtain m where m: "rely (kv w) m"
    "Succeeded t = list_all (cmp_holds m) []"
    "run_ops (if Succeeded t then [OpGetPrefix p] else []) m (Responses t) (kv w')" by blast
  then obtain kvs' where r: "Responses t = [RespRange kvs']" "distinct (map fst kvs')"
    "\<forall>k v. (k, v) \<in> set kvs' \<longleftrightarrow> prefix p k \<and> m k = Some v" and "kv w' = m"
    by (auto simp: run_ops_Cons)
  moreover from r(1) kvs have "kvs = kvs'" by simp
  ultimately show "rely (kv w) (kv w')" "distinct (map fst kvs)"
    "(k, v) \<in> set kvs \<longleftrightarrow> prefix p k \<and> kv w' k = Some v" using m(1) by auto
qed

lemma etcd_GetPrefix_kv:
  assumes C: "etcd_contract E kv rely" and "etcd_GetPrefix E p w = (r, w')"
  shows "rely (kv w) (kv w')"
proof (cases r)
  case (Inl e)
  then have "commit E [] [OpGetPrefix p] [] w = (Inl e, w')"
    using assms(2) by (auto simp: etcd_GetPrefix_def split: prod.splits sum.splits)
  then show ?thesis
    by (rule commit_Inl [OF C]) (auto simp: txn_effect_def)
next
  case (Inr kvs)
  then show ?thesis using assms etcd_GetPrefix_Inr(1) [OF C] by blast
qed

text \<open>The two transactions of \<open>PutIfNewOrChanged\<close>.\<close>

lemma PutIfNewOrChanged_Inr:
  assumes C: "etcd_contract E kv rely" and P: "PutIfNewOrChanged E key value w = (Inr b, w')"
  shows "\<exists>m. rely (kv w) m \<and> (b \<longleftrightarrow> m key \<noteq> Some value \<and> kv w' key = Some value) \<and>
    (b \<longrightarrow> kv w' = m(key \<mapsto> value)) \<and>
    (\<not> b \<longrightarrow> kv w' = m \<and> m key \<in> {None, Some value} \<and>
       (\<exists>m'. rely (kv w) m' \<and> rely m' m \<and> m' key \<noteq> None))"
proof -
  obtain t1 w1 where t1: "commit E [CreateRev0 key] [OpPut key value] [] w = (Inr t1, w1)"
    using P by (auto simp: PutIfNewOrChanged_def split: prod.splits sum.splits)
  obtain m1 where raw: "rely (kv w) m1" "Succeeded t1 = list_all (cmp_holds m1) [CreateRev0 key]"
    and m1: "run_ops (if Succeeded t1 then [OpPut key value] else []) m1 (Responses t1) (kv w1)"
    by (rule commit_Inr [OF C t1])
  from raw have s1: "Succeeded t1 = (m1 key = None)" by simp
  show ?thesis
  proof (cases "Succeeded t1")
    case True
    then have "b" "w' = w1" "kv w1 = m1(key \<mapsto> value)"
      using P t1 m1 by (auto simp: PutIfNewOrChanged_def run_ops_Cons)
    with raw(1) s1 True show ?thesis by (intro exI [of _ m1]) simp
  next
    case False
    then obtain t2 where t2: "commit E [ValueNe key value] [OpPut key value] [] w1 = (Inr t2, w')"
      and b: "b = Succeeded t2"
      using P t1 by (auto simp: PutIfNewOrChanged_def split: prod.splits sum.splits)
    obtain m2 where r2: "rely (kv w1) m2"
      "Succeeded t2 = list_all (cmp_holds m2) [ValueNe key value]"
      and m2: "run_ops (if Succeeded t2 then [OpPut key value] else []) m2 (Responses t2) (kv w')"
      by (rule commit_Inr [OF C t2])
    have s2: "b = (m2 key \<noteq> None \<and> m2 key \<noteq> Some value)" using r2(2) b by simp
    have w1: "kv w1 = m1" using m1 False by simp
    have "rely (kv w) m2" using etcd_rely_trans [OF C raw(1)] r2(1) w1 by simp
    moreover have "kv w' = (if b then m2(key \<mapsto> value) else m2)"
      using m2 b by (cases b) (auto simp: run_ops_Cons)
    moreover have "\<exists>m'. rely (kv w) m' \<and> rely m' m2 \<and> m' key \<noteq> None"
      using r2(1) w1 raw(1) s1 False by auto
    ultimately show ?thesis using s2 by (intro exI [of _ m2]) (cases b; auto)
  qed
qed

lemma PutIfNewOrChanged_alone:
  assumes "etcd_contract E kv (=)" and "PutIfNewOrChanged E key value w = (Inr b, w')"
  shows "kv w' = (kv w)(key \<mapsto> value) \<and> (b \<longleftrightarrow> kv w key \<noteq> Some value)"
proof -
  obtain m where m: "kv w = m" "b \<longleftrightarrow> m key \<noteq> Some value \<and> kv w' key = Some value"
    "b \<longrightarrow> kv w' = m(key \<mapsto> value)"
    "\<not> b \<longrightarrow> kv w' = m \<and> m key \<in> {None, Some value} \<and>
       (\<exists>m'. kv w = m' \<and> m' = m \<and> m' key \<noteq> None)"
    using PutIfNewOrChanged_Inr [OF assms] by blast
  show ?thesis
  proof (cases b)
    case True
    have "kv w' = m(key \<mapsto> value)" using True m(3) by blast
    moreover have "m key \<noteq> Some value" using True m(2) by blast
    ultimately show ?thesis using True unfolding m(1) by blast
  next
    case False
    then have "m key \<noteq> None" using m(4) by auto
    then have s: "m key = Some value" using False m(4) by auto
    then have "m = m(key \<mapsto> value)" by (simp add: fun_upd_idem)
    moreover have "kv w' = m" using False m(4) by blast
    ultimately show ?thesis using False s unfolding m(1) by simp
  qed
qed

lemma etcd_Delete_alone:
  assumes "etcd_contract E kv (=)" and "etcd_Delete E k w = (Inr u, w')"
  shows "kv w' = (kv w)(k := None)"
proof -
  obtain t where t: "commit E [] [OpDelete k] [] w = (Inr t, w')"
    using assms(2) by (auto simp: etcd_Delete_def split: prod.splits sum.splits)
  show ?thesis by (rule commit_Inr [OF assms(1) t]) (auto simp: run_ops_Cons)
qed

text \<open>etcd answers every request.\<close>

definition reliable :: "'w env \<Rightarrow> bool" where
  "reliable E \<longleftrightarrow> (\<forall>w. fst (conn_new E w) = None) \<and> (\<forall>cs ts es w. \<exists>r w'. commit E cs ts es w = (Inr r, w'))"

lemma reliable_ref: "reliable ref_env"
  by (simp add: reliable_def ref_commit_def Let_def case_prod_unfold)

lemma etcd_Delete_reliable:
  assumes "reliable E"
  obtains w' where "etcd_Delete E k w = (Inr (), w')"
proof -
  obtain t w' where "commit E [] [OpDelete k] [] w = (Inr t, w')" using assms unfolding reliable_def by metis
  with that show ?thesis by (simp add: etcd_Delete_def)
qed

lemma etcd_Get_Inr:
  assumes C: "etcd_contract E kv rely" and run: "etcd_Get E k w = (Inr kvs, w')"
  shows "rely (kv w) (kv w') \<and> kvs = (case kv w' k of None \<Rightarrow> [] | Some v \<Rightarrow> [(k, v)])"
proof -
  obtain t where t: "commit E [] [OpGet k] [] w = (Inr t, w')" and kvs: "kvs = range_kvs (Responses t) 0"
    using run by (auto simp: etcd_Get_def split: prod.splits sum.splits)
  show ?thesis
    by (rule commit_Inr [OF C t]) (auto simp: run_ops_Cons kvs)
qed

section \<open>Properties\<close>

text \<open>
  C20: \<open>PutIfNewOrChanged\<close>, whatever the other nodes do between its two transactions: when it
  reports a write, the key holds the value and nothing else was changed by it; when it reports
  no write, the keyspace is as the others left it and the key holds the value already, or is
  missing because another node deleted it in between.  Without interference it always ends with
  the key holding the value, and reports a write exactly when the key held something else.
\<close>

theorem PutIfNewOrChanged_post:
  assumes "etcd_contract E kv rely" and "PutIfNewOrChanged E key value w = (Inr b, w')"
  shows "(\<exists>m. rely (kv w) m \<and> kv w' = (if b then m(key \<mapsto> value) else m) \<and>
            (\<not> b \<longrightarrow> m key = Some value \<or> m key = None)) \<and>
    (rely = (=) \<longrightarrow> kv w' = (kv w)(key \<mapsto> value) \<and> (b \<longleftrightarrow> kv w key \<noteq> Some value))"
proof (intro conjI impI)
  show "\<exists>m. rely (kv w) m \<and> kv w' = (if b then m(key \<mapsto> value) else m) \<and>
      (\<not> b \<longrightarrow> m key = Some value \<or> m key = None)"
    using PutIfNewOrChanged_Inr [OF assms] by (cases b) auto
next
  assume "rely = (=)"
  with assms have A: "etcd_contract E kv (=)" by simp
  note P = PutIfNewOrChanged_alone [OF A assms(2)]
  show "kv w' = (kv w)(key \<mapsto> value)" by (rule P [THEN conjunct1])
  show "b \<longleftrightarrow> kv w key \<noteq> Some value" by (rule P [THEN conjunct2])
qed

theorem PutIfNewOrChanged_post_witness:
  "let w = ([(''k'', ''old'')], 0); w' = ([(''k'', ''new'')], 0)
   in (\<exists>m. ref_kv w = m \<and> ref_kv w' = (if True then m(''k'' \<mapsto> ''new'') else m) \<and>
            (\<not> True \<longrightarrow> m ''k'' = Some ''new'' \<or> m ''k'' = None)) \<and>
    (((=) :: keyspace \<Rightarrow> keyspace \<Rightarrow> bool) = (=) \<longrightarrow>
      ref_kv w' = (ref_kv w)(''k'' \<mapsto> ''new'') \<and> (True \<longleftrightarrow> ref_kv w ''k'' \<noteq> Some ''new''))"
proof -
  have "PutIfNewOrChanged ref_env ''k'' ''new'' ([(''k'', ''old'')], 0) = (Inr True, ([(''k'', ''new'')], 0))"
    by (simp add: PutIfNewOrChanged_def ref_env_def ref_commit_def map_put_def)
  from PutIfNewOrChanged_post [OF etcd_contract_ref this] show ?thesis unfolding Let_def .
qed

end
