(* ===== verification/Stores.thy ===== *)
theory Stores
  imports Etcd
begin

text \<open>
  \<open>plugin/pkg/etcd/store.go\<close>, \<open>readonly_store.go\<close> and \<open>writeonly_store.go\<close>: an in-memory map of
  items beside the keys \<open>prefix/itemID\<close> of etcd.  \<open>encoding/json\<close> and the method \<open>Equals\<close> of the
  item type are the fields of \<open>item_ops\<close>.  Handlers are called with lists of changes; an
  operation returns those calls, in order, as notifications.
\<close>

section \<open>The base of the stores\<close>

record 't item_ops =
  marshal :: "'t \<Rightarrow> string option"
  unmarshal :: "string \<Rightarrow> 't option"
  item_Equals :: "'t \<Rightarrow> 't \<Rightarrow> bool"

record 't item_change =
  ch_ID :: string
  Previous :: 't
  Current :: 't

datatype 't notification =
    NAdded "(string \<times> 't) list"
  | NChanged "'t item_change list"
  | NRemoved "(string \<times> 't) list"

text \<open>Which of the three handlers is not nil.\<close>

record handlers_set =
  has_OnChanged :: bool
  has_OnAdded :: bool
  has_OnRemoved :: bool

record 't storeBase =
  st_client :: etcdClient
  st_data :: "(string, 't) gomap"
  st_handlers :: handlers_set

definition GetAll :: "'t storeBase \<Rightarrow> (string, 't) gomap" where
  "GetAll s = st_data s"

definition GetItem :: "string \<Rightarrow> 't storeBase \<Rightarrow> 't option" where
  "GetItem itemID s = map_get (st_data s) itemID"

fun sync_changes ::
  "('t \<Rightarrow> 't \<Rightarrow> bool) \<Rightarrow> (string, 't) gomap \<Rightarrow> (string, 't) gomap \<Rightarrow>
    't item_change list \<times> (string \<times> 't) list"
where
  "sync_changes eq d [] = ([], [])"
| "sync_changes eq d ((i, item) # truth) =
     (case sync_changes eq d truth of (changes, added) \<Rightarrow>
        (case map_get d i of
           Some previousItem \<Rightarrow>
             (if \<not> eq previousItem item
              then (\<lparr>ch_ID = i, Previous = previousItem, Current = item\<rparr> # changes, added)
              else (changes, added))
         | None \<Rightarrow> (changes, (i, item) # added)))"

definition syncToInternalState ::
  "'t item_ops \<Rightarrow> (string, 't) gomap \<Rightarrow> 't storeBase \<Rightarrow>
    ('t item_change list \<times> (string \<times> 't) list \<times> (string \<times> 't) list) \<times> 't storeBase"
where
  "syncToInternalState T truth s =
     (let (changes, added) = sync_changes (item_Equals T) (st_data s) truth;
          (toBeDeleted, _) = lo_Difference (map_keys (st_data s)) (map_keys truth);
          removed = map (\<lambda>i. (i, the (map_get (st_data s) i))) toBeDeleted
      in ((changes, added, removed), s\<lparr>st_data := truth\<rparr>))"

text \<open>\<open>parseItem\<close>: \<open>Inr None\<close> is an ignored key.\<close>

definition parseItem ::
  "'t item_ops \<Rightarrow> string \<Rightarrow> string \<Rightarrow> string \<Rightarrow> (string \<times> 't) option result" where
  "parseItem T k v pre =
     (let key = trim_left CHR ''/'' (trim_prefix pre k);
          parts = split_on CHR ''/'' key
      in if length parts \<noteq> 1 then Inr None
         else let itemID = hd parts
              in (case unmarshal T v of
                    None \<Rightarrow> Inl (DecodeError itemID)
                  | Some item \<Rightarrow> Inr (Some (itemID, item))))"

fun load_items ::
  "'t item_ops \<Rightarrow> string \<Rightarrow> (string \<times> string) list \<Rightarrow> (string, 't) gomap \<Rightarrow> (string, 't) gomap"
where
  "load_items T pre [] res = res"
| "load_items T pre ((k, v) # kvs) res =
     (case parseItem T k v pre of
        Inl _ \<Rightarrow> load_items T pre kvs res
      | Inr None \<Rightarrow> load_items T pre kvs res
      | Inr (Some (itemID, item)) \<Rightarrow> load_items T pre kvs (map_put itemID item res))"

definition loadData :: "'w env \<Rightarrow> 't item_ops \<Rightarrow> 't storeBase \<Rightarrow> ('w, (string, 't) gomap) io" where
  "loadData E T s w =
     (let pre = GetKey (st_client s) []
      in case etcd_GetPrefix E pre w of
           (Inl e, w') \<Rightarrow> (Inl e, w')
         | (Inr kvs, w') \<Rightarrow> (Inr (load_items T pre kvs []), w'))"

definition invokeAddOrChangedHandler ::
  "'t item_ops \<Rightarrow> handlers_set \<Rightarrow> string \<Rightarrow> 't option \<Rightarrow> 't \<Rightarrow> 't notification list" where
  "invokeAddOrChangedHandler T h i previous current =
     (case previous of
        Some p \<Rightarrow>
          (if \<not> item_Equals T p current
           then if has_OnChanged h
                then [NChanged [\<lparr>ch_ID = i, Previous = p, Current = current\<rparr>]] else []
           else [])
      | None \<Rightarrow> if has_OnAdded h then [NAdded [(i, current)]] else [])"

text \<open>The calls at the end of both \<open>sync\<close> methods.\<close>

definition call_handlers ::
  "handlers_set \<Rightarrow> 't item_change list \<times> (string \<times> 't) list \<times> (string \<times> 't) list \<Rightarrow> 't notification list" where
  "call_handlers h d = (case d of (changes, added, removed) \<Rightarrow>
     (if length added > 0 \<and> has_OnAdded h then [NAdded added] else []) @
     (if length changes > 0 \<and> has_OnChanged h then [NChanged changes] else []) @
     (if length removed > 0 \<and> has_OnRemoved h then [NRemoved removed] else []))"

section \<open>The read-only store\<close>

text \<open>Operations return the error or nothing, the notifications, the store and the world.\<close>

type_synonym ('w, 't) store_res = "err option \<times> 't notification list \<times> 't storeBase \<times> 'w"

definition NewReadOnlyStore :: "etcdClient \<Rightarrow> handlers_set \<Rightarrow> 't storeBase" where
  "NewReadOnlyStore c h = \<lparr>st_client = c, st_data = [], st_handlers = h\<rparr>"

definition ro_sync ::
  "'w env \<Rightarrow> 't item_ops \<Rightarrow> bool \<Rightarrow> 't storeBase \<Rightarrow> 'w \<Rightarrow> ('w, 't) store_res" where
  "ro_sync E T callHandlers s w =
     (case WithConnection E (loadData E T s) w of
        (Inl e, w') \<Rightarrow> (Some e, [], s, w')
      | (Inr etcdData, w') \<Rightarrow>
          (case syncToInternalState T etcdData s of (diff, s') \<Rightarrow>
             (None, if callHandlers then call_handlers (st_handlers s') diff else [], s', w')))"

definition ro_Sync :: "'w env \<Rightarrow> 't item_ops \<Rightarrow> 't storeBase \<Rightarrow> 'w \<Rightarrow> ('w, 't) store_res" where
  "ro_Sync E T s w = ro_sync E T True s w"

definition ro_Init :: "'w env \<Rightarrow> 't item_ops \<Rightarrow> 't storeBase \<Rightarrow> 'w \<Rightarrow> ('w, 't) store_res" where
  "ro_Init E T s w = (case ro_sync E T False s w of
      (Some e, ns, s', w') \<Rightarrow> (with_message (Some e), ns, s', w')
    | (None, ns, s', w') \<Rightarrow>
        (case client_Watch E w' of
           (Inl e, w2) \<Rightarrow> (with_message (Some e), ns, s', w2)
         | (Inr _, w2) \<Rightarrow> (None, ns, s', w2)))"

text \<open>One event of \<open>watchEventHandler\<close>; \<open>pre\<close> is the key that was watched.\<close>

fun ro_watch_event ::
  "'t item_ops \<Rightarrow> string \<Rightarrow> watch_event \<Rightarrow> 't storeBase \<Rightarrow> 't notification list \<times> 't storeBase"
where
  "ro_watch_event T pre (EvPut k v) s =
     (case parseItem T k v pre of
        Inl _ \<Rightarrow> ([], s)
      | Inr None \<Rightarrow> ([], s)
      | Inr (Some (itemID, item)) \<Rightarrow>
          (let previousItem = map_get (st_data s) itemID;
               s' = s\<lparr>st_data := map_put itemID item (st_data s)\<rparr>
           in (invokeAddOrChangedHandler T (st_handlers s) itemID previousItem item, s')))"
| "ro_watch_event T pre (EvDelete k) s =
     (let itemID = trim_prefix (GetKey (st_client s) [] @ ''/'') k;
          previousItem = map_get (st_data s) itemID;
          s' = s\<lparr>st_data := map_del itemID (st_data s)\<rparr>
      in (case previousItem of
            Some p \<Rightarrow> if has_OnRemoved (st_handlers s) then [NRemoved [(itemID, p)]] else []
          | None \<Rightarrow> [], s'))"

fun ro_watchEventHandler ::
  "'t item_ops \<Rightarrow> string \<Rightarrow> watch_event list \<Rightarrow> 't storeBase \<Rightarrow> 't notification list \<times> 't storeBase"
where
  "ro_watchEventHandler T pre [] s = ([], s)"
| "ro_watchEventHandler T pre (ev # evs) s =
     (case ro_watch_event T pre ev s of (ns, s1) \<Rightarrow>
        (case ro_watchEventHandler T pre evs s1 of (ns', s2) \<Rightarrow> (ns @ ns', s2)))"

section \<open>The write-only store\<close>

definition NewWriteOnlyStore :: "etcdClient \<Rightarrow> handlers_set \<Rightarrow> 't storeBase" where
  "NewWriteOnlyStore c h = \<lparr>st_client = c, st_data = [], st_handlers = h\<rparr>"

definition storeItem ::
  "'w env \<Rightarrow> 't item_ops \<Rightarrow> etcdClient \<Rightarrow> string \<Rightarrow> 't \<Rightarrow> ('w, bool) io" where
  "storeItem E T c itemID item w = (case marshal T item of
      None \<Rightarrow> (Inl (OtherError ''Failed to serialize item''), w)
    | Some bytes \<Rightarrow> PutIfNewOrChanged E (GetKey c [itemID]) bytes w)"

definition AddOrUpdateItem ::
  "'w env \<Rightarrow> 't item_ops \<Rightarrow> string \<Rightarrow> 't \<Rightarrow> 't storeBase \<Rightarrow> 'w \<Rightarrow> ('w, 't) store_res" where
  "AddOrUpdateItem E T itemID item s w =
     (let previousItem = map_get (st_data s) itemID;
          s' = s\<lparr>st_data := map_put itemID item (st_data s)\<rparr>
      in case WithConnection E (storeItem E T (st_client s) itemID item) w of
           (Inl e, w') \<Rightarrow> (Some e, [], s', w')
         | (Inr _, w') \<Rightarrow>
             (None, invokeAddOrChangedHandler T (st_handlers s) itemID previousItem item, s', w'))"

definition DeleteItem :: "'w env \<Rightarrow> string \<Rightarrow> 't storeBase \<Rightarrow> 'w \<Rightarrow> ('w, 't) store_res" where
  "DeleteItem E itemID s w =
     (let previousItem = map_get (st_data s) itemID;
          s' = s\<lparr>st_data := map_del itemID (st_data s)\<rparr>
      in case WithConnection E (etcd_Delete E (GetKey (st_client s) [itemID])) w of
           (Inl e, w') \<Rightarrow> (Some e, [], s', w')
         | (Inr _, w') \<Rightarrow>
             (None,
              (case previousItem of
                 Some p \<Rightarrow> if has_OnRemoved (st_handlers s) then [NRemoved [(itemID, p)]] else []
               | None \<Rightarrow> []),
              s', w'))"

fun store_items ::
  "'w env \<Rightarrow> 't item_ops \<Rightarrow> etcdClient \<Rightarrow> (string \<times> 't) list \<Rightarrow> ('w, unit) io"
where
  "store_items E T c [] w = (Inr (), w)"
| "store_items E T c ((i, item) # items) w =
     (case storeItem E T c i item w of
        (Inl e, w') \<Rightarrow> (Inl e, w')
      | (Inr _, w') \<Rightarrow> store_items E T c items w')"

fun delete_items :: "'w env \<Rightarrow> etcdClient \<Rightarrow> string list \<Rightarrow> ('w, unit) io" where
  "delete_items E c [] w = (Inr (), w)"
| "delete_items E c (i # is) w =
     (case etcd_Delete E (GetKey c [i]) w of
        (Inl e, w') \<Rightarrow> (Inl e, w')
      | (Inr _, w') \<Rightarrow> delete_items E c is w')"

definition write_all ::
  "'w env \<Rightarrow> 't item_ops \<Rightarrow> (string, 't) gomap \<Rightarrow> 't storeBase \<Rightarrow> ('w, unit) io" where
  "write_all E T items s w = (case loadData E T s w of
      (Inl e, w1) \<Rightarrow> (Inl e, w1)
    | (Inr etcdData, w1) \<Rightarrow>
        (let (toBeDeletedFromEtcd, _) = lo_Difference (map_keys etcdData) (map_keys items)
         in case store_items E T (st_client s) items w1 of
              (Inl e, w2) \<Rightarrow> (Inl e, w2)
            | (Inr _, w2) \<Rightarrow> delete_items E (st_client s) toBeDeletedFromEtcd w2))"

definition wo_sync ::
  "'w env \<Rightarrow> 't item_ops \<Rightarrow> (string, 't) gomap \<Rightarrow> bool \<Rightarrow> 't storeBase \<Rightarrow> 'w \<Rightarrow> ('w, 't) store_res" where
  "wo_sync E T items callHandlers s w =
     (case syncToInternalState T items s of (diff, s') \<Rightarrow>
        (case WithConnection E (write_all E T items s') w of
           (Inl e, w') \<Rightarrow> (Some e, [], s', w')
         | (Inr _, w') \<Rightarrow>
             (None, if callHandlers then call_handlers (st_handlers s') diff else [], s', w')))"

definition wo_Init ::
  "'w env \<Rightarrow> 't item_ops \<Rightarrow> (string, 't) gomap \<Rightarrow> 't storeBase \<Rightarrow> 'w \<Rightarrow> ('w, 't) store_res" where
  "wo_Init E T items s w = wo_sync E T items False s w"

definition wo_Sync ::
  "'w env \<Rightarrow> 't item_ops \<Rightarrow> (string, 't) gomap \<Rightarrow> 't storeBase \<Rightarrow> 'w \<Rightarrow> ('w, 't) store_res" where
  "wo_Sync E T items s w = wo_sync E T items True s w"

definition wo_InitFromEtcd ::
  "'w env \<Rightarrow> 't item_ops \<Rightarrow> 't storeBase \<Rightarrow> 'w \<Rightarrow> ('w, 't) store_res" where
  "wo_InitFromEtcd E T s w = (case WithConnection E (loadData E T s) w of
      (Inl e, w') \<Rightarrow> (Some e, [], s, w')
    | (Inr etcdData, w') \<Rightarrow> (None, [], s\<lparr>st_data := etcdData\<rparr>, w'))"

section \<open>Keys of items\<close>

text \<open>
  How items are addressed below the prefix of a client: by a list of key parts.  Both kinds of
  store rely on the same laws, a plain store with one part and a sharded store with two.
\<close>

locale item_keys =
  fixes path :: "'id \<Rightarrow> string list"
    and of_parts :: "string list \<Rightarrow> 'id option"
    and ok :: "'id \<Rightarrow> bool"
  assumes of_path: "ok i \<Longrightarrow> of_parts (path i) = Some i"
    and path_not_Nil: "ok i \<Longrightarrow> path i \<noteq> []"
    and path_no_slash: "ok i \<Longrightarrow> p \<in> set (path i) \<Longrightarrow> CHR ''/'' \<notin> set p"
    and path_hd: "ok i \<Longrightarrow> hd (path i) \<noteq> []"
begin

lemma hd_join_path: "ok i \<Longrightarrow> hd (join ''/'' (path i)) \<noteq> CHR ''/'' \<and> join ''/'' (path i) \<noteq> []"
proof -
  assume i: "ok i"
  obtain x xs where xs: "path i = x # xs" using path_not_Nil [OF i] by (cases "path i") auto
  have "x \<noteq> []" and "CHR ''/'' \<notin> set x" using path_hd [OF i] path_no_slash [OF i] xs by auto
  moreover have "\<exists>r. join ''/'' (x # xs) = x @ r" by (cases xs) auto
  ultimately show ?thesis unfolding xs by (cases x) auto
qed

lemma parse_key:
  assumes "ok i"
  shows "split_on CHR ''/'' (trim_left CHR ''/'' (trim_prefix (client_prefix c) (GetKey c (path i))))
    = path i"
proof -
  have "trim_prefix (client_prefix c) (GetKey c (path i)) = ''/'' @ join ''/'' (path i)"
    using path_not_Nil [OF assms] by (simp add: GetKey_def)
  moreover have "trim_left CHR ''/'' (''/'' @ join ''/'' (path i)) = join ''/'' (path i)"
    using hd_join_path [OF assms] by simp
  ultimately show ?thesis
    using split_on_join [of "path i" "CHR ''/''"] path_not_Nil [OF assms] path_no_slash [OF assms]
    by simp
qed

lemma key_inj: "ok i \<Longrightarrow> ok j \<Longrightarrow> GetKey c (path i) = GetKey c (path j) \<Longrightarrow> i = j"
  by (metis of_path option.inject parse_key)

lemma key_prefix: "prefix (client_prefix c) (GetKey c (path i))"
  by (simp add: GetKey_def)

end

definition valid_id :: "string \<Rightarrow> bool" where
  "valid_id i \<longleftrightarrow> i \<noteq> [] \<and> CHR ''/'' \<notin> set i"

definition single_part :: "string list \<Rightarrow> string option" where
  "single_part parts = (case parts of [i] \<Rightarrow> Some i | _ \<Rightarrow> None)"

interpretation item: item_keys "\<lambda>i. [i]" single_part valid_id
  by unfold_locales (auto simp: single_part_def valid_id_def)

section \<open>Lemmas: loading\<close>

lemma parseItem_key:
  "valid_id i \<Longrightarrow> parseItem T (GetKey c [i]) v (client_prefix c) =
     (case unmarshal T v of None \<Rightarrow> Inl (DecodeError i) | Some x \<Rightarrow> Inr (Some (i, x)))"
  using item.parse_key [of i c] by (simp add: parseItem_def Let_def)

text \<open>The keyspace below the prefix of a store holds item keys only.\<close>

definition store_keys :: "etcdClient \<Rightarrow> keyspace \<Rightarrow> bool" where
  "store_keys c m \<longleftrightarrow> (\<forall>k. m k \<noteq> None \<and> prefix (client_prefix c) k \<longrightarrow>
     (\<exists>i. valid_id i \<and> k = GetKey c [i]))"

text \<open>The items that the keyspace encodes.\<close>

definition etcd_items :: "'t item_ops \<Rightarrow> etcdClient \<Rightarrow> keyspace \<Rightarrow> string \<Rightarrow> 't option" where
  "etcd_items T c m i =
     (if valid_id i then (case m (GetKey c [i]) of None \<Rightarrow> None | Some v \<Rightarrow> unmarshal T v) else None)"

lemma load_items_get:
  assumes "distinct (map fst kvs)" and "\<forall>(k, v) \<in> set kvs. \<exists>i. valid_id i \<and> k = GetKey c [i]"
  shows "map_get (load_items T (client_prefix c) kvs res) i =
    (case (if valid_id i then map_of kvs (GetKey c [i]) else None) of
       None \<Rightarrow> map_get res i
     | Some v \<Rightarrow> (case unmarshal T v of None \<Rightarrow> map_get res i | Some x \<Rightarrow> Some x))"
  using assms
proof (induction kvs arbitrary: res)
  case (Cons kv kvs)
  obtain j v where kv: "kv = (GetKey c [j], v)" and j: "valid_id j"
    using Cons.prems(2) by (cases kv) auto
  have new: "map_of kvs (GetKey c [j]) = None"
    using Cons.prems(1) kv by (simp add: map_of_eq_None_iff)
  have key: "valid_id i \<Longrightarrow> GetKey c [i] = GetKey c [j] \<longleftrightarrow> i = j"
    using item.key_inj [OF _ j] by auto
  have prems: "distinct (map fst kvs)" "\<forall>(k, v) \<in> set kvs. \<exists>i. valid_id i \<and> k = GetKey c [i]"
    using Cons.prems by auto
  show ?case
  proof (cases "unmarshal T v")
    case None
    then show ?thesis
      using Cons.IH [OF prems, of res] new key j kv
      by (cases "i = j") (auto simp: parseItem_key split: option.splits)
  next
    case (Some x)
    then show ?thesis
      using Cons.IH [OF prems, of "map_put j x res"] new key j kv
      by (cases "i = j") (auto simp: parseItem_key split: option.splits)
  qed
qed simp

lemma map_ok_load_items: "map_ok res \<Longrightarrow> map_ok (load_items T pre kvs res)"
  by (induction T pre kvs res rule: load_items.induct) (auto split: sum.splits option.splits)

lemma loadData_Inr:
  assumes C: "etcd_contract E kv rely" and L: "loadData E T s w = (Inr d, w')"
    and K: "store_keys (st_client s) (kv w')"
  shows "map_get d = etcd_items T (st_client s) (kv w')" and "map_ok d" and "rely (kv w) (kv w')"
proof -
  let ?c = "st_client s"
  obtain kvs where g: "etcd_GetPrefix E (client_prefix ?c) w = (Inr kvs, w')"
    and d: "d = load_items T (client_prefix ?c) kvs []"
    using L by (auto simp: loadData_def Let_def split: prod.splits sum.splits)
  note G = etcd_GetPrefix_Inr [OF C g]
  have keys: "\<forall>(k, v) \<in> set kvs. \<exists>i. valid_id i \<and> k = GetKey ?c [i]"
    using G(3) K by (fastforce simp: store_keys_def)
  have "map_of kvs (GetKey ?c [i]) = kv w' (GetKey ?c [i])" for i
  proof (cases "kv w' (GetKey ?c [i])")
    case None
    then show ?thesis using G(3) by (auto simp: map_of_eq_None_iff)
  next
    case (Some v)
    then have "(GetKey ?c [i], v) \<in> set kvs" using G(3) item.key_prefix [of ?c i] by simp
    then show ?thesis using G(2) Some by simp
  qed
  then show "map_get d = etcd_items T ?c (kv w')"
    unfolding d
    by (intro ext) (subst load_items_get [OF G(2) keys], auto simp: etcd_items_def split: option.splits)
  show "map_ok d" by (simp add: d map_ok_load_items)
  show "rely (kv w) (kv w')" by (rule G(1))
qed

section \<open>Lemmas: notifications\<close>

text \<open>What a client of a store knows when it follows the handler calls.\<close>

fun apply_note :: "'t notification \<Rightarrow> (string \<Rightarrow> 't option) \<Rightarrow> string \<Rightarrow> 't option" where
  "apply_note (NAdded l) m = fold (\<lambda>(i, x) m. m(i \<mapsto> x)) l m"
| "apply_note (NChanged l) m = fold (\<lambda>c m. m(ch_ID c \<mapsto> Current c)) l m"
| "apply_note (NRemoved l) m = fold (\<lambda>(i, _) m. m(i := None)) l m"

definition all_handlers :: handlers_set where
  "all_handlers = \<lparr>has_OnChanged = True, has_OnAdded = True, has_OnRemoved = True\<rparr>"

definition view_rel ::
  "('t \<Rightarrow> 't \<Rightarrow> bool) \<Rightarrow> (string \<Rightarrow> 't option) \<Rightarrow> (string \<Rightarrow> 't option) \<Rightarrow> bool" where
  "view_rel eq view d \<longleftrightarrow> (\<forall>i. rel_option eq (view i) (d i))"

definition new_in :: "(string, 't) gomap \<Rightarrow> string \<times> 't \<Rightarrow> bool" where
  "new_in d ix \<longleftrightarrow> map_get d (fst ix) = None"

lemma snd_sync_changes: "snd (sync_changes eq d truth) = filter (new_in d) truth"
  by (induction eq d truth rule: sync_changes.induct)
    (auto simp: new_in_def split: prod.splits option.splits)

definition changed_in :: "('t \<Rightarrow> 't \<Rightarrow> bool) \<Rightarrow> (string, 't) gomap \<Rightarrow> string \<times> 't \<Rightarrow> bool" where
  "changed_in eq d ix = (case map_get d (fst ix) of None \<Rightarrow> False | Some p \<Rightarrow> \<not> eq p (snd ix))"

lemma fst_sync_changes:
  "fst (sync_changes eq d truth) =
     map (\<lambda>(i, x). \<lparr>ch_ID = i, Previous = the (map_get d i), Current = x\<rparr>)
       (filter (changed_in eq d) truth)"
  by (induction eq d truth rule: sync_changes.induct)
    (auto simp: changed_in_def split: prod.splits option.splits)

lemma map_get_filter:
  "map_ok m \<Longrightarrow> map_get (filter P m) i =
     (case map_get m i of None \<Rightarrow> None | Some x \<Rightarrow> if P (i, x) then Some x else None)"
proof (induction m)
  case (Cons kv m)
  obtain k v where kv: "kv = (k, v)" by (cases kv)
  have "map_get m k = None" using Cons.prems by (simp add: kv map_ok_def map_get_None_iff)
  then show ?case using Cons by (auto simp: kv map_ok_def split: option.splits)
qed simp

lemma fold_put_get:
  "map_ok l \<Longrightarrow> fold (\<lambda>(i, x) m. m(i \<mapsto> x)) l m = m ++ map_get l"
proof (induction l arbitrary: m)
  case (Cons kv l)
  obtain k v where kv: "kv = (k, v)" by (cases kv)
  have "map_get l k = None" using Cons.prems by (simp add: kv map_ok_def map_get_None_iff)
  moreover have "fold (\<lambda>(i, x) m. m(i \<mapsto> x)) l (m(k \<mapsto> v)) = m(k \<mapsto> v) ++ map_get l"
    using Cons.IH [of "m(k \<mapsto> v)"] Cons.prems by (simp add: map_ok_def del: fun_upd_apply)
  moreover have "m(k \<mapsto> v) ++ map_get l = m ++ map_get (kv # l)"
    using \<open>map_get l k = None\<close> by (auto simp: kv map_add_def fun_eq_iff split: option.splits)
  ultimately show ?case by (simp add: kv del: fun_upd_apply map_get_Cons)
qed (simp add: map_get_def)

lemma fold_changed_get:
  "fold (\<lambda>c m. m(ch_ID c \<mapsto> Current c))
     (map (\<lambda>(i, x). \<lparr>ch_ID = i, Previous = q i, Current = x\<rparr>) l) m =
   fold (\<lambda>(i, x) m. m(i \<mapsto> x)) l m"
  by (induction l arbitrary: m) auto

lemma fold_removed_get:
  "fold (\<lambda>(i, _) m. m(i := None)) (map (\<lambda>i. (i, q i)) is) m =
   (\<lambda>i. if i \<in> set is then None else m i)"
  by (induction "is" arbitrary: m) auto

lemma fold_call_handlers:
  "h = all_handlers \<Longrightarrow> fold apply_note (call_handlers h (ch, ad, rm)) m =
     apply_note (NRemoved rm) (apply_note (NChanged ch) (apply_note (NAdded ad) m))"
  by (simp add: call_handlers_def all_handlers_def)

text \<open>The calls after a sync turn what a client knew into the new contents.\<close>

context equaler begin

lemma sync_replay:
  assumes T: "item_Equals T = Equals" and H: "st_handlers s = all_handlers"
    and ok: "map_ok truth" and V: "view_rel Equals view (map_get (st_data s))"
    and S: "syncToInternalState T truth s = (diff, s')"
  shows "st_data s' = truth \<and>
    view_rel Equals (fold apply_note (call_handlers (st_handlers s') diff) view) (map_get truth)"
proof
  let ?d = "st_data s"
  define gone where "gone = fst (lo_Difference (map_keys ?d) (map_keys truth))"
  let ?ad = "filter (new_in ?d) truth" and ?ch = "filter (changed_in Equals ?d) truth"
  define view' where "view' = (view ++ map_get ?ad) ++ map_get ?ch"
  have s': "s' = s\<lparr>st_data := truth\<rparr>"
    and diff: "diff = (map (\<lambda>(i, x). \<lparr>ch_ID = i, Previous = the (map_get ?d i), Current = x\<rparr>) ?ch,
      ?ad, map (\<lambda>i. (i, the (map_get ?d i))) gone)"
    using S snd_sync_changes [of Equals ?d truth] fst_sync_changes [of Equals ?d truth]
    by (auto simp: syncToInternalState_def T gone_def case_prod_unfold Let_def)
  show "st_data s' = truth" by (simp add: s')
  have replay: "fold apply_note (call_handlers (st_handlers s') diff) view =
      (\<lambda>i. if i \<in> set gone then None else view' i)"
    unfolding diff view'_def
    by (simp add: fold_call_handlers s' H fold_changed_get fold_removed_get fold_put_get ok)
  have gone: "i \<in> set gone \<longleftrightarrow> map_has ?d i \<and> \<not> map_has truth i" for i
    by (auto simp: gone_def)
  have "rel_option Equals (if i \<in> set gone then None else view' i) (map_get truth i)" for i
  proof -
    have "rel_option Equals (view i) (map_get ?d i)" using V by (simp add: view_rel_def)
    then show ?thesis
      by (cases "map_get truth i"; cases "map_get ?d i"; cases "view i")
        (auto simp: gone view'_def map_add_def map_get_filter [OF ok] new_in_def changed_in_def
          intro: Equals_refl Equals_trans)
  qed
  then show "view_rel Equals (fold apply_note (call_handlers (st_handlers s') diff) view) (map_get truth)"
    by (simp add: replay view_rel_def)
qed

text \<open>The calls of a single addition or change.\<close>

lemma invoke_replay:
  assumes "item_Equals T = Equals" and "view_rel Equals view (map_get d)"
  shows "view_rel Equals
    (fold apply_note (invokeAddOrChangedHandler T all_handlers i (map_get d i) x) view)
    ((map_get d)(i \<mapsto> x))"
  unfolding view_rel_def
proof
  fix j
  have "rel_option Equals (view j) (map_get d j)" "rel_option Equals (view i) (map_get d i)"
    using assms(2) by (simp_all add: view_rel_def)
  then show "rel_option Equals
      (fold apply_note (invokeAddOrChangedHandler T all_handlers i (map_get d i) x) view j)
      (((map_get d)(i \<mapsto> x)) j)"
    by (cases "map_get d i"; cases "view i")
      (auto simp: invokeAddOrChangedHandler_def assms(1) all_handlers_def
        intro: Equals_refl Equals_trans)
qed

end

section \<open>Lemmas: writing all items\<close>

lemma storeItem_alone:
  assumes "etcd_contract E kv (=)" and "storeItem E T c i x w = (Inr b, w')"
  shows "\<exists>v. marshal T x = Some v \<and> kv w' = (kv w)(GetKey c [i] \<mapsto> v)"
  using assms PutIfNewOrChanged_alone [OF assms(1)]
  by (cases "marshal T x") (auto simp: storeItem_def)

lemma store_items_alone:
  assumes C: "etcd_contract E kv (=)"
  shows "store_items E T c items w = (Inr u, w') \<Longrightarrow> map_ok items \<Longrightarrow>
    \<forall>i \<in> fst ` set items. valid_id i \<Longrightarrow>
    (\<forall>i. valid_id i \<longrightarrow> kv w' (GetKey c [i]) =
       (case map_get items i of None \<Rightarrow> kv w (GetKey c [i]) | Some x \<Rightarrow> marshal T x)) \<and>
    (\<forall>k. (\<forall>i. valid_id i \<longrightarrow> k \<noteq> GetKey c [i]) \<longrightarrow> kv w' k = kv w k)"
proof (induction items arbitrary: w)
  case (Cons ix items)
  obtain j x where ix: "ix = (j, x)" by (cases ix)
  obtain b w1 where 1: "storeItem E T c j x w = (Inr b, w1)"
    and 2: "store_items E T c items w1 = (Inr u, w')"
    using Cons.prems(1) by (auto simp: ix split: prod.splits sum.splits)
  obtain v where v: "marshal T x = Some v" "kv w1 = (kv w)(GetKey c [j] \<mapsto> v)"
    using storeItem_alone [OF C 1] by blast
  have j: "valid_id j" and new: "map_get items j = None"
    using Cons.prems(2,3) by (auto simp: ix map_ok_def map_get_None_iff)
  have IH: "(\<forall>i. valid_id i \<longrightarrow> kv w' (GetKey c [i]) =
       (case map_get items i of None \<Rightarrow> kv w1 (GetKey c [i]) | Some x \<Rightarrow> marshal T x)) \<and>
    (\<forall>k. (\<forall>i. valid_id i \<longrightarrow> k \<noteq> GetKey c [i]) \<longrightarrow> kv w' k = kv w1 k)"
    using Cons.IH [OF 2] Cons.prems(2,3) by (simp add: map_ok_def)
  have key: "valid_id i \<Longrightarrow> GetKey c [i] = GetKey c [j] \<longleftrightarrow> i = j" for i
    using item.key_inj [OF _ j] by auto
  show ?case
  proof (intro conjI allI impI)
    fix i assume i: "valid_id i"
    show "kv w' (GetKey c [i]) =
        (case map_get (ix # items) i of None \<Rightarrow> kv w (GetKey c [i]) | Some x \<Rightarrow> marshal T x)"
      using IH [THEN conjunct1, rule_format, OF i] key [OF i] new v
      by (cases "i = j") (auto simp: ix split: option.splits)
  next
    fix k assume k: "\<forall>i. valid_id i \<longrightarrow> k \<noteq> GetKey c [i]"
    then show "kv w' k = kv w k" using IH [THEN conjunct2, rule_format, of k] j v(2) by simp
  qed
qed simp

lemma delete_items_alone:
  assumes C: "etcd_contract E kv (=)"
  shows "delete_items E c is w = (Inr u, w') \<Longrightarrow>
    kv w' = (\<lambda>k. if k \<in> (\<lambda>i. GetKey c [i]) ` set is then None else kv w k)"
proof (induction "is" arbitrary: w)
  case (Cons i "is")
  obtain w1 where 1: "etcd_Delete E (GetKey c [i]) w = (Inr (), w1)"
    and 2: "delete_items E c is w1 = (Inr u, w')"
    using Cons.prems by (auto split: prod.splits sum.splits)
  show ?case using Cons.IH [OF 2] etcd_Delete_alone [OF C 1] by (auto simp: fun_eq_iff)
qed simp

lemma write_all_marshal:
  assumes "write_all E T items s w = (Inr u, w')"
  shows "\<forall>x \<in> snd ` set items. marshal T x \<noteq> None"
proof -
  have "store_items E T c its v = (Inr u', v') \<Longrightarrow> \<forall>x \<in> snd ` set its. marshal T x \<noteq> None"
    for c its v u' v'
  proof (induction its arbitrary: v)
    case (Cons ix its)
    then show ?case
      by (cases ix; cases "marshal T (snd ix)")
        (auto simp: storeItem_def split: prod.splits sum.splits)
  qed simp
  moreover obtain w1 w2 where "store_items E T (st_client s) items w1 = (Inr (), w2)"
    using assms
    by (cases "loadData E T s w"; cases "store_items E T (st_client s) items (snd (loadData E T s w))")
      (auto simp: write_all_def case_prod_unfold Let_def split: sum.splits)
  ultimately show ?thesis by blast
qed

definition decodable :: "'t item_ops \<Rightarrow> etcdClient \<Rightarrow> keyspace \<Rightarrow> bool" where
  "decodable T c m \<longleftrightarrow>
     (\<forall>i v. valid_id i \<and> m (GetKey c [i]) = Some v \<longrightarrow> unmarshal T v \<noteq> None)"

lemma write_all_alone:
  assumes C: "etcd_contract E kv (=)" and W: "write_all E T items s w = (Inr u, w')"
    and ok: "map_ok items" "\<forall>i \<in> fst ` set items. valid_id i"
    and K: "store_keys (st_client s) (kv w)" and D: "decodable T (st_client s) (kv w)"
  shows "(\<forall>i. valid_id i \<longrightarrow> kv w' (GetKey (st_client s) [i]) =
       (case map_get items i of None \<Rightarrow> None | Some x \<Rightarrow> marshal T x)) \<and>
    (\<forall>k. (\<forall>i. valid_id i \<longrightarrow> k \<noteq> GetKey (st_client s) [i]) \<longrightarrow> kv w' k = kv w k)"
proof -
  let ?c = "st_client s"
  obtain d w1 where 1: "loadData E T s w = (Inr d, w1)"
    using W by (auto simp: write_all_def split: prod.splits sum.splits)
  define gone where "gone = fst (lo_Difference (map_keys d) (map_keys items))"
  obtain w2 where 2: "store_items E T ?c items w1 = (Inr (), w2)"
    and 3: "delete_items E ?c gone w2 = (Inr u, w')"
    using W 1 by (cases "store_items E T ?c items w1")
      (auto simp: write_all_def gone_def case_prod_unfold Let_def split: sum.splits)
  have kv1: "kv w1 = kv w"
  proof -
    obtain kvs where "etcd_GetPrefix E (client_prefix ?c) w = (Inr kvs, w1)"
      using 1 by (auto simp: loadData_def Let_def split: prod.splits sum.splits)
    then show ?thesis using etcd_GetPrefix_kv [OF C] by simp
  qed
  have d: "map_get d = etcd_items T ?c (kv w)"
    using loadData_Inr(1) [OF C 1] K kv1 by simp
  have gone: "i \<in> set gone \<longleftrightarrow> map_has d i \<and> \<not> map_has items i" for i
    by (auto simp: gone_def)
  note S = store_items_alone [OF C 2 ok]
  note R = delete_items_alone [OF C 3]
  show ?thesis
  proof (intro conjI allI impI)
    fix i assume i: "valid_id i"
    have "GetKey ?c [i] \<in> (\<lambda>i. GetKey ?c [i]) ` set gone \<longleftrightarrow> i \<in> set gone"
    proof
      assume "GetKey ?c [i] \<in> (\<lambda>i. GetKey ?c [i]) ` set gone"
      then obtain j where j: "j \<in> set gone" "GetKey ?c [i] = GetKey ?c [j]" by blast
      have "valid_id j" using j(1) gone d by (auto simp: etcd_items_def split: if_splits)
      then show "i \<in> set gone" using item.key_inj [OF i] j by blast
    qed simp
    then show "kv w' (GetKey ?c [i]) = (case map_get items i of None \<Rightarrow> None | Some x \<Rightarrow> marshal T x)"
      using R S [THEN conjunct1, rule_format, OF i] gone [of i] d i D kv1
      by (auto simp: etcd_items_def decodable_def split: option.splits)
  next
    fix k assume k: "\<forall>i. valid_id i \<longrightarrow> k \<noteq> GetKey ?c [i]"
    have "k \<notin> (\<lambda>i. GetKey ?c [i]) ` set gone"
      using k gone d by (auto simp: etcd_items_def split: if_splits)
    then show "kv w' k = kv w k" using R S [THEN conjunct2, rule_format, of k] k kv1 by auto
  qed
qed

section \<open>Lemmas: watching\<close>

definition ev_effect :: "watch_event \<Rightarrow> keyspace \<Rightarrow> keyspace" where
  "ev_effect ev m = (case ev of EvPut k v \<Rightarrow> m(k \<mapsto> v) | EvDelete k \<Rightarrow> m(k := None))"

text \<open>Events of item keys whose values can be decoded.\<close>

definition event_ok :: "'t item_ops \<Rightarrow> etcdClient \<Rightarrow> watch_event \<Rightarrow> bool" where
  "event_ok T c ev \<longleftrightarrow> (case ev of
      EvPut k v \<Rightarrow> (\<exists>i. valid_id i \<and> k = GetKey c [i]) \<and> unmarshal T v \<noteq> None
    | EvDelete k \<Rightarrow> (\<exists>i. valid_id i \<and> k = GetKey c [i]))"

lemma etcd_items_upd:
  assumes "valid_id i"
  shows "etcd_items T c (m(GetKey c [i] := v)) =
    (etcd_items T c m)(i := (case v of None \<Rightarrow> None | Some s \<Rightarrow> unmarshal T s))"
proof
  fix j
  show "etcd_items T c (m(GetKey c [i] := v)) j =
      ((etcd_items T c m)(i := (case v of None \<Rightarrow> None | Some s \<Rightarrow> unmarshal T s))) j"
  proof (cases "j = i")
    case False
    then have "valid_id j \<Longrightarrow> GetKey c [j] \<noteq> GetKey c [i]" using item.key_inj [OF _ assms] by blast
    with False show ?thesis by (auto simp: etcd_items_def)
  qed (simp add: etcd_items_def assms)
qed

lemma trim_prefix_key: "trim_prefix (GetKey c [] @ ''/'') (GetKey c [i]) = i"
  using trim_prefix_append [of "client_prefix c @ ''/''" i] by (simp add: GetKey_single)

context equaler begin

lemma ro_watch_event_tracks:
  assumes T: "item_Equals T = Equals" and H: "st_handlers s = all_handlers"
    and M: "map_get (st_data s) = etcd_items T (st_client s) m"
    and ev: "event_ok T (st_client s) ev" and V: "view_rel Equals view (map_get (st_data s))"
    and R: "ro_watch_event T (client_prefix (st_client s)) ev s = (ns, s')"
  shows "map_get (st_data s') = etcd_items T (st_client s) (ev_effect ev m) \<and>
    st_client s' = st_client s \<and> st_handlers s' = st_handlers s \<and>
    view_rel Equals (fold apply_note ns view) (map_get (st_data s'))"
proof (cases ev)
  case (EvPut k v)
  then obtain i x where i: "valid_id i" "k = GetKey (st_client s) [i]" and x: "unmarshal T v = Some x"
    using ev by (auto simp: event_ok_def)
  have "ns = invokeAddOrChangedHandler T all_handlers i (map_get (st_data s) i) x"
    and s': "s' = s\<lparr>st_data := map_put i x (st_data s)\<rparr>"
    using R EvPut i x H by (auto simp: parseItem_key Let_def)
  then have "view_rel Equals (fold apply_note ns view) ((map_get (st_data s))(i \<mapsto> x))"
    using invoke_replay [OF T V] by simp
  moreover have "map_get (st_data s') = (map_get (st_data s))(i \<mapsto> x)"
    by (simp add: s' map_get_put_fun)
  moreover have "etcd_items T (st_client s) (ev_effect ev m) = (etcd_items T (st_client s) m)(i \<mapsto> x)"
    using etcd_items_upd [OF i(1), of T "st_client s" m "Some v"] by (simp add: ev_effect_def EvPut i x)
  ultimately show ?thesis using M by (simp add: s')
next
  case (EvDelete k)
  then obtain i where i: "valid_id i" "k = GetKey (st_client s) [i]" using ev by (auto simp: event_ok_def)
  have s': "s' = s\<lparr>st_data := map_del i (st_data s)\<rparr>"
    and ns: "ns = (case map_get (st_data s) i of Some p \<Rightarrow> [NRemoved [(i, p)]] | None \<Rightarrow> [])"
    using R EvDelete i(2) H trim_prefix_key [of "st_client s" i]
    by (simp_all add: Let_def all_handlers_def split: option.splits)
  have "etcd_items T (st_client s) (ev_effect ev m) = (etcd_items T (st_client s) m)(i := None)"
    using etcd_items_upd [OF i(1), of T "st_client s" m None] by (simp add: ev_effect_def EvDelete i)
  moreover have "view_rel Equals (fold apply_note ns view) ((map_get (st_data s))(i := None))"
    unfolding view_rel_def
  proof
    fix j
    have "rel_option Equals (view j) (map_get (st_data s) j)" using V by (simp add: view_rel_def)
    moreover have "view i = None" if "map_get (st_data s) i = None"
    proof -
      have "rel_option Equals (view i) (map_get (st_data s) i)" using V by (simp add: view_rel_def)
      then show ?thesis using that by simp
    qed
    ultimately show "rel_option Equals (fold apply_note ns view j) (((map_get (st_data s))(i := None)) j)"
      by (cases "map_get (st_data s) i") (auto simp: ns)
  qed
  ultimately show ?thesis using M by (simp add: s' map_get_del_fun)
qed

lemma ro_watch_tracks:
  "\<lbrakk>item_Equals T = Equals; st_handlers s = all_handlers;
    map_get (st_data s) = etcd_items T (st_client s) m; \<forall>ev \<in> set evs. event_ok T (st_client s) ev;
    view_rel Equals view (map_get (st_data s));
    ro_watchEventHandler T (client_prefix (st_client s)) evs s = (ns, s')\<rbrakk> \<Longrightarrow>
   map_get (st_data s') = etcd_items T (st_client s) (fold ev_effect evs m) \<and>
   view_rel Equals (fold apply_note ns view) (map_get (st_data s'))"
proof (induction evs arbitrary: s m view ns)
  case (Cons ev evs)
  obtain ns1 s1 where 1: "ro_watch_event T (client_prefix (st_client s)) ev s = (ns1, s1)"
    by (cases "ro_watch_event T (client_prefix (st_client s)) ev s")
  obtain ns2 where 2: "ro_watchEventHandler T (client_prefix (st_client s)) evs s1 = (ns2, s')"
    and ns: "ns = ns1 @ ns2"
    using Cons.prems(6) 1 by (auto split: prod.splits)
  have "event_ok T (st_client s) ev" using Cons.prems(4) by simp
  note step = ro_watch_event_tracks [OF Cons.prems(1-3) this Cons.prems(5) 1]
  have s1: "map_get (st_data s1) = etcd_items T (st_client s) (ev_effect ev m)"
    "st_client s1 = st_client s" "st_handlers s1 = all_handlers"
    "view_rel Equals (fold apply_note ns1 view) (map_get (st_data s1))"
    using step Cons.prems(2) by (blast, blast, simp, blast)
  have "map_get (st_data s') = etcd_items T (st_client s1) (fold ev_effect evs (ev_effect ev m)) \<and>
      view_rel Equals (fold apply_note ns2 (fold apply_note ns1 view)) (map_get (st_data s'))"
    by (rule Cons.IH [OF Cons.prems(1) s1(3) _ _ s1(4)]) (use s1(1,2) Cons.prems(4) 2 in simp_all)
  then show ?case unfolding s1(2) ns fold_append fold.simps(2) comp_apply .
qed simp

end

section \<open>Properties\<close>

text \<open>
  A successful \<open>Sync\<close> of a read-only store, on a keyspace whose keys below the prefix are item
  keys, leaves the store with exactly the items that etcd encodes, and the handler calls turn
  what a client knew (up to \<open>Equals\<close>) into the new contents.
\<close>

theorem readonly_Sync_mirrors:
  assumes "etcd_contract E kv rely" and "equaler (item_Equals T)"
    and "st_handlers s = all_handlers" and "view_rel (item_Equals T) view (map_get (st_data s))"
    and "ro_Sync E T s w = (None, ns, s', w')" and "store_keys (st_client s) (kv w')"
  shows "map_get (st_data s') = etcd_items T (st_client s) (kv w') \<and>
    view_rel (item_Equals T) (fold apply_note ns view) (map_get (st_data s'))"
proof -
  obtain d diff where L: "WithConnection E (loadData E T s) w = (Inr d, w')"
    and S: "syncToInternalState T d s = (diff, s')"
    and ns: "ns = call_handlers (st_handlers s') diff"
    using assms(5) by (auto simp: ro_Sync_def ro_sync_def split: prod.splits sum.splits)
  obtain w1 where "loadData E T s w1 = (Inr d, w')" using L by (rule WithConnection_Inr)
  note D = loadData_Inr [OF assms(1) this assms(6)]
  note R = equaler.sync_replay [OF assms(2) refl assms(3) D(2) assms(4) S]
  from R D(1) show ?thesis unfolding ns by metis
qed

text \<open>A codec for the network infos that have a Flannel ID only, for concrete inputs.\<close>

definition ni_item :: "string \<Rightarrow> NetworkInfo" where
  "ni_item f = \<lparr>DockerID = [], FlannelID = f, Subnet = [], Name = []\<rparr>"

definition ni_ops :: "NetworkInfo item_ops" where
  "ni_ops = \<lparr>marshal = (\<lambda>n. if n = ni_item (FlannelID n) then Some (FlannelID n) else None),
     unmarshal = (\<lambda>s. Some (ni_item s)),
     item_Equals = (\<lambda>a b. NetworkInfo_Equals a (Some b))\<rparr>"

definition net_client :: etcdClient where
  "net_client = NewEtcdClient [''http://etcd''] 5 ''/networks''"

lemma ni_ops_roundtrip: "marshal ni_ops x = Some v \<Longrightarrow> unmarshal ni_ops v = Some x"
  by (auto simp: ni_ops_def split: if_splits)

lemma ni_ops_equaler: "equaler (item_Equals ni_ops)"
  by (simp add: ni_ops_def ni.equaler_axioms)

lemma net_client_prefix: "client_prefix net_client = ''/networks''"
  by (simp add: net_client_def NewEtcdClient_def trim_right_def)

lemma store_keys_single:
  "valid_id i \<Longrightarrow> store_keys c (map_get [(GetKey c [i], v)])"
  by (auto simp: store_keys_def)

lemma key_n1: "''/networks/n1'' = GetKey net_client [''n1'']"
  by (simp add: GetKey_single net_client_prefix)

lemma valid_n1: "valid_id ''n1''"
  by (simp add: valid_id_def)

theorem readonly_Sync_mirrors_witness:
  "\<exists>ns s'. ro_Sync ref_env ni_ops (NewReadOnlyStore net_client all_handlers :: NetworkInfo storeBase)
      ([(''/networks/n1'', ''f1'')], 0) = (None, ns, s', ([(''/networks/n1'', ''f1'')], 0)) \<and>
    map_get (st_data s') = etcd_items ni_ops net_client (map_get [(''/networks/n1'', ''f1'')]) \<and>
    view_rel (item_Equals ni_ops) (fold apply_note ns (map_get [])) (map_get (st_data s'))"
  (is "\<exists>ns s'. ro_Sync ref_env ni_ops ?s ?w = (None, ns, s', ?w) \<and> _")
proof -
  obtain ns s' where run: "ro_Sync ref_env ni_ops ?s ?w = (None, ns, s', ?w)"
    by (simp add: ro_Sync_def ro_sync_def WithConnection_def loadData_def etcd_GetPrefix_def
        ref_commit_def NewReadOnlyStore_def net_client_prefix parseItem_def
        trim_prefix_def trim_left_def ni_ops_def syncToInternalState_def case_prod_unfold Let_def)
  have "st_handlers ?s = all_handlers" "view_rel (item_Equals ni_ops) (map_get []) (map_get (st_data ?s))"
    "store_keys (st_client ?s) (ref_kv ?w)"
    using store_keys_single [OF valid_n1, of net_client]
    by (simp_all add: NewReadOnlyStore_def view_rel_def key_n1)
  then have "map_get (st_data s') = etcd_items ni_ops (st_client ?s) (ref_kv ?w) \<and>
      view_rel (item_Equals ni_ops) (fold apply_note ns (map_get [])) (map_get (st_data s'))"
    using run by (intro readonly_Sync_mirrors [OF etcd_contract_ref ni_ops_equaler])
  with run show ?thesis unfolding NewReadOnlyStore_def storeBase.simps fst_conv by blast
qed

text \<open>
  C21: a read-only store that agrees with a keyspace follows every sequence of watch events on item
  keys with decodable values: it agrees with the keyspace after the events, and a client that
  follows the handler calls knows its contents up to \<open>Equals\<close>.
\<close>

theorem readonly_watch_tracks:
  assumes "equaler (item_Equals T)" and "st_handlers s = all_handlers"
    and "map_get (st_data s) = etcd_items T (st_client s) m"
    and "\<forall>ev \<in> set evs. event_ok T (st_client s) ev"
    and "view_rel (item_Equals T) view (map_get (st_data s))"
    and "ro_watchEventHandler T (client_prefix (st_client s)) evs s = (ns, s')"
  shows "map_get (st_data s') = etcd_items T (st_client s) (fold ev_effect evs m) \<and>
    view_rel (item_Equals T) (fold apply_note ns view) (map_get (st_data s'))"
  using equaler.ro_watch_tracks [OF assms(1) refl assms(2-6)] .

theorem readonly_watch_tracks_witness:
  "let s = NewReadOnlyStore net_client all_handlers;
       evs = [EvPut ''/networks/n1'' ''f1'', EvDelete ''/networks/n1''];
       r = ro_watchEventHandler ni_ops (client_prefix (st_client s)) evs s
   in map_get (st_data (snd r)) = etcd_items ni_ops (st_client s) (fold ev_effect evs Map.empty) \<and>
    view_rel (item_Equals ni_ops) (fold apply_note (fst r) (map_get [])) (map_get (st_data (snd r)))"
proof -
  let ?s = "NewReadOnlyStore net_client all_handlers :: NetworkInfo storeBase"
  let ?evs = "[EvPut ''/networks/n1'' ''f1'', EvDelete ''/networks/n1'']"
  let ?r = "ro_watchEventHandler ni_ops (client_prefix (st_client ?s)) ?evs ?s"
  have "st_handlers ?s = all_handlers" "map_get (st_data ?s) = etcd_items ni_ops (st_client ?s) Map.empty"
    by (simp_all add: NewReadOnlyStore_def etcd_items_def fun_eq_iff)
  moreover have "\<forall>ev \<in> set ?evs. event_ok ni_ops (st_client ?s) ev"
    using valid_n1 key_n1 by (auto simp: event_ok_def ni_ops_def NewReadOnlyStore_def)
  moreover have "view_rel (item_Equals ni_ops) (map_get []) (map_get (st_data ?s))"
    by (simp add: view_rel_def NewReadOnlyStore_def)
  moreover have "?r = (fst ?r, snd ?r)" by (rule prod.collapse [symmetric])
  ultimately show ?thesis unfolding Let_def by (rule readonly_watch_tracks [OF ni_ops_equaler])
qed

text \<open>
  C17: a successful \<open>Sync\<close> of a write-only store with no other writer makes etcd encode exactly the
  given items below the prefix, whatever was there before, changes no other key, leaves the
  store with the items, and calls the handlers with changes that bring a client up to date.
\<close>

theorem writeonly_Sync_writes:
  assumes "etcd_contract E kv (=)" and "equaler (item_Equals T)"
    and "\<forall>x v. marshal T x = Some v \<longrightarrow> unmarshal T v = Some x"
    and "st_handlers s = all_handlers" and "view_rel (item_Equals T) view (map_get (st_data s))"
    and "map_ok items" and "\<forall>i \<in> fst ` set items. valid_id i"
    and "store_keys (st_client s) (kv w)" and "decodable T (st_client s) (kv w)"
    and "wo_Sync E T items s w = (None, ns, s', w')"
  shows "etcd_items T (st_client s) (kv w') = map_get items \<and>
    (\<forall>k. (\<forall>i. valid_id i \<longrightarrow> k \<noteq> GetKey (st_client s) [i]) \<longrightarrow> kv w' k = kv w k) \<and>
    st_data s' = items \<and> view_rel (item_Equals T) (fold apply_note ns view) (map_get items)"
proof -
  obtain diff u where S: "syncToInternalState T items s = (diff, s')"
    and W: "WithConnection E (write_all E T items s') w = (Inr u, w')"
    and ns: "ns = call_handlers (st_handlers s') diff"
    using assms(10) by (auto simp: wo_Sync_def wo_sync_def split: prod.splits sum.splits)
  have c: "st_client s' = st_client s"
    using S by (auto simp: syncToInternalState_def case_prod_unfold Let_def)
  obtain w1 where cn: "conn_new E w = (None, w1)" and W1: "write_all E T items s' w1 = (Inr u, w')"
    using W by (rule WithConnection_Inr)
  have kv1: "kv w1 = kv w" using conn_new_rely [OF assms(1) cn] by simp
  have "store_keys (st_client s') (kv w1)" "decodable T (st_client s') (kv w1)"
    using assms(8,9) by (simp_all add: c kv1)
  note A = write_all_alone [OF assms(1) W1 assms(6,7) this, unfolded c kv1]
  have "etcd_items T (st_client s) (kv w') i = map_get items i" for i
  proof (cases "valid_id i")
    case True
    then show ?thesis
      using A [THEN conjunct1, rule_format, OF True] assms(3) write_all_marshal [OF W1]
      by (cases "map_get items i") (auto simp: etcd_items_def dest!: map_get_in_set)
  next
    case False
    then have "map_get items i = None" using assms(7) by (auto simp: map_get_None_iff)
    then show ?thesis using False by (simp add: etcd_items_def)
  qed
  moreover note A [THEN conjunct2] equaler.sync_replay [OF assms(2) refl assms(4,6,5) S]
  ultimately show ?thesis unfolding ns by (auto simp: fun_eq_iff)
qed

theorem writeonly_Sync_writes_witness:
  "\<exists>ns s' w'. wo_Sync ref_env ni_ops [(''n2'', ni_item ''f2'')]
      (NewWriteOnlyStore net_client all_handlers) ([(''/networks/n1'', ''f1'')], 0) = (None, ns, s', w') \<and>
    etcd_items ni_ops net_client (ref_kv w') = map_get [(''n2'', ni_item ''f2'')] \<and>
    st_data s' = [(''n2'', ni_item ''f2'')]"
  (is "\<exists>ns s' w'. wo_Sync ref_env ni_ops ?items ?s ?w = _ \<and> _")
proof -
  obtain ns s' w' where run: "wo_Sync ref_env ni_ops ?items ?s ?w = (None, ns, s', w')"
    by (simp add: wo_Sync_def wo_sync_def WithConnection_def write_all_def loadData_def
        etcd_GetPrefix_def etcd_Delete_def ref_commit_def NewWriteOnlyStore_def map_put_def
        net_client_prefix parseItem_def trim_prefix_def trim_left_def ni_ops_def ni_item_def
        storeItem_def PutIfNewOrChanged_def GetKey_single lo_Difference_def map_keys_def
        syncToInternalState_def case_prod_unfold Let_def)
  have c: "st_client ?s = net_client" by (simp add: NewWriteOnlyStore_def)
  have "\<forall>x v. marshal ni_ops x = Some v \<longrightarrow> unmarshal ni_ops v = Some x"
    using ni_ops_roundtrip by blast
  moreover have "st_handlers ?s = all_handlers" "map_ok ?items" "\<forall>i \<in> fst ` set ?items. valid_id i"
    "view_rel (item_Equals ni_ops) (map_get []) (map_get (st_data ?s))"
    by (simp_all add: NewWriteOnlyStore_def view_rel_def map_ok_def valid_id_def)
  moreover have "store_keys (st_client ?s) (ref_kv ?w)"
    unfolding c fst_conv key_n1 by (rule store_keys_single [OF valid_n1])
  moreover have "decodable ni_ops (st_client ?s) (ref_kv ?w)"
    by (simp add: decodable_def ni_ops_def)
  ultimately have "etcd_items ni_ops (st_client ?s) (ref_kv w') = map_get ?items \<and>
      (\<forall>k. (\<forall>i. valid_id i \<longrightarrow> k \<noteq> GetKey (st_client ?s) [i]) \<longrightarrow> ref_kv w' k = ref_kv ?w k) \<and>
      st_data s' = ?items \<and>
      view_rel (item_Equals ni_ops) (fold apply_note ns (map_get [])) (map_get ?items)"
    using run by (intro writeonly_Sync_writes [OF etcd_contract_ref ni_ops_equaler])
  with run show ?thesis unfolding c by blast
qed

end
