(* ===== verification/Sharded_Store.thy ===== *)
theory Sharded_Store
  imports Stores
begin

text \<open>
  \<open>plugin/pkg/etcd/sharded_distributed_store.go\<close>: items grouped in shards, one per node, under
  the keys \<open>prefix/shardKey/itemID\<close>.  Every node writes its own shard and follows the others.
  The nested concurrent maps are shared by reference in the code only inside this store, so a
  shard is put back into the map of shards after a change.
\<close>

section \<open>State\<close>

record 't shard_change =
  sc_ShardKey :: string
  sc_ID :: string
  sc_Previous :: 't
  sc_Current :: 't

type_synonym 't shard_item = "string \<times> string \<times> 't"   \<comment> \<open>\<open>ShardKey\<close>, \<open>ID\<close>, \<open>Value\<close>\<close>

datatype 't shard_note =
    SAdded "'t shard_item list"
  | SChanged "'t shard_change list"
  | SRemoved "'t shard_item list"

type_synonym 't shard_diff = "'t shard_change list \<times> 't shard_item list \<times> 't shard_item list"

record 't sstore =
  ss_client :: etcdClient
  localShardKey :: string
  ss_handlers :: handlers_set
  shardedData :: "(string, (string, 't) gomap) gomap"
  ss_data :: "(string, 't) gomap"
  itemToShardKey :: "(string, string) gomap"

definition NewShardedDistributedStore :: "etcdClient \<Rightarrow> string \<Rightarrow> handlers_set \<Rightarrow> 't sstore" where
  "NewShardedDistributedStore c k h = \<lparr>ss_client = c, localShardKey = k, ss_handlers = h,
     shardedData = map_put k [] [], ss_data = [], itemToShardKey = []\<rparr>"

definition ss_GetAll :: "'t sstore \<Rightarrow> (string, (string, 't) gomap) gomap" where
  "ss_GetAll s = shardedData s"

definition ss_GetShard :: "string \<Rightarrow> 't sstore \<Rightarrow> (string, 't) gomap option" where
  "ss_GetShard k s = map_get (shardedData s) k"

text \<open>\<open>GetItem\<close>: a missing shard key reads as the empty string.\<close>

definition ss_GetItem :: "string \<Rightarrow> 't sstore \<Rightarrow> string \<times> 't option" where
  "ss_GetItem itemID s =
     (case map_get (itemToShardKey s) itemID of None \<Rightarrow> [] | Some k \<Rightarrow> k, map_get (ss_data s) itemID)"

section \<open>Synchronising a shard\<close>

fun shard_changes ::
  "('t \<Rightarrow> 't \<Rightarrow> bool) \<Rightarrow> string \<Rightarrow> (string, 't) gomap \<Rightarrow> (string, 't) gomap \<Rightarrow>
    't shard_change list \<times> 't shard_item list"
where
  "shard_changes eq shardKey d [] = ([], [])"
| "shard_changes eq shardKey d ((i, item) # truth) =
     (case shard_changes eq shardKey d truth of (changes, added) \<Rightarrow>
        (case map_get d i of
           Some previousItem \<Rightarrow>
             (if \<not> eq previousItem item
              then (\<lparr>sc_ShardKey = shardKey, sc_ID = i, sc_Previous = previousItem,
                      sc_Current = item\<rparr> # changes, added)
              else (changes, added))
         | None \<Rightarrow> (changes, (shardKey, i, item) # added)))"

fun index_shard ::
  "string \<Rightarrow> (string, 't) gomap \<Rightarrow> (string, 't) gomap \<times> (string, string) gomap \<Rightarrow>
    (string, 't) gomap \<times> (string, string) gomap"
where
  "index_shard k [] di = di"
| "index_shard k ((i, item) # items) (d, ix) = index_shard k items (map_put i item d, map_put i k ix)"

fun index_shards ::
  "(string, (string, 't) gomap) gomap \<Rightarrow> (string, 't) gomap \<times> (string, string) gomap \<Rightarrow>
    (string, 't) gomap \<times> (string, string) gomap"
where
  "index_shards [] di = di"
| "index_shards ((k, items) # shards) di = index_shards shards (index_shard k items di)"

definition ss_syncToInternalState ::
  "'t item_ops \<Rightarrow> string \<Rightarrow> (string, 't) gomap \<Rightarrow> 't sstore \<Rightarrow> 't shard_diff \<times> 't sstore"
where
  "ss_syncToInternalState T shardKey truth s =
     (let shardItems = (case map_get (shardedData s) shardKey of Some m \<Rightarrow> m | None \<Rightarrow> []);
          (changes, added) = shard_changes (item_Equals T) shardKey shardItems truth;
          (toBeDeleted, _) = lo_Difference (map_keys shardItems) (map_keys truth);
          removed = map (\<lambda>i. (shardKey, i, the (map_get shardItems i))) toBeDeleted;
          shards = map_put shardKey truth (shardedData s);
          (d, ix) = index_shards shards ([], itemToShardKey s)
      in ((changes, added, removed), s\<lparr>shardedData := shards, ss_data := d, itemToShardKey := ix\<rparr>))"

text \<open>\<open>parseItemKey\<close>; \<open>None\<close> is an ignored key.\<close>

definition parseItemKey :: "string \<Rightarrow> string \<Rightarrow> (string \<times> string) option" where
  "parseItemKey k pre =
     (let key = trim_left CHR ''/'' (trim_prefix pre k);
          parts = split_on CHR ''/'' key
      in if length parts \<noteq> 2 then None else Some (parts ! 0, parts ! 1))"

definition setShardedItem ::
  "(string, (string, 't) gomap) gomap \<Rightarrow> string \<Rightarrow> string \<Rightarrow> 't \<Rightarrow> (string, (string, 't) gomap) gomap"
where
  "setShardedItem dst shardKey itemID item =
     (let shard = (case map_get dst shardKey of Some m \<Rightarrow> m | None \<Rightarrow> [])
      in map_put shardKey (map_put itemID item shard) dst)"

fun ss_load_items ::
  "'t item_ops \<Rightarrow> string \<Rightarrow> (string \<times> string) list \<Rightarrow> (string, (string, 't) gomap) gomap \<Rightarrow>
    (string, (string, 't) gomap) gomap result"
where
  "ss_load_items T pre [] res = Inr res"
| "ss_load_items T pre ((k, v) # kvs) res =
     (case parseItemKey k pre of
        None \<Rightarrow> ss_load_items T pre kvs res
      | Some (shardKey, itemID) \<Rightarrow>
          (case unmarshal T v of
             None \<Rightarrow> Inl (DecodeError k)
           | Some item \<Rightarrow> ss_load_items T pre kvs (setShardedItem res shardKey itemID item)))"

definition ss_loadData ::
  "'w env \<Rightarrow> 't item_ops \<Rightarrow> 't sstore \<Rightarrow> ('w, (string, (string, 't) gomap) gomap) io" where
  "ss_loadData E T s w =
     (let pre = GetKey (ss_client s) []
      in case etcd_GetPrefix E pre w of
           (Inl e, w') \<Rightarrow> (Inl e, w')
         | (Inr kvs, w') \<Rightarrow> (ss_load_items T pre kvs [], w'))"

definition ss_storeItem ::
  "'w env \<Rightarrow> 't item_ops \<Rightarrow> etcdClient \<Rightarrow> string \<Rightarrow> string \<Rightarrow> 't \<Rightarrow> ('w, bool) io" where
  "ss_storeItem E T c shardKey itemID item w = (case marshal T item of
      None \<Rightarrow> (Inl (OtherError ''Failed to serialize item''), w)
    | Some bytes \<Rightarrow> PutIfNewOrChanged E (GetKey c [shardKey, itemID]) bytes w)"

section \<open>Operations\<close>

type_synonym ('w, 't) sstore_res = "err option \<times> 't shard_note list \<times> 't sstore \<times> 'w"

text \<open>The local shard is dereferenced without a test; a missing one is a nil dereference.\<close>

definition ss_AddOrUpdateItem ::
  "'w env \<Rightarrow> 't item_ops \<Rightarrow> string \<Rightarrow> 't \<Rightarrow> 't sstore \<Rightarrow> 'w \<Rightarrow> ('w, 't) sstore_res" where
  "ss_AddOrUpdateItem E T itemID item s w =
     (let shardKey = localShardKey s
      in case map_get (shardedData s) shardKey of
           None \<Rightarrow> (Some (Panic ''nil shard''), [], s, w)
         | Some shardItems \<Rightarrow>
             (let previousItem = map_get shardItems itemID;
                  s' = s\<lparr>shardedData := map_put shardKey (map_put itemID item shardItems) (shardedData s),
                         ss_data := map_put itemID item (ss_data s),
                         itemToShardKey := map_put itemID shardKey (itemToShardKey s)\<rparr>
              in case WithConnection E (ss_storeItem E T (ss_client s) shardKey itemID item) w of
                   (Inl e, w') \<Rightarrow> (Some e, [], s', w')
                 | (Inr _, w') \<Rightarrow>
                     (None,
                      (case previousItem of
                         Some p \<Rightarrow>
                           (if \<not> item_Equals T p item \<and> has_OnChanged (ss_handlers s)
                            then [SChanged [\<lparr>sc_ShardKey = shardKey, sc_ID = itemID,
                                    sc_Previous = p, sc_Current = item\<rparr>]] else [])
                       | None \<Rightarrow>
                           if has_OnAdded (ss_handlers s) then [SAdded [(shardKey, itemID, item)]] else []),
                      s', w')))"

definition ss_DeleteItem ::
  "'w env \<Rightarrow> string \<Rightarrow> 't sstore \<Rightarrow> 'w \<Rightarrow> ('w, 't) sstore_res" where
  "ss_DeleteItem E itemID s w =
     (let shardKey = localShardKey s
      in case map_get (shardedData s) shardKey of
           None \<Rightarrow> (Some (Panic ''nil shard''), [], s, w)
         | Some shardItems \<Rightarrow>
             (let previousItem = map_get shardItems itemID;
                  s' = s\<lparr>shardedData := map_put shardKey (map_del itemID shardItems) (shardedData s),
                         ss_data := map_del itemID (ss_data s),
                         itemToShardKey := map_del itemID (itemToShardKey s)\<rparr>
              in case WithConnection E (etcd_Delete E (GetKey (ss_client s) [shardKey, itemID])) w of
                   (Inl e, w') \<Rightarrow> (Some e, [], s', w')
                 | (Inr _, w') \<Rightarrow>
                     (None,
                      (case previousItem of
                         Some p \<Rightarrow> if has_OnRemoved (ss_handlers s)
                                   then [SRemoved [(shardKey, itemID, p)]] else []
                       | None \<Rightarrow> []),
                      s', w')))"

fun ss_store_items ::
  "'w env \<Rightarrow> 't item_ops \<Rightarrow> etcdClient \<Rightarrow> string \<Rightarrow> (string \<times> 't) list \<Rightarrow> ('w, unit) io"
where
  "ss_store_items E T c shardKey [] w = (Inr (), w)"
| "ss_store_items E T c shardKey ((i, item) # items) w =
     (case ss_storeItem E T c shardKey i item w of
        (Inl e, w') \<Rightarrow> (Inl e, w')
      | (Inr _, w') \<Rightarrow> ss_store_items E T c shardKey items w')"

fun ss_delete_items :: "'w env \<Rightarrow> etcdClient \<Rightarrow> string \<Rightarrow> string list \<Rightarrow> ('w, unit) io" where
  "ss_delete_items E c shardKey [] w = (Inr (), w)"
| "ss_delete_items E c shardKey (i # is) w =
     (case etcd_Delete E (GetKey c [shardKey, i]) w of
        (Inl e, w') \<Rightarrow> (Inl e, w')
      | (Inr _, w') \<Rightarrow> ss_delete_items E c shardKey is w')"

text \<open>The loop over the shards found in etcd.\<close>

fun sync_shards ::
  "'w env \<Rightarrow> 't item_ops \<Rightarrow> (string, 't) gomap \<Rightarrow> (string, (string, 't) gomap) gomap \<Rightarrow>
    't shard_diff \<Rightarrow> 't sstore \<Rightarrow> 'w \<Rightarrow> err option \<times> 't shard_diff \<times> 't sstore \<times> 'w"
where
  "sync_shards E T localItems [] diff s w = (None, diff, s, w)"
| "sync_shards E T localItems ((shardKey, shardItems) # shards) (ch, ad, rm) s w =
     (if shardKey \<noteq> localShardKey s
      then (case ss_syncToInternalState T shardKey shardItems s of ((ch', ad', rm'), s') \<Rightarrow>
              sync_shards E T localItems shards (ch @ ch', ad @ ad', rm @ rm') s' w)
      else (let (toBeDeleted, _) = lo_Difference (map_keys shardItems) (map_keys localItems)
            in case ss_store_items E T (ss_client s) shardKey localItems w of
                 (Inl e, w1) \<Rightarrow> (Some e, (ch, ad, rm), s, w1)
               | (Inr _, w1) \<Rightarrow>
                   (case ss_delete_items E (ss_client s) shardKey toBeDeleted w1 of
                      (Inl e, w2) \<Rightarrow> (Some e, (ch, ad, rm), s, w2)
                    | (Inr _, w2) \<Rightarrow> sync_shards E T localItems shards (ch, ad, rm) s w2)))"

definition ss_sync ::
  "'w env \<Rightarrow> 't item_ops \<Rightarrow> (string, 't) gomap \<Rightarrow> bool \<Rightarrow> 't sstore \<Rightarrow> 'w \<Rightarrow> ('w, 't) sstore_res" where
  "ss_sync E T localItems callHandlers s w =
     (case ss_syncToInternalState T (localShardKey s) localItems s of (diff0, s1) \<Rightarrow>
        (case conn_new E w of
           (Some client_nil, w1) \<Rightarrow>
             (Some (if client_nil then Panic ''nil client'' else ConnectError), [], s1, w1)
         | (None, w1) \<Rightarrow>
             (case ss_loadData E T s1 w1 of
                (Inl e, w2) \<Rightarrow> (Some e, [], s1, w2)
              | (Inr etcdData, w2) \<Rightarrow>
                  (case sync_shards E T localItems etcdData diff0 s1 w2 of
                     (Some e, _, s2, w3) \<Rightarrow> (Some e, [], s2, w3)
                   | (None, (ch, ad, rm), s2, w3) \<Rightarrow>
                       (None,
                        if callHandlers
                        then (if length ad > 0 \<and> has_OnAdded (ss_handlers s2) then [SAdded ad] else []) @
                             (if length ch > 0 \<and> has_OnChanged (ss_handlers s2) then [SChanged ch] else []) @
                             (if length rm > 0 \<and> has_OnRemoved (ss_handlers s2) then [SRemoved rm] else [])
                        else [],
                        s2, w3)))))"

definition ss_Sync ::
  "'w env \<Rightarrow> 't item_ops \<Rightarrow> (string, 't) gomap \<Rightarrow> 't sstore \<Rightarrow> 'w \<Rightarrow> ('w, 't) sstore_res" where
  "ss_Sync E T localItems s w = ss_sync E T localItems True s w"

definition ss_Init ::
  "'w env \<Rightarrow> 't item_ops \<Rightarrow> (string, 't) gomap \<Rightarrow> 't sstore \<Rightarrow> 'w \<Rightarrow> ('w, 't) sstore_res" where
  "ss_Init E T localItems s w = (case ss_sync E T localItems False s w of
      (Some e, ns, s', w') \<Rightarrow> (Some e, ns, s', w')
    | (None, ns, s', w') \<Rightarrow>
        (case client_Watch E w' of
           (Inl e, w2) \<Rightarrow> (with_message (Some e), ns, s', w2)
         | (Inr _, w2) \<Rightarrow> (None, ns, s', w2)))"

text \<open>One event of \<open>handleWatchEvents\<close>; events of the local shard are ignored.\<close>

fun ss_watch_event ::
  "'t item_ops \<Rightarrow> string \<Rightarrow> watch_event \<Rightarrow> 't sstore \<Rightarrow> 't shard_note list \<times> 't sstore"
where
  "ss_watch_event T pre (EvDelete k) s = (case parseItemKey k pre of
      None \<Rightarrow> ([], s)
    | Some (shardKey, itemID) \<Rightarrow>
        if shardKey = localShardKey s then ([], s)
        else (let s1 = (case map_get (shardedData s) shardKey of
                          Some items \<Rightarrow> s\<lparr>shardedData := map_put shardKey (map_del itemID items) (shardedData s)\<rparr>
                        | None \<Rightarrow> s);
                  item = map_get (ss_data s1) itemID;
                  s2 = s1\<lparr>ss_data := map_del itemID (ss_data s1),
                          itemToShardKey := map_del itemID (itemToShardKey s1)\<rparr>
              in ((case item of
                     Some x \<Rightarrow> if has_OnRemoved (ss_handlers s) then [SRemoved [(shardKey, itemID, x)]] else []
                   | None \<Rightarrow> []), s2)))"
| "ss_watch_event T pre (EvPut k v) s = (case parseItemKey k pre of
      None \<Rightarrow> ([], s)
    | Some (shardKey, itemID) \<Rightarrow>
        if shardKey = localShardKey s then ([], s)
        else (case unmarshal T v of
                None \<Rightarrow> ([], s)
              | Some item \<Rightarrow>
                  (let items = (case map_get (shardedData s) shardKey of Some m \<Rightarrow> m | None \<Rightarrow> []);
                       previousItem = map_get items itemID;
                       s' = s\<lparr>shardedData := map_put shardKey (map_put itemID item items) (shardedData s),
                              ss_data := map_put itemID item (ss_data s)\<rparr>
                   in ((case previousItem of
                          Some p \<Rightarrow>
                            if has_OnChanged (ss_handlers s) \<and> \<not> item_Equals T p item
                            then [SChanged [\<lparr>sc_ShardKey = shardKey, sc_ID = itemID, sc_Previous = p,
                                    sc_Current = item\<rparr>]] else []
                        | None \<Rightarrow> if has_OnAdded (ss_handlers s)
                                  then [SAdded [(shardKey, itemID, item)]] else []), s'))))"

fun ss_handleWatchEvents ::
  "'t item_ops \<Rightarrow> string \<Rightarrow> watch_event list \<Rightarrow> 't sstore \<Rightarrow> 't shard_note list \<times> 't sstore"
where
  "ss_handleWatchEvents T pre [] s = ([], s)"
| "ss_handleWatchEvents T pre (ev # evs) s =
     (case ss_watch_event T pre ev s of (ns, s1) \<Rightarrow>
        (case ss_handleWatchEvents T pre evs s1 of (ns', s2) \<Rightarrow> (ns @ ns', s2)))"

section \<open>Lemmas\<close>

definition pair_parts :: "string list \<Rightarrow> (string \<times> string) option" where
  "pair_parts ps = (case ps of [k, i] \<Rightarrow> Some (k, i) | _ \<Rightarrow> None)"

definition valid_pair :: "string \<times> string \<Rightarrow> bool" where
  "valid_pair p \<longleftrightarrow> valid_id (fst p) \<and> valid_id (snd p)"

definition pair_path :: "string \<times> string \<Rightarrow> string list" where
  "pair_path p = [fst p, snd p]"

interpretation shard: item_keys pair_path pair_parts valid_pair
  by unfold_locales (auto simp: pair_parts_def valid_pair_def pair_path_def valid_id_def)

lemma parseItemKey_key:
  "valid_id k \<Longrightarrow> valid_id i \<Longrightarrow> parseItemKey (GetKey c [k, i]) (client_prefix c) = Some (k, i)"
  using shard.parse_key [of "(k, i)" c] by (simp add: parseItemKey_def pair_path_def valid_pair_def Let_def)

lemma shard_key_inj:
  "valid_id k \<Longrightarrow> valid_id i \<Longrightarrow> valid_id k' \<Longrightarrow> valid_id i' \<Longrightarrow>
   GetKey c [k, i] = GetKey c [k', i'] \<longleftrightarrow> k = k' \<and> i = i'"
  using shard.key_inj [of "(k, i)" "(k', i')" c] by (auto simp: pair_path_def valid_pair_def)

text \<open>What the store holds of an item of a shard, and what the keyspace encodes.\<close>

definition shard_item :: "'t sstore \<Rightarrow> string \<Rightarrow> string \<Rightarrow> 't option" where
  "shard_item s k i = (case map_get (shardedData s) k of None \<Rightarrow> None | Some m \<Rightarrow> map_get m i)"

definition etcd_shard_item :: "'t item_ops \<Rightarrow> etcdClient \<Rightarrow> keyspace \<Rightarrow> string \<Rightarrow> string \<Rightarrow> 't option" where
  "etcd_shard_item T c m k i =
     (if valid_id k \<and> valid_id i
      then (case m (GetKey c [k, i]) of None \<Rightarrow> None | Some v \<Rightarrow> unmarshal T v) else None)"

definition mirrors_remote :: "'t item_ops \<Rightarrow> 't sstore \<Rightarrow> keyspace \<Rightarrow> bool" where
  "mirrors_remote T s m \<longleftrightarrow>
     (\<forall>k i. k \<noteq> localShardKey s \<longrightarrow> shard_item s k i = etcd_shard_item T (ss_client s) m k i)"

definition shard_event_ok :: "'t item_ops \<Rightarrow> etcdClient \<Rightarrow> watch_event \<Rightarrow> bool" where
  "shard_event_ok T c ev \<longleftrightarrow> (case ev of
      EvPut k v \<Rightarrow> (\<exists>sk i. valid_id sk \<and> valid_id i \<and> k = GetKey c [sk, i]) \<and> unmarshal T v \<noteq> None
    | EvDelete k \<Rightarrow> (\<exists>sk i. valid_id sk \<and> valid_id i \<and> k = GetKey c [sk, i]))"

lemma etcd_shard_item_upd:
  assumes "valid_id k" "valid_id i"
  shows "etcd_shard_item T c (m(GetKey c [k, i] := v)) k' i' =
    (if k' = k \<and> i' = i then (case v of None \<Rightarrow> None | Some s \<Rightarrow> unmarshal T s)
     else etcd_shard_item T c m k' i')"
  using assms by (auto simp: etcd_shard_item_def shard_key_inj)

lemma ss_watch_event_mirrors:
  assumes M: "mirrors_remote T s m" and ev: "shard_event_ok T (ss_client s) ev"
    and R: "ss_watch_event T (client_prefix (ss_client s)) ev s = (ns, s')"
  shows "mirrors_remote T s' (ev_effect ev m) \<and> ss_client s' = ss_client s \<and>
    localShardKey s' = localShardKey s"
proof -
  have M': "k \<noteq> localShardKey s \<Longrightarrow> shard_item s k i = etcd_shard_item T (ss_client s) m k i" for k i
    using M by (simp add: mirrors_remote_def)
  show ?thesis
  proof (cases ev)
    case (EvPut key v)
    then obtain k i x where k: "valid_id k" "valid_id i" "key = GetKey (ss_client s) [k, i]"
      and x: "unmarshal T v = Some x" using ev by (auto simp: shard_event_ok_def)
    note p = parseItemKey_key [OF k(1,2)]
    show ?thesis
    proof (cases "k = localShardKey s")
      case True
      then have "s' = s" using R EvPut k(3) p by simp
      then show ?thesis using M' True k
        by (auto simp: mirrors_remote_def ev_effect_def EvPut etcd_shard_item_upd)
    next
      case False
      then have s': "s' = s\<lparr>shardedData := map_put k (map_put i x (case map_get (shardedData s) k of
          Some m \<Rightarrow> m | None \<Rightarrow> [])) (shardedData s), ss_data := map_put i x (ss_data s)\<rparr>"
        using R EvPut k(3) p x by (auto simp: Let_def)
      have "shard_item s' k' i' = (if k' = k \<and> i' = i then Some x else shard_item s k' i')" for k' i'
        by (auto simp: s' shard_item_def split: option.splits)
      then show ?thesis using M' k x
        by (auto simp: mirrors_remote_def ev_effect_def EvPut etcd_shard_item_upd s')
    qed
  next
    case (EvDelete key)
    then obtain k i where k: "valid_id k" "valid_id i" "key = GetKey (ss_client s) [k, i]"
      using ev by (auto simp: shard_event_ok_def)
    note p = parseItemKey_key [OF k(1,2)]
    show ?thesis
    proof (cases "k = localShardKey s")
      case True
      then have "s' = s" using R EvDelete k(3) p by simp
      then show ?thesis using M' True k
        by (auto simp: mirrors_remote_def ev_effect_def EvDelete etcd_shard_item_upd)
    next
      case False
      then have s': "ss_client s' = ss_client s" "localShardKey s' = localShardKey s"
        "shardedData s' = (case map_get (shardedData s) k of
           Some items \<Rightarrow> map_put k (map_del i items) (shardedData s) | None \<Rightarrow> shardedData s)"
        using R EvDelete k(3) p by (auto simp: Let_def split: option.splits)
      have "shard_item s' k' i' = (if k' = k \<and> i' = i then None else shard_item s k' i')" for k' i'
        by (auto simp: s' shard_item_def split: option.splits)
      then show ?thesis using M' k
        by (auto simp: mirrors_remote_def ev_effect_def EvDelete etcd_shard_item_upd s')
    qed
  qed
qed

lemma ss_watch_mirrors:
  "mirrors_remote T s m \<Longrightarrow> \<forall>ev \<in> set evs. shard_event_ok T (ss_client s) ev \<Longrightarrow>
   ss_handleWatchEvents T (client_prefix (ss_client s)) evs s = (ns, s') \<Longrightarrow>
   mirrors_remote T s' (fold ev_effect evs m)"
proof (induction evs arbitrary: s m ns)
  case (Cons ev evs)
  obtain ns1 s1 where 1: "ss_watch_event T (client_prefix (ss_client s)) ev s = (ns1, s1)"
    by (cases "ss_watch_event T (client_prefix (ss_client s)) ev s")
  obtain ns2 where 2: "ss_handleWatchEvents T (client_prefix (ss_client s)) evs s1 = (ns2, s')"
    using Cons.prems(3) 1 by (auto split: prod.splits)
  have "shard_event_ok T (ss_client s) ev" using Cons.prems(2) by simp
  note step = ss_watch_event_mirrors [OF Cons.prems(1) this 1]
  show ?case using Cons.IH [of s1 "ev_effect ev m" ns2] step Cons.prems(2) 2 by simp
qed simp

lemma ss_load_items_dom:
  "ss_load_items T pre kvs res = Inr d \<Longrightarrow> map_has d k \<Longrightarrow>
   map_has res k \<or> (\<exists>key \<in> fst ` set kvs. \<exists>i. parseItemKey key pre = Some (k, i))"
proof (induction T pre kvs res rule: ss_load_items.induct)
  case (2 T pre key v kvs res)
  show ?case
  proof (cases "parseItemKey key pre")
    case None
    with 2 show ?thesis by auto
  next
    case (Some ki)
    obtain k' i' where ki: "ki = (k', i')" by (cases ki)
    obtain item where "unmarshal T v = Some item"
      using "2.prems"(1) Some ki by (auto split: option.splits)
    with 2 Some ki have "map_has (setShardedItem res k' i' item) k \<or>
        (\<exists>key \<in> fst ` set kvs. \<exists>i. parseItemKey key pre = Some (k, i))" by auto
    then show ?thesis using Some ki by (auto simp: setShardedItem_def Let_def split: if_splits)
  qed
qed simp

lemma localShardKey_sync [simp]:
  "localShardKey (snd (ss_syncToInternalState T k truth s)) = localShardKey s"
  "ss_client (snd (ss_syncToInternalState T k truth s)) = ss_client s"
  by (simp_all add: ss_syncToInternalState_def case_prod_unfold Let_def)

lemma sync_shards_remote_only:
  "\<forall>k \<in> fst ` set shards. k \<noteq> localShardKey s \<Longrightarrow>
   sync_shards E T items shards diff s w = (r, diff', s', w') \<Longrightarrow> r = None \<and> w' = w"
proof (induction shards arbitrary: diff s)
  case (Cons ks shards)
  obtain k sh where ks: "ks = (k, sh)" by (cases ks)
  obtain ch ad rm where diff: "diff = (ch, ad, rm)" by (cases diff)
  obtain ch' ad' rm' s1 where 1: "ss_syncToInternalState T k sh s = ((ch', ad', rm'), s1)"
    by (metis surj_pair)
  have "localShardKey s1 = localShardKey s" using localShardKey_sync(1) [of T k sh s] 1 by simp
  then show ?case
    using Cons.IH [of s1 "(ch @ ch', ad @ ad', rm @ rm')"] Cons.prems 1 by (simp add: ks diff)
qed simp

section \<open>Properties\<close>

text \<open>
  C22: a sharded store whose other shards agree with etcd follows every sequence of watch events on
  items of any shard: afterwards the other shards agree with the keyspace after the events.
\<close>

theorem sharded_watch_mirrors_remote:
  assumes "mirrors_remote T s m" and "\<forall>ev \<in> set evs. shard_event_ok T (ss_client s) ev"
    and "ss_handleWatchEvents T (client_prefix (ss_client s)) evs s = (ns, s')"
  shows "mirrors_remote T s' (fold ev_effect evs m)"
  using assms by (rule ss_watch_mirrors)

definition node_store :: "NetworkInfo sstore" where
  "node_store = NewShardedDistributedStore net_client ''host1'' all_handlers"

lemma node_store_client [simp]: "ss_client node_store = net_client" "localShardKey node_store = ''host1''"
  by (simp_all add: node_store_def NewShardedDistributedStore_def)

lemma remote_key: "''/networks/host2/c1'' = GetKey net_client [''host2'', ''c1'']"
  by (simp add: GetKey_def net_client_prefix)

lemma remote_event_ok: "shard_event_ok ni_ops net_client (EvPut ''/networks/host2/c1'' ''f1'')"
proof -
  have "valid_id ''host2''" "valid_id ''c1''" by (simp_all add: valid_id_def)
  moreover have "unmarshal ni_ops ''f1'' \<noteq> None" by (simp add: ni_ops_def)
  ultimately show ?thesis using remote_key by (auto simp: shard_event_ok_def)
qed

theorem sharded_watch_mirrors_remote_witness:
  "let evs = [EvPut ''/networks/host2/c1'' ''f1''];
       r = ss_handleWatchEvents ni_ops (client_prefix (ss_client node_store)) evs node_store
   in mirrors_remote ni_ops (snd r) (fold ev_effect evs Map.empty)"
proof -
  let ?evs = "[EvPut ''/networks/host2/c1'' ''f1'']"
  let ?r = "ss_handleWatchEvents ni_ops (client_prefix (ss_client node_store)) ?evs node_store"
  have "mirrors_remote ni_ops node_store Map.empty"
    by (simp add: mirrors_remote_def node_store_def NewShardedDistributedStore_def shard_item_def
        etcd_shard_item_def map_put_def)
  moreover have "\<forall>ev \<in> set ?evs. shard_event_ok ni_ops (ss_client node_store) ev"
    using remote_event_ok by simp
  moreover have "?r = (fst ?r, snd ?r)" by (rule prod.collapse [symmetric])
  ultimately show ?thesis unfolding Let_def by (rule sharded_watch_mirrors_remote)
qed

text \<open>
  An item that another node adds is found by \<open>GetItem\<close>, but under the empty shard key: the
  handler of PUT events does not record the shard of the item.
\<close>

theorem sharded_put_loses_shard_key:
  assumes "valid_id k" and "valid_id i" and "k \<noteq> localShardKey s"
    and "map_get (itemToShardKey s) i = None" and "unmarshal T v = Some x"
  shows "ss_GetItem i (snd (ss_watch_event T (client_prefix (ss_client s))
      (EvPut (GetKey (ss_client s) [k, i]) v) s)) = ([], Some x)"
  using assms parseItemKey_key [OF assms(1,2), of "ss_client s"]
  by (auto simp: ss_GetItem_def Let_def)

theorem sharded_put_loses_shard_key_witness:
  "ss_GetItem ''c1'' (snd (ss_watch_event ni_ops (client_prefix (ss_client node_store))
      (EvPut (GetKey (ss_client node_store) [''host2'', ''c1'']) ''f1'') node_store)) = ([], Some (ni_item ''f1''))"
  by (rule sharded_put_loses_shard_key)
    (simp_all add: valid_id_def ni_ops_def node_store_def NewShardedDistributedStore_def)

text \<open>
  A successful \<open>Sync\<close> of a node whose shard has no key in etcd yet writes nothing to etcd,
  whatever local items it is given: the loop over the shards found in etcd never meets the
  local shard.
\<close>

theorem sharded_Sync_skips_new_node:
  assumes "etcd_contract E kv (=)" and "ss_Sync E T items s w = (None, ns, s', w')"
    and "\<forall>key v i. kv w key = Some v \<longrightarrow>
           parseItemKey key (client_prefix (ss_client s)) \<noteq> Some (localShardKey s, i)"
  shows "kv w' = kv w"
proof -
  let ?s1 = "snd (ss_syncToInternalState T (localShardKey s) items s)"
  obtain w1 w2 d diff2 where c: "conn_new E w = (None, w1)"
    and l: "ss_loadData E T ?s1 w1 = (Inr d, w2)"
    and y: "sync_shards E T items d (fst (ss_syncToInternalState T (localShardKey s) items s)) ?s1 w2
      = (None, diff2, s', w')"
    using assms(2)
    by (auto simp: ss_Sync_def ss_sync_def case_prod_unfold split: prod.splits sum.splits option.splits)
      (metis prod.collapse)+
  obtain kvs where g: "etcd_GetPrefix E (client_prefix (ss_client s)) w1 = (Inr kvs, w2)"
    and d: "ss_load_items T (client_prefix (ss_client s)) kvs [] = Inr d"
    using l by (auto simp: ss_loadData_def Let_def split: prod.splits sum.splits)
  have k1: "kv w1 = kv w" using conn_new_rely [OF assms(1) c] by simp
  note G = etcd_GetPrefix_Inr [OF assms(1) g]
  have "k \<noteq> localShardKey ?s1" if "k \<in> fst ` set d" for k
  proof
    assume k: "k = localShardKey ?s1"
    have "map_has d k" using that by (simp add: map_get_None_iff)
    then obtain key i where "key \<in> fst ` set kvs"
      "parseItemKey key (client_prefix (ss_client s)) = Some (k, i)"
      using ss_load_items_dom [OF d, of k] by auto
    moreover from this obtain v where "kv w2 key = Some v" using G(3) by fastforce
    moreover have "kv w2 = kv w" using G(1) k1 by simp
    ultimately show False using assms(3) k by auto
  qed
  then have "w' = w2" using sync_shards_remote_only [OF _ y] by blast
  then show ?thesis using G(1) k1 by simp
qed

theorem sharded_Sync_skips_new_node_witness:
  "\<exists>ns s' w'. ss_Sync ref_env ni_ops [(''c1'', ni_item ''f1'')] node_store ([], 0) = (None, ns, s', w') \<and>
    ref_kv w' = ref_kv ([], 0)"
proof -
  obtain ns s' w' where run:
    "ss_Sync ref_env ni_ops [(''c1'', ni_item ''f1'')] node_store ([], 0) = (None, ns, s', w')"
    by (simp add: ss_Sync_def ss_sync_def ss_loadData_def etcd_GetPrefix_def ref_commit_def
        case_prod_unfold Let_def)
  have "\<forall>key v i. ref_kv ([], 0) key = Some v \<longrightarrow>
      parseItemKey key (client_prefix (ss_client node_store)) \<noteq> Some (localShardKey node_store, i)"
    by simp
  from sharded_Sync_skips_new_node [OF etcd_contract_ref run this] run show ?thesis by blast
qed

text \<open>
  With no other writer, a successful \<open>AddOrUpdateItem\<close> stores the encoded item under the local
  shard and \<open>GetItem\<close> finds it there, and a successful \<open>DeleteItem\<close> removes both; no other key
  changes.
\<close>

theorem sharded_AddOrUpdate_Delete:
  assumes "etcd_contract E kv (=)"
  shows "(ss_AddOrUpdateItem E T i x s w = (None, ns, s', w') \<longrightarrow>
      (\<exists>v. marshal T x = Some v \<and> kv w' = (kv w)(GetKey (ss_client s) [localShardKey s, i] \<mapsto> v)) \<and>
      ss_GetItem i s' = (localShardKey s, Some x) \<and> shard_item s' (localShardKey s) i = Some x) \<and>
    (ss_DeleteItem E i s w = (None, ns, s', w') \<longrightarrow>
      kv w' = (kv w)(GetKey (ss_client s) [localShardKey s, i] := None) \<and>
      ss_GetItem i s' = ([], None) \<and> shard_item s' (localShardKey s) i = None)"
proof (intro conjI impI)
  assume A: "ss_AddOrUpdateItem E T i x s w = (None, ns, s', w')"
  obtain sh b where sh: "map_get (shardedData s) (localShardKey s) = Some sh"
    and W: "WithConnection E (ss_storeItem E T (ss_client s) (localShardKey s) i x) w = (Inr b, w')"
    and s': "s' = s\<lparr>shardedData := map_put (localShardKey s) (map_put i x sh) (shardedData s),
       ss_data := map_put i x (ss_data s), itemToShardKey := map_put i (localShardKey s) (itemToShardKey s)\<rparr>"
    using A by (auto simp: ss_AddOrUpdateItem_def Let_def split: option.splits prod.splits sum.splits)
  obtain w1 where c: "conn_new E w = (None, w1)"
    and st: "ss_storeItem E T (ss_client s) (localShardKey s) i x w1 = (Inr b, w')"
    using W by (rule WithConnection_Inr)
  have "kv w1 = kv w" using conn_new_rely [OF assms c] by simp
  then show "\<exists>v. marshal T x = Some v \<and> kv w' = (kv w)(GetKey (ss_client s) [localShardKey s, i] \<mapsto> v)"
    using st PutIfNewOrChanged_alone [OF assms]
    by (cases "marshal T x") (auto simp: ss_storeItem_def)
  show "ss_GetItem i s' = (localShardKey s, Some x)" "shard_item s' (localShardKey s) i = Some x"
    by (simp_all add: s' ss_GetItem_def shard_item_def)
next
  assume A: "ss_DeleteItem E i s w = (None, ns, s', w')"
  obtain sh b where sh: "map_get (shardedData s) (localShardKey s) = Some sh"
    and W: "WithConnection E (etcd_Delete E (GetKey (ss_client s) [localShardKey s, i])) w = (Inr b, w')"
    and s': "s' = s\<lparr>shardedData := map_put (localShardKey s) (map_del i sh) (shardedData s),
       ss_data := map_del i (ss_data s), itemToShardKey := map_del i (itemToShardKey s)\<rparr>"
    using A by (auto simp: ss_DeleteItem_def Let_def split: option.splits prod.splits sum.splits)
  obtain w1 where c: "conn_new E w = (None, w1)"
    and st: "etcd_Delete E (GetKey (ss_client s) [localShardKey s, i]) w1 = (Inr b, w')"
    using W by (rule WithConnection_Inr)
  show "kv w' = (kv w)(GetKey (ss_client s) [localShardKey s, i] := None)"
    using etcd_Delete_alone [OF assms st] conn_new_rely [OF assms c] by simp
  show "ss_GetItem i s' = ([], None)" "shard_item s' (localShardKey s) i = None"
    by (simp_all add: s' ss_GetItem_def shard_item_def)
qed

theorem sharded_AddOrUpdate_Delete_witness:
  "\<exists>ns s' w'. ss_AddOrUpdateItem ref_env ni_ops ''c1'' (ni_item ''f1'') node_store ([], 0)
      = (None, ns, s', w') \<and>
    (\<exists>v. marshal ni_ops (ni_item ''f1'') = Some v \<and>
       ref_kv w' = (ref_kv ([], 0))(GetKey net_client [''host1'', ''c1''] \<mapsto> v)) \<and>
    ss_GetItem ''c1'' s' = (''host1'', Some (ni_item ''f1''))"
proof -
  obtain ns s' w' where run: "ss_AddOrUpdateItem ref_env ni_ops ''c1'' (ni_item ''f1'') node_store ([], 0)
      = (None, ns, s', w')"
    by (simp add: ss_AddOrUpdateItem_def WithConnection_def ss_storeItem_def PutIfNewOrChanged_def
        ref_commit_def ni_ops_def ni_item_def node_store_def NewShardedDistributedStore_def
        all_handlers_def map_put_def Let_def)
  from sharded_AddOrUpdate_Delete [OF etcd_contract_ref, of ni_ops "''c1''" "ni_item ''f1''"
      node_store "([], 0)" ns s' w'] run
  show ?thesis by (intro exI [of _ ns] exI [of _ s'] exI [of _ w']) simp
qed

end
