(* ===== verification/Address_Space.thy ===== *)
theory Address_Space
  imports Ipam_Util Etcd
begin

text \<open>
  \<open>plugin/pkg/ipam/address_space.go\<close> and \<open>address_space_etcd.go\<close>: pool subnets reserved in
  etcd under \<open>prefix/<subnet with - for />\<close> with the pool's identifier as the value, and the
  address space object of one node.  Its methods hold the object's lock from start to end, so
  each is one step on its state; the other nodes work on etcd only.
\<close>

section \<open>Reservations in etcd\<close>

definition subnetsKey :: "etcdClient \<Rightarrow> string" where
  "subnetsKey e = GetKey e []"

definition subnetKey :: "etcdClient \<Rightarrow> string \<Rightarrow> string" where
  "subnetKey e subnet = GetKey e [SubnetToKey subnet]"

text \<open>The network in a key below the prefix, if there is one.\<close>

definition key_subnet :: "string \<Rightarrow> ipnet option" where
  "key_subnet key = map_option snd (ParseCIDR (replace_char CHR ''-'' CHR ''/'' key))"

fun used_subnets :: "string \<Rightarrow> (string \<times> string) list \<Rightarrow> (string, ipnet) cmap \<Rightarrow> (string, ipnet) cmap"
where
  "used_subnets pre [] res = res"
| "used_subnets pre ((k, v) # kvs) res =
     (let key = trim_left CHR ''/'' (trim_prefix pre k)
      in if CHR ''/'' \<in> set key then used_subnets pre kvs res
         else case key_subnet key of
                None \<Rightarrow> used_subnets pre kvs res
              | Some ipNet \<Rightarrow> used_subnets pre kvs (cm_Set v ipNet res))"

definition getUsedSubnets :: "'w env \<Rightarrow> etcdClient \<Rightarrow> ('w, (string, ipnet) cmap) io" where
  "getUsedSubnets E client = WithConnection E (\<lambda>w.
     let pre = subnetsKey client
     in case etcd_GetPrefix E pre w of
          (Inl e, w') \<Rightarrow> (Inl e, w')
        | (Inr kvs, w') \<Rightarrow> (Inr (used_subnets pre kvs NewConcurrentMap), w'))"

record PoolSubnetLeaseResult =
  pl_Success :: bool
  PoolID :: string

definition reservePoolSubnet ::
  "'w env \<Rightarrow> etcdClient \<Rightarrow> string \<Rightarrow> string \<Rightarrow> ('w, PoolSubnetLeaseResult) io" where
  "reservePoolSubnet E client subnet i = WithConnection E (\<lambda>w.
     let key = subnetKey client subnet
     in case commit E [CreateRev0 key] [OpPut key i] [OpGet key] w of
          (Inl e, w') \<Rightarrow> (Inl e, w')
        | (Inr resp, w') \<Rightarrow>
            if Succeeded resp then (Inr \<lparr>pl_Success = True, PoolID = []\<rparr>, w')
            else (case range_kvs (Responses resp) 0 of
                    [] \<Rightarrow> (Inl (Panic ''index out of range''), w')
                  | (_, poolID) # _ \<Rightarrow>
                      if poolID = i then (Inr \<lparr>pl_Success = True, PoolID = []\<rparr>, w')
                      else (Inr \<lparr>pl_Success = False, PoolID = poolID\<rparr>, w')))"

definition releasePoolSubnet ::
  "'w env \<Rightarrow> etcdClient \<Rightarrow> string \<Rightarrow> string \<Rightarrow> ('w, PoolSubnetLeaseResult) io" where
  "releasePoolSubnet E client subnet i = WithConnection E (\<lambda>w.
     let key = subnetKey client subnet
     in case commit E [ValueEq key i] [OpDelete key] [OpGet key] w of
          (Inl e, w') \<Rightarrow> (Inl e, w')
        | (Inr resp, w') \<Rightarrow>
            if Succeeded resp then (Inr \<lparr>pl_Success = True, PoolID = []\<rparr>, w')
            else (case range_kvs (Responses resp) 0 of
                    [] \<Rightarrow> (Inr \<lparr>pl_Success = True, PoolID = []\<rparr>, w')
                  | (_, v) # _ \<Rightarrow> (Inr \<lparr>pl_Success = False, PoolID = v\<rparr>, w')))"

section \<open>The address space of a node\<close>

record etcdAddressSpace =
  completeSpace :: "ipnet list"
  poolSize :: int
  allSubnets :: "ipnet list"
  unusedSubnets :: "ipnet list"
  pools :: "(string, ipnet) cmap"
  as_client :: etcdClient

definition remove_subnet :: "ipnet \<Rightarrow> ipnet list \<Rightarrow> ipnet list" where
  "remove_subnet s ss = filter (\<lambda>item. ipnet_String item \<noteq> ipnet_String s) ss"

definition NewEtcdBasedAddressSpace ::
  "'w env \<Rightarrow> (ipnet \<Rightarrow> int \<Rightarrow> nat \<Rightarrow> ipnet result) \<Rightarrow> ipnet list \<Rightarrow> int \<Rightarrow> etcdClient \<Rightarrow>
    ('w, etcdAddressSpace) io"
where
  "NewEtcdBasedAddressSpace E cidr_Subnet space sz client w =
     (case generateAllSubnets cidr_Subnet space sz of
        Inl e \<Rightarrow> (Inl e, w)
      | Inr all_subnets \<Rightarrow>
          (case getUsedSubnets E client w of
             (Inl e, w1) \<Rightarrow> (Inl e, w1)
           | (Inr ps, w1) \<Rightarrow>
               (let as = \<lparr>completeSpace = space, poolSize = sz, allSubnets = all_subnets,
                      unusedSubnets = fold remove_subnet (cm_Values ps) all_subnets,
                      pools = ps, as_client = client\<rparr>
                in case client_Watch E w1 of
                     (Inl e, w2) \<Rightarrow> (Inl e, w2)
                   | (Inr _, w2) \<Rightarrow> (Inr as, w2))))"

definition GetCompleteAddressSpace :: "etcdAddressSpace \<Rightarrow> ipnet list" where
  "GetCompleteAddressSpace as = completeSpace as"

definition GetPoolSize :: "etcdAddressSpace \<Rightarrow> int" where
  "GetPoolSize as = poolSize as"

definition GetPoolById :: "string \<Rightarrow> etcdAddressSpace \<Rightarrow> ipnet option" where
  "GetPoolById i as = cm_Get i (pools as)"

text \<open>
  The loop of the factory in \<open>getOrAddPool\<close>.  Its state is the list of unused subnets and the
  reservations of other pools that it met.
\<close>

type_synonym search = "ipnet list \<times> (string, ipnet) gomap"

fun find_subnet ::
  "'w env \<Rightarrow> etcdClient \<Rightarrow> string \<Rightarrow> ipnet list \<Rightarrow> (string, ipnet) gomap \<Rightarrow> 'w \<Rightarrow>
    ipnet result \<times> search \<times> 'w"
where
  "find_subnet E c i [] found w = (Inl (NoUnusedSubnets i), ([], found), w)"
| "find_subnet E c i (s # rest) found w =
     (case reservePoolSubnet E c (ipnet_String s) i w of
        (Inl e, w') \<Rightarrow> (Inl e, (s # rest, found), w')
      | (Inr r, w') \<Rightarrow>
          if pl_Success r then (Inr s, (rest, found), w')
          else find_subnet E c i rest (map_put (PoolID r) s found) w')"

definition getOrAddPool ::
  "'w env \<Rightarrow> string \<Rightarrow> etcdAddressSpace \<Rightarrow> 'w \<Rightarrow>
    ((ipnet \<times> bool) result \<times> bool) \<times> etcdAddressSpace \<times> 'w"
where
  "getOrAddPool E i as w =
     (case cm_GetOrAdd id i (\<lambda>((unused, found), w). find_subnet E (as_client as) i unused found w)
             (pools as) ((unusedSubnets as, []), w) of
        ((r, wasAdded), ps, (unused, found), w') \<Rightarrow>
          (let as' = as\<lparr>unusedSubnets := unused,
                        pools := fold (\<lambda>(j, s). cm_Set j s) found ps\<rparr>
           in case r of
                Inl e \<Rightarrow> ((Inl e, False), as', w')
              | Inr v \<Rightarrow> ((Inr (v, wasAdded), wasAdded), as', w')))"

definition GetNewOrExistingPool ::
  "'w env \<Rightarrow> string \<Rightarrow> etcdAddressSpace \<Rightarrow> 'w \<Rightarrow> ipnet result \<times> etcdAddressSpace \<times> 'w" where
  "GetNewOrExistingPool E i as w = (case getOrAddPool E i as w of
      ((Inl e, _), as', w') \<Rightarrow> (Inl e, as', w')
    | ((Inr (s, _), _), as', w') \<Rightarrow> (Inr s, as', w'))"

text \<open>\<open>GetNewPool\<close> tests \<open>wasAdded\<close> before it looks at the error.\<close>

definition GetNewPool ::
  "'w env \<Rightarrow> string \<Rightarrow> etcdAddressSpace \<Rightarrow> 'w \<Rightarrow> ipnet result \<times> etcdAddressSpace \<times> 'w" where
  "GetNewPool E i as w = (case getOrAddPool E i as w of
      ((r, wasAdded), as', w') \<Rightarrow>
        (if \<not> wasAdded then Inl (PoolExists i)
         else case r of Inl e \<Rightarrow> Inl e | Inr (s, _) \<Rightarrow> Inr s, as', w'))"

definition ReleasePool ::
  "'w env \<Rightarrow> string \<Rightarrow> etcdAddressSpace \<Rightarrow> 'w \<Rightarrow> err option \<times> etcdAddressSpace \<times> 'w" where
  "ReleasePool E i as w = (case cm_TryRemove i (pools as) of
      (None, _) \<Rightarrow> (Some (PoolMissing i), as, w)
    | (Some subnet, ps) \<Rightarrow>
        (let as1 = as\<lparr>pools := ps\<rparr>
         in case releasePoolSubnet E (as_client as) (ipnet_String subnet) i w of
              (Inl e, w') \<Rightarrow> (with_message (Some e), as1, w')
            | (Inr r, w') \<Rightarrow>
                if \<not> pl_Success r
                then (Some (PoolTakenBy (PoolID r)), as1\<lparr>pools := cm_Set (PoolID r) subnet (pools as1)\<rparr>, w')
                else (None, as1\<lparr>unusedSubnets := unusedSubnets as1 @ [subnet]\<rparr>, w')))"

text \<open>One event of \<open>subnetUsageChangeHandler\<close>.  A DELETE event carries no value.\<close>

fun subnetUsageChange :: "string \<Rightarrow> watch_event \<Rightarrow> etcdAddressSpace \<Rightarrow> etcdAddressSpace" where
  "subnetUsageChange pre (EvPut k v) as =
     (let key = trim_left CHR ''/'' (trim_prefix pre k)
      in if CHR ''/'' \<in> set key then as
         else case key_subnet key of
                None \<Rightarrow> as
              | Some subnet \<Rightarrow>
                  (case cm_AddOrUpdate v subnet (\<lambda>existing. existing) (pools as) of
                     ((_, wasUpdated), ps) \<Rightarrow>
                       if \<not> wasUpdated
                       then as\<lparr>pools := ps, unusedSubnets := remove_subnet subnet (unusedSubnets as)\<rparr>
                       else as\<lparr>pools := ps\<rparr>))"
| "subnetUsageChange pre (EvDelete k) as =
     (let key = trim_left CHR ''/'' (trim_prefix pre k); poolID = []
      in if CHR ''/'' \<in> set key then as
         else case key_subnet key of
                None \<Rightarrow> as
              | Some subnet \<Rightarrow>
                  (case cm_TryRemove poolID (pools as) of
                     (Some _, ps) \<Rightarrow> as\<lparr>pools := ps, unusedSubnets := unusedSubnets as @ [subnet]\<rparr>
                   | (None, ps) \<Rightarrow> as\<lparr>pools := ps\<rparr>))"

section \<open>Lemmas: keys\<close>

lemma ipnet_String_v4net:
  "p \<le> 32 \<Longrightarrow> ipnet_String (v4net base p) = dotted (ip_of 4 base) @ ''/'' @ format_dec p"
  by (simp add: ipnet_String_def networkNumberAndMask_def simpleMaskLength_cidr_mask ip_String_v4)

lemma SubnetToKey_v4net:
  "p \<le> 32 \<Longrightarrow> SubnetToKey (ipnet_String (v4net base p)) = dotted (ip_of 4 base) @ ''-'' @ format_dec p"
proof -
  assume p: "p \<le> 32"
  have "replace_char CHR ''/'' CHR ''-'' s = s" if "CHR ''/'' \<notin> set s" for s
    using that by (auto simp: replace_char_def intro!: map_idI)
  then show ?thesis
    using slash_not_in_dotted not_digit_not_in_format [of "CHR ''/''" p]
    by (simp add: SubnetToKey_def ipnet_String_v4net [OF p] replace_char_def is_digit_def)
qed

lemma ParseCIDR_v4net:
  assumes "base < 2 ^ 32" "p \<le> 32" "base mod 2 ^ (32 - p) = 0"
  shows "ParseCIDR (dotted (ip_of 4 base) @ ''/'' @ format_dec p) =
    Some (v4_prefix @ ip_of 4 base, v4net base p)"
proof -
  let ?s = "dotted (ip_of 4 base) @ ''/'' @ format_dec p"
  have "takeWhile (\<lambda>c. c \<noteq> CHR ''/'') ?s = dotted (ip_of 4 base)"
    using slash_not_in_dotted [of "ip_of 4 base"] by (subst takeWhile_append2) auto
  moreover have "dropWhile (\<lambda>c. c \<noteq> CHR ''/'') ?s = ''/'' @ format_dec p"
    using slash_not_in_dotted [of "ip_of 4 base"] by (subst dropWhile_append2) auto
  moreover have "ip_and (ip_of 4 base) (cidr_mask p 4) = ip_of 4 base"
    using ip_Mask_v4net [OF assms] by (simp add: ip_Mask_def)
  ultimately show ?thesis
    using assms(2) by (simp add: ParseCIDR_def Let_def parse_v4_dotted v4net_def)
qed

lemma key_subnet_v4net:
  assumes "base < 2 ^ 32" "p \<le> 32" "base mod 2 ^ (32 - p) = 0"
  shows "key_subnet (SubnetToKey (ipnet_String (v4net base p))) = Some (v4net base p)"
proof -
  have "CHR ''-'' \<notin> set (ipnet_String (v4net base p))"
    using dash_not_in_dotted not_digit_not_in_format [of "CHR ''-''" p]
    by (simp add: ipnet_String_v4net [OF assms(2)] is_digit_def)
  then have "replace_char CHR ''-'' CHR ''/'' (SubnetToKey (ipnet_String (v4net base p))) =
      ipnet_String (v4net base p)"
    unfolding SubnetToKey_def by (rule replace_char_inverse)
  then show ?thesis
    using ParseCIDR_v4net [OF assms] by (simp add: key_subnet_def ipnet_String_v4net [OF assms(2)])
qed

lemma v4net_inj:
  assumes "b < 2 ^ 32" "b' < 2 ^ 32" "p \<le> 32" "p' \<le> 32" "v4net b p = v4net b' p'"
  shows "b = b' \<and> p = p'"
proof -
  have ip: "ip_of 4 b = ip_of 4 b'" and mask: "cidr_mask p 4 = cidr_mask p' 4"
    using assms(5) by (simp_all only: v4net_def ipnet.ext_inject)
  from ip have "b = b'" by (rule iffD1 [OF ip_of_4_eq_iff [OF assms(1,2)]])
  moreover have "mask_Size (cidr_mask p 4) = mask_Size (cidr_mask p' 4)" by (simp only: mask)
  then have "p = p'"
    by (simp only: mask_Size_cidr_mask [OF assms(3)] mask_Size_cidr_mask [OF assms(4)] prod.inject simp_thms)
  ultimately show ?thesis by (rule conjI)
qed

lemma subnetKey_v4net_inj:
  assumes "b < 2 ^ 32" "p \<le> 32" "b mod 2 ^ (32 - p) = 0"
    and "b' < 2 ^ 32" "p' \<le> 32" "b' mod 2 ^ (32 - p') = 0"
  shows "subnetKey c (ipnet_String (v4net b p)) = subnetKey c (ipnet_String (v4net b' p')) \<longleftrightarrow>
    b = b' \<and> p = p'"
proof
  assume "subnetKey c (ipnet_String (v4net b p)) = subnetKey c (ipnet_String (v4net b' p'))"
  then have "SubnetToKey (ipnet_String (v4net b p)) = SubnetToKey (ipnet_String (v4net b' p'))"
    by (simp add: subnetKey_def GetKey_single)
  then have "Some (v4net b p) = Some (v4net b' p')"
    by (simp only: key_subnet_v4net [OF assms(1-3), symmetric] key_subnet_v4net [OF assms(4-6), symmetric])
  then have "v4net b p = v4net b' p'" by (rule option.inject [THEN iffD1])
  then show "b = b' \<and> p = p'" by (rule v4net_inj [OF assms(1,4,2,5)])
qed simp

section \<open>Lemmas: other nodes' reservations are safe\<close>

lemma reserve_inv:
  assumes C: "etcd_contract E kv rely" and S: "stable rely (\<lambda>m. m k = Some j)"
    and I: "kv w k = Some j"
  shows "kv (snd (reservePoolSubnet E c sn i w)) k = Some j"
  unfolding reservePoolSubnet_def
proof (rule WithConnection_inv [where I = "\<lambda>m. m k = Some j", OF C S I])
  fix w assume "kv w k = Some j"
  let ?key = "subnetKey c sn"
  have "kv (snd (commit E [CreateRev0 ?key] [OpPut ?key i] [OpGet ?key] w)) k = Some j"
    by (rule commit_inv [where I = "\<lambda>m. m k = Some j", OF C S _ \<open>kv w k = Some j\<close>])
      (auto simp: txn_effect_def)
  then show "kv (snd (let key = ?key
     in case commit E [CreateRev0 key] [OpPut key i] [OpGet key] w of
          (Inl e, w') \<Rightarrow> (Inl e, w')
        | (Inr resp, w') \<Rightarrow>
            if Succeeded resp then (Inr \<lparr>pl_Success = True, PoolID = []\<rparr>, w')
            else (case range_kvs (Responses resp) 0 of
                    [] \<Rightarrow> (Inl (Panic ''index out of range''), w')
                  | (_, poolID) # _ \<Rightarrow>
                      if poolID = i then (Inr \<lparr>pl_Success = True, PoolID = []\<rparr>, w')
                      else (Inr \<lparr>pl_Success = False, PoolID = poolID\<rparr>, w')))) k = Some j"
    by (auto simp: Let_def split: prod.splits sum.splits list.splits)
qed

lemma release_inv:
  assumes C: "etcd_contract E kv rely" and S: "stable rely (\<lambda>m. m k = Some j)" and "j \<noteq> i"
    and I: "kv w k = Some j"
  shows "kv (snd (releasePoolSubnet E c sn i w)) k = Some j"
  unfolding releasePoolSubnet_def
proof (rule WithConnection_inv [where I = "\<lambda>m. m k = Some j", OF C S I])
  fix w assume "kv w k = Some j"
  let ?key = "subnetKey c sn"
  have "kv (snd (commit E [ValueEq ?key i] [OpDelete ?key] [OpGet ?key] w)) k = Some j"
    by (rule commit_inv [where I = "\<lambda>m. m k = Some j", OF C S _ \<open>kv w k = Some j\<close>])
      (use \<open>j \<noteq> i\<close> in \<open>auto simp: txn_effect_def\<close>)
  then show "kv (snd (let key = ?key
     in case commit E [ValueEq key i] [OpDelete key] [OpGet key] w of
          (Inl e, w') \<Rightarrow> (Inl e, w')
        | (Inr resp, w') \<Rightarrow>
            if Succeeded resp then (Inr \<lparr>pl_Success = True, PoolID = []\<rparr>, w')
            else (case range_kvs (Responses resp) 0 of
                    [] \<Rightarrow> (Inr \<lparr>pl_Success = True, PoolID = []\<rparr>, w')
                  | (_, v) # _ \<Rightarrow> (Inr \<lparr>pl_Success = False, PoolID = v\<rparr>, w')))) k = Some j"
    by (auto simp: Let_def split: prod.splits sum.splits list.splits)
qed

lemma find_subnet_inv:
  assumes C: "etcd_contract E kv rely" and S: "stable rely (\<lambda>m. m k = Some j)"
  shows "kv w k = Some j \<Longrightarrow> kv (snd (snd (find_subnet E c i ss found w))) k = Some j"
proof (induction ss arbitrary: found w)
  case (Cons s ss)
  have "kv (snd (reservePoolSubnet E c (ipnet_String s) i w)) k = Some j"
    by (rule reserve_inv [OF C S Cons.prems])
  with Cons.IH show ?case by (auto split: prod.splits sum.splits)
qed simp

lemma getOrAddPool_inv:
  assumes C: "etcd_contract E kv rely" and S: "stable rely (\<lambda>m. m k = Some j)"
    and I: "kv w k = Some j"
  shows "kv (snd (snd (getOrAddPool E i as w))) k = Some j"
  using find_subnet_inv [OF C S I, of "as_client as" i "unusedSubnets as" "[]"] I
  by (auto simp: getOrAddPool_def cm_GetOrAdd_def Let_def split: option.splits prod.splits sum.splits)

lemma ReleasePool_inv:
  assumes C: "etcd_contract E kv rely" and S: "stable rely (\<lambda>m. m k = Some j)" and "j \<noteq> i"
    and I: "kv w k = Some j"
  shows "kv (snd (snd (ReleasePool E i as w))) k = Some j"
proof (cases "map_get (pools as) i")
  case None
  with I show ?thesis by (simp add: ReleasePool_def cm_TryRemove_def)
next
  case (Some s)
  have "kv (snd (releasePoolSubnet E (as_client as) (ipnet_String s) i w)) k = Some j"
    by (rule release_inv [OF C S \<open>j \<noteq> i\<close> I])
  with Some show ?thesis
    by (auto simp: ReleasePool_def cm_TryRemove_def Let_def split: prod.splits sum.splits)
qed

section \<open>Lemmas: the in-memory pools agree with etcd\<close>

lemma reserve_Inr:
  assumes C: "etcd_contract E kv rely" and R: "reservePoolSubnet E c sn i w = (Inr r, w')"
  shows "kv w' (subnetKey c sn) = Some (if pl_Success r then i else PoolID r) \<and>
    (\<exists>m. rely (kv w) m \<and> (kv w' = m \<or> m (subnetKey c sn) = None \<and> kv w' = m(subnetKey c sn \<mapsto> i)))"
proof -
  let ?key = "subnetKey c sn"
  obtain w1 where c1: "conn_new E w = (None, w1)"
    using R unfolding reservePoolSubnet_def by (rule WithConnection_Inr)
  obtain t where t: "commit E [CreateRev0 ?key] [OpPut ?key i] [OpGet ?key] w1 = (Inr t, w')"
    using R c1 by (auto simp: reservePoolSubnet_def WithConnection_def Let_def
        split: prod.splits sum.splits if_splits list.splits)
  obtain m where m: "rely (kv w1) m" "Succeeded t = list_all (cmp_holds m) [CreateRev0 ?key]"
    "run_ops (if Succeeded t then [OpPut ?key i] else [OpGet ?key]) m (Responses t) (kv w')"
    by (rule commit_Inr [OF C t])
  have rel: "rely (kv w) m" using etcd_rely_trans [OF C conn_new_rely [OF C c1] m(1)] .
  show ?thesis
  proof (cases "Succeeded t")
    case True
    then have "kv w' = m(?key \<mapsto> i)" "m ?key = None" using m by (auto simp: run_ops_Cons)
    moreover have "pl_Success r" using R c1 t True by (auto simp: reservePoolSubnet_def WithConnection_def)
    ultimately show ?thesis using rel by auto
  next
    case False
    then obtain v where v: "m ?key = Some v" using m(2) by auto
    then have "kv w' = m" "Responses t = [RespRange [(?key, v)]]"
      using m(3) False by (auto simp: run_ops_Cons)
    then have "v = (if pl_Success r then i else PoolID r)"
      using R c1 t False by (auto simp: reservePoolSubnet_def WithConnection_def split: if_splits)
    then show ?thesis using rel v \<open>kv w' = m\<close> by auto
  qed
qed

lemma stable_eq [simp]: "stable (=) I"
  by (simp add: stable_def)

lemmas reserve_mono = reserve_inv [OF _ stable_eq]

text \<open>Every pool that the node knows is reserved in etcd under its subnet.\<close>

definition coherent :: "etcdClient \<Rightarrow> (string \<times> ipnet) list \<Rightarrow> keyspace \<Rightarrow> bool" where
  "coherent c ps m \<longleftrightarrow> (\<forall>(j, s) \<in> set ps. m (subnetKey c (ipnet_String s)) = Some j)"

definition pools_coherent :: "etcdAddressSpace \<Rightarrow> keyspace \<Rightarrow> bool" where
  "pools_coherent as m \<longleftrightarrow> map_ok (pools as) \<and>
     (\<forall>j s. map_get (pools as) j = Some s \<longrightarrow> m (subnetKey (as_client as) (ipnet_String s)) = Some j)"

lemma find_subnet_spec:
  assumes C: "etcd_contract E kv (=)"
  shows "find_subnet E c i ss found w = (r, (rest, found'), w') \<Longrightarrow> coherent c found (kv w) \<Longrightarrow>
    coherent c found' (kv w') \<and>
    (\<forall>k v. kv w k = Some v \<longrightarrow> kv w' k = Some v) \<and>
    (\<forall>s. r = Inr s \<longrightarrow> kv w' (subnetKey c (ipnet_String s)) = Some i \<and> s \<in> set ss) \<and>
    set rest \<subseteq> set ss \<and>
    (\<forall>s. r = Inr s \<longrightarrow> (\<exists>pre. ss = pre @ s # rest \<and>
       (\<forall>t \<in> set pre. \<exists>j. j \<noteq> i \<and> kv w' (subnetKey c (ipnet_String t)) = Some j)))"
proof (induction ss arbitrary: found w)
  case (Cons s ss)
  let ?key = "subnetKey c (ipnet_String s)"
  obtain r1 w1 where R: "reservePoolSubnet E c (ipnet_String s) i w = (r1, w1)"
    by (cases "reservePoolSubnet E c (ipnet_String s) i w")
  have mono: "kv w k = Some v \<Longrightarrow> kv w1 k = Some v" for k v
    using reserve_mono [OF C, of w k v c "ipnet_String s" i] R by simp
  then have coh: "coherent c found (kv w1)" using Cons.prems(2) by (fastforce simp: coherent_def)
  show ?case
  proof (cases r1)
    case (Inl e)
    with Cons.prems R mono coh show ?thesis by auto
  next
    case (Inr t)
    have key: "kv w1 ?key = Some (if pl_Success t then i else PoolID t)"
      using reserve_Inr [OF C] R Inr by blast
    show ?thesis
    proof (cases "pl_Success t")
      case True
      with Cons.prems R Inr mono coh key show ?thesis by auto
    next
      case False
      have ne: "PoolID t \<noteq> i"
        using R Inr False by (auto simp: reservePoolSubnet_def WithConnection_def Let_def
            split: prod.splits option.splits sum.splits if_splits list.splits)
      have "coherent c (map_put (PoolID t) s found) (kv w1)"
        using coh key False set_map_put [of "PoolID t" s found] by (fastforce simp: coherent_def)
      moreover have "find_subnet E c i ss (map_put (PoolID t) s found) w1 = (r, (rest, found'), w')"
        using Cons.prems(1) R Inr False by simp
      ultimately have IH: "coherent c found' (kv w') \<and>
          (\<forall>k v. kv w1 k = Some v \<longrightarrow> kv w' k = Some v) \<and>
          (\<forall>s. r = Inr s \<longrightarrow> kv w' (subnetKey c (ipnet_String s)) = Some i \<and> s \<in> set ss) \<and>
          set rest \<subseteq> set ss \<and>
          (\<forall>s. r = Inr s \<longrightarrow> (\<exists>pre. ss = pre @ s # rest \<and>
             (\<forall>t \<in> set pre. \<exists>j. j \<noteq> i \<and> kv w' (subnetKey c (ipnet_String t)) = Some j)))"
        using Cons.IH by blast
      have "\<exists>pre. s # ss = pre @ u # rest \<and>
          (\<forall>t \<in> set pre. \<exists>j. j \<noteq> i \<and> kv w' (subnetKey c (ipnet_String t)) = Some j)"
        if u: "r = Inr u" for u
      proof -
        obtain pre where "ss = pre @ u # rest"
          "\<forall>t \<in> set pre. \<exists>j. j \<noteq> i \<and> kv w' (subnetKey c (ipnet_String t)) = Some j"
          using IH u by blast
        moreover have "kv w' ?key = Some (PoolID t)" using IH key False by simp
        ultimately show ?thesis using ne by (intro exI [of _ "s # pre"]) auto
      qed
      then show ?thesis using IH mono by auto
    qed
  qed
qed auto

lemma fold_Set_found:
  "(\<forall>(j, s) \<in> set found. P j s) \<Longrightarrow> (\<forall>j s. map_get ps j = Some s \<longrightarrow> P j s) \<Longrightarrow> map_ok ps \<Longrightarrow>
   map_ok (fold (\<lambda>(j, s). cm_Set j s) found ps) \<and>
   (\<forall>j s. map_get (fold (\<lambda>(j, s). cm_Set j s) found ps) j = Some s \<longrightarrow> P j s)"
proof (induction found arbitrary: ps)
  case (Cons js found)
  obtain j s where js: "js = (j, s)" by (cases js)
  have "\<forall>j' s'. map_get (cm_Set j s ps) j' = Some s' \<longrightarrow> P j' s'"
  proof (intro allI impI)
    fix j' s' assume "map_get (cm_Set j s ps) j' = Some s'"
    then show "P j' s'" using Cons.prems(1,2) js by (cases "j = j'") (simp_all add: cm_Set_def)
  qed
  moreover have "map_ok (cm_Set j s ps)" using Cons.prems(3) by (simp add: cm_Set_def)
  moreover have "\<forall>(j, s) \<in> set found. P j s" using Cons.prems(1) by simp
  ultimately show ?case
    unfolding js fold.simps comp_apply prod.case by (intro Cons.IH)
qed auto

lemma getOrAddPool_coherent:
  assumes C: "etcd_contract E kv (=)" and P: "pools_coherent as (kv w)"
    and G: "getOrAddPool E i as w = (r, as', w')"
  shows "pools_coherent as' (kv w') \<and> as_client as' = as_client as \<and>
    (\<forall>k v. kv w k = Some v \<longrightarrow> kv w' k = Some v)"
proof (cases "map_get (pools as) i")
  case (Some s)
  then have "as' = as" "w' = w" using G by (auto simp: getOrAddPool_def cm_GetOrAdd_def)
  then show ?thesis using P by simp
next
  case None
  obtain f rest found where F: "find_subnet E (as_client as) i (unusedSubnets as) [] w = (f, (rest, found), w')"
    and as': "as' = as\<lparr>unusedSubnets := rest, pools := fold (\<lambda>(j, s). cm_Set j s) found
      (case f of Inl _ \<Rightarrow> pools as | Inr s \<Rightarrow> map_put i s (pools as))\<rparr>"
    using G None by (auto simp: getOrAddPool_def cm_GetOrAdd_def Let_def split: prod.splits sum.splits)
  have "coherent (as_client as) [] (kv w)" by (simp add: coherent_def)
  note S = find_subnet_spec [OF C F this]
  let ?P = "\<lambda>j s. kv w' (subnetKey (as_client as) (ipnet_String s)) = Some j"
  let ?ps = "case f of Inl _ \<Rightarrow> pools as | Inr s \<Rightarrow> map_put i s (pools as)"
  have "\<forall>(j, s) \<in> set found. ?P j s" using S by (auto simp: coherent_def)
  moreover have "\<forall>j s. map_get ?ps j = Some s \<longrightarrow> ?P j s"
  proof (intro allI impI)
    fix j s assume a: "map_get ?ps j = Some s"
    show "?P j s"
    proof (cases "j = i \<and> f = Inr s")
      case True
      then show ?thesis using S by blast
    next
      case False
      then have "map_get (pools as) j = Some s" using a by (cases f) (auto split: if_splits)
      then show ?thesis using P S by (simp add: pools_coherent_def)
    qed
  qed
  moreover have "map_ok ?ps" using P by (cases f) (simp_all add: pools_coherent_def)
  ultimately have "map_ok (fold (\<lambda>(j, s). cm_Set j s) found ?ps) \<and>
      (\<forall>j s. map_get (fold (\<lambda>(j, s). cm_Set j s) found ?ps) j = Some s \<longrightarrow> ?P j s)"
    by (rule fold_Set_found)
  moreover have "\<forall>k v. kv w k = Some v \<longrightarrow> kv w' k = Some v" using S by blast
  ultimately show ?thesis by (simp add: pools_coherent_def as')
qed

lemma release_alone:
  assumes C: "etcd_contract E kv (=)" and R: "releasePoolSubnet E c sn i w = (r, w')"
    and I: "kv w (subnetKey c sn) = Some i"
  shows "(kv w' = kv w \<or> kv w' = (kv w)(subnetKey c sn := None)) \<and>
    (\<forall>t. r = Inr t \<longrightarrow> pl_Success t \<and> kv w' = (kv w)(subnetKey c sn := None))"
proof (cases "conn_new E w")
  case (Pair b w1)
  have k1: "kv w1 = kv w" using conn_new_rely [OF C Pair] by simp
  show ?thesis
  proof (cases b)
    case (Some n)
    then show ?thesis using R Pair k1 by (auto simp: releasePoolSubnet_def WithConnection_def)
  next
    case None
    let ?key = "subnetKey c sn"
    obtain x w2 where cm: "commit E [ValueEq ?key i] [OpDelete ?key] [OpGet ?key] w1 = (x, w2)"
      by (cases "commit E [ValueEq ?key i] [OpDelete ?key] [OpGet ?key] w1")
    show ?thesis
    proof (cases x)
      case (Inl e)
      obtain m where "kv w1 = m"
        "kv w2 = m \<or> kv w2 = txn_effect [ValueEq ?key i] [OpDelete ?key] [OpGet ?key] m"
        using commit_Inl [OF C cm [unfolded Inl]] by blast
      then show ?thesis
        using R Pair None cm Inl k1 I
        by (auto simp: releasePoolSubnet_def WithConnection_def Let_def txn_effect_def)
    next
      case (Inr t)
      obtain m where m: "kv w1 = m" "Succeeded t = list_all (cmp_holds m) [ValueEq ?key i]"
        "run_ops (if Succeeded t then [OpDelete ?key] else [OpGet ?key]) m (Responses t) (kv w2)"
        using commit_Inr [OF C cm [unfolded Inr]] by blast
      then have "Succeeded t" "kv w2 = (kv w)(?key := None)" using I k1 by (auto simp: run_ops_Cons)
      then show ?thesis
        using R Pair None cm Inr by (auto simp: releasePoolSubnet_def WithConnection_def Let_def)
    qed
  qed
qed

lemma ReleasePool_coherent:
  assumes C: "etcd_contract E kv (=)" and P: "pools_coherent as (kv w)"
    and R: "ReleasePool E i as w = (r, as', w')"
  shows "pools_coherent as' (kv w') \<and> as_client as' = as_client as"
proof (cases "map_get (pools as) i")
  case None
  then show ?thesis using R P by (simp add: ReleasePool_def cm_TryRemove_def)
next
  case (Some s)
  let ?key = "subnetKey (as_client as) (ipnet_String s)"
  have own: "kv w ?key = Some i" using P Some by (simp add: pools_coherent_def)
  obtain x w1 where x: "releasePoolSubnet E (as_client as) (ipnet_String s) i w = (x, w1)"
    by (cases "releasePoolSubnet E (as_client as) (ipnet_String s) i w")
  note A = release_alone [OF C x own]
  have as': "pools as' = map_del i (pools as)" "as_client as' = as_client as" "w' = w1"
    using R Some x A
    by (auto simp: ReleasePool_def cm_TryRemove_def Let_def split: sum.splits if_splits)
  have "kv w1 (subnetKey (as_client as) (ipnet_String t)) = Some j"
    if "map_get (map_del i (pools as)) j = Some t" for j t
  proof -
    have "j \<noteq> i" "map_get (pools as) j = Some t" using that by (auto split: if_splits)
    then have "kv w (subnetKey (as_client as) (ipnet_String t)) = Some j"
      using P by (simp add: pools_coherent_def)
    then show ?thesis using A own \<open>j \<noteq> i\<close> by auto
  qed
  then show ?thesis using P as' by (simp add: pools_coherent_def)
qed

text \<open>Reading the reservations back at start-up.\<close>

lemma used_subnets_get:
  "\<forall>k'. (k', i) \<in> set kvs \<longrightarrow> k' = k \<Longrightarrow>
   CHR ''/'' \<notin> set (trim_left CHR ''/'' (trim_prefix pre k)) \<Longrightarrow>
   key_subnet (trim_left CHR ''/'' (trim_prefix pre k)) = Some n \<Longrightarrow>
   map_get (used_subnets pre kvs res) i = (if (k, i) \<in> set kvs then Some n else map_get res i)"
proof (induction kvs arbitrary: res)
  case (Cons kv kvs)
  obtain k1 v1 where kv: "kv = (k1, v1)" by (cases kv)
  have IH: "map_get (used_subnets pre kvs res) i = (if (k, i) \<in> set kvs then Some n else map_get res i)" for res
    using Cons by simp
  show ?case
  proof (cases "v1 = i")
    case True
    then have "k1 = k" using Cons.prems(1) kv by simp
    then show ?thesis using True kv Cons.prems(2,3) IH by (simp add: Let_def cm_Set_def)
  next
    case False
    then show ?thesis using kv IH by (auto simp: Let_def cm_Set_def split: option.splits)
  qed
qed simp

section \<open>Properties\<close>

text \<open>
  C1: the reservations of other pools are safe: whatever errors etcd reports and whatever the other
  nodes do (short of changing this reservation themselves), getting a pool never changes an
  existing reservation, and releasing a pool never changes the reservation of another pool.
\<close>

theorem reservations_safe:
  assumes "etcd_contract E kv rely" and "stable rely (\<lambda>m. m k = Some j)" and "kv w k = Some j"
  shows "kv (snd (snd (getOrAddPool E i as w))) k = Some j \<and>
    (j \<noteq> i \<longrightarrow> kv (snd (snd (ReleasePool E i as w))) k = Some j)"
  using getOrAddPool_inv [OF assms] ReleasePool_inv [OF assms(1,2) _ assms(3)] by blast

definition ipam_client :: etcdClient where
  "ipam_client = \<lparr>dialTimeout = 5, client_prefix = ''/ipam'', endpoints = []\<rparr>"

definition demo_space :: etcdAddressSpace where
  "demo_space = \<lparr>completeSpace = [v4net 167772160 8], poolSize = 24,
     allSubnets = [v4net 167772160 24, v4net 167772416 24],
     unusedSubnets = [v4net 167772160 24, v4net 167772416 24], pools = [], as_client = ipam_client\<rparr>"

definition demo_world :: ref_world where
  "demo_world = ([(subnetKey ipam_client (ipnet_String (v4net 167772160 24)), ''net1'')], 0)"

theorem reservations_safe_witness:
  "let k = subnetKey ipam_client (ipnet_String (v4net 167772160 24))
   in ref_kv (snd (snd (getOrAddPool ref_env ''net2'' demo_space demo_world))) k = Some ''net1'' \<and>
    (''net1'' \<noteq> ''net2'' \<longrightarrow>
       ref_kv (snd (snd (ReleasePool ref_env ''net2'' demo_space demo_world))) k = Some ''net1'')"
  unfolding Let_def
  by (rule reservations_safe [OF etcd_contract_ref stable_eq]) (simp add: demo_world_def)

text \<open>
  C19: with no other writer, every operation keeps the pools that the node knows reserved in etcd
  under their subnets (so two pools of the node never share a subnet), and getting a pool keeps
  every reservation there was.
\<close>

theorem pools_coherent_preserved:
  assumes "etcd_contract E kv (=)" and "pools_coherent as (kv w)"
    and "getOrAddPool E i as w = (r1, as1, w1)" and "ReleasePool E i as w = (r2, as2, w2)"
  shows "pools_coherent as1 (kv w1) \<and> pools_coherent as2 (kv w2) \<and>
    (\<forall>k v. kv w k = Some v \<longrightarrow> kv w1 k = Some v) \<and>
    (\<forall>j j' s s'. map_get (pools as1) j = Some s \<and> map_get (pools as1) j' = Some s' \<and>
       ipnet_String s = ipnet_String s' \<longrightarrow> j = j')"
proof -
  note G = getOrAddPool_coherent [OF assms(1-3)] and R = ReleasePool_coherent [OF assms(1,2,4)]
  have "j = j'" if "map_get (pools as1) j = Some s" "map_get (pools as1) j' = Some s'"
    "ipnet_String s = ipnet_String s'" for j j' s s'
  proof -
    have coh: "map_get (pools as1) i' = Some t \<Longrightarrow>
        kv w1 (subnetKey (as_client as1) (ipnet_String t)) = Some i'" for i' t
      using G unfolding pools_coherent_def by blast
    show ?thesis using coh [OF that(1)] coh [OF that(2)] that(3) by simp
  qed
  then show ?thesis using G R by blast
qed

theorem pools_coherent_preserved_witness:
  "let g = getOrAddPool ref_env ''net2'' demo_space demo_world;
       l = ReleasePool ref_env ''net2'' demo_space demo_world
   in pools_coherent (fst (snd g)) (ref_kv (snd (snd g))) \<and>
      pools_coherent (fst (snd l)) (ref_kv (snd (snd l)))"
proof -
  have "pools_coherent demo_space (ref_kv demo_world)" by (simp add: pools_coherent_def demo_space_def)
  from pools_coherent_preserved [OF etcd_contract_ref this, of "''net2''"]
  show ?thesis unfolding Let_def by (metis prod.collapse)
qed

text \<open>
  With no other writer, a new pool gets the first unused subnet that no other pool has reserved
  in etcd; the subnets before it are reserved by other pools, it is reserved for the new pool,
  and the subnets after it stay unused.
\<close>

theorem new_pool_first_free:
  assumes "etcd_contract E kv (=)" and "GetNewPool E i as w = (Inr s, as', w')"
  shows "kv w' (subnetKey (as_client as) (ipnet_String s)) = Some i \<and>
    (\<exists>taken. unusedSubnets as = taken @ s # unusedSubnets as' \<and>
       (\<forall>t \<in> set taken. \<exists>j. j \<noteq> i \<and> kv w' (subnetKey (as_client as) (ipnet_String t)) = Some j)) \<and>
    GetPoolById i as = None"
proof -
  obtain as1 w1 r where G: "getOrAddPool E i as w = ((Inr (s, r), True), as', w')"
    using assms(2) by (auto simp: GetNewPool_def split: prod.splits sum.splits if_splits)
  then have new: "map_get (pools as) i = None"
    by (auto simp: getOrAddPool_def cm_GetOrAdd_def split: option.splits)
  obtain rest found where F: "find_subnet E (as_client as) i (unusedSubnets as) [] w = (Inr s, (rest, found), w')"
    and as': "unusedSubnets as' = rest"
    using G new by (auto simp: getOrAddPool_def cm_GetOrAdd_def Let_def split: prod.splits sum.splits)
  have "coherent (as_client as) [] (kv w)" by (simp add: coherent_def)
  from find_subnet_spec [OF assms(1) F this] new show ?thesis
    by (auto simp: as' GetPoolById_def cm_Get_def)
qed

theorem new_pool_first_free_witness:
  "\<exists>as' w'. GetNewPool ref_env ''net2'' demo_space demo_world = (Inr (v4net 167772416 24), as', w') \<and>
    ref_kv w' (subnetKey ipam_client (ipnet_String (v4net 167772416 24))) = Some ''net2''"
proof -
  have ne: "subnetKey ipam_client (ipnet_String (v4net 167772160 24)) \<noteq>
      subnetKey ipam_client (ipnet_String (v4net 167772416 24))"
    by (simp add: subnetKey_v4net_inj)
  obtain as' w' where run:
    "GetNewPool ref_env ''net2'' demo_space demo_world = (Inr (v4net 167772416 24), as', w')"
    using ne by (simp add: GetNewPool_def getOrAddPool_def cm_GetOrAdd_def reservePoolSubnet_def
        WithConnection_def ref_commit_def demo_space_def demo_world_def Let_def)
  have "as_client demo_space = ipam_client" by (simp add: demo_space_def)
  with new_pool_first_free [OF etcd_contract_ref run, THEN conjunct1]
  have "ref_kv w' (subnetKey ipam_client (ipnet_String (v4net 167772416 24))) = Some ''net2''"
    by (simp only:)
  with run show ?thesis by blast
qed

text \<open>
  A node that starts reads the reservations back: an IPv4 pool subnet reserved for a pool under
  exactly one key is that pool's subnet again.
\<close>

theorem getUsedSubnets_roundtrip:
  assumes "etcd_contract E kv rely" and "getUsedSubnets E c w = (Inr ps, w')"
    and "base < 2 ^ 32" and "p \<le> 32" and "base mod 2 ^ (32 - p) = 0"
    and "kv w' (subnetKey c (ipnet_String (v4net base p))) = Some i"
    and "\<forall>k. kv w' k = Some i \<longrightarrow> k = subnetKey c (ipnet_String (v4net base p))"
  shows "cm_Get i ps = Some (v4net base p)"
proof -
  let ?k = "subnetKey c (ipnet_String (v4net base p))"
  let ?t = "SubnetToKey (ipnet_String (v4net base p))"
  obtain w1 kvs where "conn_new E w = (None, w1)"
    and g: "etcd_GetPrefix E (client_prefix c) w1 = (Inr kvs, w')"
    and ps: "ps = used_subnets (client_prefix c) kvs []"
    using assms(2)
    by (auto simp: getUsedSubnets_def WithConnection_def subnetsKey_def Let_def NewConcurrentMap_def
        split: prod.splits sum.splits option.splits)
  note G = etcd_GetPrefix_Inr [OF assms(1) g]
  have key: "?k = client_prefix c @ ''/'' @ ?t" by (simp add: subnetKey_def GetKey_single)
  have no_slash: "CHR ''/'' \<notin> set ?t"
    using replace_char_not_in [of "CHR ''/''" "CHR ''-''"] by (simp add: SubnetToKey_def)
  then have "trim_left CHR ''/'' ?t = ?t" by (cases ?t) auto
  then have t: "trim_left CHR ''/'' (trim_prefix (client_prefix c) ?k) = ?t" by (simp add: key)
  have "(?k, i) \<in> set kvs" using G(3) assms(6) key by simp
  moreover have "\<forall>k'. (k', i) \<in> set kvs \<longrightarrow> k' = ?k" using G(3) assms(7) by blast
  then have "map_get (used_subnets (client_prefix c) kvs []) i =
      (if (?k, i) \<in> set kvs then Some (v4net base p) else map_get [] i)"
    by (rule used_subnets_get) (simp_all only: t no_slash key_subnet_v4net [OF assms(3-5)] not_False_eq_True)
  ultimately show ?thesis by (simp only: ps cm_Get_def if_True)
qed

theorem getUsedSubnets_roundtrip_witness:
  "\<exists>ps. getUsedSubnets ref_env ipam_client demo_world = (Inr ps, demo_world) \<and>
    cm_Get ''net1'' ps = Some (v4net 167772160 24)"
proof -
  obtain ps where run: "getUsedSubnets ref_env ipam_client demo_world = (Inr ps, demo_world)"
    by (simp add: getUsedSubnets_def WithConnection_def etcd_GetPrefix_def ref_commit_def
        demo_world_def Let_def)
  let ?k = "subnetKey ipam_client (ipnet_String (v4net 167772160 24))"
  have "ref_kv demo_world ?k = Some ''net1''" by (simp add: demo_world_def)
  moreover have "\<forall>k. ref_kv demo_world k = Some ''net1'' \<longrightarrow> k = ?k" by (simp add: demo_world_def)
  ultimately have "cm_Get ''net1'' ps = Some (v4net 167772160 24)"
    by (rule getUsedSubnets_roundtrip [OF etcd_contract_ref run, rotated 3]) simp_all
  with run show ?thesis by blast
qed

text \<open>
  The DELETE event of a pool that another node released changes nothing: the event has no
  value, so the handler looks for the pool with the empty identifier.  The node goes on handing
  out the subnet for the released pool, and never takes it back as unused.
\<close>

theorem released_elsewhere_ignored:
  assumes "cm_Get [] (pools as) = None"
  shows "subnetUsageChange pre (EvDelete k) as = as"
  using assms
  by (auto simp: Let_def cm_Get_def cm_TryRemove_def split: option.splits)

theorem released_elsewhere_ignored_witness:
  "let as = demo_space\<lparr>pools := [(''net1'', v4net 167772160 24)]\<rparr>;
       k = subnetKey ipam_client (ipnet_String (v4net 167772160 24))
   in subnetUsageChange (subnetsKey ipam_client) (EvDelete k) as = as"
  unfolding Let_def by (rule released_elsewhere_ignored) (simp add: cm_Get_def)

end
