(* ===== verification/Pool_Etcd.thy ===== *)
theory Pool_Etcd
  imports Ipam_Util Etcd "HOL-Library.List_Lexorder" "HOL-Library.Char_ord"
begin

text \<open>
  \<open>plugin/pkg/ipam/pool_etcd.go\<close>: the allocations of an address pool in etcd.  An allocated
  address has the key \<open>prefix/allocated-ips/<ip>\<close> with the allocation's type as its value, and
  below it the keys \<open>allocated-at\<close>, and \<open>mac\<close> or \<open>service-id\<close> for its owner.  Every function is
  one or several transactions; other nodes may write between two of them.
\<close>

section \<open>Keys\<close>

definition dataKeyPartMac :: string where "dataKeyPartMac = ''mac''"
definition dataKeyPartServiceID :: string where "dataKeyPartServiceID = ''service-id''"
definition allocatedAtKeyPart :: string where "allocatedAtKeyPart = ''allocated-at''"

definition AllocationTypeReserved :: string where "AllocationTypeReserved = ''reserved''"
definition AllocationTypeContainerIP :: string where "AllocationTypeContainerIP = ''container-ip''"
definition AllocationTypeServiceVIP :: string where "AllocationTypeServiceVIP = ''service-vip''"

definition allocatedIPsKey :: "etcdClient \<Rightarrow> string" where
  "allocatedIPsKey client = GetKey client [''allocated-ips'']"

definition allocatedIPKey :: "etcdClient \<Rightarrow> string \<Rightarrow> string" where
  "allocatedIPKey client i = allocatedIPsKey client @ ''/'' @ i"

definition macKey :: "etcdClient \<Rightarrow> string \<Rightarrow> string" where
  "macKey client i = allocatedIPKey client i @ ''/'' @ dataKeyPartMac"

definition serviceIDKey :: "etcdClient \<Rightarrow> string \<Rightarrow> string" where
  "serviceIDKey client i = allocatedIPKey client i @ ''/'' @ dataKeyPartServiceID"

definition allocatedAtKey :: "etcdClient \<Rightarrow> string \<Rightarrow> string" where
  "allocatedAtKey client i = allocatedIPKey client i @ ''/'' @ allocatedAtKeyPart"

section \<open>Allocating\<close>

record IPAllocationResult =
  Success :: bool
  Allocation :: Allocation

definition zero_Allocation :: Allocation where
  "zero_Allocation = \<lparr>a_ip = [], allocationType = [], allocatedAt = 0, dataKey = [], data = []\<rparr>"

text \<open>The loop over the conditions: one transaction each, until one succeeds.\<close>

fun try_conditions ::
  "'w env \<Rightarrow> Allocation \<Rightarrow> eop list \<Rightarrow> cmp list list \<Rightarrow> ('w, IPAllocationResult) io"
where
  "try_conditions E a ops [] w = (Inr \<lparr>Success = False, Allocation = zero_Allocation\<rparr>, w)"
| "try_conditions E a ops (condition # conditions) w =
     (case commit E condition ops [] w of
        (Inl e, w') \<Rightarrow> (Inl (OtherError ''etcd transaction failed''), w')
      | (Inr txnResp, w') \<Rightarrow>
          if Succeeded txnResp then (Inr \<lparr>Success = True, Allocation = a\<rparr>, w')
          else try_conditions E a ops conditions w')"

definition allocateIPByCondition ::
  "'w env \<Rightarrow> etcdClient \<Rightarrow> ip \<Rightarrow> string \<Rightarrow> string \<Rightarrow> string \<Rightarrow> cmp list list \<Rightarrow>
    ('w, IPAllocationResult) io"
where
  "allocateIPByCondition E client i allocType dKey d conditions = WithConnection E (\<lambda>w.
     let key = allocatedIPKey client (ip_String i);
         (now, w1) = clock_now E w;
         ops = [OpPut key allocType, OpPut (allocatedAtKey client (ip_String i)) (fmt_time E now)] @
               (if dKey \<noteq> [] \<and> d \<noteq> [] then [OpPut dKey d] else []);
         a = \<lparr>a_ip = i, allocationType = allocType, allocatedAt = now, dataKey = dKey, data = d\<rparr>
     in try_conditions E a ops conditions w1)"

definition container_conditions :: "etcdClient \<Rightarrow> string \<Rightarrow> string \<Rightarrow> cmp list list" where
  "container_conditions client ipStr mac =
     (let key = allocatedIPKey client ipStr; mKey = macKey client ipStr
      in [[ValueEq key AllocationTypeReserved, CreateRev0 mKey],
          [CreateRev0 key],
          [ValueEq key AllocationTypeReserved, ValueEq mKey mac],
          [ValueEq key AllocationTypeContainerIP, ValueEq mKey mac]])"

definition allocateIPForContainer ::
  "'w env \<Rightarrow> etcdClient \<Rightarrow> ip \<Rightarrow> string \<Rightarrow> ('w, IPAllocationResult) io" where
  "allocateIPForContainer E client reservedIP mac =
     allocateIPByCondition E client reservedIP AllocationTypeContainerIP
       (macKey client (ip_String reservedIP)) mac
       (container_conditions client (ip_String reservedIP) mac)"

definition service_conditions :: "etcdClient \<Rightarrow> string \<Rightarrow> string \<Rightarrow> cmp list list" where
  "service_conditions client ipStr serviceID =
     (let key = allocatedIPKey client ipStr; sKey = serviceIDKey client ipStr
      in [[ValueEq key AllocationTypeReserved, CreateRev0 sKey],
          [ValueEq key AllocationTypeServiceVIP, ValueEq sKey serviceID],
          [CreateRev0 key]])"

definition allocateIPForService ::
  "'w env \<Rightarrow> etcdClient \<Rightarrow> ip \<Rightarrow> string \<Rightarrow> ('w, IPAllocationResult) io" where
  "allocateIPForService E client reservedIP serviceID =
     allocateIPByCondition E client reservedIP AllocationTypeServiceVIP
       (serviceIDKey client (ip_String reservedIP)) serviceID
       (service_conditions client (ip_String reservedIP) serviceID)"

definition reserveIP :: "'w env \<Rightarrow> etcdClient \<Rightarrow> ip \<Rightarrow> ('w, IPAllocationResult) io" where
  "reserveIP E client i =
     allocateIPByCondition E client i AllocationTypeReserved [] []
       [[CreateRev0 (allocatedIPKey client (ip_String i))]]"

section \<open>Releasing\<close>

definition release_cmps :: "etcdClient \<Rightarrow> Allocation \<Rightarrow> cmp list" where
  "release_cmps client r =
     (let ipStr = ip_String (a_ip r)
      in ValueEq (allocatedIPKey client ipStr) (allocationType r) #
         (if data r = [] \<or> dataKey r = []
          then [CreateRev0 (macKey client ipStr), CreateRev0 (serviceIDKey client ipStr)]
          else [ValueEq (dataKey r) (data r)]))"

text \<open>
  The four requests of the Else branch are answered in order; \<open>Kvs[0]\<close> of an empty answer is an
  index panic, for the time first and the type after it.
\<close>

definition releaseAllocation ::
  "'w env \<Rightarrow> etcdClient \<Rightarrow> Allocation \<Rightarrow> ('w, IPAllocationResult) io" where
  "releaseAllocation E client r = WithConnection E (\<lambda>w.
     let ipStr = ip_String (a_ip r); key = allocatedIPKey client ipStr;
         aKey = allocatedAtKey client ipStr; mKey = macKey client ipStr;
         sKey = serviceIDKey client ipStr
     in case commit E (release_cmps client r)
               [OpDelete key, OpDelete aKey, OpDelete mKey, OpDelete sKey]
               [OpGet key, OpGet aKey, OpGet mKey, OpGet sKey] w of
          (Inl e, w') \<Rightarrow> (Inl e, w')
        | (Inr resp, w') \<Rightarrow>
            if Succeeded resp then (Inr \<lparr>Success = True, Allocation = zero_Allocation\<rparr>, w')
            else (case range_kvs (Responses resp) 1 of
                [] \<Rightarrow> (Inl (Panic ''index out of range''), w')
              | (_, allocatedAtStr) # _ \<Rightarrow>
                  (let at = (case parse_time E allocatedAtStr of None \<Rightarrow> 0 | Some t \<Rightarrow> t);
                       (dKey, d) = (case range_kvs (Responses resp) 2 of
                            kv # _ \<Rightarrow> kv
                          | [] \<Rightarrow> (case range_kvs (Responses resp) 3 of kv # _ \<Rightarrow> kv | [] \<Rightarrow> ([], [])))
                   in case range_kvs (Responses resp) 0 of
                        [] \<Rightarrow> (Inl (Panic ''index out of range''), w')
                      | (_, allocType) # _ \<Rightarrow>
                          (Inr \<lparr>Success = False, Allocation = \<lparr>a_ip = a_ip r, allocationType = allocType,
                             allocatedAt = at, dataKey = dKey, data = d\<rparr>\<rparr>, w'))))"

section \<open>Reading\<close>

text \<open>The body of the loop of \<open>getAllocationsByPrefix\<close>, for one key and its value.\<close>

definition read_allocation ::
  "(string \<Rightarrow> int option) \<Rightarrow> string \<Rightarrow> string \<times> string \<Rightarrow> (string, Allocation) gomap \<Rightarrow>
    (string, Allocation) gomap"
where
  "read_allocation parse pre kv res =
     (let (k, v) = kv; key = trim_left CHR ''/'' (trim_prefix pre k)
      in if CHR ''/'' \<notin> set key
         then (case ParseIP key of
                 None \<Rightarrow> res
               | Some i \<Rightarrow> AddOrUpdate res key (zero_Allocation\<lparr>a_ip := i, allocationType := v\<rparr>)
                   (Some (\<lambda>existing. existing\<lparr>a_ip := i, allocationType := v\<rparr>)))
         else (let parts = split_on CHR ''/'' key; i = hd parts
               in if length parts = 2
                  then if parts ! 1 = dataKeyPartMac \<or> parts ! 1 = dataKeyPartServiceID
                       then AddOrUpdate res i (zero_Allocation\<lparr>dataKey := k, data := v\<rparr>)
                              (Some (\<lambda>existing. existing\<lparr>dataKey := k, data := v\<rparr>))
                       else if parts ! 1 = allocatedAtKeyPart
                       then (case parse v of
                               None \<Rightarrow> res
                             | Some t \<Rightarrow> AddOrUpdate res i (zero_Allocation\<lparr>allocatedAt := t\<rparr>)
                                 (Some (\<lambda>existing. existing\<lparr>allocatedAt := t\<rparr>)))
                       else res
                  else res))"

text \<open>The range request asks for the keys in ascending order.\<close>

definition getAllocationsByPrefix ::
  "'w env \<Rightarrow> etcdClient \<Rightarrow> string \<Rightarrow> ('w, (string, Allocation) gomap) io" where
  "getAllocationsByPrefix E client pre = WithConnection E (\<lambda>w.
     case etcd_GetPrefix E pre w of
       (Inl e, w') \<Rightarrow> (Inl e, w')
     | (Inr kvs, w') \<Rightarrow>
         (Inr (fold (read_allocation (parse_time E) pre) (sort_key fst kvs) []), w'))"

definition getAllocations :: "'w env \<Rightarrow> etcdClient \<Rightarrow> ('w, (string, Allocation) gomap) io" where
  "getAllocations E client = getAllocationsByPrefix E client (allocatedIPsKey client)"

definition readAllocation :: "'w env \<Rightarrow> etcdClient \<Rightarrow> string \<Rightarrow> ('w, Allocation option) io" where
  "readAllocation E client i w =
     (case getAllocationsByPrefix E client (allocatedIPKey client i) w of
        (Inl e, w') \<Rightarrow> (Inl e, w')
      | (Inr tmp, w') \<Rightarrow> (Inr (map_get tmp i), w'))"

definition deleteAllAllocations :: "'w env \<Rightarrow> etcdClient \<Rightarrow> ('w, unit) io" where
  "deleteAllAllocations E client =
     WithConnection E (\<lambda>w. etcd_DeletePrefix E (allocatedIPsKey client) w)"

section \<open>Lemmas: keys\<close>

lemma slash_not_in_hex_byte: "CHR ''/'' \<notin> set (hex_byte b)"
proof -
  have "hex_digit n \<noteq> CHR ''/''" if "n < 16" for n
  proof
    assume "hex_digit n = CHR ''/''"
    then have "(of_char (hex_digit n) :: nat) = 47" by simp
    then show False using that by (simp add: hex_digit_def of_char_digit_char split: if_splits)
  qed
  moreover have "unat b div 16 < 16" "unat b mod 16 < 16" using unat_u8_less [of b] by auto
  ultimately show ?thesis unfolding hex_byte_def by (metis list.set_cases list.set_intros(1) set_ConsD empty_iff empty_set)
qed

lemma slash_not_in_ip_String: "CHR ''/'' \<notin> set (ip_String x)"
  using slash_not_in_dotted slash_not_in_hex_byte
  by (auto simp: ip_String_def split: option.splits)

lemma slash_append_eq:
  assumes "CHR ''/'' \<notin> set a" and "CHR ''/'' \<notin> set b"
  shows "a @ CHR ''/'' # x = b @ CHR ''/'' # y \<longleftrightarrow> a = b \<and> x = y"
proof
  assume eq: "a @ CHR ''/'' # x = b @ CHR ''/'' # y"
  have "takeWhile (\<lambda>c. c \<noteq> CHR ''/'') (s @ CHR ''/'' # z) = s" if "CHR ''/'' \<notin> set s" for s z
    using that by (subst takeWhile_append2) auto
  then have "a = b" using assms eq by metis
  with eq show "a = b \<and> x = y" by simp
qed simp

lemma slash_append_neq: "CHR ''/'' \<notin> set a \<Longrightarrow> a \<noteq> b @ CHR ''/'' # y"
  by auto

lemmas key_defs = allocatedIPKey_def macKey_def serviceIDKey_def allocatedAtKey_def
  dataKeyPartMac_def dataKeyPartServiceID_def allocatedAtKeyPart_def

text \<open>The keys of one address differ from each other and from those of every other address.\<close>

lemma alloc_keys_distinct [simp]:
  "allocatedIPKey c s = allocatedIPKey c t \<longleftrightarrow> s = t"
  "macKey c s = macKey c t \<longleftrightarrow> s = t"
  "serviceIDKey c s = serviceIDKey c t \<longleftrightarrow> s = t"
  "allocatedAtKey c s = allocatedAtKey c t \<longleftrightarrow> s = t"
  by (simp_all add: key_defs)

lemma alloc_keys_neq:
  assumes "CHR ''/'' \<notin> set s" and "CHR ''/'' \<notin> set t"
  shows "allocatedIPKey c s \<noteq> macKey c t" "allocatedIPKey c s \<noteq> serviceIDKey c t"
    "allocatedIPKey c s \<noteq> allocatedAtKey c t" "macKey c s \<noteq> serviceIDKey c t"
    "macKey c s \<noteq> allocatedAtKey c t" "serviceIDKey c s \<noteq> allocatedAtKey c t"
  using assms by (auto simp: key_defs slash_append_eq)


section \<open>Lemmas: transactions of the allocating functions\<close>

lemma try_conditions_inv:
  assumes C: "etcd_contract E kv rely" and S: "stable rely I"
    and T: "\<And>cs m. cs \<in> set conditions \<Longrightarrow> I m \<Longrightarrow> list_all (cmp_holds m) cs \<Longrightarrow> I (fold op_effect ops m)"
  shows "I (kv w) \<Longrightarrow> I (kv (snd (try_conditions E a ops conditions w)))"
  using T
proof (induction conditions arbitrary: w)
  case (Cons cs conditions)
  have "I (kv (snd (commit E cs ops [] w)))"
    by (rule commit_inv [OF C S _ Cons.prems(1)]) (auto simp: txn_effect_def intro: Cons.prems(2))
  moreover have "\<And>cs m. cs \<in> set conditions \<Longrightarrow> I m \<Longrightarrow> list_all (cmp_holds m) cs \<Longrightarrow>
      I (fold op_effect ops m)" by (rule Cons.prems(2)) simp_all
  ultimately show ?case
    using Cons.IH by (auto split: prod.splits sum.splits)
qed simp

lemma allocateIPByCondition_inv:
  assumes C: "etcd_contract E kv rely" and S: "stable rely I" and I: "I (kv w)"
    and T: "\<And>cs m now. cs \<in> set conditions \<Longrightarrow> I m \<Longrightarrow> list_all (cmp_holds m) cs \<Longrightarrow>
      I (fold op_effect ([OpPut (allocatedIPKey client (ip_String i)) allocType,
           OpPut (allocatedAtKey client (ip_String i)) (fmt_time E now)] @
           (if dKey \<noteq> [] \<and> d \<noteq> [] then [OpPut dKey d] else [])) m)"
  shows "I (kv (snd (allocateIPByCondition E client i allocType dKey d conditions w)))"
  unfolding allocateIPByCondition_def
proof (rule WithConnection_inv [OF C S I], unfold Let_def case_prod_unfold, rule try_conditions_inv [OF C S])
  fix w assume "I (kv w)"
  then show "I (kv (snd (clock_now E w)))"
    using clock_now_kv [OF C, of w] by (metis prod.collapse)
qed (rule T)

text \<open>Who holds an address.\<close>

definition held_by_container :: "etcdClient \<Rightarrow> string \<Rightarrow> string \<Rightarrow> keyspace \<Rightarrow> bool" where
  "held_by_container c s mac m \<longleftrightarrow>
     m (allocatedIPKey c s) = Some AllocationTypeContainerIP \<and> m (macKey c s) = Some mac"

definition held_by_service :: "etcdClient \<Rightarrow> string \<Rightarrow> string \<Rightarrow> keyspace \<Rightarrow> bool" where
  "held_by_service c s sid m \<longleftrightarrow>
     m (allocatedIPKey c s) = Some AllocationTypeServiceVIP \<and> m (serviceIDKey c s) = Some sid"

lemmas held_defs = held_by_container_def held_by_service_def
lemmas allocation_types = AllocationTypeReserved_def AllocationTypeContainerIP_def
  AllocationTypeServiceVIP_def

lemma alloc_keys_neq':
  assumes "CHR ''/'' \<notin> set s"
  shows "allocatedIPKey c s \<noteq> macKey c (ip_String x)" "allocatedIPKey c s \<noteq> serviceIDKey c (ip_String x)"
    "allocatedIPKey c s \<noteq> allocatedAtKey c (ip_String x)" "macKey c s \<noteq> serviceIDKey c (ip_String x)"
    "macKey c s \<noteq> allocatedAtKey c (ip_String x)" "serviceIDKey c s \<noteq> allocatedAtKey c (ip_String x)"
    "macKey c s \<noteq> allocatedIPKey c (ip_String x)" "serviceIDKey c s \<noteq> allocatedIPKey c (ip_String x)"
    "serviceIDKey c s \<noteq> macKey c (ip_String x)"
  using alloc_keys_neq [OF assms slash_not_in_ip_String, of c x]
    alloc_keys_neq [OF slash_not_in_ip_String assms, of c x] by auto

text \<open>
  A holder keeps its address whatever the allocating functions do for others: each of them
  compares the type and the owner in the transaction that writes.
\<close>

locale holder =
  fixes E :: "'w env" and kv :: "'w \<Rightarrow> keyspace" and rely :: "keyspace \<Rightarrow> keyspace \<Rightarrow> bool"
    and c :: etcdClient and s :: string and I :: "keyspace \<Rightarrow> bool"
  assumes contract: "etcd_contract E kv rely" and stable_I: "stable rely I"
    and slash_free: "CHR ''/'' \<notin> set s"
    and depends: "\<And>m m'. m (allocatedIPKey c s) = m' (allocatedIPKey c s) \<Longrightarrow>
      m (macKey c s) = m' (macKey c s) \<Longrightarrow> m (serviceIDKey c s) = m' (serviceIDKey c s) \<Longrightarrow> I m \<Longrightarrow> I m'"
begin

lemma allocate_keeps:
  assumes I: "I (kv w)" and D: "dKey \<in> {[], macKey c (ip_String i), serviceIDKey c (ip_String i)}"
    and G: "\<And>cs m. ip_String i = s \<Longrightarrow> cs \<in> set conditions \<Longrightarrow> I m \<Longrightarrow> \<not> list_all (cmp_holds m) cs"
  shows "I (kv (snd (allocateIPByCondition E c i typ dKey d conditions w)))"
proof (rule allocateIPByCondition_inv [OF contract stable_I I])
  fix cs m now
  assume cs: "cs \<in> set conditions" and m: "I m" and holds: "list_all (cmp_holds m) cs"
  then have ne: "s \<noteq> ip_String i" using G [OF _ cs m] by auto
  let ?m = "fold op_effect ([OpPut (allocatedIPKey c (ip_String i)) typ,
      OpPut (allocatedAtKey c (ip_String i)) (fmt_time E now)] @
      (if dKey \<noteq> [] \<and> d \<noteq> [] then [OpPut dKey d] else [])) m"
  note neq = alloc_keys_neq' [OF slash_free, of c i]
  show "I ?m"
  proof (rule depends [OF _ _ _ m])
    show "m (allocatedIPKey c s) = ?m (allocatedIPKey c s)" using D neq ne by auto
    show "m (macKey c s) = ?m (macKey c s)" using D neq ne by auto
    show "m (serviceIDKey c s) = ?m (serviceIDKey c s)" using D neq ne by auto
  qed
qed

end

context holder begin

lemma release_keeps:
  assumes I: "I (kv w)" and ne: "ip_String (a_ip r) \<noteq> s"
  shows "I (kv (snd (releaseAllocation E c r w)))"
  unfolding releaseAllocation_def
proof (rule WithConnection_inv [OF contract stable_I I])
  fix w assume I: "I (kv w)"
  let ?i = "ip_String (a_ip r)"
  let ?ts = "[OpDelete (allocatedIPKey c ?i), OpDelete (allocatedAtKey c ?i), OpDelete (macKey c ?i),
    OpDelete (serviceIDKey c ?i)]"
  let ?es = "[OpGet (allocatedIPKey c ?i), OpGet (allocatedAtKey c ?i), OpGet (macKey c ?i),
    OpGet (serviceIDKey c ?i)]"
  note neq = alloc_keys_neq' [OF slash_free, of c "a_ip r"]
  have "I (kv (snd (commit E (release_cmps c r) ?ts ?es w)))"
  proof (rule commit_inv [OF contract stable_I _ I])
    fix m assume m: "I m"
    show "I (txn_effect (release_cmps c r) ?ts ?es m)"
      using ne neq by (intro depends [OF _ _ _ m]) (auto simp: txn_effect_def)
  qed
  then show "I (kv (snd (let ipStr = ip_String (a_ip r); key = allocatedIPKey c ipStr;
         aKey = allocatedAtKey c ipStr; mKey = macKey c ipStr; sKey = serviceIDKey c ipStr
     in case commit E (release_cmps c r) [OpDelete key, OpDelete aKey, OpDelete mKey, OpDelete sKey]
               [OpGet key, OpGet aKey, OpGet mKey, OpGet sKey] w of
          (Inl e, w') \<Rightarrow> (Inl e, w')
        | (Inr resp, w') \<Rightarrow>
            if Succeeded resp then (Inr \<lparr>Success = True, Allocation = zero_Allocation\<rparr>, w')
            else (case range_kvs (Responses resp) 1 of
                [] \<Rightarrow> (Inl (Panic ''index out of range''), w')
              | (_, allocatedAtStr) # _ \<Rightarrow>
                  (let at = (case parse_time E allocatedAtStr of None \<Rightarrow> 0 | Some t \<Rightarrow> t);
                       (dKey, d) = (case range_kvs (Responses resp) 2 of
                            kv # _ \<Rightarrow> kv
                          | [] \<Rightarrow> (case range_kvs (Responses resp) 3 of kv # _ \<Rightarrow> kv | [] \<Rightarrow> ([], [])))
                   in case range_kvs (Responses resp) 0 of
                        [] \<Rightarrow> (Inl (Panic ''index out of range''), w')
                      | (_, allocType) # _ \<Rightarrow>
                          (Inr \<lparr>Success = False, Allocation = \<lparr>a_ip = a_ip r, allocationType = allocType,
                             allocatedAt = at, dataKey = dKey, data = d\<rparr>\<rparr>, w'))))))"
    unfolding Let_def by (auto split: prod.splits sum.splits list.splits)
qed

end

lemma holder_container:
  assumes "etcd_contract E kv rely" and "stable rely (held_by_container c (ip_String x) mac)"
  shows "holder E kv rely c (ip_String x) (held_by_container c (ip_String x) mac)"
  using assms slash_not_in_ip_String by unfold_locales (auto simp: held_defs)

lemma holder_service:
  assumes "etcd_contract E kv rely" and "stable rely (held_by_service c (ip_String x) sid)"
  shows "holder E kv rely c (ip_String x) (held_by_service c (ip_String x) sid)"
  using assms slash_not_in_ip_String by unfold_locales (auto simp: held_defs)

interpretation container: holder ref_env ref_kv "(=)" c "ip_String x" "held_by_container c (ip_String x) mac"
  for c x mac
  by (rule holder_container [OF etcd_contract_ref]) (simp add: stable_def)

interpretation service_vip: holder ref_env ref_kv "(=)" c "ip_String x" "held_by_service c (ip_String x) sid"
  for c x sid
  by (rule holder_service [OF etcd_contract_ref]) (simp add: stable_def)

text \<open>The guards: no condition of the allocating functions holds for an address that another holds.\<close>

lemma container_guard:
  assumes "held_by_container c s mac m"
  shows "mac' \<noteq> mac \<Longrightarrow> cs \<in> set (container_conditions c s mac') \<Longrightarrow> \<not> list_all (cmp_holds m) cs"
    and "cs \<in> set (service_conditions c s sid) \<Longrightarrow> \<not> list_all (cmp_holds m) cs"
    and "\<not> list_all (cmp_holds m) [CreateRev0 (allocatedIPKey c s)]"
  using assms
  by (auto simp: held_defs container_conditions_def service_conditions_def allocation_types Let_def)

lemma service_guard:
  assumes "held_by_service c s sid m"
  shows "sid' \<noteq> sid \<Longrightarrow> cs \<in> set (service_conditions c s sid') \<Longrightarrow> \<not> list_all (cmp_holds m) cs"
    and "cs \<in> set (container_conditions c s mac) \<Longrightarrow> \<not> list_all (cmp_holds m) cs"
    and "\<not> list_all (cmp_holds m) [CreateRev0 (allocatedIPKey c s)]"
  using assms
  by (auto simp: held_defs container_conditions_def service_conditions_def allocation_types Let_def)

lemma container_holder_kept:
  assumes C: "etcd_contract E kv rely" and S: "stable rely (held_by_container c (ip_String x) mac)"
    and I: "held_by_container c (ip_String x) mac (kv w)"
  shows "mac' \<noteq> mac \<Longrightarrow> held_by_container c (ip_String x) mac (kv (snd (allocateIPForContainer E c i mac' w)))"
    and "held_by_container c (ip_String x) mac (kv (snd (allocateIPForService E c i sid w)))"
    and "held_by_container c (ip_String x) mac (kv (snd (reserveIP E c i w)))"
proof -
  note keep = holder.allocate_keeps [OF holder_container [OF C S] I]
  show "mac' \<noteq> mac \<Longrightarrow> held_by_container c (ip_String x) mac (kv (snd (allocateIPForContainer E c i mac' w)))"
    unfolding allocateIPForContainer_def by (rule keep) (auto dest: container_guard(1))
  show "held_by_container c (ip_String x) mac (kv (snd (allocateIPForService E c i sid w)))"
    unfolding allocateIPForService_def by (rule keep) (auto dest: container_guard(2))
  show "held_by_container c (ip_String x) mac (kv (snd (reserveIP E c i w)))"
    unfolding reserveIP_def by (rule keep) (auto dest: container_guard(3))
qed

lemma service_holder_kept:
  assumes C: "etcd_contract E kv rely" and S: "stable rely (held_by_service c (ip_String x) sid)"
    and I: "held_by_service c (ip_String x) sid (kv w)"
  shows "sid' \<noteq> sid \<Longrightarrow> held_by_service c (ip_String x) sid (kv (snd (allocateIPForService E c i sid' w)))"
    and "held_by_service c (ip_String x) sid (kv (snd (allocateIPForContainer E c i mac w)))"
    and "held_by_service c (ip_String x) sid (kv (snd (reserveIP E c i w)))"
proof -
  note keep = holder.allocate_keeps [OF holder_service [OF C S] I]
  show "sid' \<noteq> sid \<Longrightarrow> held_by_service c (ip_String x) sid (kv (snd (allocateIPForService E c i sid' w)))"
    unfolding allocateIPForService_def by (rule keep) (auto dest: service_guard(1))
  show "held_by_service c (ip_String x) sid (kv (snd (allocateIPForContainer E c i mac w)))"
    unfolding allocateIPForContainer_def by (rule keep) (auto dest: service_guard(2))
  show "held_by_service c (ip_String x) sid (kv (snd (reserveIP E c i w)))"
    unfolding reserveIP_def by (rule keep) (auto dest: service_guard(3))
qed

lemma try_conditions_Inr:
  assumes C: "etcd_contract E kv rely"
  shows "try_conditions E a ops conditions w = (Inr r, w') \<Longrightarrow>
    (if Success r then Allocation r = a \<and> (\<exists>m cs. rely (kv w) m \<and> cs \<in> set conditions \<and>
        list_all (cmp_holds m) cs \<and> kv w' = fold op_effect ops m)
     else Allocation r = zero_Allocation \<and> rely (kv w) (kv w') \<and>
        (\<forall>cs\<in>set conditions. \<exists>m. rely (kv w) m \<and> rely m (kv w') \<and> \<not> list_all (cmp_holds m) cs))"
proof (induction conditions arbitrary: w)
  case Nil
  then show ?case using etcd_rely_refl [OF C] by auto
next
  case (Cons cs conditions)
  obtain t w1 where t: "commit E cs ops [] w = (Inr t, w1)"
    using Cons.prems by (auto split: prod.splits sum.splits)
  obtain m where m: "rely (kv w) m" "Succeeded t = list_all (cmp_holds m) cs"
    and run: "run_ops (if Succeeded t then ops else []) m (Responses t) (kv w1)"
    by (rule commit_Inr [OF C t])
  show ?case
  proof (cases "Succeeded t")
    case True
    then have "r = \<lparr>Success = True, Allocation = a\<rparr>" "w' = w1" using Cons.prems t by auto
    moreover have "kv w1 = fold op_effect ops m" using run_ops_effect [OF run] True by simp
    ultimately show ?thesis using m True by auto
  next
    case False
    then have w1: "kv w1 = m" using run by simp
    have "try_conditions E a ops conditions w1 = (Inr r, w')" using Cons.prems t False by auto
    from Cons.IH [OF this] have IH: "if Success r then Allocation r = a \<and> (\<exists>m' cs. rely m m' \<and> cs \<in> set conditions \<and>
        list_all (cmp_holds m') cs \<and> kv w' = fold op_effect ops m')
     else Allocation r = zero_Allocation \<and> rely m (kv w') \<and>
        (\<forall>cs\<in>set conditions. \<exists>m'. rely m m' \<and> rely m' (kv w') \<and> \<not> list_all (cmp_holds m') cs)"
      unfolding w1 .
    note tr = etcd_rely_trans [OF C m(1)]
    show ?thesis
    proof (cases "Success r")
      case True
      with IH obtain m' cs' where "Allocation r = a" "rely m m'" "cs' \<in> set conditions"
        "list_all (cmp_holds m') cs'" "kv w' = fold op_effect ops m'" by auto
      with True tr show ?thesis by (auto intro!: exI [of _ m'] exI [of _ cs'])
    next
      case nS: False
      with IH have z: "Allocation r = zero_Allocation" "rely m (kv w')"
        and all: "\<forall>cs\<in>set conditions. \<exists>m'. rely m m' \<and> rely m' (kv w') \<and> \<not> list_all (cmp_holds m') cs"
        by auto
      have "\<exists>m'. rely (kv w) m' \<and> rely m' (kv w') \<and> \<not> list_all (cmp_holds m') cs'"
        if "cs' \<in> set (cs # conditions)" for cs'
        using that all tr m False z(2) by (cases "cs' = cs") (simp, blast, auto)
      then show ?thesis using nS z(1) tr [OF z(2)] by auto
    qed
  qed
qed

lemma allocateIPByCondition_Inr:
  assumes C: "etcd_contract E kv rely"
    and run: "allocateIPByCondition E c i typ dKey d conditions w = (Inr r, w')"
  shows "if Success r
    then (\<exists>m cs now. rely (kv w) m \<and> cs \<in> set conditions \<and> list_all (cmp_holds m) cs \<and>
       Allocation r = \<lparr>a_ip = i, allocationType = typ, allocatedAt = now, dataKey = dKey, data = d\<rparr> \<and>
       kv w' = (let m1 = m(allocatedIPKey c (ip_String i) \<mapsto> typ,
                           allocatedAtKey c (ip_String i) \<mapsto> fmt_time E now)
                in if dKey \<noteq> [] \<and> d \<noteq> [] then m1(dKey \<mapsto> d) else m1))
    else rely (kv w) (kv w') \<and>
       (\<forall>cs\<in>set conditions. \<exists>m. rely (kv w) m \<and> rely m (kv w') \<and> \<not> list_all (cmp_holds m) cs)"
proof -
  obtain w1 where w1: "conn_new E w = (None, w1)"
    and run1: "(let key = allocatedIPKey c (ip_String i); (now, w1) = clock_now E w1;
         ops = [OpPut key typ, OpPut (allocatedAtKey c (ip_String i)) (fmt_time E now)] @
               (if dKey \<noteq> [] \<and> d \<noteq> [] then [OpPut dKey d] else []);
         a = \<lparr>a_ip = i, allocationType = typ, allocatedAt = now, dataKey = dKey, data = d\<rparr>
     in try_conditions E a ops conditions w1) = (Inr r, w')"
    using run unfolding allocateIPByCondition_def by (rule WithConnection_Inr)
  obtain now w2 where now: "clock_now E w1 = (now, w2)" by (cases "clock_now E w1")
  let ?ops = "[OpPut (allocatedIPKey c (ip_String i)) typ,
      OpPut (allocatedAtKey c (ip_String i)) (fmt_time E now)] @
      (if dKey \<noteq> [] \<and> d \<noteq> [] then [OpPut dKey d] else [])"
  let ?a = "\<lparr>a_ip = i, allocationType = typ, allocatedAt = now, dataKey = dKey, data = d\<rparr>"
  have tc: "try_conditions E ?a ?ops conditions w2 = (Inr r, w')"
    using run1 now by (simp add: Let_def)
  have kv2: "rely (kv w) (kv w2)"
    using conn_new_rely [OF C w1] clock_now_kv [OF C now] by simp
  note tr = etcd_rely_trans [OF C kv2]
  note res = try_conditions_Inr [OF C tc]
  show ?thesis
  proof (cases "Success r")
    case True
    with res obtain m cs where "Allocation r = ?a" "rely (kv w2) m" "cs \<in> set conditions"
      "list_all (cmp_holds m) cs" "kv w' = fold op_effect ?ops m" by auto
    with True tr show ?thesis
      by (auto simp: Let_def intro!: exI [of _ m] exI [of _ cs] exI [of _ now])
  next
    case False
    with res tr show ?thesis by (auto; blast)
  qed
qed

section \<open>Lemmas: reading allocations\<close>

text \<open>
  The keyspaces that this file writes: below \<open>allocated-ips\<close> there are only keys of IPv4
  addresses and their three parts.
\<close>

definition alloc_parts :: "string set" where
  "alloc_parts = {dataKeyPartMac, dataKeyPartServiceID, allocatedAtKeyPart}"

definition alloc_key :: "etcdClient \<Rightarrow> ip \<Rightarrow> string \<Rightarrow> bool" where
  "alloc_key c x k \<longleftrightarrow> length x = 4 \<and> (k = allocatedIPKey c (dotted x) \<or>
     (\<exists>part \<in> alloc_parts. k = allocatedIPKey c (dotted x) @ ''/'' @ part))"

definition alloc_keyspace :: "etcdClient \<Rightarrow> keyspace \<Rightarrow> bool" where
  "alloc_keyspace c m \<longleftrightarrow> (\<forall>k. prefix (allocatedIPsKey c) k \<longrightarrow> m k \<noteq> None \<longrightarrow> (\<exists>x. alloc_key c x k))"

lemma dotted_not_Nil: "length x = 4 \<Longrightarrow> dotted x \<noteq> []"
  by (elim len4_cases) (simp add: dotted_def)

lemma hd_dotted_no_slash: "length x = 4 \<Longrightarrow> hd (dotted x) \<noteq> CHR ''/''"
  using slash_not_in_dotted [of x] dotted_not_Nil [of x] by (metis hd_in_set)

lemma dotted_inject:
  assumes "length x = 4" and "length y = 4"
  shows "dotted x = dotted y \<longleftrightarrow> x = y"
proof
  assume "dotted x = dotted y"
  then have "Some x = Some y"
    by (simp only: parse_v4_dotted [OF assms(1), symmetric] parse_v4_dotted [OF assms(2), symmetric])
  then show "x = y" by simp
qed simp

lemma alloc_parts_no_slash: "part \<in> alloc_parts \<Longrightarrow> CHR ''/'' \<notin> set part"
  by (auto simp: alloc_parts_def key_defs)

text \<open>What one key of the range does to the entry of the address \<open>x\<close>.\<close>

definition or_zero :: "Allocation option \<Rightarrow> Allocation" where
  "or_zero o' = (case o' of None \<Rightarrow> zero_Allocation | Some a \<Rightarrow> a)"

definition read_step ::
  "(string \<Rightarrow> int option) \<Rightarrow> etcdClient \<Rightarrow> ip \<Rightarrow> string \<times> string \<Rightarrow> Allocation option \<Rightarrow> Allocation option"
where
  "read_step parse c x kv o' = (let (k, v) = kv; s = dotted x in
     if k = allocatedIPKey c s then Some ((or_zero o')\<lparr>a_ip := v4_prefix @ x, allocationType := v\<rparr>)
     else if k = macKey c s \<or> k = serviceIDKey c s then Some ((or_zero o')\<lparr>dataKey := k, data := v\<rparr>)
     else if k = allocatedAtKey c s
     then (case parse v of None \<Rightarrow> o' | Some t \<Rightarrow> Some ((or_zero o')\<lparr>allocatedAt := t\<rparr>))
     else o')"

lemma read_allocation_step:
  assumes y: "alloc_key c y k" and x: "length x = 4"
  shows "map_get (read_allocation parse (allocatedIPsKey c) (k, v) res) (dotted x) =
    read_step parse c x (k, v) (map_get res (dotted x))"
proof -
  have len: "length y = 4" using y by (simp add: alloc_key_def)
  let ?t = "dotted y"
  have noslash: "CHR ''/'' \<notin> set ?t" "CHR ''/'' \<notin> set (dotted x)" by (rule slash_not_in_dotted)+
  note neq = alloc_keys_neq [OF noslash(1) noslash(2), of c] alloc_keys_neq [OF noslash(2) noslash(1), of c]
  have trim: "trim_left CHR ''/'' (trim_prefix (allocatedIPsKey c) (allocatedIPKey c ?t @ rest)) = ?t @ rest"
    for rest
    using hd_dotted_no_slash [OF len] dotted_not_Nil [OF len] by (simp add: allocatedIPKey_def)
  from y consider "k = allocatedIPKey c ?t"
    | part where "part \<in> alloc_parts" "k = allocatedIPKey c ?t @ ''/'' @ part"
    unfolding alloc_key_def by blast
  then show ?thesis
  proof cases
    case 1
    have "trim_left CHR ''/'' (trim_prefix (allocatedIPsKey c) k) = ?t" using trim [of "[]"] 1 by simp
    then show ?thesis
      using noslash 1 neq ParseIP_dotted [OF len] dotted_inject [OF len x]
      by (auto simp: read_allocation_def Let_def read_step_def AddOrUpdate_def or_zero_def split: option.splits)
  next
    case 2
    have sp: "split_on CHR ''/'' (?t @ CHR ''/'' # part) = [?t, part]"
      using noslash(1) alloc_parts_no_slash [OF 2(1)] by (simp add: split_on_append)
    have "trim_left CHR ''/'' (trim_prefix (allocatedIPsKey c) k) = ?t @ CHR ''/'' # part"
      using trim [of "''/'' @ part"] 2 by simp
    then have step: "read_allocation parse (allocatedIPsKey c) (k, v) res =
        (if part = dataKeyPartMac \<or> part = dataKeyPartServiceID
         then AddOrUpdate res ?t (zero_Allocation\<lparr>dataKey := k, data := v\<rparr>)
                (Some (\<lambda>existing. existing\<lparr>dataKey := k, data := v\<rparr>))
         else if part = allocatedAtKeyPart
         then (case parse v of
                 None \<Rightarrow> res
               | Some t \<Rightarrow> AddOrUpdate res ?t (zero_Allocation\<lparr>allocatedAt := t\<rparr>)
                   (Some (\<lambda>existing. existing\<lparr>allocatedAt := t\<rparr>)))
         else res)"
      by (simp add: read_allocation_def Let_def sp split: option.split)
    from 2 consider "k = macKey c ?t" "part = dataKeyPartMac"
      | "k = serviceIDKey c ?t" "part = dataKeyPartServiceID"
      | "k = allocatedAtKey c ?t" "part = allocatedAtKeyPart"
      unfolding alloc_parts_def macKey_def serviceIDKey_def allocatedAtKey_def by blast
    then show ?thesis
    proof cases
      case 1
      then show ?thesis unfolding step using neq(7,10,11) [symmetric] neq
        by (simp add: read_step_def Let_def AddOrUpdate_def or_zero_def split: option.splits)
    next
      case 2
      then show ?thesis unfolding step using neq
        by (simp add: read_step_def Let_def AddOrUpdate_def or_zero_def split: option.splits)
    next
      case 3
      have "allocatedAtKeyPart \<noteq> dataKeyPartMac" "allocatedAtKeyPart \<noteq> dataKeyPartServiceID"
        by (simp_all add: key_defs)
      with 3 show ?thesis unfolding step using neq neq(3,5,6) [symmetric]
        by (simp add: read_step_def Let_def AddOrUpdate_def or_zero_def split: option.splits)
    qed
  qed
qed

lemma read_fold_step:
  assumes "\<forall>(k, v) \<in> set kvs. \<exists>y. alloc_key c y k" and x: "length x = 4"
  shows "map_get (fold (read_allocation parse (allocatedIPsKey c)) kvs res) (dotted x) =
    fold (read_step parse c x) kvs (map_get res (dotted x))"
  using assms(1)
  by (induction kvs arbitrary: res) (auto simp: read_allocation_step [OF _ x])

text \<open>The allocation that a keyspace records for an address.\<close>

definition recorded :: "(string \<Rightarrow> int option) \<Rightarrow> etcdClient \<Rightarrow> ip \<Rightarrow> keyspace \<Rightarrow> Allocation option" where
  "recorded parse c x m = (let s = dotted x; at = Option.bind (m (allocatedAtKey c s)) parse in
     if m (allocatedIPKey c s) = None \<and> m (macKey c s) = None \<and> m (serviceIDKey c s) = None \<and> at = None
     then None
     else Some \<lparr>a_ip = (if m (allocatedIPKey c s) = None then [] else v4_prefix @ x),
       allocationType = (case m (allocatedIPKey c s) of None \<Rightarrow> [] | Some t \<Rightarrow> t),
       allocatedAt = (case at of None \<Rightarrow> 0 | Some t \<Rightarrow> t),
       dataKey = (if m (serviceIDKey c s) \<noteq> None then serviceIDKey c s
         else if m (macKey c s) \<noteq> None then macKey c s else []),
       data = (case m (serviceIDKey c s) of Some v \<Rightarrow> v
         | None \<Rightarrow> (case m (macKey c s) of Some v \<Rightarrow> v | None \<Rightarrow> []))\<rparr>)"

lemma recorded_cong:
  assumes "m (allocatedIPKey c (dotted x)) = m' (allocatedIPKey c (dotted x))"
    and "m (macKey c (dotted x)) = m' (macKey c (dotted x))"
    and "m (serviceIDKey c (dotted x)) = m' (serviceIDKey c (dotted x))"
    and "m (allocatedAtKey c (dotted x)) = m' (allocatedAtKey c (dotted x))"
  shows "recorded parse c x m = recorded parse c x m'"
  unfolding recorded_def Let_def assms ..

lemma append_less_iff: "p @ a < p @ b \<longleftrightarrow> a < (b :: string)"
  by (induction p) auto

lemma macKey_less_serviceIDKey: "macKey c s < serviceIDKey c s"
  by (simp add: macKey_def serviceIDKey_def append_less_iff dataKeyPartMac_def dataKeyPartServiceID_def
      less_char_def)

lemma read_sorted:
  assumes "sorted (map fst kvs)" and "distinct (map fst kvs)"
  shows "fold (read_step parse c x) kvs None = recorded parse c x (map_of kvs)"
  using assms
proof (induction kvs rule: rev_induct)
  case Nil
  then show ?case by (simp add: recorded_def Let_def)
next
  case (snoc kv kvs)
  obtain k v where kv: "kv = (k, v)" by (cases kv)
  have IH: "fold (read_step parse c x) kvs None = recorded parse c x (map_of kvs)"
    using snoc by (simp add: sorted_append)
  have fresh: "map_of kvs k = None" using snoc.prems kv by (auto simp: map_of_eq_None_iff)
  then have upd: "map_of (kvs @ [kv]) = (map_of kvs)(k \<mapsto> v)"
    by (auto simp: fun_eq_iff map_add_def kv split: option.splits)
  have less: "map_of kvs k' \<noteq> None \<Longrightarrow> k' \<le> k" for k'
    using snoc.prems kv by (force simp: sorted_append map_of_eq_None_iff)
  have noslash: "CHR ''/'' \<notin> set (dotted x)" by (rule slash_not_in_dotted)
  note neq = alloc_keys_neq [OF noslash noslash, of c]
  have ord: "k = macKey c (dotted x) \<Longrightarrow> map_of kvs (serviceIDKey c (dotted x)) = None"
    using less [of "serviceIDKey c (dotted x)"] macKey_less_serviceIDKey [of c "dotted x"]
    by (cases "map_of kvs (serviceIDKey c (dotted x))") auto
  have step: "fold (read_step parse c x) (kvs @ [kv]) None =
      read_step parse c x (k, v) (recorded parse c x (map_of kvs))"
    by (simp add: IH kv)
  note defs = read_step_def recorded_def Let_def or_zero_def zero_Allocation_def
  consider "k = allocatedIPKey c (dotted x)" | "k = macKey c (dotted x)"
    | "k = serviceIDKey c (dotted x)" | "k = allocatedAtKey c (dotted x)"
    | "k \<notin> {allocatedIPKey c (dotted x), macKey c (dotted x), serviceIDKey c (dotted x),
        allocatedAtKey c (dotted x)}" by blast
  then show ?case
  proof cases
    case 1
    with fresh neq show ?thesis unfolding step upd by (simp add: defs split: option.split)
  next
    case 2
    with fresh ord neq neq(1) [symmetric] show ?thesis unfolding step upd
      by (simp add: defs split: option.split)
  next
    case 3
    with fresh neq neq(2,4) [symmetric] show ?thesis unfolding step upd
      by (simp add: defs split: option.split)
  next
    case 4
    with fresh neq neq(3,5,6) [symmetric] show ?thesis unfolding step upd
      by (auto simp: defs split: option.split)
  next
    case 5
    then have "recorded parse c x ((map_of kvs)(k \<mapsto> v)) = recorded parse c x (map_of kvs)"
      by (intro recorded_cong) auto
    moreover have "read_step parse c x (k, v) o' = o'" for o'
      using 5 by (simp add: read_step_def)
    ultimately show ?thesis unfolding step upd by (simp only:)
  qed
qed

lemma map_of_range:
  assumes "distinct (map fst kvs)" and "\<And>k v. (k, v) \<in> set kvs \<longleftrightarrow> prefix p k \<and> m k = Some v"
  shows "map_of (sort_key fst kvs) k = (if prefix p k then m k else None)"
proof -
  have "distinct (map fst (sort_key fst kvs))"
    using assms(1) by (simp add: distinct_map)
  then have "map_of (sort_key fst kvs) k = Some v \<longleftrightarrow> prefix p k \<and> m k = Some v" for v
    by (simp only: map_of_eq_Some_iff set_sort assms(2))
  then have eq: "map_of (sort_key fst kvs) k = Some v \<longleftrightarrow> (if prefix p k then m k else None) = Some v" for v
    by (cases "prefix p k") simp_all
  show ?thesis
  proof (cases "map_of (sort_key fst kvs) k")
    case None
    with eq show ?thesis by (cases "if prefix p k then m k else None") auto
  next
    case (Some v)
    with eq [of v] show ?thesis by (simp only: simp_thms)
  qed
qed

lemma alloc_key_prefix:
  "prefix (allocatedIPsKey c) (allocatedIPKey c s)" "prefix (allocatedIPsKey c) (macKey c s)"
  "prefix (allocatedIPsKey c) (serviceIDKey c s)" "prefix (allocatedIPsKey c) (allocatedAtKey c s)"
  by (simp_all add: key_defs)

lemma getAllocationsByPrefix_Inr:
  assumes C: "etcd_contract E kv rely" and run: "getAllocationsByPrefix E c pre w = (Inr res, w')"
  obtains kvs where "rely (kv w) (kv w')" "distinct (map fst kvs)"
    "\<And>k v. (k, v) \<in> set kvs \<longleftrightarrow> prefix pre k \<and> kv w' k = Some v"
    "res = fold (read_allocation (parse_time E) pre) (sort_key fst kvs) []"
proof -
  obtain w1 where w1: "conn_new E w = (None, w1)"
    and r1: "(case etcd_GetPrefix E pre w1 of (Inl e, w') \<Rightarrow> (Inl e, w')
      | (Inr kvs, w') \<Rightarrow> (Inr (fold (read_allocation (parse_time E) pre) (sort_key fst kvs) []), w')) =
      (Inr res, w')"
    using run unfolding getAllocationsByPrefix_def by (rule WithConnection_Inr)
  then obtain kvs where kvs: "etcd_GetPrefix E pre w1 = (Inr kvs, w')"
    and res: "res = fold (read_allocation (parse_time E) pre) (sort_key fst kvs) []"
    by (auto split: prod.splits sum.splits)
  have "rely (kv w) (kv w')"
    using etcd_rely_trans [OF C conn_new_rely [OF C w1] etcd_GetPrefix_Inr(1) [OF C kvs]] .
  then show ?thesis
    using etcd_GetPrefix_Inr(2,3) [OF C kvs] res by (rule that)
qed

lemma getAllocations_recorded:
  assumes C: "etcd_contract E kv rely" and run: "getAllocations E c w = (Inr res, w')"
    and ok: "alloc_keyspace c (kv w')" and x: "length x = 4"
  shows "map_get res (dotted x) = recorded (parse_time E) c x (kv w')"
proof -
  obtain kvs where d: "distinct (map fst kvs)"
    and mem: "\<And>k v. (k, v) \<in> set kvs \<longleftrightarrow> prefix (allocatedIPsKey c) k \<and> kv w' k = Some v"
    and res: "res = fold (read_allocation (parse_time E) (allocatedIPsKey c)) (sort_key fst kvs) []"
    using getAllocationsByPrefix_Inr [OF C run [unfolded getAllocations_def]] by metis
  have ok': "\<forall>(k, v) \<in> set (sort_key fst kvs). \<exists>y. alloc_key c y k"
    using ok mem unfolding alloc_keyspace_def by (metis (mono_tags, lifting) case_prodI2 option.distinct(1) set_sort)
  have "map_get res (dotted x) =
      fold (read_step (parse_time E) c x) (sort_key fst kvs) (map_get [] (dotted x))"
    unfolding res by (rule read_fold_step [OF ok' x])
  also have "\<dots> = recorded (parse_time E) c x (map_of (sort_key fst kvs))"
    unfolding map_get_Nil using d by (intro read_sorted) (simp_all add: distinct_map)
  also have "\<dots> = recorded (parse_time E) c x (kv w')"
    by (rule recorded_cong) (simp_all add: map_of_range [OF d mem] alloc_key_prefix)
  finally show ?thesis .
qed

text \<open>
  \<open>readAllocation\<close> asks for the keys below the key of the address, so what it strips from them is
  the address itself: no entry of its result is an address.
\<close>

lemma count_dots_dotted: "length x = 4 \<Longrightarrow> count_list (dotted x) CHR ''.'' = 3"
proof (elim len4_cases)
  fix a b c d assume x: "x = [a, b, c, d]"
  have "count_list (format_dec n) CHR ''.'' = 0" for n
    using not_digit_not_in_format [OF dot_not_digit] by (simp add: count_list_0_iff)
  then show "count_list (dotted x) CHR ''.'' = 3" by (simp add: x dotted_def)
qed

lemma ParseIP_no_dots: "CHR ''.'' \<notin> set s \<Longrightarrow> ParseIP s = None"
  by (simp add: ParseIP_def parse_v4_def)

lemma alloc_parts_no_dot: "part \<in> alloc_parts \<Longrightarrow> CHR ''.'' \<notin> set part"
  by (auto simp: alloc_parts_def key_defs)

lemma alloc_parts_hd: "part \<in> alloc_parts \<Longrightarrow> part \<noteq> [] \<and> hd part \<noteq> CHR ''/''"
  by (auto simp: alloc_parts_def key_defs)

lemma prefix_append_slash:
  assumes "prefix s (t @ rest)" and "CHR ''/'' \<notin> set s" and "rest = [] \<or> hd rest = CHR ''/''"
  shows "prefix s t"
proof (cases "length s \<le> length t")
  case True
  then show ?thesis using assms(1) by (metis prefixI prefix_length_prefix)
next
  case False
  with assms(1) obtain u where u: "s = t @ u" "u \<noteq> []" "prefix u rest"
    by (metis append_Nil2 le_cases prefix_def prefix_length_prefix prefix_order.order_refl same_prefix_prefix)
  then have "rest \<noteq> []" "hd u = hd rest" by (auto simp: prefix_def)
  with assms(3) u(2) have "CHR ''/'' \<in> set u" by (metis hd_in_set)
  with u(1) assms(2) show ?thesis by simp
qed

lemma read_below_address:
  assumes y: "alloc_key c y k" and x: "length x = 4" and p: "prefix (allocatedIPKey c (dotted x)) k"
    and res: "\<forall>i. map_get res i \<noteq> None \<longrightarrow> CHR ''.'' \<notin> set i"
  shows "\<forall>i. map_get (read_allocation parse (allocatedIPKey c (dotted x)) (k, v) res) i \<noteq> None \<longrightarrow>
    CHR ''.'' \<notin> set i"
proof -
  have len: "length y = 4" using y by (simp add: alloc_key_def)
  have "\<exists>rest. k = allocatedIPKey c (dotted y @ rest) \<and>
      (rest = [] \<or> (\<exists>part \<in> alloc_parts. rest = CHR ''/'' # part))"
  proof -
    from y consider "k = allocatedIPKey c (dotted y)"
      | part where "part \<in> alloc_parts" "k = allocatedIPKey c (dotted y) @ ''/'' @ part"
      unfolding alloc_key_def by blast
    then show ?thesis
    proof cases
      case 1
      then show ?thesis by (intro exI [of _ "[]"]) simp
    next
      case 2
      then show ?thesis by (intro exI [of _ "CHR ''/'' # part"]) (simp add: allocatedIPKey_def)
    qed
  qed
  then obtain rest where k: "k = allocatedIPKey c (dotted y @ rest)"
    and rest: "rest = [] \<or> (\<exists>part \<in> alloc_parts. rest = CHR ''/'' # part)" by blast
  have p': "prefix (dotted x) (dotted y @ rest)"
    using p unfolding k allocatedIPKey_def same_prefix_prefix .
  have "rest = [] \<or> hd rest = CHR ''/''" using rest by auto
  then have "prefix (dotted x) (dotted y)"
    by (rule prefix_append_slash [OF p' slash_not_in_dotted])
  then obtain u where u: "dotted y = dotted x @ u" by (auto simp: prefix_def)
  have "count_list u CHR ''.'' = 0"
    using count_dots_dotted [OF len] count_dots_dotted [OF x] unfolding u by simp
  then have nodot: "CHR ''.'' \<notin> set u" by (simp add: count_list_0_iff)
  have noslash: "CHR ''/'' \<notin> set u" using slash_not_in_dotted [of y] unfolding u by simp
  have trim: "trim_prefix (allocatedIPKey c (dotted x)) k = u @ rest"
    using u by (simp add: k allocatedIPKey_def trim_prefix_def)
  from rest show ?thesis
  proof
    assume "rest = []"
    moreover have "trim_left CHR ''/'' u = u" using noslash by (cases u) auto
    ultimately have "read_allocation parse (allocatedIPKey c (dotted x)) (k, v) res = res"
      using noslash ParseIP_no_dots [OF nodot] by (simp add: read_allocation_def trim)
    with res show ?thesis by simp
  next
    assume "\<exists>part \<in> alloc_parts. rest = CHR ''/'' # part"
    then obtain part where part: "part \<in> alloc_parts" and r: "rest = CHR ''/'' # part" by blast
    note np = alloc_parts_no_slash [OF part] alloc_parts_no_dot [OF part] alloc_parts_hd [OF part]
    show ?thesis
    proof (cases "u = []")
      case True
      then have "trim_left CHR ''/'' (u @ rest) = part" using np r by simp
      then have "read_allocation parse (allocatedIPKey c (dotted x)) (k, v) res = res"
        using np ParseIP_no_dots [OF np(2)] by (simp add: read_allocation_def trim)
      with res show ?thesis by simp
    next
      case False
      have tl: "trim_left CHR ''/'' (u @ rest) = u @ CHR ''/'' # part"
        using False noslash r by (cases u) auto
      have sp: "split_on CHR ''/'' (u @ CHR ''/'' # part) = [u, part]"
        using noslash np(1) by (simp add: split_on_append)
      have "read_allocation parse (allocatedIPKey c (dotted x)) (k, v) res = res \<or>
          (\<exists>a. read_allocation parse (allocatedIPKey c (dotted x)) (k, v) res = map_put u a res)"
        by (auto simp: read_allocation_def trim tl sp Let_def AddOrUpdate_def split: option.splits)
      then show ?thesis
      proof
        assume "\<exists>a. read_allocation parse (allocatedIPKey c (dotted x)) (k, v) res = map_put u a res"
        then obtain a where a: "read_allocation parse (allocatedIPKey c (dotted x)) (k, v) res = map_put u a res" ..
        show ?thesis unfolding a
        proof (intro allI impI)
          fix i assume "map_get (map_put u a res) i \<noteq> None"
          then show "CHR ''.'' \<notin> set i" using res nodot by (cases "u = i") auto
        qed
      qed (simp only: res, simp add: res)
    qed
  qed
qed

lemma readAllocation_None:
  assumes C: "etcd_contract E kv rely" and run: "readAllocation E c (dotted x) w = (Inr r, w')"
    and ok: "alloc_keyspace c (kv w')" and x: "length x = 4"
  shows "r = None"
proof -
  obtain res where g: "getAllocationsByPrefix E c (allocatedIPKey c (dotted x)) w = (Inr res, w')"
    and r: "r = map_get res (dotted x)"
    using run by (auto simp: readAllocation_def split: prod.splits sum.splits)
  obtain kvs where mem: "\<And>k v. (k, v) \<in> set kvs \<longleftrightarrow> prefix (allocatedIPKey c (dotted x)) k \<and> kv w' k = Some v"
    and res: "res = fold (read_allocation (parse_time E) (allocatedIPKey c (dotted x))) (sort_key fst kvs) []"
    using getAllocationsByPrefix_Inr [OF C g] by metis
  have keys: "\<exists>y. alloc_key c y k" "prefix (allocatedIPKey c (dotted x)) k" if "(k, v) \<in> set kvs" for k v
  proof -
    from that mem have p: "prefix (allocatedIPKey c (dotted x)) k" and v: "kv w' k = Some v" by blast+
    then have "prefix (allocatedIPsKey c) k"
      using alloc_key_prefix(1) prefix_order.trans by blast
    with v ok show "\<exists>y. alloc_key c y k" unfolding alloc_keyspace_def by simp
    show "prefix (allocatedIPKey c (dotted x)) k" by (rule p)
  qed
  have "\<forall>i. map_get (fold (read_allocation parse (allocatedIPKey c (dotted x))) l res0) i \<noteq> None \<longrightarrow>
      CHR ''.'' \<notin> set i"
    if "set l \<subseteq> set kvs" "\<forall>i. map_get res0 i \<noteq> None \<longrightarrow> CHR ''.'' \<notin> set i" for l res0 parse
    using that
  proof (induction l arbitrary: res0)
    case (Cons kv l)
    obtain k v where kv: "kv = (k, v)" by (cases kv)
    with Cons.prems(1) have "(k, v) \<in> set kvs" by simp
    then obtain y where y: "alloc_key c y k" and p: "prefix (allocatedIPKey c (dotted x)) k" using keys by blast
    have "\<forall>i. map_get (read_allocation parse (allocatedIPKey c (dotted x)) kv res0) i \<noteq> None \<longrightarrow>
        CHR ''.'' \<notin> set i"
      unfolding kv by (rule read_below_address [OF y x p Cons.prems(2)])
    then show ?case using Cons.prems(1) by (simp only: fold_Cons comp_apply, intro Cons.IH) auto
  qed simp
  from this [of "sort_key fst kvs" "[]" "parse_time E"]
  have "map_get res i \<noteq> None \<longrightarrow> CHR ''.'' \<notin> set i" for i unfolding res by simp
  moreover have "CHR ''.'' \<in> set (dotted x)"
    using count_dots_dotted [OF x] count_list_0_iff [of "dotted x" "CHR ''.''"] by fastforce
  ultimately show ?thesis unfolding r by blast
qed

lemma alloc_keyspace_upd:
  assumes "alloc_keyspace c m" and "length x = 4"
  shows "alloc_keyspace c (m(allocatedIPKey c (dotted x) \<mapsto> v))"
    and "alloc_keyspace c (m(macKey c (dotted x) \<mapsto> v))"
    and "alloc_keyspace c (m(serviceIDKey c (dotted x) \<mapsto> v))"
    and "alloc_keyspace c (m(allocatedAtKey c (dotted x) \<mapsto> v))"
proof -
  have "alloc_key c x (allocatedIPKey c (dotted x))" "alloc_key c x (macKey c (dotted x))"
    "alloc_key c x (serviceIDKey c (dotted x))" "alloc_key c x (allocatedAtKey c (dotted x))"
    using assms(2) by (auto simp: alloc_key_def macKey_def serviceIDKey_def allocatedAtKey_def alloc_parts_def)
  then have "alloc_keyspace c (m(k \<mapsto> v))" if "k \<in> {allocatedIPKey c (dotted x), macKey c (dotted x),
      serviceIDKey c (dotted x), allocatedAtKey c (dotted x)}" for k
    using assms(1) that unfolding alloc_keyspace_def by (metis fun_upd_other insertE singletonD)
  then show "alloc_keyspace c (m(allocatedIPKey c (dotted x) \<mapsto> v))"
    "alloc_keyspace c (m(macKey c (dotted x) \<mapsto> v))"
    "alloc_keyspace c (m(serviceIDKey c (dotted x) \<mapsto> v))"
    "alloc_keyspace c (m(allocatedAtKey c (dotted x) \<mapsto> v))" by blast+
qed

lemma recorded_allocation:
  assumes "length x = 4" and "m (serviceIDKey c (dotted x)) = None" and "parse (fmt now) = Some t"
    and m': "m' = m(allocatedIPKey c (dotted x) \<mapsto> typ, allocatedAtKey c (dotted x) \<mapsto> fmt now,
      macKey c (dotted x) \<mapsto> mac)"
  shows "recorded parse c x m' = Some \<lparr>a_ip = v4_prefix @ x, allocationType = typ, allocatedAt = t,
      dataKey = macKey c (dotted x), data = mac\<rparr>"
    and "length y = 4 \<Longrightarrow> y \<noteq> x \<Longrightarrow> recorded parse c y m' = recorded parse c y m"
proof -
  have ns: "CHR ''/'' \<notin> set (dotted z)" for z by (rule slash_not_in_dotted)
  note neq = alloc_keys_neq [OF ns ns]
  show "recorded parse c x m' = Some \<lparr>a_ip = v4_prefix @ x, allocationType = typ, allocatedAt = t,
      dataKey = macKey c (dotted x), data = mac\<rparr>"
    using assms(2,3) neq [of c x x] neq(4,5,3,6) [of c x x, symmetric] unfolding m'
    by (simp add: recorded_def Let_def)
  assume y: "length y = 4" "y \<noteq> x"
  then have "dotted y \<noteq> dotted x" using dotted_inject [OF y(1) assms(1)] by blast
  then show "recorded parse c y m' = recorded parse c y m"
    using neq [of c x y] neq [of c y x] unfolding m'
    by (intro recorded_cong) auto
qed

section \<open>Properties\<close>

text \<open>
  C26: a container's allocation can be read back: after \<open>allocateIPForContainer\<close> has succeeded for
  an IPv4 address that no service holds, \<open>getAllocations\<close> returns for it the address, the type,
  the MAC and the time, as far as the time's text keeps it, and what it returns for every other
  address is what etcd recorded before.
\<close>

theorem allocation_roundtrip:
  assumes C: "etcd_contract E kv (=)" and time: "\<And>t. parse_time E (fmt_time E t) = Some (trunc t)"
    and x: "length x = 4" and mac: "mac \<noteq> []"
    and ok: "alloc_keyspace c (kv w)" and svc: "kv w (serviceIDKey c (dotted x)) = None"
    and alloc: "allocateIPForContainer E c (v4_prefix @ x) mac w = (Inr r, w1)" "Success r"
    and read: "getAllocations E c w1 = (Inr as, w2)"
  shows "map_get as (dotted x) =
      Some ((Allocation r)\<lparr>allocatedAt := trunc (allocatedAt (Allocation r))\<rparr>) \<and>
    a_ip (Allocation r) = v4_prefix @ x \<and> data (Allocation r) = mac \<and>
    (\<forall>y. length y = 4 \<and> y \<noteq> x \<longrightarrow> map_get as (dotted y) = recorded (parse_time E) c y (kv w))"
proof -
  have str: "ip_String (v4_prefix @ x) = dotted x" by (rule ip_String_mapped [OF x])
  have mk: "macKey c (dotted x) \<noteq> []" by (simp add: macKey_def)
  obtain now where
    a: "Allocation r = \<lparr>a_ip = v4_prefix @ x, allocationType = AllocationTypeContainerIP,
       allocatedAt = now, dataKey = macKey c (dotted x), data = mac\<rparr>" and
    kv1: "kv w1 = (kv w)(allocatedIPKey c (dotted x) \<mapsto> AllocationTypeContainerIP,
       allocatedAtKey c (dotted x) \<mapsto> fmt_time E now, macKey c (dotted x) \<mapsto> mac)"
    using allocateIPByCondition_Inr [OF C alloc(1) [unfolded allocateIPForContainer_def]] alloc(2) mac mk
    by (auto simp: str Let_def)
  have kv2: "kv w1 = kv w2"
    using getAllocationsByPrefix_Inr [OF C read [unfolded getAllocations_def]] by metis
  have ok2: "alloc_keyspace c (kv w2)"
    unfolding kv2 [symmetric] kv1 by (intro alloc_keyspace_upd ok x)
  have get: "map_get as (dotted y) = recorded (parse_time E) c y (kv w1)" if "length y = 4" for y
    unfolding kv2 by (rule getAllocations_recorded [OF C read ok2 that])
  note rec = recorded_allocation [where parse = "parse_time E" and fmt = "fmt_time E", OF x svc time kv1]
  show ?thesis using get [OF x] rec(1) get rec(2) by (simp add: a)
qed

definition pool_client :: etcdClient where
  "pool_client = NewEtcdClient [''http://etcd:2379''] 5 ''/flannel/net1''"

lemma ref_time: "parse_time ref_env (fmt_time ref_env t) = Some t"
proof -
  have nd: "\<not> is_digit CHR ''-''" by (simp add: is_digit_def)
  have "hd (format_dec n) \<noteq> CHR ''-''" for n
  proof
    assume "hd (format_dec n) = CHR ''-''"
    moreover have "hd (format_dec n) \<in> set (format_dec n)" by (rule hd_in_set) simp
    ultimately show False using not_digit_not_in_format [OF nd, of n] by simp
  qed
  then show ?thesis by (simp add: ref_env_def)
qed

lemma getAllocations_ref: "\<exists>as w'. getAllocations ref_env c w = (Inr as, w')"
  by (simp add: getAllocations_def getAllocationsByPrefix_def WithConnection_def etcd_GetPrefix_def
      ref_commit_def Let_def)

theorem allocation_roundtrip_witness:
  "\<exists>as w1 w2. snd (allocateIPForContainer ref_env pool_client (v4_prefix @ [10, 0, 0, 5]) ''02:42'' ([], 7)) = w1 \<and>
     getAllocations ref_env pool_client w1 = (Inr as, w2) \<and>
     map_get as (dotted [10, 0, 0, 5]) = Some \<lparr>a_ip = v4_prefix @ [10, 0, 0, 5],
       allocationType = AllocationTypeContainerIP, allocatedAt = 7,
       dataKey = macKey pool_client (dotted [10, 0, 0, 5]), data = ''02:42''\<rparr>"
proof -
  let ?x = "[10, 0, 0, 5] :: ip"
  let ?a = "\<lparr>a_ip = v4_prefix @ ?x, allocationType = AllocationTypeContainerIP, allocatedAt = 7,
       dataKey = macKey pool_client (dotted ?x), data = ''02:42''\<rparr>"
  have mk: "macKey pool_client s \<noteq> []" for s by (simp add: macKey_def)
  have str: "ip_String (v4_prefix @ ?x) = dotted ?x" by (rule ip_String_mapped) simp
  obtain w1 where run: "allocateIPForContainer ref_env pool_client (v4_prefix @ ?x) ''02:42'' ([], 7) =
      (Inr \<lparr>Success = True, Allocation = ?a\<rparr>, w1)"
    by (simp add: allocateIPForContainer_def allocateIPByCondition_def WithConnection_def Let_def str mk
        container_conditions_def ref_commit_def case_prod_unfold)
  obtain as w2 where read: "getAllocations ref_env pool_client w1 = (Inr as, w2)"
    using getAllocations_ref by blast
  have "map_get as (dotted ?x) = Some (?a\<lparr>allocatedAt := allocatedAt ?a\<rparr>)"
    using allocation_roundtrip [OF etcd_contract_ref ref_time _ _ _ _ run _ read, THEN conjunct1]
    by (simp add: alloc_keyspace_def)
  with run read show ?thesis by auto
qed

end
