(* ===== verification/Pool.thy ===== *)
theory Pool
  imports Pool_Etcd
begin

text \<open>
  \<open>plugin/pkg/ipam/pool.go\<close>: the address pool of one network on one node.  Its methods hold the
  pool's lock from start to end, so each is one step on the pool; what the node remembers
  (\<open>allocatedIPs\<close>, \<open>unusedIPs\<close>) is a cache of etcd, which other nodes write too.
\<close>

section \<open>The pool\<close>

record etcdPool =
  poolID :: string
  poolSubnet :: ipnet
  ep_client :: etcdClient
  allIPs :: "ip list"
  allocatedIPs :: "(string, Allocation) gomap"
  unusedIPs :: "(string, int) gomap"

text \<open>The accessors of \<open>Allocation\<close>.\<close>

definition AllocationType :: "Allocation \<Rightarrow> string" where "AllocationType a = allocationType a"
definition AllocatedAt :: "Allocation \<Rightarrow> int" where "AllocatedAt a = allocatedAt a"
definition DataKey :: "Allocation \<Rightarrow> string" where "DataKey a = dataKey a"
definition Data :: "Allocation \<Rightarrow> string" where "Data a = data a"
definition Ip :: "Allocation \<Rightarrow> ip" where "Ip a = a_ip a"

definition GetID :: "etcdPool \<Rightarrow> string" where "GetID p = poolID p"
definition GetPoolSubnet :: "etcdPool \<Rightarrow> ipnet" where "GetPoolSubnet p = poolSubnet p"
definition GetAllocations :: "etcdPool \<Rightarrow> Allocation list" where
  "GetAllocations p = map_vals (allocatedIPs p)"

section \<open>Synchronising with etcd\<close>

text \<open>The loop of \<open>syncIPs\<close>; the clock is read for every unused address.\<close>

fun unused_from ::
  "'w env \<Rightarrow> (string, Allocation) gomap \<Rightarrow> ip list \<Rightarrow> (string, int) gomap \<Rightarrow> 'w \<Rightarrow>
    (string, int) gomap \<times> 'w"
where
  "unused_from E allocs [] unused w = (unused, w)"
| "unused_from E allocs (i # is) unused w =
     (if map_has allocs (ip_String i) then unused_from E allocs is unused w
      else (case clock_now E w of
              (now, w') \<Rightarrow> unused_from E allocs is (map_put (ip_String i) now unused) w'))"

definition syncIPs :: "'w env \<Rightarrow> etcdPool \<Rightarrow> 'w \<Rightarrow> err option \<times> etcdPool \<times> 'w" where
  "syncIPs E p w = (case getAllocations E (ep_client p) w of
      (Inl e, w1) \<Rightarrow> (with_message (Some e), p, w1)
    | (Inr allocs, w1) \<Rightarrow>
        (case unused_from E allocs (allIPs p) [] w1 of
           (unused, w2) \<Rightarrow> (None, p\<lparr>allocatedIPs := allocs, unusedIPs := unused\<rparr>, w2)))"

text \<open>
  \<open>NewEtcdBasedAddressPool\<close>; \<open>None\<close> when \<open>ipsInSubnet\<close> does not return.  The error of the watch
  is dropped.  The watch runs on a connection that \<open>WithConnection\<close> closes before it returns the
  channel; the handler of the events is \<open>ip_usage_change\<close> below.
\<close>

definition watchForIPUsageChanges :: "'w env \<Rightarrow> ('w, unit) io" where
  "watchForIPUsageChanges E = WithConnection E (\<lambda>w. (Inr (), w))"

definition NewEtcdBasedAddressPool ::
  "'w env \<Rightarrow> string \<Rightarrow> ipnet \<Rightarrow> etcdClient \<Rightarrow> 'w \<Rightarrow> (etcdPool result \<times> 'w) option" where
  "NewEtcdBasedAddressPool E i subnet client w = (case ipsInSubnet subnet True True of
      None \<Rightarrow> None
    | Some ips \<Rightarrow>
        (let pool = \<lparr>poolID = i, poolSubnet = subnet, ep_client = client, allIPs = ips,
                     allocatedIPs = [], unusedIPs = []\<rparr>
         in Some (case syncIPs E pool w of
              (Some e, _, w1) \<Rightarrow> (Inl e, w1)
            | (None, pool1, w1) \<Rightarrow>
                (case watchForIPUsageChanges E w1 of
                   (Inl (Panic s), w2) \<Rightarrow> (Inl (Panic s), w2)
                 | (_, w2) \<Rightarrow> (Inr pool1, w2)))))"

section \<open>Choosing a free address\<close>

definition five_minutes :: int where "five_minutes = 300000000000"

fun older ::  "'w env \<Rightarrow> (string, int) gomap \<Rightarrow> 'w \<Rightarrow> string list \<times> 'w" where
  "older E [] w = ([], w)"
| "older E ((k, t) # m) w =
     (case clock_now E w of
        (now, w1) \<Rightarrow> (case older E m w1 of
            (ks, w2) \<Rightarrow> (if t + five_minutes < now then k # ks else ks, w2)))"

fun parse_ips :: "string list \<Rightarrow> ip list result" where
  "parse_ips [] = Inr []"
| "parse_ips (s # ss) = (case ParseIP s of
      None \<Rightarrow> Inl (InvalidIP s)
    | Some i \<Rightarrow> (case parse_ips ss of Inl e \<Rightarrow> Inl e | Inr is \<Rightarrow> Inr (i # is)))"

definition getAvailableUnusedIPs ::
  "'w env \<Rightarrow> etcdPool \<Rightarrow> 'w \<Rightarrow> ip list result \<times> etcdPool \<times> 'w" where
  "getAvailableUnusedIPs E p w = (case older E (unusedIPs p) w of
      (old, w1) \<Rightarrow>
        (let avail = (if old = [] then map_keys (unusedIPs p) else old)
         in if avail \<noteq> [] then (parse_ips avail, p, w1)
            else (case syncIPs E p w1 of
                (Some e, p1, w2) \<Rightarrow> (Inl e, p1, w2)
              | (None, p1, w2) \<Rightarrow>
                  (let avail1 = map_keys (unusedIPs p1)
                   in if avail1 = [] then (Inl (NoMoreIPs (poolID p1)), p1, w2)
                      else (parse_ips avail1, p1, w2)))))"

definition pick_ip :: "'w env \<Rightarrow> bool \<Rightarrow> ip list \<Rightarrow> etcdPool \<Rightarrow> 'w \<Rightarrow> ip result \<times> 'w" where
  "pick_ip E random avail p w =
     (if random then (case rand_intn E (length avail) w of (i, w1) \<Rightarrow> (Inr (avail ! i), w1))
      else (getNextAvailableIP avail (allocatedIPs p), w))"

definition record_allocation :: "Allocation \<Rightarrow> etcdPool \<Rightarrow> etcdPool" where
  "record_allocation a p =
     (let ipStr = ip_String (a_ip a)
      in p\<lparr>unusedIPs := map_del ipStr (unusedIPs p),
           allocatedIPs := map_put ipStr a (allocatedIPs p)\<rparr>)"

text \<open>
  The loop of \<open>allocateFreeIP\<close>: it ends when an address was allocated or a step failed.
  \<open>None\<close> is a loop that never ends.
\<close>

partial_function (option) allocateFreeIP ::
  "'w env \<Rightarrow> bool \<Rightarrow> (ip \<Rightarrow> ('w, IPAllocationResult) io) \<Rightarrow> etcdPool \<Rightarrow> 'w \<Rightarrow>
    (ip result \<times> etcdPool \<times> 'w) option"
where
  "allocateFreeIP E random allocator p w =
     (case getAvailableUnusedIPs E p w of
        (Inl e, p1, w1) \<Rightarrow> Some (Inl e, p1, w1)
      | (Inr avail, p1, w1) \<Rightarrow>
          (case pick_ip E random avail p1 w1 of
             (Inl e, w2) \<Rightarrow> Some (Inl e, p1, w2)
           | (Inr i, w2) \<Rightarrow>
               (case allocator i w2 of
                  (Inl e, w3) \<Rightarrow> Some (Inl e, p1, w3)
                | (Inr r, w3) \<Rightarrow>
                    if Success r
                    then Some (Inr (a_ip (Allocation r)), record_allocation (Allocation r) p1, w3)
                    else allocateFreeIP E random allocator p1 w3)))"

section \<open>Operations\<close>

definition ReserveIP ::
  "'w env \<Rightarrow> bool \<Rightarrow> etcdPool \<Rightarrow> 'w \<Rightarrow> (ip result \<times> etcdPool \<times> 'w) option" where
  "ReserveIP E random p w = allocateFreeIP E random (reserveIP E (ep_client p)) p w"

text \<open>
  \<open>AllocateContainerIP\<close> and \<open>AllocateServiceVIP\<close> differ in the function that allocates: the
  preferred address first, if it lies in the subnet, and a free one when it is taken.
\<close>

definition allocate_preferred ::
  "'w env \<Rightarrow> (ip \<Rightarrow> ('w, IPAllocationResult) io) \<Rightarrow> string \<Rightarrow> bool \<Rightarrow> etcdPool \<Rightarrow> 'w \<Rightarrow>
    (ip result \<times> etcdPool \<times> 'w) option"
where
  "allocate_preferred E allocator preferred random p w = (case ParseIP preferred of
      None \<Rightarrow> Some (Inl (InvalidIP preferred), p, w)
    | Some parsedIP \<Rightarrow>
        if ipnet_Contains (poolSubnet p) parsedIP
        then (case allocator parsedIP w of
            (Inl e, w1) \<Rightarrow> Some (Inl e, p, w1)
          | (Inr r, w1) \<Rightarrow>
              if Success r
              then (let p1 = (if map_has (allocatedIPs p) preferred then p
                              else p\<lparr>unusedIPs := map_del preferred (unusedIPs p)\<rparr>)
                    in Some (Inr (a_ip (Allocation r)),
                         p1\<lparr>allocatedIPs := map_put preferred (Allocation r) (allocatedIPs p1)\<rparr>, w1))
              else allocateFreeIP E random allocator p w1)
        else allocateFreeIP E random allocator p w)"

definition AllocateContainerIP ::
  "'w env \<Rightarrow> string \<Rightarrow> string \<Rightarrow> bool \<Rightarrow> etcdPool \<Rightarrow> 'w \<Rightarrow> (ip result \<times> etcdPool \<times> 'w) option" where
  "AllocateContainerIP E preferredIP mac random p w =
     allocate_preferred E (\<lambda>i. allocateIPForContainer E (ep_client p) i mac) preferredIP random p w"

definition AllocateServiceVIP ::
  "'w env \<Rightarrow> string \<Rightarrow> string \<Rightarrow> bool \<Rightarrow> etcdPool \<Rightarrow> 'w \<Rightarrow> (ip result \<times> etcdPool \<times> 'w) option" where
  "AllocateServiceVIP E ipamVIP serviceID random p w =
     allocate_preferred E (\<lambda>i. allocateIPForService E (ep_client p) i serviceID) ipamVIP random p w"

text \<open>The first component is \<open>wasReserved\<close>.\<close>

definition ReleaseIPIfReserved ::
  "'w env \<Rightarrow> string \<Rightarrow> etcdPool \<Rightarrow> 'w \<Rightarrow> (bool \<times> err option) \<times> etcdPool \<times> 'w" where
  "ReleaseIPIfReserved E i p w = (case map_get (allocatedIPs p) i of
      None \<Rightarrow> ((False, None), p, w)
    | Some allocation \<Rightarrow>
        (case releaseAllocation E (ep_client p) allocation w of
           (Inl e, w1) \<Rightarrow> ((True, with_message (Some e)), p, w1)
         | (Inr r, w1) \<Rightarrow>
             if \<not> Success r
             then ((True, Some (AllocatedOtherwise i)),
                   p\<lparr>allocatedIPs := map_put i (Allocation r) (allocatedIPs p)\<rparr>, w1)
             else (case clock_now E w1 of
                 (now, w2) \<Rightarrow> ((True, None),
                    p\<lparr>allocatedIPs := map_del i (allocatedIPs p),
                      unusedIPs := map_put i now (unusedIPs p)\<rparr>, w2))))"

definition ReleaseIP :: "'w env \<Rightarrow> string \<Rightarrow> etcdPool \<Rightarrow> 'w \<Rightarrow> err option \<times> etcdPool \<times> 'w" where
  "ReleaseIP E i p w = (case ReleaseIPIfReserved E i p w of
      ((wasReleased, Some e), p1, w1) \<Rightarrow> (Some e, p1, w1)
    | ((wasReleased, None), p1, w1) \<Rightarrow>
        (if \<not> wasReleased then Some (NotReserved i) else None, p1, w1))"

definition ReleaseAllIPs :: "'w env \<Rightarrow> etcdPool \<Rightarrow> 'w \<Rightarrow> err option \<times> etcdPool \<times> 'w" where
  "ReleaseAllIPs E p w = (case deleteAllAllocations E (ep_client p) w of
      (Inl e, w1) \<Rightarrow> (with_message (Some e), p, w1)
    | (Inr _, w1) \<Rightarrow> syncIPs E p w1)"

section \<open>Watching\<close>

text \<open>
  One event of the goroutine that \<open>watchForIPUsageChanges\<close> starts.  The first component says
  whether the goroutine leaves the pool's mutex locked: two branches \<open>continue\<close> without
  unlocking it.  The instants stand for \<open>time.Time\<close> in the comparison of the times.
\<close>

fun ip_usage_change :: "'w env \<Rightarrow> watch_event \<Rightarrow> etcdPool \<Rightarrow> 'w \<Rightarrow> bool \<times> etcdPool \<times> 'w" where
  "ip_usage_change E (EvPut k v) p w =
     (let key = trim_left CHR ''/'' (trim_prefix (allocatedIPsKey (ep_client p)) k)
      in case ParseIP (hd (split_on CHR ''/'' key)) of
           None \<Rightarrow> (False, p, w)
         | Some i \<Rightarrow>
             (let ipStr = ip_String i in
              case readAllocation E (ep_client p) ipStr w of
                (Inl e, w1) \<Rightarrow> (True, p, w1)
              | (Inr None, w1) \<Rightarrow> (True, p, w1)
              | (Inr (Some r), w1) \<Rightarrow>
                  (case map_get (allocatedIPs p) ipStr of
                     Some existing \<Rightarrow>
                       (False,
                        if allocationType existing \<noteq> allocationType r \<or> allocatedAt existing \<noteq> allocatedAt r
                           \<or> data existing \<noteq> data r
                        then p\<lparr>allocatedIPs := map_put ipStr r (allocatedIPs p)\<rparr> else p, w1)
                   | None \<Rightarrow>
                       (False, p\<lparr>unusedIPs := map_del ipStr (unusedIPs p),
                                 allocatedIPs := map_put ipStr r (allocatedIPs p)\<rparr>, w1))))"
| "ip_usage_change E (EvDelete k) p w =
     (let key = trim_left CHR ''/'' (trim_prefix (allocatedIPsKey (ep_client p)) k)
      in case ParseIP (hd (split_on CHR ''/'' key)) of
           None \<Rightarrow> (False, p, w)
         | Some i \<Rightarrow>
             (let ipStr = ip_String i in
              if map_has (allocatedIPs p) ipStr
              then (case clock_now E w of
                  (now, w1) \<Rightarrow> (False, p\<lparr>allocatedIPs := map_del ipStr (allocatedIPs p),
                                        unusedIPs := map_put ipStr now (unusedIPs p)\<rparr>, w1))
              else (False, p, w)))"

section \<open>Lemmas: the loop of allocateFreeIP\<close>

text \<open>
  The rule of the loop: an invariant \<open>J\<close> that choosing an address and a refused allocation
  keep, and a postcondition \<open>Q\<close> for the three ways out.
\<close>

lemma allocateFreeIP_exits:
  assumes run: "allocateFreeIP E random allocator p w = Some (r, p', w')" and J: "J p w"
    and avail: "\<And>p w a p1 w1. J p w \<Longrightarrow> getAvailableUnusedIPs E p w = (a, p1, w1) \<Longrightarrow> J p1 w1"
    and pick: "\<And>p w av a w1. J p w \<Longrightarrow> pick_ip E random av p w = (a, w1) \<Longrightarrow> J p w1"
    and refused: "\<And>p w i a w1. J p w \<Longrightarrow> allocator i w = (a, w1) \<Longrightarrow>
      (\<forall>r. a = Inr r \<longrightarrow> \<not> Success r) \<Longrightarrow> J p w1"
    and accepted: "\<And>p w av p1 w1 i w2 r w3. J p w \<Longrightarrow> getAvailableUnusedIPs E p w = (Inr av, p1, w1) \<Longrightarrow>
      pick_ip E random av p1 w1 = (Inr i, w2) \<Longrightarrow> allocator i w2 = (Inr r, w3) \<Longrightarrow> Success r \<Longrightarrow>
      Q (Inr (a_ip (Allocation r))) (record_allocation (Allocation r) p1) w3"
    and err1: "\<And>p w e p1 w1. J p w \<Longrightarrow> getAvailableUnusedIPs E p w = (Inl e, p1, w1) \<Longrightarrow> Q (Inl e) p1 w1"
    and err2: "\<And>p w av p1 w1 e w2. J p w \<Longrightarrow> getAvailableUnusedIPs E p w = (Inr av, p1, w1) \<Longrightarrow>
      pick_ip E random av p1 w1 = (Inl e, w2) \<Longrightarrow> Q (Inl e) p1 w2"
    and err3: "\<And>p w i e w1. J p w \<Longrightarrow> allocator i w = (Inl e, w1) \<Longrightarrow> Q (Inl e) p w1"
  shows "Q r p' w'"
proof -
  have "case (r, p', w') of (r, p', w') \<Rightarrow> E = E \<and> random = random \<and> allocator = allocator \<and> J p w
      \<longrightarrow> Q r p' w'"
  proof (rule allocateFreeIP.raw_induct [where P = "\<lambda>E' random' allocator' p w (r, p', w'). E' = E \<and>
      random' = random \<and> allocator' = allocator \<and> J p w \<longrightarrow> Q r p' w'", OF _ run])
    fix loop E' random' allocator' p w res
    assume IH: "\<And>E' random' allocator' p w res. loop E' random' allocator' p w = Some res \<Longrightarrow>
        (case res of (r, p', w') \<Rightarrow> E' = E \<and> random' = random \<and> allocator' = allocator \<and> J p w \<longrightarrow> Q r p' w')"
      and body: "(case getAvailableUnusedIPs E' p w of
        (Inl e, p1, w1) \<Rightarrow> Some (Inl e, p1, w1)
      | (Inr avail, p1, w1) \<Rightarrow>
          (case pick_ip E' random' avail p1 w1 of
             (Inl e, w2) \<Rightarrow> Some (Inl e, p1, w2)
           | (Inr i, w2) \<Rightarrow>
               (case allocator' i w2 of
                  (Inl e, w3) \<Rightarrow> Some (Inl e, p1, w3)
                | (Inr r, w3) \<Rightarrow>
                    if Success r
                    then Some (Inr (a_ip (Allocation r)), record_allocation (Allocation r) p1, w3)
                    else loop E' random' allocator' p1 w3))) = Some res"
    obtain r p' w' where res: "res = (r, p', w')" by (cases res)
    have "Q r p' w'" if eqs: "E' = E" "random' = random" "allocator' = allocator" and J: "J p w"
    proof -
      note body = body [unfolded eqs res]
      obtain a p1 w1 where a: "getAvailableUnusedIPs E p w = (a, p1, w1)"
        by (cases "getAvailableUnusedIPs E p w")
      have J1: "J p1 w1" by (rule avail [OF J a])
      show ?thesis
      proof (cases a)
        case (Inl e)
        then show ?thesis using body a err1 [OF J a [unfolded Inl]] by auto
      next
        case (Inr av)
        obtain b w2 where b: "pick_ip E random av p1 w1 = (b, w2)" by (cases "pick_ip E random av p1 w1")
        have J2: "J p1 w2" by (rule pick [OF J1 b])
        show ?thesis
        proof (cases b)
          case (Inl e)
          then show ?thesis using body a b Inr err2 [OF J a [unfolded Inr] b [unfolded Inl]] by auto
        next
          case i: (Inr i)
          obtain d w3 where d: "allocator i w2 = (d, w3)" by (cases "allocator i w2")
          show ?thesis
          proof (cases d)
            case e: (Inl e)
            show ?thesis using body a b Inr i d e err3 [OF J2 d [unfolded e]] by auto
          next
            case r2: (Inr r2)
            show ?thesis
            proof (cases "Success r2")
              case True
              then show ?thesis using body a b Inr i d r2 accepted [OF J a [unfolded Inr] b [unfolded i] d [unfolded r2]] by auto
            next
              case False
              have "J p1 w3" by (rule refused [OF J2 d]) (simp add: r2 False)
              moreover have "loop E random allocator p1 w3 = Some (r, p', w')"
                using body a b Inr i d r2 False by simp
              ultimately show ?thesis using IH by fastforce
            qed
          qed
        qed
      qed
    qed
    then show "case res of (r, p', w') \<Rightarrow> E' = E \<and> random' = random \<and> allocator' = allocator \<and> J p w
      \<longrightarrow> Q r p' w'" by (simp add: res)
  qed
  then show ?thesis using J by simp
qed

lemma allocateFreeIP_rule:
  assumes run: "allocateFreeIP E random allocator p w = Some (r, p', w')" and J: "J p w"
    and avail: "\<And>p w a p1 w1. J p w \<Longrightarrow> getAvailableUnusedIPs E p w = (a, p1, w1) \<Longrightarrow> J p1 w1"
    and pick: "\<And>p w av a w1. J p w \<Longrightarrow> pick_ip E random av p w = (a, w1) \<Longrightarrow> J p w1"
    and refused: "\<And>p w i a w1. J p w \<Longrightarrow> allocator i w = (a, w1) \<Longrightarrow>
      (\<forall>r. a = Inr r \<longrightarrow> \<not> Success r) \<Longrightarrow> J p w1"
    and accepted: "\<And>p w i r w1. J p w \<Longrightarrow> allocator i w = (Inr r, w1) \<Longrightarrow> Success r \<Longrightarrow>
      Q (Inr (a_ip (Allocation r))) (record_allocation (Allocation r) p) w1"
    and err: "\<And>e p w. J p w \<Longrightarrow> Q (Inl e) p w"
  shows "Q r p' w'"
proof (rule allocateFreeIP_exits [where J = J and Q = Q, OF run J avail pick refused])
  show "Q (Inr (a_ip (Allocation r))) (record_allocation (Allocation r) p1) w3"
    if "J p w" "getAvailableUnusedIPs E p w = (Inr av, p1, w1)" "pick_ip E random av p1 w1 = (Inr i, w2)"
      "allocator i w2 = (Inr r, w3)" "Success r" for p w av p1 w1 i w2 r w3
    using accepted [OF pick [OF avail [OF that(1,2)] that(3)] that(4,5)] .
  show "Q (Inl e) p1 w1" if "J p w" "getAvailableUnusedIPs E p w = (Inl e, p1, w1)" for p w e p1 w1
    using err avail [OF that] by blast
  show "Q (Inl e) p1 w2" if "J p w" "getAvailableUnusedIPs E p w = (Inr av, p1, w1)"
    "pick_ip E random av p1 w1 = (Inl e, w2)" for p w av p1 w1 e w2
    using err pick [OF avail [OF that(1,2)] that(3)] by blast
  show "Q (Inl e) p w1" if "J p w" "allocator i w = (Inl e, w1)" for p w i e w1
    using err refused [OF that] by simp
qed

section \<open>Lemmas: effects on etcd\<close>

lemma unused_from_kv:
  "etcd_contract E kv rely \<Longrightarrow> unused_from E allocs is unused w = (u, w') \<Longrightarrow> kv w' = kv w"
proof (induction "is" arbitrary: unused w)
  case (Cons i "is")
  then show ?case
    using clock_now_kv [OF Cons.prems(1), of w] by (fastforce split: if_splits prod.splits)
qed simp

lemma older_kv: "etcd_contract E kv rely \<Longrightarrow> older E m w = (ks, w') \<Longrightarrow> kv w' = kv w"
proof (induction m arbitrary: w ks w')
  case (Cons kt m)
  then show ?case
    using clock_now_kv [OF Cons.prems(1), of w] by (cases kt) (fastforce split: prod.splits)
qed simp

lemma getAllocations_kv:
  assumes C: "etcd_contract E kv rely" and run: "getAllocations E c w = (r, w')"
  shows "rely (kv w) (kv w')"
proof (cases "conn_new E w")
  case (Pair b w1)
  note 1 = conn_new_rely [OF C Pair]
  show ?thesis
  proof (cases b)
    case (Some x)
    then show ?thesis using run Pair 1 by (simp add: getAllocations_def getAllocationsByPrefix_def WithConnection_def)
  next
    case None
    obtain a w2 where a: "etcd_GetPrefix E (allocatedIPsKey c) w1 = (a, w2)" by fastforce
    then have "w2 = w'"
      using run Pair None
      by (simp add: getAllocations_def getAllocationsByPrefix_def WithConnection_def split: sum.splits)
    then show ?thesis using etcd_rely_trans [OF C 1 etcd_GetPrefix_kv [OF C a]] by simp
  qed
qed

lemma syncIPs_kv:
  assumes C: "etcd_contract E kv rely" and run: "syncIPs E p w = (r, p', w')"
  shows "rely (kv w) (kv w')"
proof -
  obtain a w1 where a: "getAllocations E (ep_client p) w = (a, w1)" by fastforce
  note 1 = getAllocations_kv [OF C a]
  show ?thesis
  proof (cases a)
    case (Inl e)
    then show ?thesis using run a 1 by (simp add: syncIPs_def)
  next
    case (Inr allocs)
    obtain u w2 where u: "unused_from E allocs (allIPs p) [] w1 = (u, w2)" by fastforce
    then have "w2 = w'" using run a Inr by (simp add: syncIPs_def)
    then show ?thesis using 1 unused_from_kv [OF C u] by simp
  qed
qed

lemma getAvailableUnusedIPs_kv:
  assumes C: "etcd_contract E kv rely" and run: "getAvailableUnusedIPs E p w = (r, p', w')"
  shows "rely (kv w) (kv w')"
proof -
  obtain old w1 where old: "older E (unusedIPs p) w = (old, w1)" by fastforce
  note 1 = older_kv [OF C old]
  show ?thesis
  proof (cases "(if old = [] then map_keys (unusedIPs p) else old) = []")
    case False
    then have "w' = w1" using run old by (auto simp: getAvailableUnusedIPs_def Let_def)
    then show ?thesis using 1 etcd_rely_refl [OF C] by simp
  next
    case True
    obtain e p1 w2 where s: "syncIPs E p w1 = (e, p1, w2)" by (cases "syncIPs E p w1")
    then have "w' = w2"
      using run old True by (auto simp: getAvailableUnusedIPs_def Let_def split: option.splits if_splits)
    then show ?thesis using 1 syncIPs_kv [OF C s] by simp
  qed
qed

lemma pick_ip_kv:
  assumes "etcd_contract E kv rely" and "pick_ip E random av p w = (r, w')"
  shows "kv w' = kv w"
proof (cases random)
  case True
  obtain i w1 where i: "rand_intn E (length av) w = (i, w1)" by fastforce
  then have "w1 = w'" using assms(2) True by (simp add: pick_ip_def)
  then show ?thesis using rand_intn_kv [OF assms(1) i] by simp
next
  case False
  then show ?thesis using assms(2) by (simp add: pick_ip_def)
qed

text \<open>
  What the pool's methods rely on in the function that allocates: it keeps a property of the
  keyspace.  Then so do the methods, however often they try.
\<close>

locale allocator =
  fixes E :: "'w env" and kv :: "'w \<Rightarrow> keyspace" and rely :: "keyspace \<Rightarrow> keyspace \<Rightarrow> bool"
    and I :: "keyspace \<Rightarrow> bool" and alloc :: "ip \<Rightarrow> ('w, IPAllocationResult) io"
  assumes contract: "etcd_contract E kv rely" and stable_I: "stable rely I"
    and keeps: "I (kv w) \<Longrightarrow> I (kv (snd (alloc i w)))"
begin

lemma keeps': "I (kv w) \<Longrightarrow> alloc i w = (r, w') \<Longrightarrow> I (kv w')"
  using keeps [of w i] by simp

lemma free_keeps:
  assumes "allocateFreeIP E random alloc p w = Some (r, p', w')" and "I (kv w)"
  shows "I (kv w')"
proof (rule allocateFreeIP_rule [where J = "\<lambda>p w. I (kv w)" and Q = "\<lambda>r p w. I (kv w)", OF assms])
  show "I (kv w) \<Longrightarrow> getAvailableUnusedIPs E p w = (a, p1, w1) \<Longrightarrow> I (kv w1)" for p w a p1 w1
    by (rule stableD [OF stable_I getAvailableUnusedIPs_kv [OF contract]])
  show "I (kv w) \<Longrightarrow> pick_ip E random av p w = (a, w1) \<Longrightarrow> I (kv w1)" for p w av a w1
    using pick_ip_kv [OF contract] by metis
qed (blast intro: keeps')+

lemma preferred_keeps:
  assumes run: "allocate_preferred E alloc pref random p w = Some (r, p', w')" and I: "I (kv w)"
  shows "I (kv w')"
proof (cases "ParseIP pref")
  case None
  then show ?thesis using run I by (simp add: allocate_preferred_def)
next
  case (Some i)
  obtain a w1 where a: "alloc i w = (a, w1)" by fastforce
  note I1 = keeps' [OF I a]
  show ?thesis
  proof (cases "ipnet_Contains (poolSubnet p) i \<and> (\<forall>r. a = Inr r \<longrightarrow> Success r)")
    case True
    then have "w' = w1"
      using run Some a by (auto simp: allocate_preferred_def Let_def split: sum.splits)
    with I1 show ?thesis by simp
  next
    case False
    then have "allocateFreeIP E random alloc p w = Some (r, p', w') \<or>
        allocateFreeIP E random alloc p w1 = Some (r, p', w')"
      using run Some a by (auto simp: allocate_preferred_def split: sum.splits if_splits)
    then show ?thesis using free_keeps I I1 by blast
  qed
qed

end

interpretation reserving: allocator ref_env ref_kv "(=)" "held_by_container c (ip_String x) mac"
    "reserveIP ref_env c" for c x mac
proof unfold_locales
  have S: "stable (=) (held_by_container c (ip_String x) mac)" by (simp add: stable_def)
  show "stable (=) (held_by_container c (ip_String x) mac)" by (rule S)
  show "held_by_container c (ip_String x) mac (ref_kv w) \<Longrightarrow>
      held_by_container c (ip_String x) mac (ref_kv (snd (reserveIP ref_env c i w)))" for w i
    by (rule container_holder_kept(3) [OF etcd_contract_ref S])
qed (rule etcd_contract_ref)

section \<open>Lemmas: the state of the pool\<close>

text \<open>Every address of the pool is allocated or unused, and none is both.\<close>

definition pool_ok :: "etcdPool \<Rightarrow> bool" where
  "pool_ok p \<longleftrightarrow> map_ok (allocatedIPs p) \<and> map_ok (unusedIPs p) \<and>
     (\<forall>i. map_has (allocatedIPs p) i \<longrightarrow> \<not> map_has (unusedIPs p) i) \<and>
     (\<forall>x \<in> set (allIPs p). map_has (allocatedIPs p) (ip_String x) \<or> map_has (unusedIPs p) (ip_String x))"

lemma map_ok_AddOrUpdate: "map_ok m \<Longrightarrow> map_ok (AddOrUpdate m i v u)"
  by (simp add: AddOrUpdate_def split: option.split)

lemma map_ok_read: "map_ok res \<Longrightarrow> map_ok (fold (read_allocation parse pre) kvs res)"
proof (induction kvs arbitrary: res)
  case (Cons kv kvs)
  have "map_ok (read_allocation parse pre kv res)"
    using Cons.prems map_ok_AddOrUpdate [OF Cons.prems]
    by (cases kv) (simp add: read_allocation_def Let_def split: option.split)
  then show ?case using Cons.IH by simp
qed simp

lemma unused_from_ok:
  "unused_from E allocs is unused w = (u, w') \<Longrightarrow> map_ok unused \<Longrightarrow>
    (\<forall>i. map_has allocs i \<longrightarrow> \<not> map_has unused i) \<Longrightarrow>
    map_ok u \<and> (\<forall>i. map_has allocs i \<longrightarrow> \<not> map_has u i) \<and> (\<forall>i. map_has unused i \<longrightarrow> map_has u i) \<and>
    (\<forall>x \<in> set is. map_has allocs (ip_String x) \<or> map_has u (ip_String x))"
proof (induction "is" arbitrary: unused w)
  case (Cons j "is")
  show ?case
  proof (cases "map_has allocs (ip_String j)")
    case True
    then show ?thesis using Cons by simp
  next
    case False
    obtain now w1 where now: "clock_now E w = (now, w1)" by fastforce
    have "unused_from E allocs is (map_put (ip_String j) now unused) w1 = (u, w')"
      using Cons.prems(1) False now by simp
    moreover have "\<forall>i. map_has allocs i \<longrightarrow> \<not> map_has (map_put (ip_String j) now unused) i"
      using Cons.prems(3) False by auto
    ultimately have "map_ok u \<and> (\<forall>i. map_has allocs i \<longrightarrow> \<not> map_has u i) \<and>
        (\<forall>i. map_has (map_put (ip_String j) now unused) i \<longrightarrow> map_has u i) \<and>
        (\<forall>x \<in> set is. map_has allocs (ip_String x) \<or> map_has u (ip_String x))"
      using Cons.IH Cons.prems(2) by simp
    then show ?thesis by simp
  qed
qed simp

lemma syncIPs_None_ok:
  assumes "syncIPs E p w = (None, p', w')"
  shows "pool_ok p'"
proof -
  obtain allocs w1 where a: "getAllocations E (ep_client p) w = (Inr allocs, w1)"
    using assms by (auto simp: syncIPs_def split: prod.splits sum.splits)
  obtain u w2 where u: "unused_from E allocs (allIPs p) [] w1 = (u, w2)" by fastforce
  have p': "p' = p\<lparr>allocatedIPs := allocs, unusedIPs := u\<rparr>"
    using assms(1) a u by (simp add: syncIPs_def)
  have "map_ok allocs"
    using a map_ok_read [OF map_ok_Nil]
    by (auto simp: getAllocations_def getAllocationsByPrefix_def WithConnection_def
        split: prod.splits option.splits sum.splits)
  with unused_from_ok [OF u] show ?thesis by (simp add: p' pool_ok_def)
qed

lemma syncIPs_ok:
  assumes "syncIPs E p w = (r, p', w')" and "pool_ok p"
  shows "pool_ok p'"
proof (cases r)
  case None
  then show ?thesis using assms(1) by (auto intro: syncIPs_None_ok)
next
  case (Some e)
  then have "p' = p" using assms(1) by (auto simp: syncIPs_def split: prod.splits sum.splits)
  then show ?thesis using assms(2) by simp
qed

lemma getAvailableUnusedIPs_ok:
  assumes "getAvailableUnusedIPs E p w = (r, p', w')" and "pool_ok p"
  shows "pool_ok p'"
proof -
  obtain old w1 where old: "older E (unusedIPs p) w = (old, w1)" by fastforce
  obtain e p1 w2 where s: "syncIPs E p w1 = (e, p1, w2)" by (cases "syncIPs E p w1")
  have "p' = p \<or> p' = p1"
    using assms(1) old s by (auto simp: getAvailableUnusedIPs_def Let_def split: option.splits if_splits)
  then show ?thesis using assms(2) syncIPs_ok [OF s] by blast
qed

text \<open>The moves of an address between the two maps.\<close>

lemma pool_ok_take:
  assumes "pool_ok p"
  shows "pool_ok (p\<lparr>unusedIPs := map_del i (unusedIPs p), allocatedIPs := map_put i a (allocatedIPs p)\<rparr>)"
proof -
  have "map_has (map_put i a (allocatedIPs p)) (ip_String x) \<or> map_has (map_del i (unusedIPs p)) (ip_String x)"
    if "x \<in> set (allIPs p)" for x
    using assms that unfolding pool_ok_def by (cases "i = ip_String x") auto
  then show ?thesis using assms by (auto simp: pool_ok_def)
qed

lemma pool_ok_replace:
  assumes "pool_ok p" and "map_has (allocatedIPs p) i"
  shows "pool_ok (p\<lparr>allocatedIPs := map_put i a (allocatedIPs p)\<rparr>)"
proof -
  have "map_has (map_put i a (allocatedIPs p)) (ip_String x) \<or> map_has (unusedIPs p) (ip_String x)"
    if "x \<in> set (allIPs p)" for x
    using assms(1) that unfolding pool_ok_def by (cases "i = ip_String x") auto
  then show ?thesis using assms by (auto simp: pool_ok_def)
qed

lemma pool_ok_free:
  assumes "pool_ok p"
  shows "pool_ok (p\<lparr>allocatedIPs := map_del i (allocatedIPs p), unusedIPs := map_put i t (unusedIPs p)\<rparr>)"
proof -
  have "map_has (map_del i (allocatedIPs p)) (ip_String x) \<or> map_has (map_put i t (unusedIPs p)) (ip_String x)"
    if "x \<in> set (allIPs p)" for x
    using assms that unfolding pool_ok_def by (cases "i = ip_String x") auto
  then show ?thesis using assms by (auto simp: pool_ok_def)
qed

lemma record_allocation_ok: "pool_ok p \<Longrightarrow> pool_ok (record_allocation a p)"
  by (simp add: record_allocation_def Let_def pool_ok_take)

lemma allocateFreeIP_ok:
  assumes "allocateFreeIP E random alloc p w = Some (r, p', w')" and "pool_ok p"
  shows "pool_ok p'"
  by (rule allocateFreeIP_rule [where J = "\<lambda>p w. pool_ok p" and Q = "\<lambda>r p w. pool_ok p", OF assms])
    (auto dest: getAvailableUnusedIPs_ok intro: record_allocation_ok)

lemma allocate_preferred_ok:
  assumes run: "allocate_preferred E alloc pref random p w = Some (r, p', w')" and ok: "pool_ok p"
  shows "pool_ok p'"
proof (cases "ParseIP pref")
  case None
  then show ?thesis using run ok by (simp add: allocate_preferred_def)
next
  case (Some i)
  obtain a w1 where a: "alloc i w = (a, w1)" by fastforce
  let ?p1 = "if map_has (allocatedIPs p) pref then p else p\<lparr>unusedIPs := map_del pref (unusedIPs p)\<rparr>"
  have "p' = p \<or> (\<exists>al. p' = ?p1\<lparr>allocatedIPs := map_put pref al (allocatedIPs ?p1)\<rparr>) \<or>
      allocateFreeIP E random alloc p w = Some (r, p', w') \<or>
      allocateFreeIP E random alloc p w1 = Some (r, p', w')"
    using run Some a by (auto simp: allocate_preferred_def Let_def split: sum.splits if_splits)
  moreover have "pool_ok (?p1\<lparr>allocatedIPs := map_put pref al (allocatedIPs ?p1)\<rparr>)" for al
    using pool_ok_replace [OF ok] pool_ok_take [OF ok] by (cases "map_has (allocatedIPs p) pref") simp_all
  ultimately show ?thesis using ok allocateFreeIP_ok by metis
qed

lemma ReleaseIPIfReserved_ok:
  assumes "ReleaseIPIfReserved E i p w = (r, p', w')" and "pool_ok p"
  shows "pool_ok p'"
proof -
  have "p' = p \<or> (\<exists>a. map_has (allocatedIPs p) i \<and> p' = p\<lparr>allocatedIPs := map_put i a (allocatedIPs p)\<rparr>) \<or>
      (\<exists>t. p' = p\<lparr>allocatedIPs := map_del i (allocatedIPs p), unusedIPs := map_put i t (unusedIPs p)\<rparr>)"
    using assms(1)
    by (auto simp: ReleaseIPIfReserved_def split: option.splits prod.splits sum.splits if_splits)
  then show ?thesis using assms(2) pool_ok_replace pool_ok_free by blast
qed

lemma ip_usage_change_ok:
  assumes "ip_usage_change E ev p w = (l, p', w')" and "pool_ok p"
  shows "pool_ok p'"
proof -
  have "p' = p \<or> (\<exists>i a. map_has (allocatedIPs p) i \<and> p' = p\<lparr>allocatedIPs := map_put i a (allocatedIPs p)\<rparr>) \<or>
      (\<exists>i a. p' = p\<lparr>unusedIPs := map_del i (unusedIPs p), allocatedIPs := map_put i a (allocatedIPs p)\<rparr>) \<or>
      (\<exists>i t. p' = p\<lparr>allocatedIPs := map_del i (allocatedIPs p), unusedIPs := map_put i t (unusedIPs p)\<rparr>)"
    using assms(1)
    by (cases ev) (auto simp: Let_def split: option.splits prod.splits sum.splits if_splits)
  then show ?thesis using assms(2) pool_ok_replace pool_ok_free pool_ok_take by blast
qed

section \<open>Lemmas: which address is tried\<close>

lemma older_subset: "older E m w = (ks, w') \<Longrightarrow> set ks \<subseteq> fst ` set m"
proof (induction m arbitrary: w ks w')
  case (Cons kt m)
  obtain k t where kt: "kt = (k, t)" by (cases kt)
  obtain now w1 where now: "clock_now E w = (now, w1)" by fastforce
  obtain ks1 w2 where o: "older E m w1 = (ks1, w2)" by fastforce
  have "ks = (if t + five_minutes < now then k # ks1 else ks1)" using Cons.prems kt now o by simp
  then show ?case using Cons.IH [OF o] kt by (auto split: if_splits)
qed simp

lemma parse_ips_Inr:
  "\<forall>s \<in> set ss. ParseIP s \<noteq> None \<Longrightarrow> \<exists>is. parse_ips ss = Inr is \<and> map ParseIP ss = map Some is"
  by (induction ss) auto

lemma ParseIP_To4: "ParseIP s = Some x \<Longrightarrow> ip_To4 x \<noteq> None"
  by (erule ParseIP_Some) simp

lemma getAvailableUnusedIPs_unused:
  assumes run: "getAvailableUnusedIPs E p w = (r, p1, w1)" and ne: "unusedIPs p \<noteq> []"
    and parse: "\<forall>k. map_has (unusedIPs p) k \<longrightarrow> ParseIP k \<noteq> None"
  shows "p1 = p \<and> (\<exists>av. r = Inr av \<and> av \<noteq> [] \<and>
    (\<forall>x \<in> set av. map_has (unusedIPs p) (ip_String x) \<and> ip_To4 x \<noteq> None))"
proof -
  obtain old w2 where old: "older E (unusedIPs p) w = (old, w2)" by fastforce
  let ?av = "if old = [] then map_keys (unusedIPs p) else old"
  have sub: "s \<in> set ?av \<Longrightarrow> map_has (unusedIPs p) s" for s
    using older_subset [OF old] by (auto simp: map_get_None_iff map_keys_def split: if_splits)
  have ne': "?av \<noteq> []" using ne by (simp add: map_keys_def)
  have "\<forall>s \<in> set ?av. ParseIP s \<noteq> None" using sub parse by blast
  then obtain "is" where is1: "parse_ips ?av = Inr is" and is2: "map ParseIP ?av = map Some is"
    using parse_ips_Inr by blast
  have r: "r = parse_ips ?av" "p1 = p"
    using run old ne' by (auto simp: getAvailableUnusedIPs_def Let_def)
  have "map_has (unusedIPs p) (ip_String x) \<and> ip_To4 x \<noteq> None" if "x \<in> set is" for x
  proof -
    have "Some x \<in> set (map ParseIP ?av)" unfolding is2 using that by simp
    then obtain s where s: "s \<in> set ?av" "ParseIP s = Some x" by auto
    then show ?thesis using sub ParseIP_To4 by simp
  qed
  moreover have "is \<noteq> []" using is2 ne' by auto
  ultimately show ?thesis using r is1 by auto
qed

lemma pick_ip_avail:
  assumes C: "etcd_contract E kv rely" and run: "pick_ip E random av p w = (r, w1)" and ne: "av \<noteq> []"
    and v4: "\<forall>k a. map_get (allocatedIPs p) k = Some a \<longrightarrow> ip_To4 (a_ip a) \<noteq> None" and ok: "map_ok (allocatedIPs p)"
  shows "\<exists>i. r = Inr i \<and> i \<in> set av"
proof (cases random)
  case True
  obtain j w2 where j: "rand_intn E (length av) w = (j, w2)" by fastforce
  have "j < length av" using rand_intn_kv [OF C j] ne by simp
  then show ?thesis using run True j by (auto simp: pick_ip_def)
next
  case False
  then have r: "r = getNextAvailableIP av (allocatedIPs p)" using run by (simp add: pick_ip_def)
  have "\<not> (\<exists>e. getNextAvailableIP av (allocatedIPs p) = Inl e)"
  proof
    assume "\<exists>e. getNextAvailableIP av (allocatedIPs p) = Inl e"
    then obtain l where l: "getLastReservedIP (allocatedIPs p) = Inr l" "ip_rank l = Rank_none"
      using ne getNextAvailableIP_Inl_iff [of av "allocatedIPs p"] by blast
    then obtain a where "a \<in> set (map_vals (allocatedIPs p))" "l = a_ip a"
      using last_reserved_max [of "map_vals (allocatedIPs p)" None]
      by (auto simp: getLastReservedIP_def split: option.splits)
    then obtain k where "map_get (allocatedIPs p) k = Some a"
      using set_map_vals [OF ok] by (auto simp: ran_def)
    moreover have "ip_To4 (a_ip a) = None"
      using l(2) \<open>l = a_ip a\<close> by (simp add: ip_rank_def split: option.splits)
    ultimately show False using v4 by blast
  qed
  then obtain i where "r = Inr i" using r by (cases "getNextAvailableIP av (allocatedIPs p)") auto
  then show ?thesis using r getNextAvailableIP_choice [of av "allocatedIPs p" i] by (auto simp: next_choice_def)
qed

lemma allocateIPByCondition_reliable:
  assumes "reliable E"
  obtains r w' where "allocateIPByCondition E c i typ dk d conds w = (Inr r, w')"
proof -
  have "\<exists>r w'. try_conditions E a ops conds w = (Inr r, w')" for a ops w
  proof (induction conds arbitrary: w)
    case (Cons cs conds)
    obtain t w1 where "commit E cs ops [] w = (Inr t, w1)" using assms unfolding reliable_def by metis
    then show ?case using Cons.IH by simp
  qed simp
  moreover obtain w1 where "conn_new E w = (None, w1)"
    using assms unfolding reliable_def by (metis prod.collapse)
  ultimately have "\<exists>r w'. allocateIPByCondition E c i typ dk d conds w = (Inr r, w')"
    by (simp add: allocateIPByCondition_def WithConnection_def Let_def case_prod_unfold)
  with that show ?thesis by blast
qed

text \<open>The cache agrees with the address syntax and holds IPv4 allocations only.\<close>

definition pool_v4 :: "etcdPool \<Rightarrow> bool" where
  "pool_v4 p \<longleftrightarrow> map_ok (allocatedIPs p) \<and> (\<forall>k. map_has (unusedIPs p) k \<longrightarrow> ParseIP k \<noteq> None) \<and>
     (\<forall>k a. map_get (allocatedIPs p) k = Some a \<longrightarrow> ip_To4 (a_ip a) \<noteq> None)"

lemma choose_address:
  assumes C: "etcd_contract E kv rely" and ok: "pool_v4 p" and ne: "unusedIPs p \<noteq> []"
    and a: "getAvailableUnusedIPs E p w = (r, p1, w1)"
  shows "p1 = p \<and> rely (kv w) (kv w1) \<and> (\<exists>av. r = Inr av \<and>
    (\<forall>b w2. pick_ip E random av p w1 = (b, w2) \<longrightarrow>
      kv w2 = kv w1 \<and> (\<exists>i. b = Inr i \<and> map_has (unusedIPs p) (ip_String i))))"
proof -
  from getAvailableUnusedIPs_unused [OF a ne] ok obtain av where "p1 = p" and av: "r = Inr av" "av \<noteq> []"
    "\<forall>x \<in> set av. map_has (unusedIPs p) (ip_String x) \<and> ip_To4 x \<noteq> None"
    unfolding pool_v4_def by blast
  moreover have "kv w2 = kv w1 \<and> (\<exists>i. b = Inr i \<and> map_has (unusedIPs p) (ip_String i))"
    if "pick_ip E random av p w1 = (b, w2)" for b w2
    using pick_ip_kv [OF C that] pick_ip_avail [OF C that av(2)] ok av(3) unfolding pool_v4_def by blast
  ultimately show ?thesis using getAvailableUnusedIPs_kv [OF C a] by blast
qed

lemma reserveIP_refused_iff:
  assumes C: "etcd_contract E kv rely" and run: "reserveIP E c i w = (Inr r, w')"
  shows "Success r \<Longrightarrow> a_ip (Allocation r) = i \<and> kv w' (allocatedIPKey c (ip_String i)) = Some AllocationTypeReserved \<and>
      (\<exists>m. rely (kv w) m \<and> m (allocatedIPKey c (ip_String i)) = None)"
    and "\<not> Success r \<Longrightarrow> \<exists>m. rely (kv w) m \<and> rely m (kv w') \<and> m (allocatedIPKey c (ip_String i)) \<noteq> None"
proof -
  have ns: "CHR ''/'' \<notin> set (ip_String i)" by (rule slash_not_in_ip_String)
  note res = allocateIPByCondition_Inr [OF C run [unfolded reserveIP_def]]
  show "\<not> Success r \<Longrightarrow> \<exists>m. rely (kv w) m \<and> rely m (kv w') \<and> m (allocatedIPKey c (ip_String i)) \<noteq> None"
    using res by auto
  show "Success r \<Longrightarrow> a_ip (Allocation r) = i \<and> kv w' (allocatedIPKey c (ip_String i)) = Some AllocationTypeReserved \<and>
      (\<exists>m. rely (kv w) m \<and> m (allocatedIPKey c (ip_String i)) = None)"
    using res alloc_keys_neq(3) [OF ns ns, of c] by (auto simp: Let_def)
qed

lemma allocateFreeIP_taken:
  assumes C: "etcd_contract E kv rely" and R: "reliable E" and ok: "pool_v4 p" and ne: "unusedIPs p \<noteq> []"
    and S: "stable rely (\<lambda>m. \<forall>i. map_has (unusedIPs p) i \<longrightarrow> m (allocatedIPKey c i) \<noteq> None)"
    and T: "\<forall>i. map_has (unusedIPs p) i \<longrightarrow> kv w (allocatedIPKey c i) \<noteq> None"
  shows "allocateFreeIP E random (reserveIP E c) p w = None"
proof (rule ccontr)
  let ?I = "\<lambda>m. \<forall>i. map_has (unusedIPs p) i \<longrightarrow> m (allocatedIPKey c i) \<noteq> None"
  let ?J = "\<lambda>q w. q = p \<and> ?I (kv w)"
  assume "allocateFreeIP E random (reserveIP E c) p w \<noteq> None"
  then obtain r p' w' where run: "allocateFreeIP E random (reserveIP E c) p w = Some (r, p', w')" by auto
  have keep: "?I (kv w1)" if "rely (kv w) (kv w1)" "?I (kv w)" for w w1
    using stableD [OF S that(1)] that(2) by blast
  note choose = choose_address [OF C ok ne, where random = random]
  have I2: "?I (kv w1)" if "?I (kv w)" "pick_ip E random av p w = (b, w1)" for w av b w1
    using that(1) unfolding pick_ip_kv [OF C that(2)] .
  have inv: "?I (kv w1)" if I: "?I (kv w)" and a: "reserveIP E c i w = (a, w1)" for w i a w1
  proof -
    have "?I (kv (snd (reserveIP E c i w)))"
      unfolding reserveIP_def by (rule allocateIPByCondition_inv [where I = ?I, OF C S I]) auto
    then show ?thesis using a by simp
  qed
  have no: "\<not> Success r" if I: "?I (kv w)" and u: "map_has (unusedIPs p) (ip_String i)"
      and d: "reserveIP E c i w = (Inr r, w1)"
    for w i r w1
  proof
    assume "Success r"
    then obtain m where "rely (kv w) m" "m (allocatedIPKey c (ip_String i)) = None"
      using reserveIP_refused_iff(1) [OF C d] by blast
    then show False using stableD [OF S, of "kv w" m] I u by blast
  qed
  show False
  proof (rule allocateFreeIP_exits [where J = ?J and Q = "\<lambda>_ _ _. False", OF run])
    show "?J p w" using T by blast
  next
    show "?J p1 w1" if "?J q w" "getAvailableUnusedIPs E q w = (a, p1, w1)" for q w a p1 w1
      using that choose keep by blast
  next
    show "?J q w1" if "?J q w" "pick_ip E random av q w = (a, w1)" for q w av a w1
      using that I2 by blast
  next
    show "?J q w1" if "?J q w" "reserveIP E c i w = (a, w1)" for q w i a w1
      using that inv by blast
  next
    show False if "?J q w" "getAvailableUnusedIPs E q w = (Inl e, p1, w1)" for q w e p1 w1
      using that choose by blast
  next
    show False if "?J q w" "getAvailableUnusedIPs E q w = (Inr av, p1, w1)"
      "pick_ip E random av p1 w1 = (Inl e, w2)" for q w av p1 w1 e w2
      using that choose by blast
  next
    show False if "?J q w" "reserveIP E c i w = (Inl e, w1)" for q w i e w1
      using that(2) allocateIPByCondition_reliable [OF R] unfolding reserveIP_def by (metis Inl_Inr_False prod.inject)
  next
    show False if J: "?J q w" and a: "getAvailableUnusedIPs E q w = (Inr av, p1, w1)"
      and b: "pick_ip E random av p1 w1 = (Inr i, w2)" and d: "reserveIP E c i w2 = (Inr r, w3)"
      and s: "Success r" for q w av p1 w1 i w2 r w3
    proof -
      have a': "getAvailableUnusedIPs E p w = (Inr av, p1, w1)" using J a by simp
      from choose [OF a'] have p1: "p1 = p" and rel: "rely (kv w) (kv w1)" by blast+
      from choose [OF a'] b p1 have i: "map_has (unusedIPs p) (ip_String i)" by blast
      have I0: "?I (kv w)" using J by blast
      have "?I (kv w1)" by (rule keep [OF rel I0])
      then have "?I (kv w2)" unfolding pick_ip_kv [OF C b] .
      from no [OF this i d] s show False by blast
    qed
  qed
qed

lemma allocateFreeIP_free:
  assumes C: "etcd_contract E kv (=)" and R: "reliable E" and ok: "pool_v4 p" and ne: "unusedIPs p \<noteq> []"
    and free: "\<forall>i. map_has (unusedIPs p) i \<longrightarrow> kv w (allocatedIPKey c i) = None"
  shows "\<exists>x p' w'. allocateFreeIP E random (reserveIP E c) p w = Some (Inr x, p', w') \<and>
    map_has (unusedIPs p) (ip_String x) \<and> kv w' (allocatedIPKey c (ip_String x)) = Some AllocationTypeReserved \<and>
    map_has (allocatedIPs p') (ip_String x) \<and> \<not> map_has (unusedIPs p') (ip_String x)"
proof -
  obtain a p1 w1 where a: "getAvailableUnusedIPs E p w = (a, p1, w1)" by (cases "getAvailableUnusedIPs E p w")
  from choose_address [OF C ok ne a, where random = random] obtain av where p1: "p1 = p" and kv1: "kv w = kv w1"
    and av: "a = Inr av" and pk: "\<forall>b w2. pick_ip E random av p w1 = (b, w2) \<longrightarrow>
      kv w2 = kv w1 \<and> (\<exists>i. b = Inr i \<and> map_has (unusedIPs p) (ip_String i))" by blast
  obtain b w2 where b: "pick_ip E random av p w1 = (b, w2)" by fastforce
  with pk obtain i where i: "b = Inr i" "map_has (unusedIPs p) (ip_String i)" and kv2: "kv w2 = kv w1" by blast
  obtain r w3 where d: "reserveIP E c i w2 = (Inr r, w3)"
    using allocateIPByCondition_reliable [OF R] unfolding reserveIP_def by blast
  have fr: "kv w2 (allocatedIPKey c (ip_String i)) = None"
    unfolding kv2 kv1 [symmetric] using free i(2) by blast
  have s: "Success r"
  proof (rule ccontr)
    assume "\<not> Success r"
    from reserveIP_refused_iff(2) [OF C d this] fr show False by auto
  qed
  have "allocateFreeIP E random (reserveIP E c) p w =
      Some (Inr (a_ip (Allocation r)), record_allocation (Allocation r) p, w3)"
    by (subst allocateFreeIP.simps) (simp add: a av p1 b i(1) d s)
  moreover have "a_ip (Allocation r) = i" "kv w3 (allocatedIPKey c (ip_String i)) = Some AllocationTypeReserved"
    using reserveIP_refused_iff(1) [OF C d s] by blast+
  ultimately show ?thesis using i(2) by (intro exI conjI) (auto simp: record_allocation_def Let_def)
qed

lemma AllocateContainerIP_recorded:
  assumes C: "etcd_contract E kv rely" and ok: "pool_ok p" and mac: "mac \<noteq> []"
    and run: "AllocateContainerIP E preferred mac random p w = Some (Inr x, p', w')"
  shows "held_by_container (ep_client p) (ip_String x) mac (kv w') \<and>
    (\<exists>a. map_get (allocatedIPs p') (ip_String x) = Some a \<and> a_ip a = x \<and> data a = mac) \<and>
    \<not> map_has (unusedIPs p') (ip_String x)"
proof -
  let ?c = "ep_client p" and ?alloc = "\<lambda>i. allocateIPForContainer E (ep_client p) i mac"
  let ?Q = "\<lambda>r p' w'. \<forall>x. r = Inr x \<longrightarrow> held_by_container ?c (ip_String x) mac (kv w') \<and>
    (\<exists>a. map_get (allocatedIPs p') (ip_String x) = Some a \<and> a_ip a = x \<and> data a = mac) \<and>
    \<not> map_has (unusedIPs p') (ip_String x)"
  have held: "held_by_container ?c (ip_String i) mac (kv w1) \<and> a_ip (Allocation r) = i \<and> data (Allocation r) = mac"
    if d: "?alloc i w = (Inr r, w1)" and s: "Success r" for i w r w1
  proof -
    have ns: "CHR ''/'' \<notin> set (ip_String i)" by (rule slash_not_in_ip_String)
    have "macKey ?c (ip_String i) \<noteq> []" by (simp add: macKey_def)
    then show ?thesis
      using allocateIPByCondition_Inr [OF C d [unfolded allocateIPForContainer_def]] s mac
        alloc_keys_neq [OF ns ns, of ?c] by (auto simp: held_by_container_def Let_def)
  qed
  have free: "?Q r p' w'" if "allocateFreeIP E random ?alloc q w = Some (r, p', w')" for q w r p' w'
  proof (rule allocateFreeIP_rule [where J = "\<lambda>_ _. True" and Q = ?Q, OF that])
    show "?Q (Inr (a_ip (Allocation r))) (record_allocation (Allocation r) q) w1"
      if d: "?alloc i w = (Inr r, w1)" and s: "Success r" for q w i r w1
      using held [OF d s] by (auto simp: record_allocation_def Let_def)
  qed simp_all
  show ?thesis
  proof (cases "ParseIP preferred")
    case None
    then show ?thesis using run by (simp add: AllocateContainerIP_def allocate_preferred_def)
  next
    case (Some i)
    obtain a w1 where a: "?alloc i w = (a, w1)" by fastforce
    show ?thesis
    proof (cases "\<exists>r. ipnet_Contains (poolSubnet p) i \<and> a = Inr r \<and> Success r")
      case True
      then obtain r where r: "ipnet_Contains (poolSubnet p) i" "a = Inr r" "Success r" by blast
      let ?p1 = "if map_has (allocatedIPs p) preferred then p else p\<lparr>unusedIPs := map_del preferred (unusedIPs p)\<rparr>"
      have eq: "x = a_ip (Allocation r)" "w' = w1"
        "p' = ?p1\<lparr>allocatedIPs := map_put preferred (Allocation r) (allocatedIPs ?p1)\<rparr>"
        using run Some a r by (auto simp: AllocateContainerIP_def allocate_preferred_def Let_def)
      note h = held [OF a [unfolded r(2)] r(3)]
      have "x = i" using eq(1) h by simp
      moreover have "ip_String i = preferred" using Some by simp
      moreover have "\<not> map_has (unusedIPs ?p1) preferred"
        using ok unfolding pool_ok_def by (cases "map_has (allocatedIPs p) preferred") auto
      ultimately show ?thesis using h eq by simp
    next
      case False
      then obtain w0 where "allocateFreeIP E random ?alloc p w0 = Some (Inr x, p', w')"
        using run Some a
        by (auto simp: AllocateContainerIP_def allocate_preferred_def split: sum.splits if_splits)
      from free [OF this] show ?thesis by simp
    qed
  qed
qed

section \<open>Properties\<close>

text \<open>
  C2: an address that a container holds stays its address: no operation of any pool gives it to
  another container or to a service, whatever the other nodes do, as long as they keep it too,
  and however many of the requests fail.
\<close>

theorem held_address_not_stolen:
  assumes "etcd_contract E kv rely" and "stable rely (held_by_container (ep_client p) (ip_String x) mac)"
    and "held_by_container (ep_client p) (ip_String x) mac (kv w)" and "mac' \<noteq> mac"
  shows "(case AllocateContainerIP E preferred mac' random p w of None \<Rightarrow> True
      | Some (r, p', w') \<Rightarrow> held_by_container (ep_client p) (ip_String x) mac (kv w')) \<and>
    (case AllocateServiceVIP E preferred serviceID random p w of None \<Rightarrow> True
      | Some (r, p', w') \<Rightarrow> held_by_container (ep_client p) (ip_String x) mac (kv w')) \<and>
    (case ReserveIP E random p w of None \<Rightarrow> True
      | Some (r, p', w') \<Rightarrow> held_by_container (ep_client p) (ip_String x) mac (kv w'))"
proof -
  let ?H = "held_by_container (ep_client p) (ip_String x) mac"
  note kept = container_holder_kept [OF assms(1,2)]
  have 1: "allocator E kv rely ?H (\<lambda>i. allocateIPForContainer E (ep_client p) i mac')"
    by unfold_locales (rule assms(1), rule assms(2), rule kept(1) [OF _ assms(4)])
  have 2: "allocator E kv rely ?H (\<lambda>i. allocateIPForService E (ep_client p) i serviceID)"
    by unfold_locales (rule assms(1), rule assms(2), rule kept(2))
  have 3: "allocator E kv rely ?H (reserveIP E (ep_client p))"
    by unfold_locales (rule assms(1), rule assms(2), rule kept(3))
  show ?thesis
  proof (intro conjI)
  show "case AllocateContainerIP E preferred mac' random p w of None \<Rightarrow> True
      | Some (r, p', w') \<Rightarrow> ?H (kv w')"
    using allocator.preferred_keeps [OF 1 _ assms(3)]
    by (auto simp: AllocateContainerIP_def split: option.splits)
  show "case AllocateServiceVIP E preferred serviceID random p w of None \<Rightarrow> True
      | Some (r, p', w') \<Rightarrow> ?H (kv w')"
    using allocator.preferred_keeps [OF 2 _ assms(3)]
    by (auto simp: AllocateServiceVIP_def split: option.splits)
  show "case ReserveIP E random p w of None \<Rightarrow> True | Some (r, p', w') \<Rightarrow> ?H (kv w')"
    using allocator.free_keeps [OF 3 _ assms(3)]
    by (auto simp: ReserveIP_def split: option.splits)
  qed
qed

definition demo_pool :: etcdPool where
  "demo_pool = \<lparr>poolID = ''net1'', poolSubnet = v4net (10 * 2 ^ 24) 24, ep_client = pool_client,
     allIPs = [[10, 0, 0, 5]], allocatedIPs = [], unusedIPs = [(dotted [10, 0, 0, 5], 0)]\<rparr>"

definition held_world :: ref_world where
  "held_world = ([(allocatedIPKey pool_client (dotted [10, 0, 0, 5]), AllocationTypeContainerIP),
     (macKey pool_client (dotted [10, 0, 0, 5]), ''02:01'')], 1)"

lemma demo_pool_simps:
  "ep_client demo_pool = pool_client" "unusedIPs demo_pool = [(dotted [10, 0, 0, 5], 0)]"
  "allocatedIPs demo_pool = []" "allIPs demo_pool = [[10, 0, 0, 5]]"
  by (simp_all add: demo_pool_def)

lemma held_world_kv:
  "ref_kv held_world (allocatedIPKey pool_client (dotted [10, 0, 0, 5])) = Some AllocationTypeContainerIP"
  "ref_kv held_world (macKey pool_client (dotted [10, 0, 0, 5])) = Some ''02:01''"
  using alloc_keys_neq(1) [OF slash_not_in_dotted slash_not_in_dotted, of pool_client "[10, 0, 0, 5]" "[10, 0, 0, 5]"]
  by (simp_all add: held_world_def)

theorem held_address_not_stolen_witness:
  "case AllocateContainerIP ref_env ''10.0.0.5'' ''02:02'' True demo_pool held_world of None \<Rightarrow> True
    | Some (r, p', w') \<Rightarrow> held_by_container pool_client (dotted [10, 0, 0, 5]) ''02:01'' (ref_kv w')"
proof -
  have str: "ip_String [10, 0, 0, 5] = dotted [10, 0, 0, 5]" by (rule ip_String_v4) simp
  show ?thesis
    using held_address_not_stolen [where E = ref_env and kv = ref_kv and rely = "(=)" and p = demo_pool
        and x = "[10, 0, 0, 5]" and mac = "''02:01''" and w = held_world and mac' = "''02:02''"
        and preferred = "''10.0.0.5''" and random = True, THEN conjunct1]
    unfolding str demo_pool_simps
    by (simp add: etcd_contract_ref stable_def held_by_container_def held_world_kv)
qed

text \<open>
  C3: when \<open>AllocateContainerIP\<close> returns an address, etcd records the container as its holder, the
  pool remembers the allocation with the container's MAC, and the address is no longer among the
  unused ones, whatever the other nodes do in between.
\<close>

theorem container_allocation_recorded:
  assumes "etcd_contract E kv rely" and "pool_ok p" and "mac \<noteq> []"
    and "AllocateContainerIP E preferred mac random p w = Some (Inr x, p', w')"
  shows "held_by_container (ep_client p) (ip_String x) mac (kv w') \<and>
    (\<exists>a. map_get (allocatedIPs p') (ip_String x) = Some a \<and> a_ip a = x \<and> data a = mac) \<and>
    \<not> map_has (unusedIPs p') (ip_String x)"
  by (rule AllocateContainerIP_recorded [OF assms])

lemma demo_pool_ok: "pool_ok demo_pool"
  by (simp add: pool_ok_def demo_pool_simps map_ok_def ip_String_v4)

lemma demo_contains: "ipnet_Contains (poolSubnet demo_pool) (v4_prefix @ [10, 0, 0, 5])"
proof -
  have "ip_val [10, 0, 0, 5] div 2 ^ (32 - 24) = 10 * 2 ^ 24 div 2 ^ (32 - 24)" by simp
  then have "ipnet_Contains (v4net (10 * 2 ^ 24) 24) [10, 0, 0, 5]"
    by (subst Contains_v4net) simp_all
  then show ?thesis
    using Contains_To4 [of "v4_prefix @ [10, 0, 0, 5]" "[10, 0, 0, 5]"] by (simp add: demo_pool_def)
qed

theorem container_allocation_recorded_witness:
  "\<exists>p' w'. AllocateContainerIP ref_env (dotted [10, 0, 0, 5]) ''02:42'' False demo_pool ([], 7) =
      Some (Inr (v4_prefix @ [10, 0, 0, 5]), p', w') \<and>
    held_by_container pool_client (dotted [10, 0, 0, 5]) ''02:42'' (ref_kv w') \<and>
    \<not> map_has (unusedIPs p') (dotted [10, 0, 0, 5])"
proof -
  let ?x = "[10, 0, 0, 5] :: ip"
  have mk: "macKey pool_client s \<noteq> []" for s by (simp add: macKey_def)
  have str: "ip_String (v4_prefix @ ?x) = dotted ?x" by (rule ip_String_mapped) simp
  obtain p' w' where run: "AllocateContainerIP ref_env (dotted ?x) ''02:42'' False demo_pool ([], 7) =
      Some (Inr (v4_prefix @ ?x), p', w')"
    by (simp add: AllocateContainerIP_def allocate_preferred_def ParseIP_dotted demo_contains demo_pool_simps
        allocateIPForContainer_def allocateIPByCondition_def WithConnection_def Let_def str mk
        container_conditions_def ref_commit_def case_prod_unfold)
  have "held_by_container (ep_client demo_pool) (ip_String (v4_prefix @ ?x)) ''02:42'' (ref_kv w') \<and>
      (\<exists>a. map_get (allocatedIPs p') (ip_String (v4_prefix @ ?x)) = Some a \<and> a_ip a = v4_prefix @ ?x \<and>
        data a = ''02:42'') \<and> \<not> map_has (unusedIPs p') (ip_String (v4_prefix @ ?x))"
    by (rule container_allocation_recorded [OF etcd_contract_ref demo_pool_ok _ run]) simp
  with run show ?thesis unfolding str demo_pool_simps by blast
qed

text \<open>
  C4: every operation of the pool and every watch event keeps the partition of the pool's
  addresses: each is allocated or unused in the node's memory, and none is both.  A new pool
  has it from the start.
\<close>

theorem pool_partition_preserved:
  assumes "pool_ok p"
  shows "(case ReserveIP E random p w of None \<Rightarrow> True | Some (r, p', w') \<Rightarrow> pool_ok p') \<and>
    (case AllocateContainerIP E preferred mac random p w of None \<Rightarrow> True | Some (r, p', w') \<Rightarrow> pool_ok p') \<and>
    (case AllocateServiceVIP E preferred sid random p w of None \<Rightarrow> True | Some (r, p', w') \<Rightarrow> pool_ok p') \<and>
    pool_ok (fst (snd (ReleaseIP E i p w))) \<and> pool_ok (fst (snd (ReleaseIPIfReserved E i p w))) \<and>
    pool_ok (fst (snd (ReleaseAllIPs E p w))) \<and> pool_ok (fst (snd (ip_usage_change E ev p w))) \<and>
    (case NewEtcdBasedAddressPool E' j net client w' of
       Some (Inr p0, w'') \<Rightarrow> pool_ok p0 | _ \<Rightarrow> True)"
proof (intro conjI)
  show "case ReserveIP E random p w of None \<Rightarrow> True | Some (r, p', w') \<Rightarrow> pool_ok p'"
    using allocateFreeIP_ok [OF _ assms] by (auto simp: ReserveIP_def split: option.split)
  show "case AllocateContainerIP E preferred mac random p w of None \<Rightarrow> True | Some (r, p', w') \<Rightarrow> pool_ok p'"
    using allocate_preferred_ok [OF _ assms] by (auto simp: AllocateContainerIP_def split: option.split)
  show "case AllocateServiceVIP E preferred sid random p w of None \<Rightarrow> True | Some (r, p', w') \<Rightarrow> pool_ok p'"
    using allocate_preferred_ok [OF _ assms] by (auto simp: AllocateServiceVIP_def split: option.split)
  show rel: "pool_ok (fst (snd (ReleaseIPIfReserved E i p w)))"
    using ReleaseIPIfReserved_ok [OF _ assms] by (metis prod.collapse)
  then show "pool_ok (fst (snd (ReleaseIP E i p w)))"
    by (auto simp: ReleaseIP_def split: prod.splits option.splits)
  have "pool_ok (fst (snd (syncIPs E p w)))" for w
    using syncIPs_ok [OF _ assms] by (metis prod.collapse)
  then show "pool_ok (fst (snd (ReleaseAllIPs E p w)))"
    using assms by (simp add: ReleaseAllIPs_def split: prod.split sum.split)
  show "pool_ok (fst (snd (ip_usage_change E ev p w)))"
    using ip_usage_change_ok [OF _ assms] by (metis prod.collapse)
  show "case NewEtcdBasedAddressPool E' j net client w' of Some (Inr p0, w'') \<Rightarrow> pool_ok p0 | _ \<Rightarrow> True"
    using syncIPs_None_ok
    by (fastforce simp: NewEtcdBasedAddressPool_def Let_def split: option.splits prod.splits sum.splits err.splits)
qed

theorem pool_partition_preserved_witness:
  "pool_ok (fst (snd (ReleaseIPIfReserved ref_env ''10.0.0.5'' demo_pool ([], 7)))) \<and>
    pool_ok (fst (snd (ip_usage_change ref_env (EvDelete ''k'') demo_pool ([], 7))))"
proof
  note P = pool_partition_preserved [OF demo_pool_ok, THEN conjunct2, THEN conjunct2, THEN conjunct2, THEN conjunct2]
  show "pool_ok (fst (snd (ReleaseIPIfReserved ref_env ''10.0.0.5'' demo_pool ([], 7))))"
    by (rule P [THEN conjunct1])
  show "pool_ok (fst (snd (ip_usage_change ref_env (EvDelete ''k'') demo_pool ([], 7))))"
    by (rule P [THEN conjunct2, THEN conjunct2, THEN conjunct1])
qed


lemma demo_pool_v4: "pool_v4 demo_pool" and demo_pool_ne: "unusedIPs demo_pool \<noteq> []"
  by (simp_all add: pool_v4_def demo_pool_simps ParseIP_dotted)


text \<open>
  When etcd answers, and other nodes hold every address that this node still takes for
  unused, \<open>ReserveIP\<close> never returns: a refused address stays among the unused ones, so the loop
  tries the same addresses for ever.
\<close>

theorem ReserveIP_livelock:
  assumes "etcd_contract E kv rely" and "reliable E" and "pool_v4 p" and "unusedIPs p \<noteq> []"
    and "stable rely (\<lambda>m. \<forall>i. map_has (unusedIPs p) i \<longrightarrow> m (allocatedIPKey (ep_client p) i) \<noteq> None)"
    and "\<forall>i. map_has (unusedIPs p) i \<longrightarrow> kv w (allocatedIPKey (ep_client p) i) \<noteq> None"
  shows "ReserveIP E random p w = None"
  unfolding ReserveIP_def by (rule allocateFreeIP_taken [OF assms])

theorem ReserveIP_livelock_witness: "ReserveIP ref_env False demo_pool held_world = None"
proof (rule ReserveIP_livelock [OF etcd_contract_ref reliable_ref demo_pool_v4 demo_pool_ne])
  show "stable (=) (\<lambda>m. \<forall>i. map_has (unusedIPs demo_pool) i \<longrightarrow>
      m (allocatedIPKey (ep_client demo_pool) i) \<noteq> None)"
    by (simp add: stable_def)
  show "\<forall>i. map_has (unusedIPs demo_pool) i \<longrightarrow> ref_kv held_world (allocatedIPKey (ep_client demo_pool) i) \<noteq> None"
    by (simp add: demo_pool_simps held_world_kv)
qed

text \<open>
  A PUT event for an allocated address leaves the pool's mutex locked, and changes nothing
  else: \<open>readAllocation\<close> asks for the keys below the address's own key and never finds the
  allocation, and the branch that reports this does not unlock.
\<close>

theorem put_event_keeps_lock:
  assumes "etcd_contract E kv rely" and "length x = 4" and "k = allocatedIPKey (ep_client p) (dotted x)"
    and "ip_usage_change E (EvPut k v) p w = (locked, p', w')" and "alloc_keyspace (ep_client p) (kv w')"
  shows "locked \<and> p' = p"
proof -
  have key: "trim_left CHR ''/'' (trim_prefix (allocatedIPsKey (ep_client p)) k) = dotted x"
    using hd_dotted_no_slash [OF assms(2)] by (simp add: assms(3) allocatedIPKey_def)
  have str: "ip_String (v4_prefix @ x) = dotted x" by (rule ip_String_mapped [OF assms(2)])
  obtain r w1 where r: "readAllocation E (ep_client p) (dotted x) w = (r, w1)" by fastforce
  have found: "\<not> (\<exists>a. r = Inr (Some a))"
  proof
    assume "\<exists>a. r = Inr (Some a)"
    then obtain a where a: "r = Inr (Some a)" by blast
    then have "w' = w1" using assms(4) slash_not_in_dotted [of x]
      by (auto simp: key ParseIP_dotted [OF assms(2)] str r Let_def split: option.splits)
    then have "alloc_keyspace (ep_client p) (kv w1)" using assms(5) by simp
    from readAllocation_None [OF assms(1) r [unfolded a] this assms(2)] show False by simp
  qed
  have "r = Inr None \<or> (\<exists>e. r = Inl e)"
  proof (cases r)
    case (Inr b)
    with found show ?thesis by (cases b) auto
  qed simp
  then show ?thesis
    using assms(4) slash_not_in_dotted [of x] by (auto simp: key ParseIP_dotted [OF assms(2)] str r)
qed

theorem put_event_keeps_lock_witness:
  "\<exists>w'. ip_usage_change ref_env (EvPut (allocatedIPKey pool_client (dotted [10, 0, 0, 7])) ''reserved'')
      demo_pool ([], 7) = (True, demo_pool, w')"
proof -
  let ?k = "allocatedIPKey pool_client (dotted [10, 0, 0, 7])"
  let ?run = "ip_usage_change ref_env (EvPut ?k ''reserved'') demo_pool ([], 7)"
  have run: "?run = (fst ?run, fst (snd ?run), snd (snd ?run))" by simp
  have kv: "ref_kv (snd (snd ?run)) = ref_kv ([], 7)"
    by (auto simp: readAllocation_def getAllocationsByPrefix_def WithConnection_def etcd_GetPrefix_def
        ref_commit_def Let_def split: option.split)
  have "fst ?run \<and> fst (snd ?run) = demo_pool"
    by (rule put_event_keeps_lock [OF etcd_contract_ref, where x = "[10, 0, 0, 7]" and v = "''reserved''"
        and w = "([], 7)" and w' = "snd (snd ?run)"])
      (simp_all only: demo_pool_simps kv, simp_all add: alloc_keyspace_def)
  with run show ?thesis by (metis (full_types))
qed

end
