(* ===== verification/Fwmarks.thy ===== *)
theory Fwmarks
  imports Etcd Net
begin

text \<open>
  \<open>plugin/pkg/service_lb/fwmarks.go\<close>: the firewall marks of the load balancers, one for each
  service and network, in etcd under \<open>prefix/<network>/list/<mark>\<close> (the service) and
  \<open>prefix/<network>/by-service/<service>\<close> (the mark).  \<open>crypto/rand\<close> is the parameter \<open>R\<close>;
  \<open>hash/crc32\<close> is written out.
\<close>

section \<open>CRC-32\<close>

definition crc_step :: "u32 \<Rightarrow> u32" where
  "crc_step c = (if bit c 0 then drop_bit 1 c XOR 0xEDB88320 else drop_bit 1 c)"

definition crc_byte :: "char \<Rightarrow> u32 \<Rightarrow> u32" where
  "crc_byte b c = (crc_step ^^ 8) (c XOR of_char b)"

definition ChecksumIEEE :: "string \<Rightarrow> u32" where
  "ChecksumIEEE s = NOT (fold crc_byte s 0xFFFFFFFF)"

section \<open>Keys\<close>

record fwmarks =
  fw_client :: etcdClient

definition NewFwmarksManagement :: "etcdClient \<Rightarrow> fwmarks" where
  "NewFwmarksManagement c = \<lparr>fw_client = c\<rparr>"

definition fwmarksListKey :: "fwmarks \<Rightarrow> string \<Rightarrow> string" where
  "fwmarksListKey f networkID = GetKey (fw_client f) [networkID, ''list'']"

definition fwmarkKey :: "fwmarks \<Rightarrow> string \<Rightarrow> string \<Rightarrow> string" where
  "fwmarkKey f networkID fwmark = fwmarksListKey f networkID @ ''/'' @ fwmark"

definition fwmarkServicesKey :: "fwmarks \<Rightarrow> string \<Rightarrow> string" where
  "fwmarkServicesKey f networkID = GetKey (fw_client f) [networkID, ''by-service'']"

definition fwmarkServiceKey :: "fwmarks \<Rightarrow> string \<Rightarrow> string \<Rightarrow> string" where
  "fwmarkServiceKey f networkID serviceID = fwmarkServicesKey f networkID @ ''/'' @ serviceID"

section \<open>Generating a mark\<close>

text \<open>\<open>rand.Read\<close> fills the bytes or fails (\<open>None\<close>).\<close>

type_synonym 'w rand_read = "nat \<Rightarrow> 'w \<Rightarrow> u8 list option \<times> 'w"

definition generateRandomSuffix :: "'w rand_read \<Rightarrow> nat \<Rightarrow> ('w, string) io" where
  "generateRandomSuffix R n w = (case R n w of
      (None, w1) \<Rightarrow> (Inl RandomError, w1)
    | (Some bytes, w1) \<Rightarrow> (Inr (concat (map hex_byte bytes)), w1))"

definition maxAttempts :: nat where "maxAttempts = 1000"
definition suffixLength :: nat where "suffixLength = 4"

text \<open>The loop of \<open>GenerateFWMARK\<close> with the number of attempts that are left.\<close>

fun generate_attempts ::
  "'w rand_read \<Rightarrow> string \<Rightarrow> u32 list \<Rightarrow> nat \<Rightarrow> string \<Rightarrow> ('w, u32) io"
where
  "generate_attempts R serviceID marks 0 currentName w = (Inl NoUniqueFwmark, w)"
| "generate_attempts R serviceID marks (Suc n) currentName w =
     (let fwmark = ChecksumIEEE currentName
      in if fwmark \<notin> set marks then (Inr fwmark, w)
         else (case generateRandomSuffix R suffixLength w of
             (Inl e, w1) \<Rightarrow> (Inl RandomError, w1)
           | (Inr sfx, w1) \<Rightarrow> generate_attempts R serviceID marks n (serviceID @ ''_'' @ sfx) w1))"

definition GenerateFWMARK ::
  "'w rand_read \<Rightarrow> string \<Rightarrow> string \<Rightarrow> u32 list \<Rightarrow> ('w, u32) io" where
  "GenerateFWMARK R serviceID networkID existing =
     generate_attempts R serviceID existing maxAttempts (serviceID @ ''-'' @ networkID)"

section \<open>Getting and releasing\<close>

definition parse_marks :: "string \<Rightarrow> (string \<times> string) list \<Rightarrow> u32 list" where
  "parse_marks listKey kvs =
     List.map_filter (\<lambda>(k, v). parse_uint32 (trim_left CHR ''/'' (trim_prefix listKey k))) kvs"

text \<open>
  The loop of \<open>Get\<close>; it runs again when another node registered the mark after the list was
  read.  \<open>None\<close> is a loop that never ends.
\<close>

partial_function (option) get_loop ::
  "'w env \<Rightarrow> 'w rand_read \<Rightarrow> fwmarks \<Rightarrow> string \<Rightarrow> string \<Rightarrow> 'w \<Rightarrow> (u32 result \<times> 'w) option"
where
  "get_loop E R f serviceID networkID w =
     (case etcd_GetPrefix E (fwmarksListKey f networkID) w of
        (Inl e, w1) \<Rightarrow> Some (Inl e, w1)
      | (Inr kvs, w1) \<Rightarrow>
          (case GenerateFWMARK R serviceID networkID (parse_marks (fwmarksListKey f networkID) kvs) w1 of
             (Inl e, w2) \<Rightarrow> Some (Inl e, w2)
           | (Inr fwmark, w2) \<Rightarrow>
               (case commit E [CreateRev0 (fwmarkKey f networkID (format_dec (unat fwmark)))]
                       [OpPut (fwmarkServiceKey f networkID serviceID) (format_dec (unat fwmark)),
                        OpPut (fwmarkKey f networkID (format_dec (unat fwmark))) serviceID] [] w2 of
                  (Inl e, w3) \<Rightarrow> Some (Inl (OtherError ''etcd transaction failed''), w3)
                | (Inr txnResp, w3) \<Rightarrow>
                    if \<not> Succeeded txnResp then get_loop E R f serviceID networkID w3
                    else Some (Inr fwmark, w3))))"

definition GetFwmark ::
  "'w env \<Rightarrow> 'w rand_read \<Rightarrow> fwmarks \<Rightarrow> string \<Rightarrow> string \<Rightarrow> 'w \<Rightarrow> (u32 result \<times> 'w) option" where
  "GetFwmark E R f serviceID networkID w = (case conn_new E w of
      (Some client_nil, w1) \<Rightarrow> Some (Inl (if client_nil then Panic ''nil client'' else ConnectError), w1)
    | (None, w1) \<Rightarrow>
        (case etcd_Get E (fwmarkServiceKey f networkID serviceID) w1 of
           (Inl e, w2) \<Rightarrow> Some (Inl e, w2)
         | (Inr kvs, w2) \<Rightarrow>
             (case kvs of
                (_, existingFwmark) # _ \<Rightarrow>
                  (case parse_uint32 existingFwmark of
                     Some parsed \<Rightarrow> Some (Inr parsed, w2)
                   | None \<Rightarrow> get_loop E R f serviceID networkID w2)
              | [] \<Rightarrow> get_loop E R f serviceID networkID w2)))"

text \<open>
  \<open>Release\<close>: when the comparisons fail, the error it wraps is the nil error of \<open>Commit\<close>, and
  \<open>errors.WithMessagef\<close> of nil is nil.
\<close>

definition Release :: "'w env \<Rightarrow> fwmarks \<Rightarrow> string \<Rightarrow> string \<Rightarrow> u32 \<Rightarrow> 'w \<Rightarrow> err option \<times> 'w" where
  "Release E f serviceID networkID fwmark w =
     (let fwmarkStr = format_dec (unat fwmark);
          serviceKey = fwmarkServiceKey f networkID serviceID;
          markKey = fwmarkKey f networkID fwmarkStr
      in case WithConnection E (\<lambda>w.
           case commit E [ValueEq serviceKey fwmarkStr, ValueEq markKey serviceID]
                  [OpDelete serviceKey, OpDelete markKey] [] w of
             (Inl e, w1) \<Rightarrow> (Inl (OtherError ''etcd transaction failed''), w1)
           | (Inr resp, w1) \<Rightarrow>
               if \<not> Succeeded resp
               then (case with_message None of None \<Rightarrow> (Inr (), w1) | Some e \<Rightarrow> (Inl e, w1))
               else (Inr (), w1)) w of
           (Inl e, w') \<Rightarrow> (Some e, w')
         | (Inr _, w') \<Rightarrow> (None, w'))"

section \<open>Cleaning up\<close>

text \<open>
  The service and the mark that a key with three parts and its value name; \<open>None\<close> for other keys.
\<close>

definition mark_entry :: "string \<Rightarrow> string \<times> string \<Rightarrow> (string \<times> string) option" where
  "mark_entry pre kv =
     (let (k, v) = kv; keyParts = split_on CHR ''/'' (trim_left CHR ''/'' (trim_prefix pre k))
      in if length keyParts = 3
         then Some (if keyParts ! 1 = ''by-service'' then (keyParts ! 2, v) else (v, keyParts ! 2))
         else None)"

fun clean_marks ::
  "'w env \<Rightarrow> string \<Rightarrow> string list \<Rightarrow> (string \<times> string) list \<Rightarrow> (string, u32) gomap \<Rightarrow> 'w \<Rightarrow>
    (string, u32) gomap \<times> 'w"
where
  "clean_marks E pre existing [] marks w = (marks, w)"
| "clean_marks E pre existing (kv # kvs) marks w =
     (case mark_entry pre kv of
        None \<Rightarrow> clean_marks E pre existing kvs marks w
      | Some (serviceID, fwmarkStr) \<Rightarrow>
          if lo_Some existing [serviceID] then clean_marks E pre existing kvs marks w
          else (case parse_uint32 fwmarkStr of
              None \<Rightarrow> clean_marks E pre existing kvs marks w
            | Some parsed \<Rightarrow>
                (case etcd_Delete E (fst kv) w of
                   (_, w1) \<Rightarrow> clean_marks E pre existing kvs (map_put serviceID parsed marks) w1)))"

definition cleanUpStaleFwmarks ::
  "'w env \<Rightarrow> etcdClient \<Rightarrow> string list \<Rightarrow> ('w, u32 list) io" where
  "cleanUpStaleFwmarks E client existingServices = WithConnection E (\<lambda>w.
     case etcd_GetPrefix E (GetKey client []) w of
       (Inl e, w1) \<Rightarrow> (Inl e, w1)
     | (Inr kvs, w1) \<Rightarrow>
         (case clean_marks E (GetKey client []) existingServices kvs [] w1 of
            (marks, w2) \<Rightarrow> (Inr (map_vals marks), w2)))"

section \<open>Lemmas\<close>

lemma fwmark_keys_neq: "fwmarkServiceKey f n s \<noteq> fwmarkKey f n t"
  by (simp add: fwmarkServiceKey_def fwmarkKey_def fwmarkServicesKey_def fwmarksListKey_def GetKey_def)

lemma generateRandomSuffix_kv:
  assumes "\<And>n w. kv (snd (R n w)) = kv w"
  shows "kv (snd (generateRandomSuffix R n w)) = kv w"
  using assms [of n w] by (auto simp: generateRandomSuffix_def split: prod.splits option.splits)

lemma generate_attempts_kv:
  assumes "\<And>n w. kv (snd (R n w)) = kv w"
  shows "kv (snd (generate_attempts R sid marks n name w)) = kv w"
proof (induction n arbitrary: name w)
  case (Suc n)
  show ?case
    using Suc.IH generateRandomSuffix_kv [of kv R suffixLength w, OF assms]
    by (auto simp: Let_def split: prod.splits sum.splits)
qed simp

lemma generate_attempts_fresh:
  "generate_attempts R sid marks n name w = (Inr mark, w') \<Longrightarrow> mark \<notin> set marks"
  by (induction n arbitrary: name w) (auto simp: Let_def split: prod.splits sum.splits if_splits)

lemma GenerateFWMARK_fresh: "GenerateFWMARK R sid nid marks w = (Inr mark, w') \<Longrightarrow> mark \<notin> set marks"
  unfolding GenerateFWMARK_def by (rule generate_attempts_fresh)

lemma GenerateFWMARK_kv:
  assumes "\<And>n w. kv (snd (R n w)) = kv w" and "GenerateFWMARK R sid nid marks w = (r, w')"
  shows "kv w' = kv w"
  using generate_attempts_kv [of kv R, OF assms(1)] assms(2) unfolding GenerateFWMARK_def by (metis snd_conv)

lemma parse_marks_mem:
  assumes "(fwmarkKey f nid (format_dec (unat mark)), v) \<in> set kvs"
  shows "mark \<in> set (parse_marks (fwmarksListKey f nid) kvs)"
proof -
  have "hd (format_dec (unat mark)) \<in> set (format_dec (unat mark))" by (rule hd_in_set) simp
  moreover have "CHR ''/'' \<notin> set (format_dec (unat mark))"
    by (rule not_digit_not_in_format) (simp add: is_digit_def)
  ultimately have "hd (format_dec (unat mark)) \<noteq> CHR ''/''" by metis
  then have "trim_left CHR ''/'' (trim_prefix (fwmarksListKey f nid) (fwmarkKey f nid (format_dec (unat mark)))) =
      format_dec (unat mark)"
    by (simp add: fwmarkKey_def)
  then show ?thesis
    using assms by (force simp: parse_marks_def List.map_filter_def)
qed

text \<open>The recorded or fresh mark that \<open>Get\<close> returns.\<close>

definition got_mark ::
  "(keyspace \<Rightarrow> keyspace \<Rightarrow> bool) \<Rightarrow> fwmarks \<Rightarrow> string \<Rightarrow> string \<Rightarrow> keyspace \<Rightarrow> u32 \<Rightarrow> keyspace \<Rightarrow> bool" where
  "got_mark rely f sid nid m0 mark m' \<longleftrightarrow>
     (rely m0 m' \<and> (\<exists>txt. m' (fwmarkServiceKey f nid sid) = Some txt \<and> parse_uint32 txt = Some mark)) \<or>
     (\<exists>m. rely m0 m \<and> m (fwmarkKey f nid (format_dec (unat mark))) = None \<and>
        m' = m(fwmarkServiceKey f nid sid \<mapsto> format_dec (unat mark),
               fwmarkKey f nid (format_dec (unat mark)) \<mapsto> sid))"

lemma get_loop_fresh:
  assumes C: "etcd_contract E kv rely" and R: "\<And>n w. kv (snd (R n w)) = kv w"
    and run: "get_loop E R f sid nid w = Some (r, w')"
  shows "\<forall>mark. r = Inr mark \<longrightarrow> (\<exists>m. rely (kv w) m \<and> m (fwmarkKey f nid (format_dec (unat mark))) = None \<and>
        kv w' = m(fwmarkServiceKey f nid sid \<mapsto> format_dec (unat mark),
               fwmarkKey f nid (format_dec (unat mark)) \<mapsto> sid))"
proof -
  have "case (r, w') of (r, w') \<Rightarrow> E = E \<and> R = R \<longrightarrow> (\<forall>mark. r = Inr mark \<longrightarrow>
      (\<exists>m. rely (kv w) m \<and> m (fwmarkKey f nid (format_dec (unat mark))) = None \<and>
        kv w' = m(fwmarkServiceKey f nid sid \<mapsto> format_dec (unat mark),
               fwmarkKey f nid (format_dec (unat mark)) \<mapsto> sid)))"
  proof (rule get_loop.raw_induct [where P = "\<lambda>E' R' f sid nid w (r, w'). E' = E \<and> R' = R \<longrightarrow> (\<forall>mark. r = Inr mark \<longrightarrow>
      (\<exists>m. rely (kv w) m \<and> m (fwmarkKey f nid (format_dec (unat mark))) = None \<and>
        kv w' = m(fwmarkServiceKey f nid sid \<mapsto> format_dec (unat mark),
               fwmarkKey f nid (format_dec (unat mark)) \<mapsto> sid)))", OF _ run])
    fix loop E' R' f sid nid w res
    assume IH: "\<And>E' R' f sid nid w res. loop E' R' f sid nid w = Some res \<Longrightarrow> (case res of (r, w') \<Rightarrow>
        E' = E \<and> R' = R \<longrightarrow> (\<forall>mark. r = Inr mark \<longrightarrow>
          (\<exists>m. rely (kv w) m \<and> m (fwmarkKey f nid (format_dec (unat mark))) = None \<and>
            kv w' = m(fwmarkServiceKey f nid sid \<mapsto> format_dec (unat mark),
               fwmarkKey f nid (format_dec (unat mark)) \<mapsto> sid))))"
      and body: "(case etcd_GetPrefix E' (fwmarksListKey f nid) w of
        (Inl e, w1) \<Rightarrow> Some (Inl e, w1)
      | (Inr kvs, w1) \<Rightarrow>
          (case GenerateFWMARK R' sid nid (parse_marks (fwmarksListKey f nid) kvs) w1 of
             (Inl e, w2) \<Rightarrow> Some (Inl e, w2)
           | (Inr fwmark, w2) \<Rightarrow>
               (case commit E' [CreateRev0 (fwmarkKey f nid (format_dec (unat fwmark)))]
                       [OpPut (fwmarkServiceKey f nid sid) (format_dec (unat fwmark)),
                        OpPut (fwmarkKey f nid (format_dec (unat fwmark))) sid] [] w2 of
                  (Inl e, w3) \<Rightarrow> Some (Inl (OtherError ''etcd transaction failed''), w3)
                | (Inr txnResp, w3) \<Rightarrow>
                    if \<not> Succeeded txnResp then loop E' R' f sid nid w3
                    else Some (Inr fwmark, w3)))) = Some res"
    obtain r w' where res: "res = (r, w')" by (cases res)
    have "\<exists>m. rely (kv w) m \<and> m (fwmarkKey f nid (format_dec (unat mark))) = None \<and>
        kv w' = m(fwmarkServiceKey f nid sid \<mapsto> format_dec (unat mark),
               fwmarkKey f nid (format_dec (unat mark)) \<mapsto> sid)"
      if eqs: "E' = E" "R' = R" and mark: "r = Inr mark" for mark
    proof -
      note body = body [unfolded eqs res mark]
      obtain kvs w1 where a: "etcd_GetPrefix E (fwmarksListKey f nid) w = (Inr kvs, w1)"
        using body by (auto split: prod.splits sum.splits)
      obtain fm w2 where b: "GenerateFWMARK R sid nid (parse_marks (fwmarksListKey f nid) kvs) w1 = (Inr fm, w2)"
        using body a by (auto split: prod.splits sum.splits)
      let ?cs = "[CreateRev0 (fwmarkKey f nid (format_dec (unat fm)))]"
      let ?ts = "[OpPut (fwmarkServiceKey f nid sid) (format_dec (unat fm)),
                  OpPut (fwmarkKey f nid (format_dec (unat fm))) sid]"
      obtain t w3 where d: "commit E ?cs ?ts [] w2 = (Inr t, w3)"
        using body a b by (auto split: prod.splits sum.splits)
      obtain m where m: "rely (kv w2) m" "Succeeded t = list_all (cmp_holds m) ?cs"
        and ops: "run_ops (if Succeeded t then ?ts else []) m (Responses t) (kv w3)"
        by (rule commit_Inr [OF C d])
      have rel: "rely (kv w) m"
        using etcd_rely_trans [OF C etcd_GetPrefix_Inr(1) [OF C a], of m] m(1)
          GenerateFWMARK_kv [of kv R, OF R b] by simp
      show ?thesis
      proof (cases "Succeeded t")
        case True
        then have "mark = fm" "w' = w3" using body a b d by auto
        moreover have "kv w3 = fold op_effect ?ts m" using run_ops_effect [OF ops] True by simp
        ultimately show ?thesis using rel m(2) True by (intro exI [of _ m]) simp
      next
        case False
        then have "kv w3 = m" using ops by simp
        moreover have "loop E R f sid nid w3 = Some (Inr mark, w')" using body a b d False by simp
        ultimately show ?thesis using IH [of E R f sid nid w3 "(Inr mark, w')"] etcd_rely_trans [OF C rel] by auto
      qed
    qed
    then show "case res of (r, w') \<Rightarrow> E' = E \<and> R' = R \<longrightarrow> (\<forall>mark. r = Inr mark \<longrightarrow>
      (\<exists>m. rely (kv w) m \<and> m (fwmarkKey f nid (format_dec (unat mark))) = None \<and>
        kv w' = m(fwmarkServiceKey f nid sid \<mapsto> format_dec (unat mark),
               fwmarkKey f nid (format_dec (unat mark)) \<mapsto> sid)))" by (simp add: res)
  qed
  then show ?thesis by simp
qed

lemma GetFwmark_Inr:
  assumes C: "etcd_contract E kv rely" and R: "\<And>n w. kv (snd (R n w)) = kv w"
    and run: "GetFwmark E R f sid nid w = Some (Inr mark, w')"
  shows "got_mark rely f sid nid (kv w) mark (kv w')"
proof -
  obtain w1 where w1: "conn_new E w = (None, w1)"
    using run by (auto simp: GetFwmark_def split: prod.splits option.splits)
  obtain kvs w2 where g: "etcd_Get E (fwmarkServiceKey f nid sid) w1 = (Inr kvs, w2)"
    using run w1 by (auto simp: GetFwmark_def split: prod.splits sum.splits)
  note gi = etcd_Get_Inr [OF C g]
  have rel: "rely (kv w) (kv w2)" using etcd_rely_trans [OF C conn_new_rely [OF C w1]] gi by blast
  show ?thesis
  proof (cases "\<exists>k v kvs'. kvs = (k, v) # kvs' \<and> parse_uint32 v \<noteq> None")
    case True
    then obtain k v kvs' where kvs: "kvs = (k, v) # kvs'" "parse_uint32 v \<noteq> None" by blast
    then have "parse_uint32 v = Some mark" "w' = w2"
      using run w1 g by (auto simp: GetFwmark_def)
    moreover have "kv w2 (fwmarkServiceKey f nid sid) = Some v"
      using gi kvs(1) by (auto split: option.splits)
    ultimately show ?thesis using rel by (auto simp: got_mark_def)
  next
    case False
    then have "get_loop E R f sid nid w2 = Some (Inr mark, w')"
      using run w1 g by (auto simp: GetFwmark_def split: list.splits option.splits)
    from get_loop_fresh [of E kv rely R, OF C R this] show ?thesis
      using etcd_rely_trans [OF C rel] unfolding got_mark_def by blast
  qed
qed

text \<open>Without interference the loop runs once: the generated mark is not among those just listed.\<close>

lemma get_loop_alone:
  assumes C: "etcd_contract E kv (=)" and R: "\<And>n w. kv (snd (R n w)) = kv w"
  shows "\<exists>r w'. get_loop E R f sid nid w = Some (r, w')"
proof -
  obtain a w1 where a: "etcd_GetPrefix E (fwmarksListKey f nid) w = (a, w1)" by fastforce
  show ?thesis
  proof (cases a)
    case (Inl e)
    then show ?thesis by (subst get_loop.simps) (simp add: a)
  next
    case (Inr kvs)
    obtain b w2 where b: "GenerateFWMARK R sid nid (parse_marks (fwmarksListKey f nid) kvs) w1 = (b, w2)"
      by fastforce
    show ?thesis
    proof (cases b)
      case (Inl e)
      then show ?thesis by (subst get_loop.simps) (simp add: a Inr b)
    next
      case fm: (Inr fm)
      let ?k = "fwmarkKey f nid (format_dec (unat fm))"
      let ?ts = "[OpPut (fwmarkServiceKey f nid sid) (format_dec (unat fm)), OpPut ?k sid]"
      have free: "kv w2 ?k = None"
      proof (rule ccontr)
        assume "kv w2 ?k \<noteq> None"
        then obtain v where "kv w1 ?k = Some v" using GenerateFWMARK_kv [of kv R, OF R b] by auto
        moreover have "prefix (fwmarksListKey f nid) ?k" by (simp add: fwmarkKey_def)
        ultimately have "(?k, v) \<in> set kvs" using etcd_GetPrefix_Inr(3) [OF C a [unfolded Inr]] by blast
        from parse_marks_mem [OF this] GenerateFWMARK_fresh [OF b [unfolded fm]] show False by simp
      qed
      obtain d w3 where d: "commit E [CreateRev0 ?k] ?ts [] w2 = (d, w3)" by fastforce
      show ?thesis
      proof (cases d)
        case (Inl e)
        then show ?thesis by (subst get_loop.simps) (simp add: a Inr b fm d)
      next
        case t: (Inr t)
        have "Succeeded t" by (rule commit_Inr [OF C d [unfolded t]]) (simp add: free)
        then show ?thesis by (subst get_loop.simps) (simp add: a Inr b fm d t)
      qed
    qed
  qed
qed

lemma GetFwmark_alone:
  assumes "etcd_contract E kv (=)" and "\<And>n w. kv (snd (R n w)) = kv w"
  shows "\<exists>r w'. GetFwmark E R f sid nid w = Some (r, w')"
  using get_loop_alone [of E kv R f sid nid, OF assms]
  by (auto simp: GetFwmark_def split: prod.splits option.splits sum.splits list.splits)

lemma got_mark_recorded:
  "got_mark (=) f sid nid m0 mark m' \<Longrightarrow>
    \<exists>txt. m' (fwmarkServiceKey f nid sid) = Some txt \<and> parse_uint32 txt = Some mark"
  using fwmark_keys_neq [of f nid sid "format_dec (unat mark)"] by (auto simp: got_mark_def)

lemma GetFwmark_recorded:
  assumes C: "etcd_contract E kv (=)"
    and rec: "kv w (fwmarkServiceKey f nid sid) = Some txt" "parse_uint32 txt = Some mark"
    and run: "GetFwmark E R f sid nid w = Some (Inr mark', w')"
  shows "mark' = mark \<and> kv w' = kv w"
proof -
  obtain w1 where w1: "conn_new E w = (None, w1)"
    using run by (auto simp: GetFwmark_def split: prod.splits option.splits)
  obtain kvs w2 where g: "etcd_Get E (fwmarkServiceKey f nid sid) w1 = (Inr kvs, w2)"
    using run w1 by (auto simp: GetFwmark_def split: prod.splits sum.splits)
  have kv: "kv w = kv w1" "kv w1 = kv w2"
    using conn_new_rely [OF C w1] etcd_Get_Inr [OF C g] by auto
  then have "kvs = [(fwmarkServiceKey f nid sid, txt)]"
    using etcd_Get_Inr [OF C g] rec(1) by simp
  then show ?thesis using run w1 g rec(2) kv by (simp add: GetFwmark_def)
qed

text \<open>Cleaning up.\<close>

definition stale_mark :: "string \<Rightarrow> string list \<Rightarrow> string \<times> string \<Rightarrow> bool" where
  "stale_mark pre existing kv = (case mark_entry pre kv of
      None \<Rightarrow> False
    | Some (sid, txt) \<Rightarrow> sid \<notin> set existing \<and> parse_uint32 txt \<noteq> None)"

lemma clean_marks_effect:
  assumes C: "etcd_contract E kv (=)" and R: "reliable E"
  shows "clean_marks E pre existing kvs marks w = (marks', w') \<Longrightarrow>
    kv w' = (\<lambda>k. if k \<in> fst ` set (filter (stale_mark pre existing) kvs) then None else kv w k) \<and>
    (\<forall>sid. map_has marks' sid \<longleftrightarrow> map_has marks sid \<or>
       (\<exists>kv' \<in> set kvs. stale_mark pre existing kv' \<and> fst (the (mark_entry pre kv')) = sid))"
proof (induction kvs arbitrary: marks w)
  case (Cons kv1 kvs)
  show ?case
  proof (cases "stale_mark pre existing kv1")
    case False
    then have "clean_marks E pre existing kvs marks w = (marks', w')"
      using Cons.prems by (auto simp: stale_mark_def split: option.splits prod.splits if_splits)
    from Cons.IH [OF this] False show ?thesis by simp
  next
    case True
    then obtain sid tx mark where e: "mark_entry pre kv1 = Some (sid, tx)" "sid \<notin> set existing"
      "parse_uint32 tx = Some mark" by (auto simp: stale_mark_def split: option.splits)
    obtain w1 where w1: "etcd_Delete E (fst kv1) w = (Inr (), w1)" by (rule etcd_Delete_reliable [OF R])
    have run: "clean_marks E pre existing kvs (map_put sid mark marks) w1 = (marks', w')"
      using Cons.prems e w1 by simp
    note IH = Cons.IH [OF run]
    have kv1': "kv w1 = (kv w)(fst kv1 := None)" by (rule etcd_Delete_alone [OF C w1])
    show ?thesis
    proof
      show "kv w' = (\<lambda>k. if k \<in> fst ` set (filter (stale_mark pre existing) (kv1 # kvs)) then None else kv w k)"
        using IH [THEN conjunct1] True by (simp add: kv1' fun_eq_iff)
      show "\<forall>s. map_has marks' s \<longleftrightarrow> map_has marks s \<or>
         (\<exists>kv' \<in> set (kv1 # kvs). stale_mark pre existing kv' \<and> fst (the (mark_entry pre kv')) = s)"
        using IH [THEN conjunct2] True e(1) by (auto; metis fst_conv option.sel)
    qed
  qed
qed simp

lemma cleanUp_effect:
  assumes C: "etcd_contract E kv (=)" and R: "reliable E"
    and run: "cleanUpStaleFwmarks E c existing w = (Inr marks, w')"
  shows "kv w' = (\<lambda>k. case kv w k of None \<Rightarrow> None
    | Some v \<Rightarrow> if prefix (GetKey c []) k \<and> stale_mark (GetKey c []) existing (k, v) then None else Some v)"
proof -
  obtain w1 where w1: "conn_new E w = (None, w1)" and
    r1: "(case etcd_GetPrefix E (GetKey c []) w1 of (Inl e, w1) \<Rightarrow> (Inl e, w1)
     | (Inr kvs, w1) \<Rightarrow> (case clean_marks E (GetKey c []) existing kvs [] w1 of
            (marks, w2) \<Rightarrow> (Inr (map_vals marks), w2))) = (Inr marks, w')"
    using run unfolding cleanUpStaleFwmarks_def by (rule WithConnection_Inr)
  obtain kvs w2 where g: "etcd_GetPrefix E (GetKey c []) w1 = (Inr kvs, w2)"
    using r1 by (auto split: prod.splits sum.splits)
  obtain ms where cl: "clean_marks E (GetKey c []) existing kvs [] w2 = (ms, w')"
    using r1 g by (auto split: prod.splits)
  have kv: "kv w2 = kv w" using conn_new_rely [OF C w1] etcd_GetPrefix_Inr(1) [OF C g] by simp
  note mem = etcd_GetPrefix_Inr(3) [OF C g]
  have "k \<in> fst ` set (filter (stale_mark (GetKey c []) existing) kvs) \<longleftrightarrow>
      (\<exists>v. prefix (GetKey c []) k \<and> kv w k = Some v \<and> stale_mark (GetKey c []) existing (k, v))" for k
    using mem [of k] unfolding kv by (auto simp: image_iff)
  then show ?thesis
    unfolding clean_marks_effect [OF C R cl, THEN conjunct1] kv
    by (auto simp: fun_eq_iff split: option.splits)
qed

lemma GenerateFWMARK_first:
  assumes "ChecksumIEEE (sid @ ''-'' @ nid) \<notin> set marks"
  shows "GenerateFWMARK R sid nid marks w = (Inr (ChecksumIEEE (sid @ ''-'' @ nid)), w)"
proof -
  obtain k where k: "maxAttempts = Suc k" by (cases maxAttempts) (simp_all add: maxAttempts_def)
  show ?thesis unfolding GenerateFWMARK_def k using assms by simp
qed

section \<open>Properties\<close>

text \<open>
  C16: no two services of a network get the same new mark: when \<open>Get\<close> returns a mark, it is the
  one recorded for the service, or one that no service had at the moment when the mark and the
  service were recorded together, whatever the other nodes do in between.
\<close>

theorem fwmark_exclusive:
  assumes "etcd_contract E kv rely" and "\<And>n w. kv (snd (R n w)) = kv w"
    and "GetFwmark E R f serviceID networkID w = Some (Inr mark, w')"
  shows "(rely (kv w) (kv w') \<and> (\<exists>t. kv w' (fwmarkServiceKey f networkID serviceID) = Some t \<and>
       parse_uint32 t = Some mark)) \<or>
    (\<exists>m. rely (kv w) m \<and> m (fwmarkKey f networkID (format_dec (unat mark))) = None \<and>
       kv w' = m(fwmarkServiceKey f networkID serviceID \<mapsto> format_dec (unat mark),
                 fwmarkKey f networkID (format_dec (unat mark)) \<mapsto> serviceID))"
  using GetFwmark_Inr [of E kv rely R, OF assms] unfolding got_mark_def .

definition fw_demo :: fwmarks where
  "fw_demo = NewFwmarksManagement (NewEtcdClient [''http://etcd:2379''] 5 ''/flannel/fwmarks'')"

definition zero_rand :: "ref_world rand_read" where
  "zero_rand n w = (Some (replicate n 0), w)"

lemma zero_rand_kv: "ref_kv (snd (zero_rand n w)) = ref_kv w"
  by (simp add: zero_rand_def)

lemma fw_demo_run:
  "\<exists>w'. GetFwmark ref_env zero_rand fw_demo ''svc1'' ''net1'' ([], 0) =
     Some (Inr (ChecksumIEEE ''svc1-net1''), w') \<and>
   ref_kv w' = [fwmarkServiceKey fw_demo ''net1'' ''svc1'' \<mapsto> format_dec (unat (ChecksumIEEE ''svc1-net1'')),
     fwmarkKey fw_demo ''net1'' (format_dec (unat (ChecksumIEEE ''svc1-net1''))) \<mapsto> ''svc1'']"
proof -
  have "GenerateFWMARK zero_rand ''svc1'' ''net1'' [] w = (Inr (ChecksumIEEE ''svc1-net1''), w)" for w
    using GenerateFWMARK_first [of "''svc1''" "''net1''" "[]"] by simp
  moreover have "map_get [] = (Map.empty :: keyspace)" by (rule ext) simp
  ultimately show ?thesis
    by (subst GetFwmark_def, subst get_loop.simps)
      (simp add: etcd_Get_def etcd_GetPrefix_def ref_commit_def Let_def parse_marks_def List.map_filter_def
        map_get_put_fun)
qed

theorem fwmark_exclusive_witness:
  "\<exists>w'. GetFwmark ref_env zero_rand fw_demo ''svc1'' ''net1'' ([], 0) =
     Some (Inr (ChecksumIEEE ''svc1-net1''), w') \<and>
    ref_kv w' (fwmarkServiceKey fw_demo ''net1'' ''svc1'') \<noteq> None"
proof -
  obtain w' where run: "GetFwmark ref_env zero_rand fw_demo ''svc1'' ''net1'' ([], 0) =
      Some (Inr (ChecksumIEEE ''svc1-net1''), w')" using fw_demo_run by blast
  from fwmark_exclusive [OF etcd_contract_ref zero_rand_kv run]
  have "ref_kv w' (fwmarkServiceKey fw_demo ''net1'' ''svc1'') \<noteq> None" by (auto simp del: not_None_eq)
  with run show ?thesis by blast
qed

text \<open>
  C30: with no other writer, \<open>Get\<close> always returns, although its loop has no bound, and calling it
  again returns the mark it returned first and changes nothing.
\<close>

theorem fwmark_Get_returns_and_repeats:
  assumes "etcd_contract E kv (=)" and "\<And>n w. kv (snd (R n w)) = kv w"
  shows "(\<exists>r w1. GetFwmark E R f serviceID networkID w = Some (r, w1)) \<and>
    (\<forall>mark w1 mark2 w2. GetFwmark E R f serviceID networkID w = Some (Inr mark, w1) \<and>
       GetFwmark E R f serviceID networkID w1 = Some (Inr mark2, w2) \<longrightarrow> mark2 = mark \<and> kv w2 = kv w1)"
proof (intro conjI allI impI)
  show "\<exists>r w1. GetFwmark E R f serviceID networkID w = Some (r, w1)"
    by (rule GetFwmark_alone [of E kv R, OF assms])
next
  fix mark w1 mark2 w2
  assume runs: "GetFwmark E R f serviceID networkID w = Some (Inr mark, w1) \<and>
       GetFwmark E R f serviceID networkID w1 = Some (Inr mark2, w2)"
  then obtain t where t: "kv w1 (fwmarkServiceKey f networkID serviceID) = Some t" "parse_uint32 t = Some mark"
    using got_mark_recorded GetFwmark_Inr [of E kv "(=)" R, OF assms] by blast
  show "mark2 = mark" "kv w2 = kv w1"
    using GetFwmark_recorded [OF assms(1) t runs [THEN conjunct2]] by blast+
qed

theorem fwmark_Get_returns_and_repeats_witness:
  "\<exists>r w1. GetFwmark ref_env zero_rand fw_demo ''svc1'' ''net1'' ([], 0) = Some (r, w1)"
  by (rule fwmark_Get_returns_and_repeats [OF etcd_contract_ref zero_rand_kv, THEN conjunct1])

text \<open>
  \<open>Release\<close> with no other writer deletes the two keys when they record the mark for the
  service, and changes nothing otherwise; it reports no error in either case, since the error it
  means to return for the second wraps a nil error.
\<close>

theorem fwmark_Release_silent:
  assumes "etcd_contract E kv (=)" and "reliable E"
    and "Release E f serviceID networkID fwmark w = (r, w')"
  shows "r = None \<and> kv w' =
    (if kv w (fwmarkServiceKey f networkID serviceID) = Some (format_dec (unat fwmark)) \<and>
        kv w (fwmarkKey f networkID (format_dec (unat fwmark))) = Some serviceID
     then (kv w)(fwmarkServiceKey f networkID serviceID := None,
                 fwmarkKey f networkID (format_dec (unat fwmark)) := None)
     else kv w)"
proof -
  let ?s = "fwmarkServiceKey f networkID serviceID" and ?m = "fwmarkKey f networkID (format_dec (unat fwmark))"
  let ?cs = "[ValueEq ?s (format_dec (unat fwmark)), ValueEq ?m serviceID]"
  let ?ts = "[OpDelete ?s, OpDelete ?m]"
  obtain w1 where w1: "conn_new E w = (None, w1)" using assms(2) unfolding reliable_def by (metis prod.collapse)
  obtain t w2 where t: "commit E ?cs ?ts [] w1 = (Inr t, w2)" using assms(2) unfolding reliable_def by metis
  have "r = None" "w' = w2"
    using assms(3) w1 t by (auto simp: Release_def WithConnection_def Let_def split: if_splits)
  moreover obtain m where m: "kv w1 = m" "Succeeded t = list_all (cmp_holds m) ?cs"
    and ops: "run_ops (if Succeeded t then ?ts else []) m (Responses t) (kv w2)"
    by (rule commit_Inr [OF assms(1) t])
  moreover have "kv w = kv w1" using conn_new_rely [OF assms(1) w1] .
  ultimately show ?thesis using run_ops_effect [OF ops] by simp
qed

theorem fwmark_Release_silent_witness:
  "fst (Release ref_env fw_demo ''svc1'' ''net1'' 5 ([], 0)) = None"
  using fwmark_Release_silent [OF etcd_contract_ref reliable_ref prod.collapse [symmetric],
      of fw_demo "''svc1''" "''net1''" 5 "([], 0)"] by (rule conjunct1)

text \<open>
  \<open>cleanUpStaleFwmarks\<close> with no other writer deletes exactly the mark entries, of either kind,
  of the services that no longer exist and whose mark can be parsed, and leaves all other keys.
\<close>

theorem cleanUpStaleFwmarks_deletes:
  assumes "etcd_contract E kv (=)" and "reliable E"
    and "cleanUpStaleFwmarks E client existing w = (Inr marks, w')"
  shows "kv w' = (\<lambda>k. case kv w k of None \<Rightarrow> None
    | Some v \<Rightarrow> if prefix (GetKey client []) k \<and> stale_mark (GetKey client []) existing (k, v)
        then None else Some v)"
  by (rule cleanUp_effect [OF assms])

theorem cleanUpStaleFwmarks_deletes_witness:
  "\<exists>marks w'. cleanUpStaleFwmarks ref_env (fw_client fw_demo) [] ([(''/flannel/fwmarks/net1/list/7'', ''svc1'')], 0) =
      (Inr marks, w') \<and> ref_kv w' ''/flannel/fwmarks/net1/list/7'' = None"
proof -
  let ?w = "([(''/flannel/fwmarks/net1/list/7'', ''svc1'')], 0) :: ref_world"
  have key: "GetKey (fw_client fw_demo) [] = ''/flannel/fwmarks''"
    by (simp add: fw_demo_def NewFwmarksManagement_def NewEtcdClient_def trim_right_def)
  obtain marks w' where run: "cleanUpStaleFwmarks ref_env (fw_client fw_demo) [] ?w = (Inr marks, w')"
    by (simp add: cleanUpStaleFwmarks_def WithConnection_def etcd_GetPrefix_def ref_commit_def Let_def
        case_prod_unfold)
  have "stale_mark ''/flannel/fwmarks'' [] (''/flannel/fwmarks/net1/list/7'', ''svc1'')"
    by (simp add: stale_mark_def mark_entry_def Let_def trim_prefix_def trim_left_def parse_uint32_def parse_dec_def
        is_digit_def digits_val_def)
  then have "ref_kv w' ''/flannel/fwmarks/net1/list/7'' = None"
    using cleanUpStaleFwmarks_deletes [OF etcd_contract_ref reliable_ref run] unfolding key
    by (simp add: fun_eq_iff)
  with run show ?thesis by blast
qed

end
