(* ===== verification/Resolver.thy ===== *)
theory Resolver
  imports Service "HOL-Library.List_Lexorder" "HOL-Library.Char_ord"
begin

text \<open>
  \<open>plugin/pkg/dns/resolver.go\<close>: the tables from which the plugin answers DNS queries of
  containers.  The resolver keeps references to the service objects, which change behind its
  back; \<open>\<sigma>\<close> is the current store of the services, indexed by references of type \<open>'r\<close>.
  \<open>sort.Slice\<close> and \<open>lo.Shuffle\<close> are the parameters \<open>sortf\<close> and \<open>shuffle\<close>; \<open>insertion_sort\<close> is what
  \<open>sort.Slice\<close> does with at most twelve elements.
\<close>

section \<open>The tables\<close>

record containerDNSNameData =
  containerID :: string
  networkID :: string
  dns_ip :: ip

record 'r resolver =
  networkNameToID :: "(string, string) gomap"
  networkIDToName :: "(string, string) gomap"
  containerData :: "(string, containerDNSNameData list) gomap"
  serviceData :: "(string, 'r) gomap"
  dockerCompatibilityMode :: bool
  ttl :: nat

definition NewResolver :: "bool \<Rightarrow> 'r resolver" where
  "NewResolver docker = \<lparr>networkNameToID = [], networkIDToName = [], containerData = [],
     serviceData = [], dockerCompatibilityMode = docker, ttl = 600\<rparr>"

definition AddService :: "('r \<Rightarrow> service) \<Rightarrow> 'r \<Rightarrow> 'r resolver \<Rightarrow> 'r resolver" where
  "AddService \<sigma> s r = r\<lparr>serviceData := map_put (si_Name (GetInfo (\<sigma> s))) s (serviceData r)\<rparr>"

definition RemoveService :: "('r \<Rightarrow> service) \<Rightarrow> 'r \<Rightarrow> 'r resolver \<Rightarrow> 'r resolver" where
  "RemoveService \<sigma> s r = r\<lparr>serviceData := map_del (si_Name (GetInfo (\<sigma> s))) (serviceData r)\<rparr>"

definition AddNetwork :: "NetworkInfo \<Rightarrow> 'r resolver \<Rightarrow> 'r resolver" where
  "AddNetwork network r = r\<lparr>networkNameToID := map_put (Name network) (DockerID network) (networkNameToID r),
     networkIDToName := map_put (DockerID network) (Name network) (networkIDToName r)\<rparr>"

text \<open>\<open>RemoveNetwork\<close> deletes the identifier from the map of names and the name from that of identifiers.\<close>

definition RemoveNetwork :: "NetworkInfo \<Rightarrow> 'r resolver \<Rightarrow> 'r resolver" where
  "RemoveNetwork network r = r\<lparr>networkNameToID := map_del (DockerID network) (networkNameToID r),
     networkIDToName := map_del (Name network) (networkIDToName r)\<rparr>"

section \<open>Containers\<close>

definition add :: "string \<Rightarrow> 'a \<Rightarrow> (string, 'a list) gomap \<Rightarrow> (string, 'a list) gomap" where
  "add key item m = map_put key ((case map_get m key of None \<Rightarrow> [] | Some items \<Rightarrow> items) @ [item]) m"

definition remove :: "string \<Rightarrow> ('a \<Rightarrow> bool) \<Rightarrow> (string, 'a list) gomap \<Rightarrow> (string, 'a list) gomap" where
  "remove key P m =
     (let items = (case map_get m key of None \<Rightarrow> [] | Some items \<Rightarrow> filter (\<lambda>item. \<not> P item) items)
      in if length items = 0 then map_del key m else map_put key items m)"

text \<open>The zero value of an address that the map of a container does not have is nil.\<close>

definition dns_item :: "ContainerInfo \<Rightarrow> string \<Rightarrow> containerDNSNameData" where
  "dns_item c n = \<lparr>containerID = c_ID c, networkID = n,
     dns_ip = (case map_get (c_IPs c) n of None \<Rightarrow> [] | Some x \<Rightarrow> x)\<rparr>"

definition resolver_AddContainer :: "ContainerInfo \<Rightarrow> 'r resolver \<Rightarrow> 'r resolver" where
  "resolver_AddContainer c r = r\<lparr>containerData :=
     fold (\<lambda>(n, names). fold (\<lambda>d. add d (dns_item c n)) names) (c_DNSNames c) (containerData r)\<rparr>"

definition resolver_RemoveContainer :: "ContainerInfo \<Rightarrow> 'r resolver \<Rightarrow> 'r resolver" where
  "resolver_RemoveContainer c r = r\<lparr>containerData :=
     fold (\<lambda>(n, names). fold (\<lambda>d. remove d (\<lambda>item. containerID item = c_ID c)) names)
       (c_DNSNames c) (containerData r)\<rparr>"

text \<open>
  \<open>UpdateContainer\<close>: the names known so far, by network; then the names that are missing are
  added and, of the known ones, those that are not named any more are left over and removed.
\<close>

definition known_item ::
  "string \<Rightarrow> string \<Rightarrow> containerDNSNameData \<Rightarrow> (string, (string, unit) gomap) gomap \<Rightarrow>
    (string, (string, unit) gomap) gomap"
where
  "known_item i dnsName item known =
     (if containerID item = i
      then (let networkData = (case map_get known (networkID item) of None \<Rightarrow> [] | Some nd \<Rightarrow> nd)
            in map_put (networkID item) (map_put dnsName () networkData) known)
      else known)"

definition knownDnsNames ::
  "string \<Rightarrow> (string, containerDNSNameData list) gomap \<Rightarrow> (string, (string, unit) gomap) gomap" where
  "knownDnsNames i m = fold (\<lambda>(d, items). fold (known_item i d) items) m []"

type_synonym update_state =
  "(string, (string, unit) gomap) gomap \<times> (string, containerDNSNameData list) gomap"

definition update_name :: "ContainerInfo \<Rightarrow> string \<Rightarrow> string \<Rightarrow> update_state \<Rightarrow> update_state" where
  "update_name c n dnsName st =
     (let (known, m) = st
      in case map_get known n of
           Some networkData \<Rightarrow>
             if map_has networkData dnsName
             then (map_put n (map_del dnsName networkData) known, m)
             else (known, add dnsName (dns_item c n) m)
         | None \<Rightarrow> (known, add dnsName (dns_item c n) m))"

definition UpdateContainer :: "ContainerInfo \<Rightarrow> 'r resolver \<Rightarrow> 'r resolver" where
  "UpdateContainer c r =
     (let (known, m) = fold (\<lambda>(n, names). fold (update_name c n) names) (c_DNSNames c)
            (knownDnsNames (c_ID c) (containerData r), containerData r)
      in r\<lparr>containerData := fold (\<lambda>(n, names).
             fold (\<lambda>(d, _). remove d (\<lambda>item. containerID item = c_ID c \<and> networkID item = n)) names)
           known m\<rparr>)"

section \<open>Resolving\<close>

definition filterIPsByNetwork :: "(string, ip) gomap \<Rightarrow> string \<Rightarrow> ip list" where
  "filterIPsByNetwork ips validNetworkID = map snd (filter (\<lambda>(n, x). validNetworkID = n) ips)"

definition resolveContainerName :: "string \<Rightarrow> string \<Rightarrow> 'r resolver \<Rightarrow> ip list" where
  "resolveContainerName requestedName validNetworkID r =
     (case map_get (containerData r) requestedName of
        None \<Rightarrow> []
      | Some ds \<Rightarrow> map dns_ip (filter (\<lambda>d. validNetworkID = networkID d) ds))"

definition resolveServiceName :: "('r \<Rightarrow> service) \<Rightarrow> string \<Rightarrow> string \<Rightarrow> 'r resolver \<Rightarrow> ip list" where
  "resolveServiceName \<sigma> requestedName validNetworkID r =
     (case map_get (serviceData r) requestedName of
        None \<Rightarrow> []
      | Some s \<Rightarrow>
          (let info = GetInfo (\<sigma> s)
           in if si_EndpointMode info = ServiceEndpointModeVip
              then filterIPsByNetwork (case si_VIPs info of None \<Rightarrow> [] | Some m \<Rightarrow> m) validNetworkID
              else if si_EndpointMode info = ServiceEndpointModeDnsrr
              then concat (map (\<lambda>c. filterIPsByNetwork (c_IPs c) validNetworkID) (map_vals (si_Containers info)))
              else []))"

definition resolveName ::
  "('r \<Rightarrow> service) \<Rightarrow> string \<Rightarrow> string \<Rightarrow> string \<Rightarrow> 'r resolver \<Rightarrow> ip list" where
  "resolveName \<sigma> requestedName requestedNetworkName validNetworkID r =
     (if requestedNetworkName \<noteq> [] \<and> map_get (networkNameToID r) requestedNetworkName \<noteq> Some validNetworkID
      then []
      else resolveServiceName \<sigma> requestedName validNetworkID r @
           resolveContainerName requestedName validNetworkID r)"

text \<open>A record of the answer.\<close>

record dns_A =
  rr_Name :: string
  rr_Ttl :: nat
  rr_A :: ip

text \<open>The loop over the networks, for one way to split the query into a name and a network.\<close>

fun resolve_networks ::
  "('r \<Rightarrow> service) \<Rightarrow> string \<Rightarrow> string \<Rightarrow> 'r resolver \<Rightarrow> string list \<Rightarrow> ip list \<Rightarrow> ip list"
where
  "resolve_networks \<sigma> nm net r [] result = result"
| "resolve_networks \<sigma> nm net r (n # ns) result =
     (let result' = result @ resolveName \<sigma> nm net n r
      in if dockerCompatibilityMode r \<and> length result' > 0 then result'
         else resolve_networks \<sigma> nm net r ns result')"

definition name_part :: "string list \<Rightarrow> nat \<Rightarrow> string" where
  "name_part parts i = join ''.'' (take (length parts - i) parts)"

definition network_part :: "string list \<Rightarrow> nat \<Rightarrow> string" where
  "network_part parts i = join ''.'' (drop (length parts - i) parts)"

fun resolve_levels ::
  "('r \<Rightarrow> service) \<Rightarrow> string list \<Rightarrow> string list \<Rightarrow> 'r resolver \<Rightarrow> nat list \<Rightarrow> ip list \<Rightarrow> ip list"
where
  "resolve_levels \<sigma> parts nets r [] result = result"
| "resolve_levels \<sigma> parts nets r (i # is) result =
     (let result' = resolve_networks \<sigma> (name_part parts i) (network_part parts i) r nets result
      in if length result' > 0 then result' else resolve_levels \<sigma> parts nets r is result')"

text \<open>\<open>lo.UniqBy\<close>: the first element for each key.\<close>

fun uniq_by :: "('a \<Rightarrow> 'b) \<Rightarrow> 'b list \<Rightarrow> 'a list \<Rightarrow> 'a list" where
  "uniq_by f seen [] = []"
| "uniq_by f seen (x # xs) =
     (if f x \<in> set seen then uniq_by f seen xs else x # uniq_by f (f x # seen) xs)"

text \<open>
  The comparison that the resolver passes to \<open>sort.Slice\<close> reads the slice that is not being
  sorted.
\<close>

definition network_less :: "'r resolver \<Rightarrow> string list \<Rightarrow> nat \<Rightarrow> nat \<Rightarrow> bool" where
  "network_less r valid i j =
     (let nm = (\<lambda>n. case map_get (networkIDToName r) n of None \<Rightarrow> [] | Some s \<Rightarrow> s)
      in nm (valid ! i) < nm (valid ! j))"

definition trim_dot :: "string \<Rightarrow> string" where
  "trim_dot s = (if s \<noteq> [] \<and> last s = CHR ''.'' then butlast s else s)"

definition ResolveName ::
  "((nat \<Rightarrow> nat \<Rightarrow> bool) \<Rightarrow> string list \<Rightarrow> string list) \<Rightarrow> (ip list \<Rightarrow> ip list) \<Rightarrow> ('r \<Rightarrow> service) \<Rightarrow>
    string \<Rightarrow> string list \<Rightarrow> 'r resolver \<Rightarrow> dns_A list"
where
  "ResolveName sortf shuffle \<sigma> query validNetworkIDs r =
     (let queryParts = split_on CHR ''.'' (trim_dot query);
          sortedNetworkIDs = sortf (network_less r validNetworkIDs) validNetworkIDs;
          result = resolve_levels \<sigma> queryParts sortedNetworkIDs r [0..<length queryParts] []
      in map (\<lambda>item. \<lparr>rr_Name = query, rr_Ttl = ttl r, rr_A = item\<rparr>)
           (shuffle (uniq_by ip_String [] result)))"

definition ResolveIP :: "string \<Rightarrow> string list \<Rightarrow> 'r resolver \<Rightarrow> dns_A list" where
  "ResolveIP query validNetworkIDs r = []"

text \<open>The insertion sort of package \<open>sort\<close>: \<open>lt\<close> takes positions of the slice it swaps.\<close>

fun sift :: "(nat \<Rightarrow> nat \<Rightarrow> bool) \<Rightarrow> nat \<Rightarrow> 'a list \<Rightarrow> 'a list" where
  "sift lt 0 xs = xs"
| "sift lt (Suc j) xs =
     (if lt (Suc j) j then sift lt j (xs[Suc j := xs ! j, j := xs ! Suc j]) else xs)"

definition insertion_sort :: "(nat \<Rightarrow> nat \<Rightarrow> bool) \<Rightarrow> 'a list \<Rightarrow> 'a list" where
  "insertion_sort lt xs = fold (sift lt) [1..<length xs] xs"

section \<open>Lemmas: the answer\<close>

lemma resolve_networks_all:
  "\<not> dockerCompatibilityMode r \<Longrightarrow>
    set (resolve_networks \<sigma> nm net r nets acc) = set acc \<union> (\<Union>n \<in> set nets. set (resolveName \<sigma> nm net n r))"
  by (induction nets arbitrary: acc) (auto simp: Let_def)

lemma resolve_networks_docker:
  "dockerCompatibilityMode r \<Longrightarrow>
    resolve_networks \<sigma> nm net r nets [] =
      (case find (\<lambda>n. resolveName \<sigma> nm net n r \<noteq> []) nets of None \<Rightarrow> [] | Some n \<Rightarrow> resolveName \<sigma> nm net n r)"
  by (induction nets) (auto simp: Let_def)

lemma resolve_levels_find:
  "resolve_levels \<sigma> parts nets r is [] =
    (case find (\<lambda>i. resolve_networks \<sigma> (name_part parts i) (network_part parts i) r nets [] \<noteq> []) is of
       None \<Rightarrow> [] | Some i \<Rightarrow> resolve_networks \<sigma> (name_part parts i) (network_part parts i) r nets [])"
  by (induction "is") (auto simp: Let_def)

lemma uniq_by_image: "f ` set (uniq_by f seen xs) = f ` set xs - set seen"
  by (induction f seen xs rule: uniq_by.induct) auto

lemma uniq_by_subset: "set (uniq_by f seen xs) \<subseteq> set xs"
  by (induction f seen xs rule: uniq_by.induct) auto

lemma uniq_by_distinct: "distinct (map f (uniq_by f seen xs))"
proof (induction f seen xs rule: uniq_by.induct)
  case (2 f seen x xs)
  then show ?case using uniq_by_image [of f "f x # seen" xs] by (auto simp: image_iff)
qed simp

text \<open>The addresses that a query may mean at a level: all of the valid networks, or of the first
  network with a match.\<close>

definition level_ips :: "('r \<Rightarrow> service) \<Rightarrow> string list \<Rightarrow> string list \<Rightarrow> 'r resolver \<Rightarrow> nat \<Rightarrow> ip set" where
  "level_ips \<sigma> parts nets r i = (let here = (\<lambda>n. resolveName \<sigma> (name_part parts i) (network_part parts i) n r)
     in if dockerCompatibilityMode r
        then (case find (\<lambda>n. here n \<noteq> []) nets of None \<Rightarrow> {} | Some n \<Rightarrow> set (here n))
        else (\<Union>n \<in> set nets. set (here n)))"

lemma level_ips_resolve:
  "set (resolve_networks \<sigma> (name_part parts i) (network_part parts i) r nets []) = level_ips \<sigma> parts nets r i"
  by (cases "dockerCompatibilityMode r")
    (auto simp: level_ips_def Let_def resolve_networks_all resolve_networks_docker split: option.splits)

lemma resolve_levels_ips:
  "set (resolve_levels \<sigma> parts nets r is []) =
    (case find (\<lambda>i. level_ips \<sigma> parts nets r i \<noteq> {}) is of None \<Rightarrow> {} | Some i \<Rightarrow> level_ips \<sigma> parts nets r i)"
  by (simp add: resolve_levels_find level_ips_resolve [symmetric] split: option.split)

lemma level_ips_order:
  "\<not> dockerCompatibilityMode r \<Longrightarrow> set nets = set nets' \<Longrightarrow>
    level_ips \<sigma> parts nets r = level_ips \<sigma> parts nets' r"
  by (rule ext) (simp add: level_ips_def)

section \<open>Lemmas: the table of container names\<close>

definition items :: "(string, 'a list) gomap \<Rightarrow> string \<Rightarrow> 'a list" where
  "items m d = (case map_get m d of None \<Rightarrow> [] | Some xs \<Rightarrow> xs)"

lemma items_add: "items (add k x m) d = (if d = k then items m d @ [x] else items m d)"
  by (simp add: items_def add_def)

lemma items_remove: "items (remove k P m) d = (if d = k then filter (\<lambda>x. \<not> P x) (items m d) else items m d)"
  by (simp add: items_def remove_def Let_def split: option.split)

definition named ::
  "(string, containerDNSNameData list) gomap \<Rightarrow> string \<Rightarrow> string \<Rightarrow> string \<Rightarrow> bool" where
  "named m i n d \<longleftrightarrow> (\<exists>x \<in> set (items m d). containerID x = i \<and> networkID x = n)"

text \<open>The pairs of a network and a name that a nested map lists.\<close>

definition pairs :: "('a \<times> 'b list) list \<Rightarrow> ('a \<times> 'b) list" where
  "pairs xs = concat (map (\<lambda>(n, ds). map (Pair n) ds) xs)"

lemma fold_pairs: "fold (\<lambda>(n, ds). fold (g n) ds) xs st = fold (\<lambda>(n, d). g n d) (pairs xs) st"
proof -
  have "fold (g n) ds st = fold (\<lambda>(n, d). g n d) (map (Pair n) ds) st" for n ds st
    by (induction ds arbitrary: st) simp_all
  then show ?thesis by (induction xs arbitrary: st) (auto simp: pairs_def split: prod.split)
qed

lemma set_pairs: "(n, d) \<in> set (pairs xs) \<longleftrightarrow> (\<exists>ds. (n, ds) \<in> set xs \<and> d \<in> set ds)"
  by (force simp: pairs_def)

text \<open>The map of known names: well-formed, and which pairs it has.\<close>

definition known_ok :: "(string, (string, unit) gomap) gomap \<Rightarrow> bool" where
  "known_ok k \<longleftrightarrow> map_ok k \<and> (\<forall>n nd. map_get k n = Some nd \<longrightarrow> map_ok nd)"

definition knows :: "(string, (string, unit) gomap) gomap \<Rightarrow> string \<Rightarrow> string \<Rightarrow> bool" where
  "knows k n d \<longleftrightarrow> (\<exists>nd. map_get k n = Some nd \<and> map_has nd d)"

lemma knows_iff:
  assumes "known_ok k"
  shows "knows k n d \<longleftrightarrow> (\<exists>nd. (n, nd) \<in> set k \<and> (d, ()) \<in> set nd)"
proof -
  have k: "(n, nd) \<in> set k \<longleftrightarrow> map_get k n = Some nd" for nd
    using assms by (simp add: known_ok_def map_get_Some_iff)
  have "(d, ()) \<in> set nd \<longleftrightarrow> map_has nd d" if "map_get k n = Some nd" for nd
    using assms that map_get_Some_iff [of nd d "()"] by (cases "map_get nd d") (auto simp: known_ok_def)
  then show ?thesis unfolding knows_def k by blast
qed

lemma known_item_knows:
  "knows (known_item i d x k) n e \<longleftrightarrow> knows k n e \<or> (e = d \<and> containerID x = i \<and> networkID x = n)"
  by (auto simp: known_item_def knows_def Let_def split: option.splits)

lemma known_item_ok: "known_ok k \<Longrightarrow> known_ok (known_item i d x k)"
  by (auto simp: known_item_def known_ok_def Let_def split: option.splits)

lemma knownDnsNames_pairs:
  "knownDnsNames i m = fold (\<lambda>(d, x). known_item i d x) (pairs m) []"
  unfolding knownDnsNames_def by (rule fold_pairs)

lemma known_fold:
  "known_ok k \<Longrightarrow> known_ok (fold (\<lambda>(d, x). known_item i d x) ps k) \<and>
    (\<forall>n e. knows (fold (\<lambda>(d, x). known_item i d x) ps k) n e \<longleftrightarrow>
      knows k n e \<or> (\<exists>x. (e, x) \<in> set ps \<and> containerID x = i \<and> networkID x = n))"
proof (induction ps arbitrary: k)
  case (Cons p ps)
  obtain d x where p: "p = (d, x)" by (cases p)
  show ?case using Cons.IH [OF known_item_ok [OF Cons.prems], of i d x] by (auto simp: p known_item_knows)
qed simp

lemma knownDnsNames_knows:
  assumes "map_ok m"
  shows "known_ok (knownDnsNames i m)" and "knows (knownDnsNames i m) n d \<longleftrightarrow> named m i n d"
proof -
  have "known_ok []" by (simp add: known_ok_def)
  note F = known_fold [OF this, of i "pairs m"]
  show "known_ok (knownDnsNames i m)" unfolding knownDnsNames_pairs using F by blast
  have "\<not> knows [] n d" by (simp add: knows_def)
  then have "knows (knownDnsNames i m) n d \<longleftrightarrow>
      (\<exists>x. (d, x) \<in> set (pairs m) \<and> containerID x = i \<and> networkID x = n)"
    unfolding knownDnsNames_pairs using F by blast
  also have "\<dots> \<longleftrightarrow> named m i n d"
    unfolding set_pairs named_def items_def
    by (cases "map_get m d") (auto simp: map_get_Some_iff [OF assms, symmetric])
  finally show "knows (knownDnsNames i m) n d \<longleftrightarrow> named m i n d" .
qed

text \<open>The adding loop of \<open>UpdateContainer\<close>, after it has seen the pairs \<open>S\<close>.\<close>

definition update_inv ::
  "ContainerInfo \<Rightarrow> (string, containerDNSNameData list) gomap \<Rightarrow> (string \<times> string) set \<Rightarrow> update_state \<Rightarrow> bool"
where
  "update_inv c m0 S st \<longleftrightarrow> (case st of (k, m) \<Rightarrow>
     known_ok k \<and>
     (\<forall>d. \<exists>xs. items m d = items m0 d @ xs \<and> (\<forall>x \<in> set xs. \<exists>n. x = dns_item c n \<and> (n, d) \<in> S)) \<and>
     (\<forall>n d. knows k n d \<longleftrightarrow> named m0 (c_ID c) n d \<and> (n, d) \<notin> S) \<and>
     (\<forall>(n, d) \<in> S. named m (c_ID c) n d))"

lemma dns_item_simps [simp]: "containerID (dns_item c n) = c_ID c" "networkID (dns_item c n) = n"
  by (simp_all add: dns_item_def)

lemma named_add: "named (add e (dns_item c n') m) i n d \<longleftrightarrow> named m i n d \<or> (d = e \<and> i = c_ID c \<and> n = n')"
  by (auto simp: named_def items_add)

lemma update_name_inv:
  assumes "update_inv c m0 S st"
  shows "update_inv c m0 (insert (n, d) S) (update_name c n d st)"
proof -
  obtain k m where st: "st = (k, m)" by (cases st)
  note inv = assms [unfolded update_inv_def st prod.case]
  from inv have ok: "known_ok k" by blast
  from inv have ext: "\<exists>xs. items m e = items m0 e @ xs \<and> (\<forall>x \<in> set xs. \<exists>n. x = dns_item c n \<and> (n, e) \<in> S)" for e
    by blast
  from inv have K: "knows k n' e \<longleftrightarrow> named m0 (c_ID c) n' e \<and> (n', e) \<notin> S" for n' e by blast
  from inv have seen: "\<forall>(n, d) \<in> S. named m (c_ID c) n d" by blast
  show ?thesis
  proof (cases "knows k n d")
    case True
    then obtain nd where nd: "map_get k n = Some nd" "map_has nd d" by (auto simp: knows_def)
    have step: "update_name c n d st = (map_put n (map_del d nd) k, m)"
      using nd by (simp add: update_name_def st)
    have knows': "knows (map_put n (map_del d nd) k) n' e \<longleftrightarrow> knows k n' e \<and> (n', e) \<noteq> (n, d)" for n' e
      using nd(1) by (auto simp: knows_def)
    have ok': "known_ok (map_put n (map_del d nd) k)"
      using ok nd(1) by (auto simp: known_ok_def)
    have new: "named m (c_ID c) n d"
    proof -
      from True K have "named m0 (c_ID c) n d" by blast
      with ext [of d] show ?thesis by (auto simp: named_def)
    qed
    show ?thesis unfolding update_inv_def step prod.case
    proof (intro conjI)
      show "known_ok (map_put n (map_del d nd) k)" by (rule ok')
      show "\<forall>e. \<exists>xs. items m e = items m0 e @ xs \<and>
          (\<forall>x \<in> set xs. \<exists>n'. x = dns_item c n' \<and> (n', e) \<in> insert (n, d) S)"
        using ext by fast
      show "\<forall>n' e. knows (map_put n (map_del d nd) k) n' e \<longleftrightarrow>
          named m0 (c_ID c) n' e \<and> (n', e) \<notin> insert (n, d) S"
        unfolding knows' K by blast
      show "\<forall>(n', e) \<in> insert (n, d) S. named m (c_ID c) n' e" using seen new by blast
    qed
  next
    case False
    have step: "update_name c n d st = (k, add d (dns_item c n) m)"
      using False by (auto simp: update_name_def st knows_def split: option.split)
    have "\<exists>xs. items (add d (dns_item c n) m) e = items m0 e @ xs \<and>
        (\<forall>x \<in> set xs. \<exists>n'. x = dns_item c n' \<and> (n', e) \<in> insert (n, d) S)" for e
    proof -
      obtain xs where xs: "items m e = items m0 e @ xs" "\<forall>x \<in> set xs. \<exists>n. x = dns_item c n \<and> (n, e) \<in> S"
        using ext [of e] by blast
      show ?thesis
      proof (cases "e = d")
        case True
        then show ?thesis using xs by (intro exI [of _ "xs @ [dns_item c n]"]) (auto simp: items_add)
      next
        case False
        then show ?thesis using xs by (intro exI [of _ xs]) (auto simp: items_add)
      qed
    qed
    moreover have "knows k n' e \<longleftrightarrow> named m0 (c_ID c) n' e \<and> (n', e) \<notin> insert (n, d) S" for n' e
      using K False by blast
    moreover have "\<forall>(n', e) \<in> insert (n, d) S. named (add d (dns_item c n) m) (c_ID c) n' e"
      using seen by (auto simp: named_add)
    ultimately show ?thesis unfolding update_inv_def step prod.case using ok by blast
  qed
qed

lemma update_fold_inv:
  "update_inv c m0 S st \<Longrightarrow>
    update_inv c m0 (S \<union> set ps) (fold (\<lambda>(n, d). update_name c n d) ps st)"
proof (induction ps arbitrary: S st)
  case (Cons p ps)
  obtain n d where p: "p = (n, d)" by (cases p)
  show ?case using Cons.IH [OF update_name_inv [OF Cons.prems, of n d]] by (simp add: p)
qed simp

lemma items_remove_fold:
  "items (fold (\<lambda>(n, d, _). remove d (P n)) ps m) e =
    filter (\<lambda>x. \<not> (\<exists>n u. (n, e, u) \<in> set ps \<and> P n x)) (items m e)"
proof (induction ps arbitrary: m)
  case (Cons p ps)
  obtain n d u where p: "p = (n, d, u)" by (cases p)
  show ?case unfolding p using Cons.IH
    by (auto simp: items_remove intro!: filter_cong)
qed simp

lemma UpdateContainer_items:
  assumes ok: "map_ok (containerData r)"
  shows "\<exists>k m. update_inv c (containerData r) (set (pairs (c_DNSNames c))) (k, m) \<and>
    (\<forall>d. items (containerData (UpdateContainer c r)) d =
      filter (\<lambda>x. \<not> (containerID x = c_ID c \<and> knows k (networkID x) d)) (items m d))"
proof -
  let ?m0 = "containerData r" and ?k0 = "knownDnsNames (c_ID c) (containerData r)"
  have "update_inv c ?m0 {} (?k0, ?m0)"
    unfolding update_inv_def using knownDnsNames_knows [OF ok] by simp
  from update_fold_inv [OF this, of "pairs (c_DNSNames c)"]
  have inv: "update_inv c ?m0 (set (pairs (c_DNSNames c)))
      (fold (\<lambda>(n, names). fold (update_name c n) names) (c_DNSNames c) (?k0, ?m0))"
    by (simp add: fold_pairs)
  obtain k m where km: "fold (\<lambda>(n, names). fold (update_name c n) names) (c_DNSNames c) (?k0, ?m0) = (k, m)"
    by fastforce
  have "containerData (UpdateContainer c r) =
      fold (\<lambda>(n, d, _). remove d (\<lambda>x. containerID x = c_ID c \<and> networkID x = n)) (pairs k) m"
    using fold_pairs [of "\<lambda>n (d, _). remove d (\<lambda>x. containerID x = c_ID c \<and> networkID x = n)" k m]
    by (simp add: UpdateContainer_def km)
  moreover have known: "(\<exists>n u. (n, d, u) \<in> set (pairs k) \<and> (containerID x = c_ID c \<and> networkID x = n)) \<longleftrightarrow>
      containerID x = c_ID c \<and> knows k (networkID x) d" for d x
  proof -
    have "known_ok k" using inv unfolding km update_inv_def by simp
    from knows_iff [OF this] show ?thesis by (auto simp: set_pairs)
  qed
  ultimately have "items (containerData (UpdateContainer c r)) d =
      filter (\<lambda>x. \<not> (containerID x = c_ID c \<and> knows k (networkID x) d)) (items m d)" for d
    by (simp only: items_remove_fold) (rule filter_cong [OF refl], simp only: known)
  with inv show ?thesis unfolding km by blast
qed

lemma UpdateContainer_effect:
  assumes ok: "map_ok (containerData r)"
  shows "named (containerData (UpdateContainer c r)) (c_ID c) n d \<longleftrightarrow>
      (\<exists>names. (n, names) \<in> set (c_DNSNames c) \<and> d \<in> set names)"
    and "filter (\<lambda>x. containerID x \<noteq> c_ID c) (items (containerData (UpdateContainer c r)) d) =
      filter (\<lambda>x. containerID x \<noteq> c_ID c) (items (containerData r) d)"
    and "x \<in> set (items (containerData r) d) \<Longrightarrow> containerID x = c_ID c \<Longrightarrow>
      (networkID x, names) \<in> set (c_DNSNames c) \<Longrightarrow> d \<in> set names \<Longrightarrow>
      x \<in> set (items (containerData (UpdateContainer c r)) d)"
proof -
  let ?m0 = "containerData r" and ?m2 = "containerData (UpdateContainer c r)"
  let ?S = "set (pairs (c_DNSNames c))"
  obtain k m where inv: "update_inv c ?m0 ?S (k, m)"
    and m2: "\<And>d. items ?m2 d = filter (\<lambda>x. \<not> (containerID x = c_ID c \<and> knows k (networkID x) d)) (items m d)"
    using UpdateContainer_items [OF ok, of c] by blast
  from inv have ext: "\<exists>xs. items m d = items ?m0 d @ xs \<and> (\<forall>x \<in> set xs. \<exists>n. x = dns_item c n \<and> (n, d) \<in> ?S)" for d
    unfolding update_inv_def by blast
  from inv have K: "knows k n d \<longleftrightarrow> named ?m0 (c_ID c) n d \<and> (n, d) \<notin> ?S" for n d
    unfolding update_inv_def by blast
  from inv have S: "(n, d) \<in> ?S \<Longrightarrow> named m (c_ID c) n d" for n d
    unfolding update_inv_def by blast
  have named2: "named ?m2 (c_ID c) n d \<longleftrightarrow> named m (c_ID c) n d \<and> \<not> knows k n d" for n d
    by (auto simp: named_def m2)
  obtain xs where xs: "items m d = items ?m0 d @ xs" "\<forall>x \<in> set xs. \<exists>n. x = dns_item c n \<and> (n, d) \<in> ?S"
    using ext by blast
  have "named m (c_ID c) n d \<longleftrightarrow> named ?m0 (c_ID c) n d \<or> (n, d) \<in> ?S" (is "?l \<longleftrightarrow> ?r")
  proof
    show "?l \<Longrightarrow> ?r" using xs by (auto simp: named_def)
    show "?r \<Longrightarrow> ?l" using xs(1) S [of n d] by (auto simp: named_def)
  qed
  then have "named ?m2 (c_ID c) n d \<longleftrightarrow> (n, d) \<in> ?S" unfolding named2 K by blast
  then show "named ?m2 (c_ID c) n d \<longleftrightarrow> (\<exists>names. (n, names) \<in> set (c_DNSNames c) \<and> d \<in> set names)"
    by (simp only: set_pairs)
  have "filter (\<lambda>x. containerID x \<noteq> c_ID c) xs = []" using xs(2) by (auto simp: filter_empty_conv)
  then show "filter (\<lambda>x. containerID x \<noteq> c_ID c) (items ?m2 d) = filter (\<lambda>x. containerID x \<noteq> c_ID c) (items ?m0 d)"
    by (simp add: m2 xs(1) conj_commute cong: conj_cong)
  assume x: "x \<in> set (items ?m0 d)" "containerID x = c_ID c" "(networkID x, names) \<in> set (c_DNSNames c)" "d \<in> set names"
  then have "\<not> knows k (networkID x) d" unfolding K set_pairs by blast
  then show "x \<in> set (items ?m2 d)" using x(1) by (simp add: m2 xs(1))
qed

text \<open>The table stays well-formed under every operation.\<close>

lemma map_ok_add [simp]: "map_ok m \<Longrightarrow> map_ok (add k x m)"
  by (simp add: add_def)

lemma map_ok_remove [simp]: "map_ok m \<Longrightarrow> map_ok (remove k P m)"
  by (simp add: remove_def Let_def)

lemma fold_keeps: "(\<And>x s. x \<in> set xs \<Longrightarrow> P s \<Longrightarrow> P (f x s)) \<Longrightarrow> P s \<Longrightarrow> P (fold f xs s)"
  by (induction xs arbitrary: s) auto

lemma resolver_tables_ok:
  assumes "map_ok (containerData r)"
  shows "map_ok (containerData (resolver_AddContainer c r))"
    "map_ok (containerData (resolver_RemoveContainer c r))"
    "map_ok (containerData (UpdateContainer c r))"
proof -
  show "map_ok (containerData (resolver_AddContainer c r))"
    unfolding resolver_AddContainer_def using assms by (auto intro!: fold_keeps [where P = map_ok] split: prod.splits)
  show "map_ok (containerData (resolver_RemoveContainer c r))"
    unfolding resolver_RemoveContainer_def using assms by (auto intro!: fold_keeps [where P = map_ok] split: prod.splits)
  have "map_ok (snd (fold (\<lambda>(n, names). fold (update_name c n) names) (c_DNSNames c)
      (knownDnsNames (c_ID c) (containerData r), containerData r)))"
    using assms by (auto intro!: fold_keeps [where P = "\<lambda>s. map_ok (snd s)"]
        simp: update_name_def split: prod.splits option.splits)
  then show "map_ok (containerData (UpdateContainer c r))"
    unfolding UpdateContainer_def by (auto intro!: fold_keeps [where P = map_ok] split: prod.splits)
qed

section \<open>Properties\<close>

text \<open>A resolver with three networks, and a container in two of them.\<close>

definition abc_resolver :: "bool \<Rightarrow> unit resolver" where
  "abc_resolver docker = (NewResolver docker)\<lparr>
     networkIDToName := [(''n1'', ''c''), (''n2'', ''a''), (''n3'', ''b'')],
     containerData := [(''web'', [\<lparr>containerID = ''x'', networkID = ''n1'', dns_ip = [10, 0, 1, 5]\<rparr>,
                                \<lparr>containerID = ''x'', networkID = ''n3'', dns_ip = [10, 0, 3, 5]\<rparr>])]\<rparr>"

text \<open>The same container, with a new address and without its second network.\<close>

definition moved :: ContainerInfo where
  "moved = \<lparr>c_ID = ''x'', c_Name = ''web'', c_ServiceID = [], c_ServiceName = [], c_SandboxKey = [],
     c_IPs = [(''n1'', [10, 0, 1, 9])], c_DNSNames = [(''n1'', [''web''])], c_Endpoints = []\<rparr>"



text \<open>
  After \<open>UpdateContainer\<close> the table has, for the container, exactly the names of its networks
  that it has now, and the entries of other containers are as before; but an entry whose name
  stays keeps the address it had, even when the container has a new one.
\<close>

theorem UpdateContainer_names:
  assumes "map_ok (containerData r)"
  shows "(\<forall>n d. named (containerData (UpdateContainer c r)) (c_ID c) n d \<longleftrightarrow>
        (\<exists>names. (n, names) \<in> set (c_DNSNames c) \<and> d \<in> set names)) \<and>
    (\<forall>d. filter (\<lambda>x. containerID x \<noteq> c_ID c) (items (containerData (UpdateContainer c r)) d) =
        filter (\<lambda>x. containerID x \<noteq> c_ID c) (items (containerData r) d)) \<and>
    (\<forall>x d names. x \<in> set (items (containerData r) d) \<and> containerID x = c_ID c \<and>
        (networkID x, names) \<in> set (c_DNSNames c) \<and> d \<in> set names \<longrightarrow>
        x \<in> set (items (containerData (UpdateContainer c r)) d))"
  using UpdateContainer_effect [OF assms] by blast

theorem UpdateContainer_names_witness:
  "named (containerData (UpdateContainer moved (abc_resolver True))) ''x'' ''n1'' ''web'' \<and>
    \<not> named (containerData (UpdateContainer moved (abc_resolver True))) ''x'' ''n3'' ''web''"
proof -
  have "map_ok (containerData (abc_resolver True))" by (simp add: abc_resolver_def map_ok_def)
  from UpdateContainer_names [OF this, of moved, THEN conjunct1]
  have "named (containerData (UpdateContainer moved (abc_resolver True))) (c_ID moved) n d \<longleftrightarrow>
      (\<exists>names. (n, names) \<in> set (c_DNSNames moved) \<and> d \<in> set names)" for n d by blast
  then show ?thesis by (simp add: moved_def)
qed

text \<open>
  The networks are not tried alphabetically: the comparison reads the slice that is not being
  sorted.  For valid networks named c, a and b in this order, the sort of package \<open>sort\<close> leaves
  c before b, so in docker mode a name known in c and b resolves to its address in c.
\<close>

theorem ResolveName_not_alphabetical:
  "insertion_sort (network_less (abc_resolver True) [''n1'', ''n2'', ''n3'']) [''n1'', ''n2'', ''n3''] =
      [''n2'', ''n1'', ''n3''] \<and>
    map rr_A (ResolveName insertion_sort id \<sigma> ''web'' [''n1'', ''n2'', ''n3''] (abc_resolver True)) = [[10, 0, 1, 5]]"
proof
  have less: "network_less (abc_resolver True) [''n1'', ''n2'', ''n3''] (Suc 0) 0"
    "\<not> network_less (abc_resolver True) [''n1'', ''n2'', ''n3''] 2 (Suc 0)"
    by (simp_all add: network_less_def abc_resolver_def Let_def less_char_def)
  then show sort: "insertion_sort (network_less (abc_resolver True) [''n1'', ''n2'', ''n3'']) [''n1'', ''n2'', ''n3''] =
      [''n2'', ''n1'', ''n3'']"
    by (simp add: insertion_sort_def upt_rec numeral_2_eq_2)
  show "map rr_A (ResolveName insertion_sort id \<sigma> ''web'' [''n1'', ''n2'', ''n3''] (abc_resolver True)) = [[10, 0, 1, 5]]"
    unfolding ResolveName_def sort
    by (simp add: Let_def trim_dot_def name_part_def network_part_def resolveName_def resolveServiceName_def
        resolveContainerName_def abc_resolver_def NewResolver_def)
qed

end
