(* ===== verification/Networking.thy ===== *)
theory Networking
  imports Common
begin

text \<open>
  \<open>plugin/pkg/networking/interface_management.go\<close> and \<open>iptables.go\<close>: interfaces, their addresses
  and iptables rules.  The kernel is reached through the packages netlink, go-iptables and ipvs,
  which are not part of the repository: they are the fields of the record \<open>kernel\<close>.  What the code
  relies on is \<open>kernel_contract\<close>, their documented behaviour on an abstract state of the kernel.
\<close>

section \<open>The kernel interface\<close>

record link =
  link_Name :: string
  link_Type :: string
  link_MTU :: int
  link_Up :: bool

text \<open>The fields of a service of package ipvs that the plugin sets or compares.\<close>

record ipvs_service =
  FWMark :: u32
  SchedName :: string
  Flags :: u32
  Timeout :: u32
  PEName :: string

record ipvs_dest =
  dest_Address :: ip
  dest_Weight :: int

text \<open>
  \<open>LinkByName\<close> fails with the text of its error.  \<open>IsServicePresent\<close> has no error: it is false
  when the request failed.
\<close>

record 'w kernel =
  LinkByName :: "string \<Rightarrow> 'w \<Rightarrow> (string + link) \<times> 'w"
  LinkAdd :: "link \<Rightarrow> ('w, unit) io"
  LinkSetMTU :: "link \<Rightarrow> int \<Rightarrow> ('w, unit) io"
  LinkSetDown :: "link \<Rightarrow> ('w, unit) io"
  LinkSetUp :: "link \<Rightarrow> ('w, unit) io"
  ParseAddr :: "string \<Rightarrow> ipnet option"
  AddrReplace :: "link \<Rightarrow> ipnet \<Rightarrow> ('w, unit) io"
  AddrDel :: "link \<Rightarrow> ipnet \<Rightarrow> ('w, unit) io"
  AddrList :: "link \<Rightarrow> ('w, ipnet list) io"
  iptables_New :: "('w, unit) io"
  AppendUnique :: "string \<Rightarrow> string \<Rightarrow> string list \<Rightarrow> ('w, unit) io"
  iptables_Delete :: "string \<Rightarrow> string \<Rightarrow> string list \<Rightarrow> ('w, unit) io"
  iptables_List :: "string \<Rightarrow> string \<Rightarrow> ('w, string list) io"
  ipvs_New :: "('w, unit) io"
  IsServicePresent :: "ipvs_service \<Rightarrow> 'w \<Rightarrow> bool \<times> 'w"
  GetService :: "ipvs_service \<Rightarrow> ('w, ipvs_service) io"
  GetServices :: "('w, ipvs_service list) io"
  ipvs_NewService :: "ipvs_service \<Rightarrow> ('w, unit) io"
  UpdateService :: "ipvs_service \<Rightarrow> ('w, unit) io"
  DelService :: "ipvs_service \<Rightarrow> ('w, unit) io"
  GetDestinations :: "ipvs_service \<Rightarrow> ('w, ipvs_dest list) io"
  NewDestination :: "ipvs_service \<Rightarrow> ipvs_dest \<Rightarrow> ('w, unit) io"
  UpdateDestination :: "ipvs_service \<Rightarrow> ipvs_dest \<Rightarrow> ('w, unit) io"
  DelDestination :: "ipvs_service \<Rightarrow> ipvs_dest \<Rightarrow> ('w, unit) io"

section \<open>Interfaces\<close>

definition maxInterfaceNameLength :: nat where "maxInterfaceNameLength = 15"

definition GetInterfaceName :: "string \<Rightarrow> string \<Rightarrow> string \<Rightarrow> string" where
  "GetInterfaceName pre separator networkID =
     (let name = pre @ separator @ networkID
      in if length name > maxInterfaceNameLength then take maxInterfaceNameLength name else name)"

text \<open>\<open>interfaceExists\<close> also reports that the interface exists when it has another type.\<close>

definition interfaceExists :: "'w kernel \<Rightarrow> string \<Rightarrow> string \<Rightarrow> 'w \<Rightarrow> (bool \<times> err option) \<times> 'w" where
  "interfaceExists K name interfaceType w = (case LinkByName K name w of
      (Inl text, w1) \<Rightarrow>
        if str_contains text ''Link not found'' then ((False, None), w1)
        else ((False, Some (OtherError text)), w1)
    | (Inr link, w1) \<Rightarrow>
        if link_Type link = interfaceType then ((True, None), w1)
        else ((True, Some (OtherError ''existing interface of another type'')), w1))"

definition new_link :: "string \<Rightarrow> string \<Rightarrow> int \<Rightarrow> bool \<Rightarrow> link result" where
  "new_link name interfaceType mtu up =
     (if interfaceType = ''dummy'' \<or> interfaceType = ''bridge''
      then Inr \<lparr>link_Name = name, link_Type = interfaceType, link_MTU = mtu, link_Up = up\<rparr>
      else Inl (OtherError ''unknown interface type''))"

text \<open>The second half of \<open>EnsureInterface\<close>, on an interface that exists.\<close>

definition adjust_interface :: "'w kernel \<Rightarrow> string \<Rightarrow> int \<Rightarrow> bool \<Rightarrow> ('w, link) io" where
  "adjust_interface K name mtu up w = (case LinkByName K name w of
      (Inl text, w1) \<Rightarrow> (Inl (OtherError text), w1)
    | (Inr link, w1) \<Rightarrow>
        (case (if link_MTU link \<noteq> mtu then LinkSetMTU K link mtu w1 else (Inr (), w1)) of
           (Inl e, w2) \<Rightarrow> (Inl e, w2)
         | (Inr _, w2) \<Rightarrow>
             (case (if link_Up link \<and> \<not> up then LinkSetDown K link w2
                    else if \<not> link_Up link \<and> up then LinkSetUp K link w2 else (Inr (), w2)) of
                (Inl e, w3) \<Rightarrow> (Inl e, w3)
              | (Inr _, w3) \<Rightarrow> (Inr link, w3))))"

definition EnsureInterface :: "'w kernel \<Rightarrow> string \<Rightarrow> string \<Rightarrow> int \<Rightarrow> bool \<Rightarrow> ('w, link) io" where
  "EnsureInterface K name interfaceType mtu up w = (case interfaceExists K name interfaceType w of
      ((_, Some e), w1) \<Rightarrow> (Inl e, w1)
    | ((True, None), w1) \<Rightarrow> adjust_interface K name mtu up w1
    | ((False, None), w1) \<Rightarrow>
        (case new_link name interfaceType mtu up of
           Inl e \<Rightarrow> (Inl e, w1)
         | Inr link \<Rightarrow>
             (case LinkAdd K link w1 of
                (Inl e, w2) \<Rightarrow> (Inl e, w2)
              | (Inr _, w2) \<Rightarrow> adjust_interface K name mtu up w2)))"

section \<open>Addresses\<close>

definition with_suffix :: "string \<Rightarrow> string" where
  "with_suffix ip = (if \<not> str_contains ip ''/'' then ip @ ''/32'' else ip)"

definition addressesEqual :: "ipnet \<Rightarrow> ipnet \<Rightarrow> bool" where
  "addressesEqual a1 a2 \<longleftrightarrow> ipnet_String a1 = ipnet_String a2"

definition EnsureInterfaceListensOnAddress :: "'w kernel \<Rightarrow> link \<Rightarrow> string \<Rightarrow> ('w, unit) io" where
  "EnsureInterfaceListensOnAddress K link ip w = (case ParseAddr K (with_suffix ip) of
      None \<Rightarrow> (Inl (InvalidIP ip), w)
    | Some addr \<Rightarrow> AddrReplace K link addr w)"

definition StopListeningOnAddress :: "'w kernel \<Rightarrow> link \<Rightarrow> string \<Rightarrow> ('w, unit) io" where
  "StopListeningOnAddress K link ip w = (case ParseAddr K (with_suffix ip) of
      None \<Rightarrow> (Inl (InvalidIP ip), w)
    | Some addr \<Rightarrow> AddrDel K link addr w)"

fun parse_addrs :: "'w kernel \<Rightarrow> string list \<Rightarrow> ipnet list result" where
  "parse_addrs K [] = Inr []"
| "parse_addrs K (ip # ips) = (case ParseAddr K (with_suffix ip) of
      None \<Rightarrow> Inl (InvalidIP ip)
    | Some addr \<Rightarrow> (case parse_addrs K ips of Inl e \<Rightarrow> Inl e | Inr addrs \<Rightarrow> Inr (addr # addrs)))"

fun replace_addrs :: "'w kernel \<Rightarrow> link \<Rightarrow> ipnet list \<Rightarrow> ('w, unit) io" where
  "replace_addrs K link [] w = (Inr (), w)"
| "replace_addrs K link (a # as) w = (case AddrReplace K link a w of
      (Inl e, w1) \<Rightarrow> (Inl e, w1) | (Inr _, w1) \<Rightarrow> replace_addrs K link as w1)"

fun delete_addrs :: "'w kernel \<Rightarrow> link \<Rightarrow> ipnet list \<Rightarrow> ipnet list \<Rightarrow> ('w, unit) io" where
  "delete_addrs K link parsedIPs [] w = (Inr (), w)"
| "delete_addrs K link parsedIPs (a # as) w =
     (if list_ex (addressesEqual a) parsedIPs then delete_addrs K link parsedIPs as w
      else (case AddrDel K link a w of
          (Inl e, w1) \<Rightarrow> (Inl e, w1) | (Inr _, w1) \<Rightarrow> delete_addrs K link parsedIPs as w1))"

definition ReplaceIPsOfInterface :: "'w kernel \<Rightarrow> link \<Rightarrow> string list \<Rightarrow> ('w, unit) io" where
  "ReplaceIPsOfInterface K link ips w = (case parse_addrs K ips of
      Inl e \<Rightarrow> (Inl e, w)
    | Inr parsedIPs \<Rightarrow>
        (case replace_addrs K link parsedIPs w of
           (Inl e, w1) \<Rightarrow> (Inl e, w1)
         | (Inr _, w1) \<Rightarrow>
             (case AddrList K link w1 of
                (Inl e, w2) \<Rightarrow> (Inl e, w2)
              | (Inr addrs, w2) \<Rightarrow> delete_addrs K link parsedIPs addrs w2)))"

section \<open>Rules\<close>

record IptablesRule =
  Table :: string
  Chain :: string
  RuleSpec :: "string list"

fun apply_rules :: "(string \<Rightarrow> string \<Rightarrow> string list \<Rightarrow> ('w, unit) io) \<Rightarrow> IptablesRule list \<Rightarrow> ('w, unit) io" where
  "apply_rules a [] w = (Inr (), w)"
| "apply_rules a (rule # rules) w = (case a (Table rule) (Chain rule) (RuleSpec rule) w of
      (Inl e, w1) \<Rightarrow> (Inl e, w1) | (Inr _, w1) \<Rightarrow> apply_rules a rules w1)"

definition ApplyIpTablesRules :: "'w kernel \<Rightarrow> IptablesRule list \<Rightarrow> string \<Rightarrow> ('w, unit) io" where
  "ApplyIpTablesRules K rules action w = (case iptables_New K w of
      (Inl e, w1) \<Rightarrow> (Inl e, w1)
    | (Inr _, w1) \<Rightarrow>
        if action = ''create'' then apply_rules (AppendUnique K) rules w1
        else if action = ''delete'' then apply_rules (iptables_Delete K) rules w1
        else (Inl (OtherError ''invalid action''), w1))"

section \<open>What the kernel does\<close>

text \<open>
  The abstract state: the interfaces by name, the addresses of an interface by their text, the
  rules, and for every mark the addresses of the destinations of its ipvs service, by their text.
\<close>

type_synonym rule = "string \<times> string \<times> string list"

record kstate =
  k_links :: "string \<Rightarrow> link option"
  k_addrs :: "string \<Rightarrow> string set"
  k_rules :: "rule set"
  k_ipvs :: "u32 \<Rightarrow> string set option"

definition rule_of :: "IptablesRule \<Rightarrow> rule" where
  "rule_of r = (Table r, Chain r, RuleSpec r)"

text \<open>A request that fails changes nothing; one that succeeds was possible and has its effect.\<close>

definition does :: "('w \<Rightarrow> 's) \<Rightarrow> ('w, 'a) io \<Rightarrow> ('s \<Rightarrow> 'a \<Rightarrow> bool) \<Rightarrow> ('s \<Rightarrow> 's) \<Rightarrow> bool" where
  "does ks op pre eff \<longleftrightarrow> (\<forall>w. case op w of
      (Inr x, w') \<Rightarrow> pre (ks w) x \<and> ks w' = eff (ks w)
    | (Inl e, w') \<Rightarrow> ks w' = ks w)"

definition set_link :: "string \<Rightarrow> (link \<Rightarrow> link) \<Rightarrow> kstate \<Rightarrow> kstate" where
  "set_link n f s = s\<lparr>k_links := (k_links s)(n := map_option f (k_links s n))\<rparr>"

definition set_addrs :: "string \<Rightarrow> (string set \<Rightarrow> string set) \<Rightarrow> kstate \<Rightarrow> kstate" where
  "set_addrs n f s = s\<lparr>k_addrs := (k_addrs s)(n := f (k_addrs s n))\<rparr>"

definition set_dests :: "u32 \<Rightarrow> (string set \<Rightarrow> string set) \<Rightarrow> kstate \<Rightarrow> kstate" where
  "set_dests m f s = s\<lparr>k_ipvs := (k_ipvs s)(m := map_option f (k_ipvs s m))\<rparr>"

definition has_dest :: "kstate \<Rightarrow> u32 \<Rightarrow> ipvs_dest \<Rightarrow> bool" where
  "has_dest s m d \<longleftrightarrow> (\<exists>D. k_ipvs s m = Some D \<and> ip_String (dest_Address d) \<in> D)"

definition link_contract :: "'w kernel \<Rightarrow> ('w \<Rightarrow> kstate) \<Rightarrow> bool" where
  "link_contract K ks \<longleftrightarrow>
     (\<forall>n w. ks (snd (LinkByName K n w)) = ks w \<and>
        (\<forall>l. fst (LinkByName K n w) = Inr l \<longrightarrow> k_links (ks w) n = Some l \<and> link_Name l = n) \<and>
        (\<forall>e. fst (LinkByName K n w) = Inl e \<and> str_contains e ''Link not found'' \<longrightarrow> k_links (ks w) n = None)) \<and>
     (\<forall>l. does ks (LinkAdd K l) (\<lambda>s _. k_links s (link_Name l) = None)
        (\<lambda>s. s\<lparr>k_links := (k_links s)(link_Name l \<mapsto> l)\<rparr>)) \<and>
     (\<forall>l m. does ks (LinkSetMTU K l m) (\<lambda>s _. k_links s (link_Name l) \<noteq> None)
        (set_link (link_Name l) (\<lambda>x. x\<lparr>link_MTU := m\<rparr>))) \<and>
     (\<forall>l. does ks (LinkSetDown K l) (\<lambda>s _. k_links s (link_Name l) \<noteq> None)
        (set_link (link_Name l) (\<lambda>x. x\<lparr>link_Up := False\<rparr>))) \<and>
     (\<forall>l. does ks (LinkSetUp K l) (\<lambda>s _. k_links s (link_Name l) \<noteq> None)
        (set_link (link_Name l) (\<lambda>x. x\<lparr>link_Up := True\<rparr>)))"

definition addr_contract :: "'w kernel \<Rightarrow> ('w \<Rightarrow> kstate) \<Rightarrow> bool" where
  "addr_contract K ks \<longleftrightarrow>
     (\<forall>l a. does ks (AddrReplace K l a) (\<lambda>_ _. True) (set_addrs (link_Name l) (insert (ipnet_String a)))) \<and>
     (\<forall>l a. does ks (AddrDel K l a) (\<lambda>s _. ipnet_String a \<in> k_addrs s (link_Name l))
        (set_addrs (link_Name l) (\<lambda>A. A - {ipnet_String a}))) \<and>
     (\<forall>l. does ks (AddrList K l) (\<lambda>s as. ipnet_String ` set as = k_addrs s (link_Name l)) (\<lambda>s. s))"

definition iptables_contract :: "'w kernel \<Rightarrow> ('w \<Rightarrow> kstate) \<Rightarrow> bool" where
  "iptables_contract K ks \<longleftrightarrow>
     does ks (iptables_New K) (\<lambda>_ _. True) (\<lambda>s. s) \<and>
     (\<forall>t c r. does ks (AppendUnique K t c r) (\<lambda>_ _. True) (\<lambda>s. s\<lparr>k_rules := insert (t, c, r) (k_rules s)\<rparr>)) \<and>
     (\<forall>t c r. does ks (iptables_Delete K t c r) (\<lambda>s _. (t, c, r) \<in> k_rules s)
        (\<lambda>s. s\<lparr>k_rules := k_rules s - {(t, c, r)}\<rparr>)) \<and>
     (\<forall>t c. does ks (iptables_List K t c) (\<lambda>_ _. True) (\<lambda>s. s))"

definition ipvs_contract :: "'w kernel \<Rightarrow> ('w \<Rightarrow> kstate) \<Rightarrow> bool" where
  "ipvs_contract K ks \<longleftrightarrow>
     does ks (ipvs_New K) (\<lambda>_ _. True) (\<lambda>s. s) \<and>
     (\<forall>v w. ks (snd (IsServicePresent K v w)) = ks w \<and>
        (fst (IsServicePresent K v w) \<longrightarrow> k_ipvs (ks w) (FWMark v) \<noteq> None)) \<and>
     (\<forall>v. does ks (GetService K v) (\<lambda>_ _. True) (\<lambda>s. s)) \<and>
     does ks (GetServices K) (\<lambda>_ _. True) (\<lambda>s. s) \<and>
     (\<forall>v. does ks (ipvs_NewService K v) (\<lambda>s _. k_ipvs s (FWMark v) = None)
        (\<lambda>s. s\<lparr>k_ipvs := (k_ipvs s)(FWMark v \<mapsto> {})\<rparr>)) \<and>
     (\<forall>v. does ks (UpdateService K v) (\<lambda>s _. k_ipvs s (FWMark v) \<noteq> None) (\<lambda>s. s)) \<and>
     (\<forall>v. does ks (DelService K v) (\<lambda>s _. k_ipvs s (FWMark v) \<noteq> None)
        (\<lambda>s. s\<lparr>k_ipvs := (k_ipvs s)(FWMark v := None)\<rparr>)) \<and>
     (\<forall>v. does ks (GetDestinations K v)
        (\<lambda>s ds. k_ipvs s (FWMark v) = Some ((ip_String \<circ> dest_Address) ` set ds)) (\<lambda>s. s)) \<and>
     (\<forall>v d. does ks (NewDestination K v d) (\<lambda>s _. k_ipvs s (FWMark v) \<noteq> None \<and> \<not> has_dest s (FWMark v) d)
        (set_dests (FWMark v) (insert (ip_String (dest_Address d))))) \<and>
     (\<forall>v d. does ks (UpdateDestination K v d) (\<lambda>s _. has_dest s (FWMark v) d) (\<lambda>s. s)) \<and>
     (\<forall>v d. does ks (DelDestination K v d) (\<lambda>s _. has_dest s (FWMark v) d)
        (set_dests (FWMark v) (\<lambda>D. D - {ip_String (dest_Address d)})))"

definition kernel_contract :: "'w kernel \<Rightarrow> ('w \<Rightarrow> kstate) \<Rightarrow> bool" where
  "kernel_contract K ks \<longleftrightarrow>
     link_contract K ks \<and> addr_contract K ks \<and> iptables_contract K ks \<and> ipvs_contract K ks"

section \<open>A reference kernel\<close>

text \<open>A kernel that never fails except where the documentation says so; it shows that the contract
  can hold.\<close>

record ref_kernel_state =
  rk_links :: "(string, link) gomap"
  rk_addrs :: "(string, ipnet list) gomap"
  rk_rules :: "rule list"
  rk_ipvs :: "(u32, ip list) gomap"

definition rk_list :: "('k, 'a list) gomap \<Rightarrow> 'k \<Rightarrow> 'a list" where
  "rk_list m k = (case map_get m k of None \<Rightarrow> [] | Some xs \<Rightarrow> xs)"

definition guarded :: "('w \<Rightarrow> bool) \<Rightarrow> ('w \<Rightarrow> 'w) \<Rightarrow> ('w, unit) io" where
  "guarded P f w = (if P w then (Inr (), f w) else (Inl (OtherError ''refused''), w))"

definition rk_set_link :: "link \<Rightarrow> (link \<Rightarrow> link) \<Rightarrow> (ref_kernel_state, unit) io" where
  "rk_set_link l f = guarded (\<lambda>w. map_has (rk_links w) (link_Name l))
     (\<lambda>w. w\<lparr>rk_links := map_put (link_Name l) (f (the (map_get (rk_links w) (link_Name l)))) (rk_links w)\<rparr>)"

definition rk_set_addrs :: "link \<Rightarrow> (ipnet list \<Rightarrow> ipnet list) \<Rightarrow> ref_kernel_state \<Rightarrow> ref_kernel_state" where
  "rk_set_addrs l f w = w\<lparr>rk_addrs := map_put (link_Name l) (f (rk_list (rk_addrs w) (link_Name l))) (rk_addrs w)\<rparr>"

definition rk_set_dests :: "ipvs_service \<Rightarrow> (ip list \<Rightarrow> ip list) \<Rightarrow> ref_kernel_state \<Rightarrow> ref_kernel_state" where
  "rk_set_dests v f w = w\<lparr>rk_ipvs := map_put (FWMark v) (f (rk_list (rk_ipvs w) (FWMark v))) (rk_ipvs w)\<rparr>"

definition rk_has :: "ipvs_service \<Rightarrow> ref_kernel_state \<Rightarrow> bool" where
  "rk_has v w = map_has (rk_ipvs w) (FWMark v)"

definition rk_has_dest :: "ipvs_service \<Rightarrow> ipvs_dest \<Rightarrow> ref_kernel_state \<Rightarrow> bool" where
  "rk_has_dest v d w \<longleftrightarrow>
     rk_has v w \<and> ip_String (dest_Address d) \<in> ip_String ` set (rk_list (rk_ipvs w) (FWMark v))"

definition ref_kernel :: "ref_kernel_state kernel" where
  "ref_kernel = \<lparr>
     LinkByName = (\<lambda>n w. (case map_get (rk_links w) n of None \<Rightarrow> Inl ''Link not found'' | Some l \<Rightarrow> Inr (l\<lparr>link_Name := n\<rparr>), w)),
     LinkAdd = (\<lambda>l. guarded (\<lambda>w. \<not> map_has (rk_links w) (link_Name l))
        (\<lambda>w. w\<lparr>rk_links := map_put (link_Name l) l (rk_links w)\<rparr>)),
     LinkSetMTU = (\<lambda>l m. rk_set_link l (\<lambda>x. x\<lparr>link_MTU := m\<rparr>)),
     LinkSetDown = (\<lambda>l. rk_set_link l (\<lambda>x. x\<lparr>link_Up := False\<rparr>)),
     LinkSetUp = (\<lambda>l. rk_set_link l (\<lambda>x. x\<lparr>link_Up := True\<rparr>)),
     ParseAddr = (\<lambda>s. map_option (\<lambda>(x, n). n\<lparr>net_ip := x\<rparr>) (ParseCIDR s)),
     AddrReplace = (\<lambda>l a. guarded (\<lambda>_. True) (rk_set_addrs l (List.insert a))),
     AddrDel = (\<lambda>l a. guarded (\<lambda>w. ipnet_String a \<in> ipnet_String ` set (rk_list (rk_addrs w) (link_Name l)))
        (rk_set_addrs l (filter (\<lambda>b. ipnet_String b \<noteq> ipnet_String a)))),
     AddrList = (\<lambda>l w. (Inr (rk_list (rk_addrs w) (link_Name l)), w)),
     iptables_New = guarded (\<lambda>_. True) id,
     AppendUnique = (\<lambda>t c r. guarded (\<lambda>_. True) (\<lambda>w. w\<lparr>rk_rules := List.insert (t, c, r) (rk_rules w)\<rparr>)),
     iptables_Delete = (\<lambda>t c r. guarded (\<lambda>w. (t, c, r) \<in> set (rk_rules w)) (\<lambda>w. w\<lparr>rk_rules := removeAll (t, c, r) (rk_rules w)\<rparr>)),
     iptables_List = (\<lambda>t c w. (Inr (map (\<lambda>(_, _, r). join '' '' (''-A'' # c # r))
        (filter (\<lambda>(t', c', _). t' = t \<and> c' = c) (rk_rules w))), w)),
     ipvs_New = guarded (\<lambda>_. True) id,
     IsServicePresent = (\<lambda>v w. (rk_has v w, w)),
     GetService = (\<lambda>v w. (if rk_has v w then Inr v else Inl (OtherError ''no service''), w)),
     GetServices = (\<lambda>w. (Inr (map (\<lambda>m. \<lparr>FWMark = m, SchedName = ''rr'', Flags = 0, Timeout = 0, PEName = []\<rparr>)
        (map_keys (rk_ipvs w))), w)),
     ipvs_NewService = (\<lambda>v. guarded (\<lambda>w. \<not> rk_has v w) (\<lambda>w. w\<lparr>rk_ipvs := map_put (FWMark v) [] (rk_ipvs w)\<rparr>)),
     UpdateService = (\<lambda>v. guarded (rk_has v) id),
     DelService = (\<lambda>v. guarded (rk_has v) (\<lambda>w. w\<lparr>rk_ipvs := map_del (FWMark v) (rk_ipvs w)\<rparr>)),
     GetDestinations = (\<lambda>v w. (if rk_has v w
        then Inr (map (\<lambda>a. \<lparr>dest_Address = a, dest_Weight = 1\<rparr>) (rk_list (rk_ipvs w) (FWMark v)))
        else Inl (OtherError ''no service''), w)),
     NewDestination = (\<lambda>v d. guarded (\<lambda>w. rk_has v w \<and> \<not> rk_has_dest v d w) (rk_set_dests v (\<lambda>D. D @ [dest_Address d]))),
     UpdateDestination = (\<lambda>v d. guarded (rk_has_dest v d) id),
     DelDestination = (\<lambda>v d. guarded (rk_has_dest v d)
        (rk_set_dests v (filter (\<lambda>a. ip_String a \<noteq> ip_String (dest_Address d)))))\<rparr>"

definition ref_ks :: "ref_kernel_state \<Rightarrow> kstate" where
  "ref_ks w = \<lparr>k_links = (\<lambda>n. map_option (\<lambda>l. l\<lparr>link_Name := n\<rparr>) (map_get (rk_links w) n)),
     k_addrs = (\<lambda>n. ipnet_String ` set (rk_list (rk_addrs w) n)), k_rules = set (rk_rules w),
     k_ipvs = (\<lambda>m. map_option (\<lambda>D. ip_String ` set D) (map_get (rk_ipvs w) m))\<rparr>"

section \<open>Lemmas\<close>

lemma doesI:
  assumes "\<And>w x w'. op w = (Inr x, w') \<Longrightarrow> pre (ks w) x \<and> ks w' = eff (ks w)"
    and "\<And>w e w'. op w = (Inl e, w') \<Longrightarrow> ks w' = ks w"
  shows "does ks op pre eff"
  unfolding does_def using assms by (auto split: prod.splits sum.splits)

lemma does_Inr: "does ks op pre eff \<Longrightarrow> op w = (Inr x, w') \<Longrightarrow> pre (ks w) x \<and> ks w' = eff (ks w)"
  unfolding does_def by (drule spec [of _ w]) simp

lemma does_Inl: "does ks op pre eff \<Longrightarrow> op w = (Inl e, w') \<Longrightarrow> ks w' = ks w"
  unfolding does_def by (drule spec [of _ w]) simp

lemma does_guarded:
  "(\<And>w. P w \<Longrightarrow> pre (ks w) () \<and> ks (f w) = eff (ks w)) \<Longrightarrow> does ks (guarded P f) pre eff"
  by (rule doesI) (auto simp: guarded_def split: if_splits)

lemma link_contract_ref: "link_contract ref_kernel ref_ks"
  unfolding link_contract_def ref_kernel_def kernel.simps rk_set_link_def
  by (intro conjI allI does_guarded)
    (auto simp: ref_ks_def set_link_def fun_eq_iff split: option.splits)

lemma addr_contract_ref: "addr_contract ref_kernel ref_ks"
  unfolding addr_contract_def ref_kernel_def kernel.simps
proof (intro conjI allI)
  show "does ref_ks (guarded (\<lambda>_. True) (rk_set_addrs l (List.insert a))) (\<lambda>_ _. True)
      (set_addrs (link_Name l) (insert (ipnet_String a)))" for l a
    by (rule does_guarded) (auto simp: ref_ks_def set_addrs_def rk_set_addrs_def rk_list_def fun_eq_iff)
  show "does ref_ks (guarded (\<lambda>w. ipnet_String a \<in> ipnet_String ` set (rk_list (rk_addrs w) (link_Name l)))
        (rk_set_addrs l (filter (\<lambda>b. ipnet_String b \<noteq> ipnet_String a))))
      (\<lambda>s _. ipnet_String a \<in> k_addrs s (link_Name l)) (set_addrs (link_Name l) (\<lambda>A. A - {ipnet_String a}))" for l a
    by (rule does_guarded) (auto simp: ref_ks_def set_addrs_def rk_set_addrs_def rk_list_def fun_eq_iff)
  show "does ref_ks (\<lambda>w. (Inr (rk_list (rk_addrs w) (link_Name l)), w))
      (\<lambda>s as. ipnet_String ` set as = k_addrs s (link_Name l)) (\<lambda>s. s)" for l
    by (rule doesI) (auto simp: ref_ks_def)
qed

lemma iptables_contract_ref: "iptables_contract ref_kernel ref_ks"
  unfolding iptables_contract_def ref_kernel_def kernel.simps
  by (intro conjI allI does_guarded) (auto simp: ref_ks_def intro: doesI)

lemma ipvs_contract_ref: "ipvs_contract ref_kernel ref_ks"
  unfolding ipvs_contract_def ref_kernel_def kernel.simps
proof (intro conjI allI)
  show "does ref_ks (guarded (\<lambda>w. rk_has v w \<and> \<not> rk_has_dest v d w) (rk_set_dests v (\<lambda>D. D @ [dest_Address d])))
      (\<lambda>s _. k_ipvs s (FWMark v) \<noteq> None \<and> \<not> has_dest s (FWMark v) d)
      (set_dests (FWMark v) (insert (ip_String (dest_Address d))))" for v d
    by (rule does_guarded)
      (auto simp: ref_ks_def set_dests_def rk_set_dests_def rk_list_def rk_has_def rk_has_dest_def has_dest_def fun_eq_iff
        split: option.splits)
  show "does ref_ks (guarded (rk_has_dest v d) (rk_set_dests v (filter (\<lambda>a. ip_String a \<noteq> ip_String (dest_Address d)))))
      (\<lambda>s _. has_dest s (FWMark v) d) (set_dests (FWMark v) (\<lambda>D. D - {ip_String (dest_Address d)}))" for v d
    by (rule does_guarded)
      (auto simp: ref_ks_def set_dests_def rk_set_dests_def rk_list_def rk_has_def rk_has_dest_def has_dest_def fun_eq_iff
        split: option.splits)
qed (rule does_guarded doesI | auto simp: ref_ks_def rk_has_def rk_has_dest_def has_dest_def rk_list_def image_comp
      fun_eq_iff split: if_splits option.splits)+

lemma kernel_contract_ref: "kernel_contract ref_kernel ref_ks"
  unfolding kernel_contract_def
  using link_contract_ref addr_contract_ref iptables_contract_ref ipvs_contract_ref by blast

text \<open>The contract, request by request.\<close>

lemma kernel_does:
  assumes "kernel_contract K ks"
  shows does_AddrReplace: "does ks (AddrReplace K l a) (\<lambda>_ _. True) (set_addrs (link_Name l) (insert (ipnet_String a)))"
    and does_AddrDel: "does ks (AddrDel K l a) (\<lambda>s _. ipnet_String a \<in> k_addrs s (link_Name l))
        (set_addrs (link_Name l) (\<lambda>A. A - {ipnet_String a}))"
    and does_AddrList: "does ks (AddrList K l) (\<lambda>s as. ipnet_String ` set as = k_addrs s (link_Name l)) (\<lambda>s. s)"
    and does_iptables_New: "does ks (iptables_New K) (\<lambda>_ _. True) (\<lambda>s. s)"
    and does_AppendUnique: "does ks (AppendUnique K t c r) (\<lambda>_ _. True) (\<lambda>s. s\<lparr>k_rules := insert (t, c, r) (k_rules s)\<rparr>)"
    and does_iptables_Delete: "does ks (iptables_Delete K t c r) (\<lambda>s _. (t, c, r) \<in> k_rules s)
        (\<lambda>s. s\<lparr>k_rules := k_rules s - {(t, c, r)}\<rparr>)"
    and does_iptables_List: "does ks (iptables_List K t c) (\<lambda>_ _. True) (\<lambda>s. s)"
    and does_GetServices: "does ks (GetServices K) (\<lambda>_ _. True) (\<lambda>s. s)"
    and does_ipvs_New: "does ks (ipvs_New K) (\<lambda>_ _. True) (\<lambda>s. s)"
    and does_GetService: "does ks (GetService K v) (\<lambda>_ _. True) (\<lambda>s. s)"
    and does_NewService: "does ks (ipvs_NewService K v) (\<lambda>s _. k_ipvs s (FWMark v) = None)
        (\<lambda>s. s\<lparr>k_ipvs := (k_ipvs s)(FWMark v \<mapsto> {})\<rparr>)"
    and does_UpdateService: "does ks (UpdateService K v) (\<lambda>s _. k_ipvs s (FWMark v) \<noteq> None) (\<lambda>s. s)"
    and does_DelService: "does ks (DelService K v) (\<lambda>s _. k_ipvs s (FWMark v) \<noteq> None)
        (\<lambda>s. s\<lparr>k_ipvs := (k_ipvs s)(FWMark v := None)\<rparr>)"
    and does_GetDestinations: "does ks (GetDestinations K v)
        (\<lambda>s ds. k_ipvs s (FWMark v) = Some ((ip_String \<circ> dest_Address) ` set ds)) (\<lambda>s. s)"
    and does_NewDestination: "does ks (NewDestination K v d)
        (\<lambda>s _. k_ipvs s (FWMark v) \<noteq> None \<and> \<not> has_dest s (FWMark v) d)
        (set_dests (FWMark v) (insert (ip_String (dest_Address d))))"
    and does_UpdateDestination: "does ks (UpdateDestination K v d) (\<lambda>s _. has_dest s (FWMark v) d) (\<lambda>s. s)"
    and does_DelDestination: "does ks (DelDestination K v d) (\<lambda>s _. has_dest s (FWMark v) d)
        (set_dests (FWMark v) (\<lambda>D. D - {ip_String (dest_Address d)}))"
    and does_LinkAdd: "does ks (LinkAdd K l) (\<lambda>s _. k_links s (link_Name l) = None)
        (\<lambda>s. s\<lparr>k_links := (k_links s)(link_Name l \<mapsto> l)\<rparr>)"
    and does_LinkSetMTU: "does ks (LinkSetMTU K l m) (\<lambda>s _. k_links s (link_Name l) \<noteq> None)
        (set_link (link_Name l) (\<lambda>x. x\<lparr>link_MTU := m\<rparr>))"
    and does_LinkSetDown: "does ks (LinkSetDown K l) (\<lambda>s _. k_links s (link_Name l) \<noteq> None)
        (set_link (link_Name l) (\<lambda>x. x\<lparr>link_Up := False\<rparr>))"
    and does_LinkSetUp: "does ks (LinkSetUp K l) (\<lambda>s _. k_links s (link_Name l) \<noteq> None)
        (set_link (link_Name l) (\<lambda>x. x\<lparr>link_Up := True\<rparr>))"
  using assms
  by (simp_all add: kernel_contract_def link_contract_def addr_contract_def iptables_contract_def ipvs_contract_def)

lemma IsServicePresent_ks:
  "kernel_contract K ks \<Longrightarrow> IsServicePresent K v w = (b, w') \<Longrightarrow>
    ks w' = ks w \<and> (b \<longrightarrow> k_ipvs (ks w) (FWMark v) \<noteq> None)"
  unfolding kernel_contract_def ipvs_contract_def by (metis fst_conv snd_conv)

lemma LinkByName_ks:
  assumes "kernel_contract K ks" and "LinkByName K n w = (r, w')"
  shows "ks w' = ks w" and "r = Inr l \<Longrightarrow> k_links (ks w) n = Some l \<and> link_Name l = n"
    and "r = Inl e \<Longrightarrow> str_contains e ''Link not found'' \<Longrightarrow> k_links (ks w) n = None"
proof -
  have c: "ks (snd (LinkByName K n w)) = ks w \<and>
        (\<forall>l. fst (LinkByName K n w) = Inr l \<longrightarrow> k_links (ks w) n = Some l \<and> link_Name l = n) \<and>
        (\<forall>e. fst (LinkByName K n w) = Inl e \<and> str_contains e ''Link not found'' \<longrightarrow> k_links (ks w) n = None)"
    using assms(1) unfolding kernel_contract_def link_contract_def by blast
  show "ks w' = ks w" using c unfolding assms(2) by simp
  show "r = Inr l \<Longrightarrow> k_links (ks w) n = Some l \<and> link_Name l = n" using c unfolding assms(2) by simp
  show "r = Inl e \<Longrightarrow> str_contains e ''Link not found'' \<Longrightarrow> k_links (ks w) n = None"
    using c unfolding assms(2) by simp
qed

lemma parse_addrs_Inr:
  "parse_addrs K ips = Inr addrs \<Longrightarrow> map Some addrs = map (ParseAddr K \<circ> with_suffix) ips"
  by (induction ips arbitrary: addrs) (auto split: option.splits sum.splits)

lemma set_addrs_twice: "set_addrs n f (set_addrs n g s) = set_addrs n (f \<circ> g) s"
  by (simp add: set_addrs_def)

lemma set_addrs_id: "f (k_addrs s n) = k_addrs s n \<Longrightarrow> set_addrs n f s = s"
  by (simp add: set_addrs_def)

lemma set_addrs_cong: "f (k_addrs s n) = g (k_addrs s n) \<Longrightarrow> set_addrs n f s = set_addrs n g s"
  by (simp add: set_addrs_def)

lemma replace_addrs_ks:
  assumes "kernel_contract K ks"
  shows "replace_addrs K link as w = (Inr (), w') \<Longrightarrow>
    ks w' = set_addrs (link_Name link) (\<lambda>A. A \<union> ipnet_String ` set as) (ks w)"
proof (induction "as" arbitrary: w)
  case (Cons a "as")
  from Cons.prems obtain w1 where 1: "AddrReplace K link a w = (Inr (), w1)" "replace_addrs K link as w1 = (Inr (), w')"
    by (auto split: prod.splits sum.splits)
  show ?case using Cons.IH [OF 1(2)] does_Inr [OF does_AddrReplace [OF assms] 1(1)]
    by (simp add: set_addrs_twice comp_def)
qed (simp add: set_addrs_id)

lemma delete_addrs_ks:
  assumes "kernel_contract K ks"
  shows "delete_addrs K link parsed as w = (Inr (), w') \<Longrightarrow>
    ks w' = set_addrs (link_Name link) (\<lambda>A. A - (ipnet_String ` set as - ipnet_String ` set parsed)) (ks w)"
proof (induction "as" arbitrary: w)
  case (Cons a "as")
  show ?case
  proof (cases "list_ex (addressesEqual a) parsed")
    case True
    then have "ipnet_String a \<in> ipnet_String ` set parsed" by (auto simp: list_ex_iff addressesEqual_def)
    moreover have "delete_addrs K link parsed as w = (Inr (), w')" using Cons.prems True by simp
    ultimately show ?thesis using Cons.IH by (simp add: insert_Diff_if)
  next
    case False
    then have "ipnet_String a \<notin> ipnet_String ` set parsed" by (auto simp: list_ex_iff addressesEqual_def)
    moreover from Cons.prems False obtain w1
      where 1: "AddrDel K link a w = (Inr (), w1)" "delete_addrs K link parsed as w1 = (Inr (), w')"
      by (auto split: prod.splits sum.splits)
    ultimately show ?thesis using Cons.IH [OF 1(2)] does_Inr [OF does_AddrDel [OF assms] 1(1)]
      by (simp add: set_addrs_twice insert_Diff_if) (auto intro: set_addrs_cong)
  qed
qed (simp add: set_addrs_id)

lemma apply_rules_create:
  assumes "kernel_contract K ks"
  shows "apply_rules (AppendUnique K) rules w = (Inr (), w') \<Longrightarrow>
    ks w' = (ks w)\<lparr>k_rules := k_rules (ks w) \<union> rule_of ` set rules\<rparr>"
proof (induction rules arbitrary: w)
  case (Cons r rules)
  from Cons.prems obtain w1 where 1: "AppendUnique K (Table r) (Chain r) (RuleSpec r) w = (Inr (), w1)"
    "apply_rules (AppendUnique K) rules w1 = (Inr (), w')"
    by (auto split: prod.splits sum.splits)
  show ?case using does_Inr [OF does_AppendUnique [OF assms] 1(1)] Cons.IH [OF 1(2)] by (simp add: rule_of_def)
qed simp

lemma apply_rules_delete:
  assumes "kernel_contract K ks"
  shows "apply_rules (iptables_Delete K) rules w = (Inr (), w') \<Longrightarrow>
    ks w' = (ks w)\<lparr>k_rules := k_rules (ks w) - rule_of ` set rules\<rparr>"
proof (induction rules arbitrary: w)
  case (Cons r rules)
  from Cons.prems obtain w1 where 1: "iptables_Delete K (Table r) (Chain r) (RuleSpec r) w = (Inr (), w1)"
    "apply_rules (iptables_Delete K) rules w1 = (Inr (), w')"
    by (auto split: prod.splits sum.splits)
  have "A - {rule_of r} - B = A - insert (rule_of r) B" for A B :: "rule set" by blast
  then show ?case using does_Inr [OF does_iptables_Delete [OF assms] 1(1)] Cons.IH [OF 1(2)] by (simp add: rule_of_def)
qed simp

lemma ApplyIpTablesRules_ks:
  assumes "kernel_contract K ks" and "ApplyIpTablesRules K rules action w = (Inr (), w')"
  shows "action = ''create'' \<Longrightarrow> ks w' = (ks w)\<lparr>k_rules := k_rules (ks w) \<union> rule_of ` set rules\<rparr>"
    and "action = ''delete'' \<Longrightarrow> ks w' = (ks w)\<lparr>k_rules := k_rules (ks w) - rule_of ` set rules\<rparr>"
proof -
  obtain r1 w1 where 1: "iptables_New K w = (r1, w1)" by fastforce
  have k: "ks w1 = ks w"
    using does_Inr [OF does_iptables_New [OF assms(1)]] does_Inl [OF does_iptables_New [OF assms(1)]] 1 by (cases r1) auto
  show "action = ''create'' \<Longrightarrow> ks w' = (ks w)\<lparr>k_rules := k_rules (ks w) \<union> rule_of ` set rules\<rparr>"
    using assms(2) 1 k apply_rules_create [OF assms(1), of rules w1 w']
    by (auto simp: ApplyIpTablesRules_def split: sum.splits)
  show "action = ''delete'' \<Longrightarrow> ks w' = (ks w)\<lparr>k_rules := k_rules (ks w) - rule_of ` set rules\<rparr>"
    using assms(2) 1 k apply_rules_delete [OF assms(1), of rules w1 w']
    by (auto simp: ApplyIpTablesRules_def split: sum.splits)
qed

section \<open>Properties\<close>

text \<open>
  When \<open>ReplaceIPsOfInterface\<close> succeeds the interface has exactly the given addresses, and
  nothing else in the kernel has changed.
\<close>

theorem ReplaceIPsOfInterface_exact:
  assumes "kernel_contract K ks" and "ReplaceIPsOfInterface K link ips w = (Inr (), w')"
  shows "(\<forall>ip \<in> set ips. ParseAddr K (with_suffix ip) \<noteq> None) \<and>
    ks w' = set_addrs (link_Name link)
      (\<lambda>_. (\<lambda>ip. ipnet_String (the (ParseAddr K (with_suffix ip)))) ` set ips) (ks w)"
proof -
  from assms(2) obtain parsed w1 addrs w2 where 1: "parse_addrs K ips = Inr parsed"
    "replace_addrs K link parsed w = (Inr (), w1)" "AddrList K link w1 = (Inr addrs, w2)"
    "delete_addrs K link parsed addrs w2 = (Inr (), w')"
    unfolding ReplaceIPsOfInterface_def by (auto split: prod.splits sum.splits)
  note p = parse_addrs_Inr [OF 1(1)]
  have "Some ` set parsed = (ParseAddr K \<circ> with_suffix) ` set ips" using arg_cong [OF p, of set] by simp
  then have ne: "\<forall>ip \<in> set ips. ParseAddr K (with_suffix ip) \<noteq> None" by (metis comp_apply imageE imageI option.distinct(1))
  have "parsed = map (\<lambda>ip. the (ParseAddr K (with_suffix ip))) ips"
    using arg_cong [OF p, of "map the"] by (simp add: comp_def)
  then have S: "ipnet_String ` set parsed = (\<lambda>ip. ipnet_String (the (ParseAddr K (with_suffix ip)))) ` set ips"
    by (simp add: image_comp comp_def)
  from does_Inr [OF does_AddrList [OF assms(1)] 1(3)]
  have "ipnet_String ` set addrs = k_addrs (ks w1) (link_Name link)" "ks w2 = ks w1" by simp_all
  with delete_addrs_ks [OF assms(1) 1(4)] replace_addrs_ks [OF assms(1) 1(2)]
  have "ks w' = set_addrs (link_Name link) (\<lambda>_. ipnet_String ` set parsed) (ks w)"
    by (simp add: set_addrs_def double_diff)
  with ne S show ?thesis by simp
qed

text \<open>An interface with an address it should not have.\<close>

definition demo_link :: link where
  "demo_link = \<lparr>link_Name = ''lbf_n1'', link_Type = ''dummy'', link_MTU = 1450, link_Up = True\<rparr>"

definition demo_kernel :: ref_kernel_state where
  "demo_kernel = \<lparr>rk_links = [(''lbf_n1'', demo_link)], rk_addrs = [(''lbf_n1'', [v4net (10 * 2 ^ 24) 32])],
     rk_rules = [], rk_ipvs = []\<rparr>"

lemma str_contains_char: "str_contains s [c] \<longleftrightarrow> c \<in> set s"
  by (induction s) (auto simp: prefix_def)

lemma mask_32: "cidr_mask 32 4 = [255, 255, 255, 255]"
proof -
  have "cidr_mask_byte 8 = 255" by (simp add: cidr_mask_byte_def)
  then have "cidr_mask 32 (Suc (Suc (Suc (Suc 0)))) = [255, 255, 255, 255]" by simp
  then show ?thesis by (simp only: numeral_eq_Suc pred_numeral_simps BitM.simps Num.nat_of_num.simps)
qed

lemma format_dec_32: "format_dec 32 = ''32''"
  by code_simp

lemma parse_ref_addr:
  assumes "length x = 4"
  shows "ParseAddr ref_kernel (with_suffix (dotted x)) = Some \<lparr>net_ip = v4_prefix @ x, net_mask = cidr_mask 32 4\<rparr>"
proof -
  let ?s = "dotted x @ ''/32''"
  have w: "with_suffix (dotted x) = ?s"
    using slash_not_in_dotted [of x] by (simp add: with_suffix_def str_contains_char)
  have "takeWhile (\<lambda>c. c \<noteq> CHR ''/'') ?s = dotted x" "dropWhile (\<lambda>c. c \<noteq> CHR ''/'') ?s = ''/32''"
    using slash_not_in_dotted [of x] by (auto simp: takeWhile_append dropWhile_append)
  moreover have "parse_dec ''32'' = Some 32"
    using parse_dec_format_dec [of 32] unfolding format_dec_32 .
  ultimately have "ParseCIDR ?s =
      Some (v4_prefix @ x, \<lparr>net_ip = ip_and x (cidr_mask 32 4), net_mask = cidr_mask 32 4\<rparr>)"
    using assms by (simp add: ParseCIDR_def Let_def parse_v4_dotted)
  then show ?thesis by (simp add: w ref_kernel_def)
qed

lemma ipnet_String_host:
  "length x = 4 \<Longrightarrow> ipnet_String \<lparr>net_ip = v4_prefix @ x, net_mask = cidr_mask 32 4\<rparr> = dotted x @ ''/32''"
  by (simp add: ipnet_String_def networkNumberAndMask_def mask_32 ip_String_v4 format_dec_32)


text \<open>The requests of the reference kernel.\<close>

lemma ref_kernel_simps [simp]:
  "LinkByName ref_kernel = (\<lambda>n w. (case map_get (rk_links w) n of None \<Rightarrow> Inl ''Link not found'' | Some l \<Rightarrow> Inr (l\<lparr>link_Name := n\<rparr>), w))"
  "LinkAdd ref_kernel = (\<lambda>l. guarded (\<lambda>w. \<not> map_has (rk_links w) (link_Name l))
        (\<lambda>w. w\<lparr>rk_links := map_put (link_Name l) l (rk_links w)\<rparr>))"
  "LinkSetMTU ref_kernel = (\<lambda>l m. rk_set_link l (\<lambda>x. x\<lparr>link_MTU := m\<rparr>))"
  "LinkSetDown ref_kernel = (\<lambda>l. rk_set_link l (\<lambda>x. x\<lparr>link_Up := False\<rparr>))"
  "LinkSetUp ref_kernel = (\<lambda>l. rk_set_link l (\<lambda>x. x\<lparr>link_Up := True\<rparr>))"
  "AddrReplace ref_kernel = (\<lambda>l a. guarded (\<lambda>_. True) (rk_set_addrs l (List.insert a)))"
  "AddrDel ref_kernel = (\<lambda>l a. guarded (\<lambda>w. ipnet_String a \<in> ipnet_String ` set (rk_list (rk_addrs w) (link_Name l)))
        (rk_set_addrs l (filter (\<lambda>b. ipnet_String b \<noteq> ipnet_String a))))"
  "AddrList ref_kernel = (\<lambda>l w. (Inr (rk_list (rk_addrs w) (link_Name l)), w))"
  "iptables_New ref_kernel = guarded (\<lambda>_. True) id"
  "AppendUnique ref_kernel = (\<lambda>t c r. guarded (\<lambda>_. True) (\<lambda>w. w\<lparr>rk_rules := List.insert (t, c, r) (rk_rules w)\<rparr>))"
  "iptables_Delete ref_kernel = (\<lambda>t c r. guarded (\<lambda>w. (t, c, r) \<in> set (rk_rules w)) (\<lambda>w. w\<lparr>rk_rules := removeAll (t, c, r) (rk_rules w)\<rparr>))"
  "ipvs_New ref_kernel = guarded (\<lambda>_. True) id"
  "IsServicePresent ref_kernel = (\<lambda>v w. (rk_has v w, w))"
  "GetService ref_kernel = (\<lambda>v w. (if rk_has v w then Inr v else Inl (OtherError ''no service''), w))"
  "ipvs_NewService ref_kernel = (\<lambda>v. guarded (\<lambda>w. \<not> rk_has v w) (\<lambda>w. w\<lparr>rk_ipvs := map_put (FWMark v) [] (rk_ipvs w)\<rparr>))"
  "UpdateService ref_kernel = (\<lambda>v. guarded (rk_has v) id)"
  "DelService ref_kernel = (\<lambda>v. guarded (rk_has v) (\<lambda>w. w\<lparr>rk_ipvs := map_del (FWMark v) (rk_ipvs w)\<rparr>))"
  "GetDestinations ref_kernel = (\<lambda>v w. (if rk_has v w
        then Inr (map (\<lambda>a. \<lparr>dest_Address = a, dest_Weight = 1\<rparr>) (rk_list (rk_ipvs w) (FWMark v)))
        else Inl (OtherError ''no service''), w))"
  "NewDestination ref_kernel = (\<lambda>v d. guarded (\<lambda>w. rk_has v w \<and> \<not> rk_has_dest v d w) (rk_set_dests v (\<lambda>D. D @ [dest_Address d])))"
  "UpdateDestination ref_kernel = (\<lambda>v d. guarded (rk_has_dest v d) id)"
  "DelDestination ref_kernel = (\<lambda>v d. guarded (rk_has_dest v d)
        (rk_set_dests v (filter (\<lambda>a. ip_String a \<noteq> ip_String (dest_Address d)))))"
  by (simp_all add: ref_kernel_def)

theorem ReplaceIPsOfInterface_exact_witness:
  "k_addrs (ref_ks (snd (ReplaceIPsOfInterface ref_kernel demo_link [dotted [10, 0, 0, 5]] demo_kernel))) ''lbf_n1'' =
    {dotted [10, 0, 0, 5] @ ''/32''}"
proof -
  let ?run = "ReplaceIPsOfInterface ref_kernel demo_link [dotted [10, 0, 0, 5]] demo_kernel"
  have "fst ?run = Inr ()"
    by (auto simp: ReplaceIPsOfInterface_def parse_ref_addr guarded_def rk_set_addrs_def rk_list_def demo_kernel_def
        demo_link_def addressesEqual_def List.insert_def)
  then have r: "?run = (Inr (), snd ?run)" by (metis prod.collapse)
  have "ref_ks (snd ?run) = set_addrs (link_Name demo_link) (\<lambda>_. {dotted [10, 0, 0, 5] @ ''/32''}) (ref_ks demo_kernel)"
    using ReplaceIPsOfInterface_exact [OF kernel_contract_ref r] by (simp add: parse_ref_addr ipnet_String_host)
  then show ?thesis by (simp add: demo_link_def set_addrs_def)
qed

lemma set_link_same: "map_option f (k_links s n) = k_links s n \<Longrightarrow> set_link n f s = s"
  by (simp add: set_link_def)

text \<open>The links other than the one of the name, and the rest of the kernel, are the same.\<close>

definition only_link :: "string \<Rightarrow> kstate \<Rightarrow> kstate \<Rightarrow> bool" where
  "only_link n s s' \<longleftrightarrow> s' = s\<lparr>k_links := (k_links s)(n := k_links s' n)\<rparr>"

lemma only_link_refl [simp]: "only_link n s s"
  by (simp add: only_link_def)

lemma only_link_set [simp]: "only_link n s (set_link n f s)" "only_link n s (s\<lparr>k_links := (k_links s)(n := l)\<rparr>)"
  by (simp_all add: only_link_def set_link_def)

lemma only_link_trans: "only_link n s t \<Longrightarrow> only_link n t u \<Longrightarrow> only_link n s u"
  unfolding only_link_def by (metis (no_types, lifting) fun_upd_same fun_upd_upd kstate.select_convs(1) kstate.surjective kstate.update_convs(1))

lemma adjust_interface_ks:
  assumes "kernel_contract K ks" and "adjust_interface K name mtu up w = (Inr l, w')"
  shows "link_Name l = name \<and> k_links (ks w) name = Some l \<and>
    k_links (ks w') name = Some (l\<lparr>link_MTU := mtu, link_Up := up\<rparr>) \<and> only_link name (ks w) (ks w')"
proof -
  from assms(2) obtain w1 w2 where 1: "LinkByName K name w = (Inr l, w1)"
    "(if link_MTU l \<noteq> mtu then LinkSetMTU K l mtu w1 else (Inr (), w1)) = (Inr (), w2)"
    "(if link_Up l \<and> \<not> up then LinkSetDown K l w2
      else if \<not> link_Up l \<and> up then LinkSetUp K l w2 else (Inr (), w2)) = (Inr (), w')"
    unfolding adjust_interface_def by (auto split: prod.splits sum.splits)
  from LinkByName_ks [OF assms(1) 1(1)] have l: "ks w1 = ks w" "k_links (ks w) name = Some l" "link_Name l = name"
    by simp_all
  have 2: "k_links (ks w2) name = Some (l\<lparr>link_MTU := mtu\<rparr>) \<and> only_link name (ks w) (ks w2)"
    using 1(2) does_Inr [OF does_LinkSetMTU [OF assms(1)], of l mtu w1 "()" w2] l
    by (auto simp: set_link_def split: if_splits)
  have 3: "k_links (ks w') name = Some (l\<lparr>link_MTU := mtu, link_Up := up\<rparr>) \<and> only_link name (ks w2) (ks w')"
    using 1(3) does_Inr [OF does_LinkSetDown [OF assms(1)], of l w2 "()" w']
      does_Inr [OF does_LinkSetUp [OF assms(1)], of l w2 "()" w'] l(3) 2
    by (auto simp: set_link_def split: if_splits)
  show ?thesis using l 2 3 only_link_trans by blast
qed

text \<open>
  When \<open>EnsureInterface\<close> succeeds there is an interface of the name and type, with the MTU and
  state asked for; no other interface, and nothing else in the kernel, has changed.  The link it
  returns is the one read before the adjustments: its MTU and state may be the old ones.
\<close>

theorem EnsureInterface_exact:
  assumes "kernel_contract K ks" and "EnsureInterface K name ty mtu up w = (Inr l, w')"
  shows "link_Name l = name \<and> link_Type l = ty \<and>
    k_links (ks w') name = Some (l\<lparr>link_MTU := mtu, link_Up := up\<rparr>) \<and> only_link name (ks w) (ks w')"
proof -
  obtain b e w1 where 1: "interfaceExists K name ty w = ((b, e), w1)" by (metis prod.collapse)
  from 1 obtain r where r: "LinkByName K name w = (r, w1)"
    unfolding interfaceExists_def by (auto split: prod.splits sum.splits if_splits)
  note L = LinkByName_ks [OF assms(1) r]
  have e: "e = None" using assms(2) 1 unfolding EnsureInterface_def by (auto split: option.splits bool.splits)
  show ?thesis
  proof (cases b)
    case True
    then have "adjust_interface K name mtu up w1 = (Inr l, w')"
      using assms(2) 1 e unfolding EnsureInterface_def by simp
    note A = adjust_interface_ks [OF assms(1) this]
    moreover obtain x where "r = Inr x" "link_Type x = ty"
      using 1 r e True unfolding interfaceExists_def by (auto split: sum.splits if_splits)
    ultimately show ?thesis using L by auto
  next
    case False
    then obtain x w2 where x: "new_link name ty mtu up = Inr x" "LinkAdd K x w1 = (Inr (), w2)"
      "adjust_interface K name mtu up w2 = (Inr l, w')"
      using assms(2) 1 e unfolding EnsureInterface_def by (auto split: prod.splits sum.splits)
    note A = adjust_interface_ks [OF assms(1) x(3)]
    have n: "link_Name x = name" "link_Type x = ty" using x(1) by (auto simp: new_link_def split: if_splits)
    note B = does_Inr [OF does_LinkAdd [OF assms(1)] x(2)]
    have "only_link name (ks w) (ks w2)" using B L(1) n(1) by simp
    moreover have "link_Type l = ty" using A B n by auto
    ultimately show ?thesis using A only_link_trans by blast
  qed
qed

theorem EnsureInterface_exact_witness:
  "k_links (ref_ks (snd (EnsureInterface ref_kernel ''lbf_n2'' ''dummy'' 1450 True demo_kernel))) ''lbf_n2'' =
    Some \<lparr>link_Name = ''lbf_n2'', link_Type = ''dummy'', link_MTU = 1450, link_Up = True\<rparr>"
proof -
  let ?run = "EnsureInterface ref_kernel ''lbf_n2'' ''dummy'' 1450 True demo_kernel"
  obtain l where "fst ?run = Inr l" and l: "l = \<lparr>link_Name = ''lbf_n2'', link_Type = ''dummy'', link_MTU = 1450, link_Up = True\<rparr>"
    by (simp add: EnsureInterface_def interfaceExists_def new_link_def adjust_interface_def ref_kernel_def demo_kernel_def
        guarded_def)
  then have "?run = (Inr l, snd ?run)" by (metis prod.collapse)
  from EnsureInterface_exact [OF kernel_contract_ref this] show ?thesis by (simp add: l)
qed

end
