(* ===== verification/Service_Lb.thy ===== *)
theory Service_Lb
  imports Networking
begin

text \<open>
  \<open>plugin/pkg/service_lb/network_specific_service_lb.go\<close>: the load balancer of one service in one
  network, an ipvs service that is selected by a firewall mark, whose frontend is an address of
  a dummy interface with three iptables rules and whose backends are its destinations.
\<close>

section \<open>The load balancer\<close>

text \<open>A frontend address that was never set is nil.\<close>

record serviceLb =
  dockerNetworkID :: string
  serviceID :: string
  fwmark :: u32
  frontendIP :: ip
  backendIPs :: "ip list"
  iptablesRules :: "IptablesRule list"
  lb_link :: link

definition NewNetworkSpecificServiceLb :: "link \<Rightarrow> string \<Rightarrow> string \<Rightarrow> u32 \<Rightarrow> serviceLb" where
  "NewNetworkSpecificServiceLb link networkID sid mark = \<lparr>dockerNetworkID = networkID, serviceID = sid,
     fwmark = mark, frontendIP = [], backendIPs = [], iptablesRules = [], lb_link = link\<rparr>"

definition GetFrontendIP :: "serviceLb \<Rightarrow> ip" where "GetFrontendIP slb = frontendIP slb"
definition slb_GetFwmark :: "serviceLb \<Rightarrow> u32" where "slb_GetFwmark slb = fwmark slb"

definition slb_service :: "serviceLb \<Rightarrow> ipvs_service" where
  "slb_service slb = \<lparr>FWMark = fwmark slb, SchedName = ''rr'', Flags = 0, Timeout = 0, PEName = []\<rparr>"

definition ensureIpvsService :: "'w kernel \<Rightarrow> serviceLb \<Rightarrow> ('w, ipvs_service) io" where
  "ensureIpvsService K slb w = (case ipvs_New K w of
      (Inl e, w1) \<Rightarrow> (Inl e, w1)
    | (Inr _, w1) \<Rightarrow>
        (let svc = slb_service slb
         in case IsServicePresent K svc w1 of
              (False, w2) \<Rightarrow>
                (case ipvs_NewService K svc w2 of
                   (Inl e, w3) \<Rightarrow> (Inl e, w3) | (Inr _, w3) \<Rightarrow> (Inr svc, w3))
            | (True, w2) \<Rightarrow>
                (case GetService K svc w2 of
                   (Inl e, w3) \<Rightarrow> (Inl e, w3)
                 | (Inr existing, w3) \<Rightarrow>
                     if SchedName existing \<noteq> SchedName svc \<or> Flags existing \<noteq> Flags svc \<or>
                        Timeout existing \<noteq> Timeout svc \<or> PEName existing \<noteq> PEName svc
                     then (case UpdateService K svc w3 of
                             (Inl e, w4) \<Rightarrow> (Inl e, w4) | (Inr _, w4) \<Rightarrow> (Inr svc, w4))
                     else (Inr svc, w3))))"

text \<open>What \<open>AddBackend\<close>, \<open>RemoveBackend\<close> and \<open>SetBackends\<close> do first: a service that is present.\<close>

definition present_service :: "'w kernel \<Rightarrow> serviceLb \<Rightarrow> ('w, ipvs_service) io" where
  "present_service K slb w = (case ensureIpvsService K slb w of
      (Inl e, w1) \<Rightarrow> (Inl e, w1)
    | (Inr svc, w1) \<Rightarrow>
        (case ipvs_New K w1 of
           (Inl e, w2) \<Rightarrow> (Inl e, w2)
         | (Inr _, w2) \<Rightarrow>
             (case IsServicePresent K svc w2 of
                (False, w3) \<Rightarrow> (Inl (OtherError ''IPVS service does not exist''), w3)
              | (True, w3) \<Rightarrow> (Inr svc, w3))))"

definition AddBackend :: "'w kernel \<Rightarrow> ip \<Rightarrow> serviceLb \<Rightarrow> 'w \<Rightarrow> err option \<times> serviceLb \<times> 'w" where
  "AddBackend K ip slb w = (case present_service K slb w of
      (Inl e, w1) \<Rightarrow> (Some e, slb, w1)
    | (Inr svc, w1) \<Rightarrow>
        (let d = \<lparr>dest_Address = ip, dest_Weight = 1\<rparr>
         in case NewDestination K svc d w1 of
              (Inl _, w2) \<Rightarrow>
                (case UpdateDestination K svc d w2 of
                   (Inl e, w3) \<Rightarrow> (with_message (Some e), slb, w3)
                 | (Inr _, w3) \<Rightarrow> (with_message None, slb, w3))
            | (Inr _, w2) \<Rightarrow> (None, slb\<lparr>backendIPs := backendIPs slb @ [ip]\<rparr>, w2)))"

definition RemoveBackend :: "'w kernel \<Rightarrow> ip \<Rightarrow> serviceLb \<Rightarrow> 'w \<Rightarrow> err option \<times> serviceLb \<times> 'w" where
  "RemoveBackend K ip slb w = (case present_service K slb w of
      (Inl e, w1) \<Rightarrow> (Some e, slb, w1)
    | (Inr svc, w1) \<Rightarrow>
        (case DelDestination K svc \<lparr>dest_Address = ip, dest_Weight = 1\<rparr> w1 of
           (Inl e, w2) \<Rightarrow> (with_message (Some e), slb, w2)
         | (Inr _, w2) \<Rightarrow>
             (None, slb\<lparr>backendIPs := filter (\<lambda>item. \<not> ip_Equal item ip) (backendIPs slb)\<rparr>, w2)))"

text \<open>The loops of \<open>SetBackends\<close> over the addresses to add and the destinations to remove.\<close>

fun add_desired :: "'w kernel \<Rightarrow> ipvs_service \<Rightarrow> (string, ipvs_dest) gomap \<Rightarrow> (string \<times> ip) list \<Rightarrow> ('w, unit) io" where
  "add_desired K svc existingIPs [] w = (Inr (), w)"
| "add_desired K svc existingIPs ((ipStr, ip) # rest) w =
     (if \<not> map_has existingIPs ipStr
      then (case NewDestination K svc \<lparr>dest_Address = ip, dest_Weight = 1\<rparr> w of
              (Inl e, w1) \<Rightarrow> (Inl e, w1) | (Inr _, w1) \<Rightarrow> add_desired K svc existingIPs rest w1)
      else add_desired K svc existingIPs rest w)"

fun remove_undesired :: "'w kernel \<Rightarrow> ipvs_service \<Rightarrow> (string, ip) gomap \<Rightarrow> (string \<times> ipvs_dest) list \<Rightarrow> ('w, unit) io" where
  "remove_undesired K svc desiredIPs [] w = (Inr (), w)"
| "remove_undesired K svc desiredIPs ((ipStr, dest) # rest) w =
     (if \<not> map_has desiredIPs ipStr
      then (case DelDestination K svc dest w of
              (Inl e, w1) \<Rightarrow> (Inl e, w1) | (Inr _, w1) \<Rightarrow> remove_undesired K svc desiredIPs rest w1)
      else remove_undesired K svc desiredIPs rest w)"

definition by_text :: "('a \<Rightarrow> ip) \<Rightarrow> 'a list \<Rightarrow> (string, 'a) gomap" where
  "by_text f xs = fold (\<lambda>x. map_put (ip_String (f x)) x) xs []"

definition SetBackends :: "'w kernel \<Rightarrow> ip list \<Rightarrow> serviceLb \<Rightarrow> 'w \<Rightarrow> err option \<times> serviceLb \<times> 'w" where
  "SetBackends K ips slb w = (case present_service K slb w of
      (Inl e, w1) \<Rightarrow> (Some e, slb, w1)
    | (Inr svc, w1) \<Rightarrow>
        (case GetDestinations K svc w1 of
           (Inl e, w2) \<Rightarrow> (Some e, slb, w2)
         | (Inr existingDests, w2) \<Rightarrow>
             (let existingIPs = by_text dest_Address existingDests; desiredIPs = by_text (\<lambda>ip. ip) ips
              in case add_desired K svc existingIPs desiredIPs w2 of
                   (Inl e, w3) \<Rightarrow> (with_message (Some e), slb, w3)
                 | (Inr _, w3) \<Rightarrow>
                     (case remove_undesired K svc desiredIPs existingIPs w3 of
                        (Inl e, w4) \<Rightarrow> (with_message (Some e), slb, w4)
                      | (Inr _, w4) \<Rightarrow> (None, slb\<lparr>backendIPs := ips\<rparr>, w4)))))"

section \<open>The frontend\<close>

definition frontend_rules :: "string \<Rightarrow> string \<Rightarrow> IptablesRule list" where
  "frontend_rules vip mark =
     [\<lparr>Table = ''nat'', Chain = ''POSTROUTING'',
       RuleSpec = [''-d'', vip, ''-m'', ''mark'', ''--mark'', mark, ''-j'', ''MASQUERADE'']\<rparr>,
      \<lparr>Table = ''mangle'', Chain = ''PREROUTING'',
       RuleSpec = [''-d'', vip, ''-p'', ''udp'', ''-j'', ''MARK'', ''--set-mark'', mark]\<rparr>,
      \<lparr>Table = ''mangle'', Chain = ''PREROUTING'',
       RuleSpec = [''-d'', vip, ''-p'', ''tcp'', ''-j'', ''MARK'', ''--set-mark'', mark]\<rparr>]"

text \<open>Go's \<open>copy\<close>: as many elements as both slices have.\<close>

definition go_copy :: "'a list \<Rightarrow> 'a list \<Rightarrow> 'a list" where
  "go_copy dst src = take (length dst) src @ drop (length src) dst"

definition ensureServiceLoadBalancerFrontend ::
  "'w kernel \<Rightarrow> serviceLb \<Rightarrow> 'w \<Rightarrow> err option \<times> serviceLb \<times> 'w" where
  "ensureServiceLoadBalancerFrontend K slb w =
     (let vip = ip_String (frontendIP slb)
      in if ParseIP vip = None then (Some (InvalidIP vip), slb, w)
      else case ensureIpvsService K slb w of
          (Inl e, w1) \<Rightarrow> (Some e, slb, w1)
        | (Inr _, w1) \<Rightarrow>
            (let fwmarkStr = format_dec (unat (fwmark slb));
                 nilRules = [];
                 previousIptablesRules =
                   (if length (iptablesRules slb) > 0 then go_copy nilRules (iptablesRules slb) else nilRules);
                 slb1 = slb\<lparr>iptablesRules := frontend_rules vip fwmarkStr\<rparr>
             in case ApplyIpTablesRules K (iptablesRules slb1) ''create'' w1 of
                  (Inl e, w2) \<Rightarrow> (with_message (Some e), slb1, w2)
                | (Inr _, w2) \<Rightarrow>
                    if length previousIptablesRules > 0
                    then (case ApplyIpTablesRules K previousIptablesRules ''delete'' w2 of
                            (Inl e, w3) \<Rightarrow> (with_message (Some e), slb1, w3)
                          | (Inr _, w3) \<Rightarrow> (None, slb1, w3))
                    else (None, slb1, w2)))"

definition UpdateFrontendIP :: "'w kernel \<Rightarrow> ip \<Rightarrow> serviceLb \<Rightarrow> 'w \<Rightarrow> err option \<times> serviceLb \<times> 'w" where
  "UpdateFrontendIP K ip slb w = (case EnsureInterfaceListensOnAddress K (lb_link slb) (ip_String ip) w of
      (Inl e, w1) \<Rightarrow> (with_message (Some e), slb, w1)
    | (Inr _, w1) \<Rightarrow>
        (let oldFrontendIP = frontendIP slb
         in case ensureServiceLoadBalancerFrontend K (slb\<lparr>frontendIP := ip\<rparr>) w1 of
              (Some e, slb1, w2) \<Rightarrow> (with_message (Some e), slb1, w2)
            | (None, slb1, w2) \<Rightarrow>
                if oldFrontendIP \<noteq> [] \<and> ip_String oldFrontendIP \<noteq> ip_String (frontendIP slb1)
                then (case StopListeningOnAddress K (lb_link slb1) (ip_String oldFrontendIP) w2 of
                        (Inl e, w3) \<Rightarrow> (with_message (Some e), slb1, w3)
                      | (Inr _, w3) \<Rightarrow> (None, slb1, w3))
                else (None, slb1, w2)))"

definition slb_Delete :: "'w kernel \<Rightarrow> serviceLb \<Rightarrow> ('w, unit) io" where
  "slb_Delete K slb w = (case ApplyIpTablesRules K (iptablesRules slb) ''delete'' w of
      (Inl e, w1) \<Rightarrow> (Inl e, w1)
    | (Inr _, w1) \<Rightarrow>
        (case ipvs_New K w1 of
           (Inl e, w2) \<Rightarrow> (Inl e, w2)
         | (Inr _, w2) \<Rightarrow>
             (case DelService K (slb_service slb) w2 of
                (Inl e, w3) \<Rightarrow> (Inl e, w3)
              | (Inr _, w3) \<Rightarrow> StopListeningOnAddress K (lb_link slb) (ip_String (frontendIP slb)) w3)))"

section \<open>Lemmas: the service\<close>

lemma dotted_inj: "length x = 4 \<Longrightarrow> length y = 4 \<Longrightarrow> dotted x = dotted y \<longleftrightarrow> x = y"
  by (metis option.inject parse_v4_dotted)

lemma ip_String_To4: "ip_To4 x = Some y \<Longrightarrow> ip_String x = dotted y"
  by (auto simp: ip_String_def ip_To4_def split: if_splits)

lemma ip_To4_Some_cases:
  assumes "ip_To4 x = Some y"
  obtains "x = y" "length y = 4" | "x = v4_prefix @ y" "length y = 4"
  using assms by (auto simp: ip_To4_def split: if_splits) (metis append_take_drop_id)

lemma ip_Equal_String:
  assumes "ip_To4 x = Some a" and "ip_To4 y = Some b"
  shows "ip_Equal x y \<longleftrightarrow> ip_String x = ip_String y"
proof -
  have "length a = 4" "length b = 4" using assms by (auto dest: length_ip_To4)
  then have "ip_String x = ip_String y \<longleftrightarrow> a = b" using assms by (simp add: ip_String_To4 dotted_inj)
  also have "\<dots> \<longleftrightarrow> ip_Equal x y"
    using assms(1)
  proof (cases rule: ip_To4_Some_cases)
    case 1
    show ?thesis using assms(2) by (cases rule: ip_To4_Some_cases) (auto simp: 1 ip_Equal_def)
  next
    case 2
    show ?thesis using assms(2) by (cases rule: ip_To4_Some_cases) (auto simp: 2 ip_Equal_def)
  qed
  finally show ?thesis by simp
qed

text \<open>The kernel state is the same, or the ipvs service of the mark has been created.\<close>

definition ensured :: "u32 \<Rightarrow> kstate \<Rightarrow> kstate \<Rightarrow> bool" where
  "ensured m s s' \<longleftrightarrow> s' = s \<or> (k_ipvs s m = None \<and> s' = s\<lparr>k_ipvs := (k_ipvs s)(m \<mapsto> {})\<rparr>)"

lemma ensured_refl [simp]: "ensured m s s"
  by (simp add: ensured_def)

lemma FWMark_slb [simp]: "FWMark (slb_service slb) = fwmark slb"
  by (simp add: slb_service_def)

lemma ensureIpvsService_ks:
  assumes "kernel_contract K ks" and "ensureIpvsService K slb w = (r, w')"
  shows "ensured (fwmark slb) (ks w) (ks w')" and "r = Inr svc \<Longrightarrow> svc = slb_service slb"
proof -
  let ?v = "slb_service slb"
  obtain r1 w1 where 1: "ipvs_New K w = (r1, w1)" by fastforce
  have k1: "ks w1 = ks w"
    using does_Inr [OF does_ipvs_New [OF assms(1)]] does_Inl [OF does_ipvs_New [OF assms(1)]] 1
    by (cases r1) auto
  obtain p w2 where 2: "IsServicePresent K ?v w1 = (p, w2)" by fastforce
  have k2: "ks w2 = ks w" using IsServicePresent_ks [OF assms(1) 2] k1 by simp
  obtain r3 w3 where 3: "ipvs_NewService K ?v w2 = (r3, w3)" by fastforce
  have k3: "ensured (fwmark slb) (ks w) (ks w3)"
    using does_Inr [OF does_NewService [OF assms(1)], of ?v w2] does_Inl [OF does_NewService [OF assms(1)], of ?v w2] 3 k2
    by (cases r3) (auto simp: ensured_def)
  obtain r4 w4 where 4: "GetService K ?v w2 = (r4, w4)" by fastforce
  have k4: "ks w4 = ks w"
    using does_Inr [OF does_GetService [OF assms(1)], of ?v w2] does_Inl [OF does_GetService [OF assms(1)], of ?v w2] 4 k2
    by (cases r4) auto
  obtain r5 w5 where 5: "UpdateService K ?v w4 = (r5, w5)" by fastforce
  have k5: "ks w5 = ks w"
    using does_Inr [OF does_UpdateService [OF assms(1)], of ?v w4] does_Inl [OF does_UpdateService [OF assms(1)], of ?v w4] 5 k4
    by (cases r5) auto
  show "ensured (fwmark slb) (ks w) (ks w')"
    using assms(2) 1 2 3 4 5 k1 k2 k3 k4 k5
    by (auto simp: ensureIpvsService_def Let_def split: sum.splits bool.splits if_splits)
  show "r = Inr svc \<Longrightarrow> svc = ?v"
    using assms(2) by (auto simp: ensureIpvsService_def Let_def split: prod.splits sum.splits bool.splits if_splits)
qed

lemma present_service_ks:
  assumes "kernel_contract K ks" and "present_service K slb w = (r, w')"
  shows "ensured (fwmark slb) (ks w) (ks w')"
    and "r = Inr svc \<Longrightarrow> svc = slb_service slb \<and> k_ipvs (ks w') (fwmark slb) \<noteq> None"
proof -
  obtain r1 w1 where 1: "ensureIpvsService K slb w = (r1, w1)" by fastforce
  note E = ensureIpvsService_ks [OF assms(1) 1]
  obtain r2 w2 where 2: "ipvs_New K w1 = (r2, w2)" by fastforce
  have k2: "ks w2 = ks w1"
    using does_Inr [OF does_ipvs_New [OF assms(1)]] does_Inl [OF does_ipvs_New [OF assms(1)]] 2 by (cases r2) auto
  show "ensured (fwmark slb) (ks w) (ks w')"
    using assms(2) 1 2 E k2 IsServicePresent_ks [OF assms(1)]
    by (auto simp: present_service_def split: sum.splits prod.splits bool.splits)
  show "r = Inr svc \<Longrightarrow> svc = slb_service slb \<and> k_ipvs (ks w') (fwmark slb) \<noteq> None"
    using assms(2) 1 2 E(2) k2 IsServicePresent_ks [OF assms(1), of "slb_service slb" w2]
    by (auto simp: present_service_def split: sum.splits prod.splits bool.splits)
qed

section \<open>Lemmas: the backends\<close>

text \<open>The load balancer and the kernel agree: the destinations are the recorded backends.\<close>

definition backends_ok :: "serviceLb \<Rightarrow> kstate \<Rightarrow> bool" where
  "backends_ok slb s \<longleftrightarrow> (\<forall>x \<in> set (backendIPs slb). ip_To4 x \<noteq> None) \<and>
     (case k_ipvs s (fwmark slb) of None \<Rightarrow> backendIPs slb = [] | Some D \<Rightarrow> D = ip_String ` set (backendIPs slb))"

lemma backends_ok_ensured: "backends_ok slb s \<Longrightarrow> ensured (fwmark slb) s s' \<Longrightarrow> backends_ok slb s'"
  by (auto simp: backends_ok_def ensured_def)

lemma backends_ok_dests:
  "backends_ok slb s \<Longrightarrow> k_ipvs s (fwmark slb) \<noteq> None \<Longrightarrow>
    k_ipvs s (fwmark slb) = Some (ip_String ` set (backendIPs slb))"
  by (auto simp: backends_ok_def)

lemma AddBackend_ok:
  assumes "kernel_contract K ks" and "backends_ok slb (ks w)" and "ip_To4 ip \<noteq> None"
    and run: "AddBackend K ip slb w = (e, slb', w')"
  shows "backends_ok slb' (ks w') \<and> (e = None \<longrightarrow> ip_String ip \<in> ip_String ` set (backendIPs slb'))"
proof -
  let ?d = "\<lparr>dest_Address = ip, dest_Weight = 1\<rparr>" and ?v = "slb_service slb"
  obtain r1 w1 where 1: "present_service K slb w = (r1, w1)" by fastforce
  note P = present_service_ks [OF assms(1) 1]
  have ok1: "backends_ok slb (ks w1)" using backends_ok_ensured [OF assms(2) P(1)] .
  show ?thesis
  proof (cases r1)
    case (Inl x)
    then show ?thesis using run 1 ok1 by (auto simp: AddBackend_def)
  next
    case (Inr svc)
    note svc = P(2) [OF Inr]
    note D = backends_ok_dests [OF ok1 svc [THEN conjunct2]]
    obtain r2 w2 where 2: "NewDestination K ?v ?d w1 = (r2, w2)" by fastforce
    obtain r3 w3 where 3: "UpdateDestination K ?v ?d w2 = (r3, w3)" by fastforce
    show ?thesis
    proof (cases r2)
      case r2: (Inr u)
      then have "ks w2 = set_dests (fwmark slb) (insert (ip_String ip)) (ks w1)"
        using does_Inr [OF does_NewDestination [OF assms(1)], of ?v ?d w1] 2 by simp
      then show ?thesis
        using run 1 2 Inr svc r2 D ok1 assms(3)
        by (auto simp: AddBackend_def backends_ok_def set_dests_def)
    next
      case r2: (Inl u)
      then have k2: "ks w2 = ks w1"
        using does_Inl [OF does_NewDestination [OF assms(1)], of ?v ?d w1] 2 by simp
      have "ks w3 = ks w1 \<and> (r3 = Inr () \<longrightarrow> has_dest (ks w1) (fwmark slb) ?d)"
        using does_Inr [OF does_UpdateDestination [OF assms(1)], of ?v ?d w2]
          does_Inl [OF does_UpdateDestination [OF assms(1)], of ?v ?d w2] 3 k2 by (cases r3) auto
      then show ?thesis
        using run 1 2 3 Inr svc r2 D ok1
        by (auto simp: AddBackend_def has_dest_def split: sum.splits)
    qed
  qed
qed

lemma RemoveBackend_ok:
  assumes "kernel_contract K ks" and "backends_ok slb (ks w)" and "ip_To4 ip \<noteq> None"
    and run: "RemoveBackend K ip slb w = (e, slb', w')"
  shows "backends_ok slb' (ks w') \<and> (e = None \<longrightarrow> ip_String ip \<notin> ip_String ` set (backendIPs slb'))"
proof -
  let ?d = "\<lparr>dest_Address = ip, dest_Weight = 1\<rparr>" and ?v = "slb_service slb"
  obtain r1 w1 where 1: "present_service K slb w = (r1, w1)" by fastforce
  note P = present_service_ks [OF assms(1) 1]
  have ok1: "backends_ok slb (ks w1)" using backends_ok_ensured [OF assms(2) P(1)] .
  show ?thesis
  proof (cases r1)
    case (Inl x)
    then show ?thesis using run 1 ok1 by (auto simp: RemoveBackend_def)
  next
    case (Inr svc)
    note svc = P(2) [OF Inr]
    note D = backends_ok_dests [OF ok1 svc [THEN conjunct2]]
    obtain r2 w2 where 2: "DelDestination K ?v ?d w1 = (r2, w2)" by fastforce
    show ?thesis
    proof (cases r2)
      case r2: (Inl u)
      then have "ks w2 = ks w1"
        using does_Inl [OF does_DelDestination [OF assms(1)], of ?v ?d w1] 2 by simp
      then show ?thesis using run 1 2 Inr svc r2 ok1 by (auto simp: RemoveBackend_def)
    next
      case r2: (Inr u)
      then have k: "ks w2 = set_dests (fwmark slb) (\<lambda>D. D - {ip_String ip}) (ks w1)"
        using does_Inr [OF does_DelDestination [OF assms(1)], of ?v ?d w1] 2 by simp
      have eq: "ip_Equal x ip \<longleftrightarrow> ip_String x = ip_String ip" if "x \<in> set (backendIPs slb)" for x
      proof -
        have "ip_To4 x \<noteq> None" using ok1 that unfolding backends_ok_def by blast
        then show ?thesis using assms(3) ip_Equal_String by blast
      qed
      let ?B = "filter (\<lambda>item. \<not> ip_Equal item ip) (backendIPs slb)"
      have B: "ip_String ` set ?B = ip_String ` set (backendIPs slb) - {ip_String ip}" using eq by auto
      then have "ip_String ip \<notin> ip_String ` set ?B" by blast
      moreover have "e = None" "slb' = slb\<lparr>backendIPs := ?B\<rparr>" "w' = w2"
        using run 1 2 Inr svc r2 by (auto simp: RemoveBackend_def)
      ultimately show ?thesis
        using B D ok1 k by (simp add: backends_ok_def set_dests_def)
    qed
  qed
qed

text \<open>The maps of \<open>SetBackends\<close>: every key is the text of its address.\<close>

definition texts_ok :: "('a \<Rightarrow> ip) \<Rightarrow> (string \<times> 'a) list \<Rightarrow> bool" where
  "texts_ok f m \<longleftrightarrow> (\<forall>(t, x) \<in> set m. t = ip_String (f x))"

lemma by_text_fold:
  "map_ok m \<Longrightarrow> texts_ok f m \<Longrightarrow>
    map_ok (fold (\<lambda>x. map_put (ip_String (f x)) x) xs m) \<and>
    texts_ok f (fold (\<lambda>x. map_put (ip_String (f x)) x) xs m) \<and>
    fst ` set (fold (\<lambda>x. map_put (ip_String (f x)) x) xs m) = fst ` set m \<union> (ip_String \<circ> f) ` set xs"
proof (induction xs arbitrary: m)
  case (Cons x xs)
  have "map_ok (map_put (ip_String (f x)) x m)" using Cons.prems(1) by simp
  moreover have "texts_ok f (map_put (ip_String (f x)) x m)"
    using Cons.prems(2) set_map_put [of "ip_String (f x)" x m] by (auto simp: texts_ok_def)
  moreover have "fst ` set (map_put (ip_String (f x)) x m) = insert (ip_String (f x)) (fst ` set m)"
    by (simp add: map_put_def dom_update)
  ultimately show ?case using Cons.IH [of "map_put (ip_String (f x)) x m"] by auto
qed simp

lemma by_text:
  shows texts_by_text: "texts_ok f (by_text f xs)"
    and has_by_text: "map_has (by_text f xs) t \<longleftrightarrow> t \<in> (ip_String \<circ> f) ` set xs"
    and keys_by_text: "fst ` set (by_text f xs) = (ip_String \<circ> f) ` set xs"
  using by_text_fold [of "[]" f xs]
  by (auto simp: by_text_def texts_ok_def map_get_None_iff)

lemma set_dests_twice: "set_dests m f (set_dests m g s) = set_dests m (f \<circ> g) s"
  by (simp add: set_dests_def option.map_comp)

lemma set_dests_id: "(\<And>D. f D = D) \<Longrightarrow> set_dests m f s = s"
  by (simp add: set_dests_def option.map_ident_strong)

lemma add_desired_ks:
  assumes "kernel_contract K ks"
  shows "texts_ok (\<lambda>x. x) rest \<Longrightarrow> add_desired K svc existing rest w = (Inr (), w') \<Longrightarrow>
    ks w' = set_dests (FWMark svc) (\<lambda>D. D \<union> {t \<in> fst ` set rest. \<not> map_has existing t}) (ks w)"
proof (induction rest arbitrary: w)
  case (Cons tx rest)
  obtain t x where tx: "tx = (t, x)" by (cases tx)
  from Cons.prems(1) have t: "t = ip_String x" "texts_ok (\<lambda>x. x) rest" by (auto simp: texts_ok_def tx)
  show ?case
  proof (cases "map_has existing t")
    case True
    then have "{s \<in> fst ` set (tx # rest). \<not> map_has existing s} = {s \<in> fst ` set rest. \<not> map_has existing s}"
      by (auto simp: tx)
    moreover have "add_desired K svc existing rest w = (Inr (), w')" using True Cons.prems(2) by (simp add: tx)
    ultimately show ?thesis using Cons.IH [OF t(2)] by simp
  next
    case False
    then obtain w1 where 1: "NewDestination K svc \<lparr>dest_Address = x, dest_Weight = 1\<rparr> w = (Inr (), w1)"
      "add_desired K svc existing rest w1 = (Inr (), w')"
      using Cons.prems(2) by (auto simp: tx split: prod.splits sum.splits)
    have "ks w1 = set_dests (FWMark svc) (insert t) (ks w)"
      using does_Inr [OF does_NewDestination [OF assms] 1(1)] t(1) by simp
    moreover have "{s \<in> fst ` set (tx # rest). \<not> map_has existing s} =
        insert t {s \<in> fst ` set rest. \<not> map_has existing s}" using False by (auto simp: tx)
    ultimately show ?thesis using Cons.IH [OF t(2) 1(2)] by (simp add: set_dests_twice comp_def)
  qed
qed (simp add: set_dests_id)

lemma remove_undesired_ks:
  assumes "kernel_contract K ks"
  shows "texts_ok dest_Address rest \<Longrightarrow> remove_undesired K svc desired rest w = (Inr (), w') \<Longrightarrow>
    ks w' = set_dests (FWMark svc) (\<lambda>D. D - {t \<in> fst ` set rest. \<not> map_has desired t}) (ks w)"
proof (induction rest arbitrary: w)
  case (Cons tx rest)
  obtain t x where tx: "tx = (t, x)" by (cases tx)
  from Cons.prems(1) have t: "t = ip_String (dest_Address x)" "texts_ok dest_Address rest"
    by (auto simp: texts_ok_def tx)
  show ?case
  proof (cases "map_has desired t")
    case True
    then have "{s \<in> fst ` set (tx # rest). \<not> map_has desired s} = {s \<in> fst ` set rest. \<not> map_has desired s}"
      by (auto simp: tx)
    moreover have "remove_undesired K svc desired rest w = (Inr (), w')" using True Cons.prems(2) by (simp add: tx)
    ultimately show ?thesis using Cons.IH [OF t(2)] by simp
  next
    case False
    then obtain w1 where 1: "DelDestination K svc x w = (Inr (), w1)"
      "remove_undesired K svc desired rest w1 = (Inr (), w')"
      using Cons.prems(2) by (auto simp: tx split: prod.splits sum.splits)
    have "ks w1 = set_dests (FWMark svc) (\<lambda>D. D - {t}) (ks w)"
      using does_Inr [OF does_DelDestination [OF assms] 1(1)] t(1) by simp
    moreover have "{s \<in> fst ` set (tx # rest). \<not> map_has desired s} =
        insert t {s \<in> fst ` set rest. \<not> map_has desired s}" using False by (auto simp: tx)
    moreover have "D - {t} - A = D - insert t A" for D A :: "string set" by blast
    ultimately show ?thesis using Cons.IH [OF t(2) 1(2)] by (simp add: set_dests_twice comp_def)
  qed
qed (simp add: set_dests_id)

lemma SetBackends_ks:
  assumes "kernel_contract K ks" and run: "SetBackends K ips slb w = (None, slb', w')"
  shows "slb' = slb\<lparr>backendIPs := ips\<rparr> \<and>
    ks w' = (ks w)\<lparr>k_ipvs := (k_ipvs (ks w))(fwmark slb \<mapsto> ip_String ` set ips)\<rparr>"
proof -
  let ?ex = "by_text dest_Address" and ?de = "by_text (\<lambda>ip. ip) ips"
  from run obtain svc w1 dests w2 w3 where 1: "present_service K slb w = (Inr svc, w1)"
    "GetDestinations K svc w1 = (Inr dests, w2)"
    "add_desired K svc (?ex dests) ?de w2 = (Inr (), w3)"
    "remove_undesired K svc ?de (?ex dests) w3 = (Inr (), w')" and slb: "slb' = slb\<lparr>backendIPs := ips\<rparr>"
    unfolding SetBackends_def Let_def by (auto split: prod.splits sum.splits)
  note P = present_service_ks [OF assms(1) 1(1)]
  from P(2) [OF refl] have svc: "FWMark svc = fwmark slb" by simp
  let ?D = "(ip_String \<circ> dest_Address) ` set dests"
  from does_Inr [OF does_GetDestinations [OF assms(1)] 1(2)]
  have 2: "k_ipvs (ks w1) (fwmark slb) = Some ?D" "ks w2 = ks w1" by (simp_all add: svc)
  have has: "map_has (?ex dests) t \<longleftrightarrow> t \<in> ?D" "map_has ?de t \<longleftrightarrow> t \<in> ip_String ` set ips" for t
    using has_by_text [of dest_Address dests t] has_by_text [of "\<lambda>ip. ip" ips t] by (auto simp: image_iff)
  have keys: "fst ` set (?ex dests) = ?D" "fst ` set ?de = ip_String ` set ips"
    using keys_by_text [of dest_Address dests] keys_by_text [of "\<lambda>ip. ip" ips] by auto
  have 3: "ks w3 = set_dests (fwmark slb) (\<lambda>E. E \<union> {t \<in> ip_String ` set ips. t \<notin> ?D}) (ks w1)"
    using add_desired_ks [OF assms(1) texts_by_text 1(3)] unfolding has keys 2(2) svc .
  have "ks w' = set_dests (fwmark slb) (\<lambda>E. E - {t \<in> ?D. t \<notin> ip_String ` set ips}) (ks w3)"
    using remove_undesired_ks [OF assms(1) texts_by_text 1(4)] unfolding has keys svc .
  moreover have "?D \<union> {t \<in> ip_String ` set ips. t \<notin> ?D} - {t \<in> ?D. t \<notin> ip_String ` set ips} = ip_String ` set ips"
    by blast
  ultimately have "ks w' = (ks w1)\<lparr>k_ipvs := (k_ipvs (ks w1))(fwmark slb \<mapsto> ip_String ` set ips)\<rparr>"
    using 2(1) 3 by (simp add: set_dests_def)
  then show ?thesis using P(1) slb by (auto simp: ensured_def)
qed

section \<open>Lemmas: the frontend\<close>

text \<open>The text under which an interface has an address.\<close>

definition addr_text :: "'w kernel \<Rightarrow> ip \<Rightarrow> string" where
  "addr_text K ip = ipnet_String (the (ParseAddr K (with_suffix (ip_String ip))))"

definition lb_rules :: "serviceLb \<Rightarrow> ip \<Rightarrow> rule set" where
  "lb_rules slb ip = rule_of ` set (frontend_rules (ip_String ip) (format_dec (unat (fwmark slb))))"

lemma listen_ks:
  assumes "kernel_contract K ks"
  shows "EnsureInterfaceListensOnAddress K link (ip_String ip) w = (Inr (), w') \<Longrightarrow>
      ks w' = set_addrs (link_Name link) (insert (addr_text K ip)) (ks w)"
    and "StopListeningOnAddress K link (ip_String ip) w = (Inr (), w') \<Longrightarrow>
      ks w' = set_addrs (link_Name link) (\<lambda>A. A - {addr_text K ip}) (ks w)"
  using does_Inr [OF does_AddrReplace [OF assms], of link _ w "()" w']
    does_Inr [OF does_AddrDel [OF assms], of link _ w "()" w']
  by (auto simp: EnsureInterfaceListensOnAddress_def StopListeningOnAddress_def addr_text_def split: option.splits)

lemma go_copy_nil [simp]: "go_copy [] xs = []"
  by (simp add: go_copy_def)

lemma frontend_ks:
  assumes "kernel_contract K ks" and run: "ensureServiceLoadBalancerFrontend K slb w = (None, slb', w')"
  shows "slb' = slb\<lparr>iptablesRules := frontend_rules (ip_String (frontendIP slb)) (format_dec (unat (fwmark slb)))\<rparr> \<and>
    (\<exists>s. ensured (fwmark slb) (ks w) s \<and> ks w' = s\<lparr>k_rules := k_rules s \<union> lb_rules slb (frontendIP slb)\<rparr>)"
proof -
  let ?rules = "frontend_rules (ip_String (frontendIP slb)) (format_dec (unat (fwmark slb)))"
  from run obtain svc w1 where 1: "ensureIpvsService K slb w = (Inr svc, w1)"
    "ApplyIpTablesRules K ?rules ''create'' w1 = (Inr (), w')" and s: "slb' = slb\<lparr>iptablesRules := ?rules\<rparr>"
    unfolding ensureServiceLoadBalancerFrontend_def Let_def by (auto split: prod.splits sum.splits if_splits)
  show ?thesis
    using s ensureIpvsService_ks(1) [OF assms(1) 1(1)] ApplyIpTablesRules_ks(1) [OF assms(1) 1(2) refl]
    unfolding lb_rules_def by blast
qed

lemma UpdateFrontendIP_ks:
  assumes "kernel_contract K ks" and run: "UpdateFrontendIP K ip slb w = (None, slb', w')"
  shows "slb' = slb\<lparr>frontendIP := ip, iptablesRules := frontend_rules (ip_String ip) (format_dec (unat (fwmark slb)))\<rparr>"
    and "k_rules (ks w') = k_rules (ks w) \<union> lb_rules slb ip"
    and "k_addrs (ks w') = (k_addrs (ks w))(link_Name (lb_link slb) :=
      insert (addr_text K ip) (k_addrs (ks w) (link_Name (lb_link slb))) -
      (if frontendIP slb \<noteq> [] \<and> ip_String (frontendIP slb) \<noteq> ip_String ip
       then {addr_text K (frontendIP slb)} else {}))"
proof -
  let ?slb1 = "slb\<lparr>frontendIP := ip\<rparr>" and ?link = "lb_link slb"
  let ?old = "frontendIP slb \<noteq> [] \<and> ip_String (frontendIP slb) \<noteq> ip_String ip"
  from run obtain w1 slb2 w2 where 1: "EnsureInterfaceListensOnAddress K ?link (ip_String ip) w = (Inr (), w1)"
    "ensureServiceLoadBalancerFrontend K ?slb1 w1 = (None, slb2, w2)"
    unfolding UpdateFrontendIP_def Let_def by (auto split: prod.splits sum.splits option.splits)
  obtain s where F: "slb2 = ?slb1\<lparr>iptablesRules := frontend_rules (ip_String ip) (format_dec (unat (fwmark slb)))\<rparr>"
    "ensured (fwmark slb) (ks w1) s" "ks w2 = s\<lparr>k_rules := k_rules s \<union> lb_rules slb ip\<rparr>"
    using frontend_ks [OF assms(1) 1(2)] by (auto simp: lb_rules_def)
  have k1: "ks w1 = set_addrs (link_Name ?link) (insert (addr_text K ip)) (ks w)"
    using listen_ks(1) [OF assms(1) 1(1)] .
  have 2: "slb' = slb2 \<and> (if ?old then StopListeningOnAddress K ?link (ip_String (frontendIP slb)) w2 = (Inr (), w')
      else w' = w2)"
    using run 1 F(1) unfolding UpdateFrontendIP_def Let_def by (auto split: prod.splits sum.splits if_splits)
  have k3: "ks w' = (if ?old then set_addrs (link_Name ?link) (\<lambda>A. A - {addr_text K (frontendIP slb)}) (ks w2) else ks w2)"
    using 2 listen_ks(2) [OF assms(1), of ?link "frontendIP slb" w2 w'] by auto
  have s: "k_rules s = k_rules (ks w1)" "k_addrs s = k_addrs (ks w1)" using F(2) by (auto simp: ensured_def)
  show "slb' = slb\<lparr>frontendIP := ip, iptablesRules := frontend_rules (ip_String ip) (format_dec (unat (fwmark slb)))\<rparr>"
    using 2 F(1) by simp
  show "k_rules (ks w') = k_rules (ks w) \<union> lb_rules slb ip"
    using k1 k3 F(3) s by (auto simp: set_addrs_def)
  show "k_addrs (ks w') = (k_addrs (ks w))(link_Name ?link :=
      insert (addr_text K ip) (k_addrs (ks w) (link_Name ?link)) - (if ?old then {addr_text K (frontendIP slb)} else {}))"
    using k1 k3 F(3) s by (auto simp: set_addrs_def)
qed

lemma slb_Delete_ks:
  assumes "kernel_contract K ks" and run: "slb_Delete K slb w = (Inr (), w')"
  shows "k_rules (ks w') = k_rules (ks w) - rule_of ` set (iptablesRules slb)"
    and "k_ipvs (ks w') = (k_ipvs (ks w))(fwmark slb := None)"
    and "k_addrs (ks w') = (k_addrs (ks w))(link_Name (lb_link slb) :=
      k_addrs (ks w) (link_Name (lb_link slb)) - {addr_text K (frontendIP slb)})"
proof -
  from run obtain w1 w2 w3 where 1: "ApplyIpTablesRules K (iptablesRules slb) ''delete'' w = (Inr (), w1)"
    "ipvs_New K w1 = (Inr (), w2)" "DelService K (slb_service slb) w2 = (Inr (), w3)"
    "StopListeningOnAddress K (lb_link slb) (ip_String (frontendIP slb)) w3 = (Inr (), w')"
    unfolding slb_Delete_def by (auto split: prod.splits sum.splits)
  have k: "ks w1 = (ks w)\<lparr>k_rules := k_rules (ks w) - rule_of ` set (iptablesRules slb)\<rparr>"
    "ks w2 = ks w1" "ks w3 = (ks w2)\<lparr>k_ipvs := (k_ipvs (ks w2))(fwmark slb := None)\<rparr>"
    "ks w' = set_addrs (link_Name (lb_link slb)) (\<lambda>A. A - {addr_text K (frontendIP slb)}) (ks w3)"
    using ApplyIpTablesRules_ks(2) [OF assms(1) 1(1) refl] does_Inr [OF does_ipvs_New [OF assms(1)] 1(2)]
      does_Inr [OF does_DelService [OF assms(1)] 1(3)] listen_ks(2) [OF assms(1) 1(4)] by simp_all
  show "k_rules (ks w') = k_rules (ks w) - rule_of ` set (iptablesRules slb)"
    "k_ipvs (ks w') = (k_ipvs (ks w))(fwmark slb := None)"
    "k_addrs (ks w') = (k_addrs (ks w))(link_Name (lb_link slb) :=
      k_addrs (ks w) (link_Name (lb_link slb)) - {addr_text K (frontendIP slb)})"
    by (simp_all add: k set_addrs_def)
qed

lemma lb_rules_disjoint: "ip_String a \<noteq> ip_String b \<Longrightarrow> lb_rules slb a \<inter> lb_rules slb b = {}"
  by (auto simp: lb_rules_def frontend_rules_def rule_of_def)

section \<open>Properties\<close>

text \<open>
  The recorded backends of a load balancer are the destinations of its ipvs service: \<open>AddBackend\<close>
  and \<open>RemoveBackend\<close> keep this whatever requests fail, \<open>SetBackends\<close> keeps it when it succeeds, and
  a success means that the address is, or is no longer, a backend.
\<close>

theorem backends_tracked:
  assumes "kernel_contract K ks" and "backends_ok slb (ks w)" and "ip_To4 ip \<noteq> None"
    and "\<forall>x \<in> set ips. ip_To4 x \<noteq> None"
  shows "(case AddBackend K ip slb w of (e, slb', w') \<Rightarrow>
      backends_ok slb' (ks w') \<and> (e = None \<longrightarrow> ip_String ip \<in> ip_String ` set (backendIPs slb'))) \<and>
    (case RemoveBackend K ip slb w of (e, slb', w') \<Rightarrow>
      backends_ok slb' (ks w') \<and> (e = None \<longrightarrow> ip_String ip \<notin> ip_String ` set (backendIPs slb'))) \<and>
    (case SetBackends K ips slb w of (e, slb', w') \<Rightarrow>
      e = None \<longrightarrow> backends_ok slb' (ks w') \<and> backendIPs slb' = ips)"
proof (intro conjI)
  show "case AddBackend K ip slb w of (e, slb', w') \<Rightarrow>
      backends_ok slb' (ks w') \<and> (e = None \<longrightarrow> ip_String ip \<in> ip_String ` set (backendIPs slb'))"
    using AddBackend_ok [OF assms(1-3)] by (auto split: prod.splits)
  show "case RemoveBackend K ip slb w of (e, slb', w') \<Rightarrow>
      backends_ok slb' (ks w') \<and> (e = None \<longrightarrow> ip_String ip \<notin> ip_String ` set (backendIPs slb'))"
    using RemoveBackend_ok [OF assms(1-3)] by (auto split: prod.splits)
  show "case SetBackends K ips slb w of (e, slb', w') \<Rightarrow>
      e = None \<longrightarrow> backends_ok slb' (ks w') \<and> backendIPs slb' = ips"
  proof (cases "SetBackends K ips slb w" rule: prod_cases3)
    case (fields e slb' w')
    then show ?thesis using SetBackends_ks [OF assms(1), of ips slb w slb' w'] assms(4) by (auto simp: backends_ok_def)
  qed
qed

text \<open>
  C33: when \<open>SetBackends\<close> succeeds, the destinations of the service are exactly the given addresses,
  whatever they were before, and nothing else in the kernel has changed.
\<close>

theorem SetBackends_exact:
  assumes "kernel_contract K ks" and "SetBackends K ips slb w = (None, slb', w')"
  shows "backendIPs slb' = ips \<and>
    ks w' = (ks w)\<lparr>k_ipvs := (k_ipvs (ks w))(fwmark slb \<mapsto> ip_String ` set ips)\<rparr>"
  using SetBackends_ks [OF assms] by simp

text \<open>
  A frontend that moves leaves its old iptables rules behind: after two successful calls of
  \<open>UpdateFrontendIP\<close> and a successful \<open>Delete\<close>, the second address has no rule and the interface listens
  on neither, but all rules of the first address are still there.
\<close>

theorem frontend_rules_leak:
  assumes "kernel_contract K ks" and "UpdateFrontendIP K a slb w = (None, slb1, w1)"
    and "UpdateFrontendIP K b slb1 w1 = (None, slb2, w2)" and "slb_Delete K slb2 w2 = (Inr (), w3)"
    and "a \<noteq> []" and "ip_String a \<noteq> ip_String b"
  shows "lb_rules slb a \<subseteq> k_rules (ks w3) \<and> lb_rules slb b \<inter> k_rules (ks w3) = {} \<and>
    {addr_text K a, addr_text K b} \<inter> k_addrs (ks w3) (link_Name (lb_link slb)) = {} \<and>
    k_ipvs (ks w3) (fwmark slb) = None"
proof -
  note A = UpdateFrontendIP_ks [OF assms(1,2)]
  note B = UpdateFrontendIP_ks [OF assms(1,3)]
  note D = slb_Delete_ks [OF assms(1,4)]
  have r: "lb_rules slb1 b = lb_rules slb b" by (simp add: A(1) lb_rules_def)
  have s: "fwmark slb2 = fwmark slb" "lb_link slb2 = lb_link slb" "lb_link slb1 = lb_link slb" "frontendIP slb1 = a"
    "frontendIP slb2 = b" "rule_of ` set (iptablesRules slb2) = lb_rules slb b"
    by (simp_all add: A(1) B(1) lb_rules_def)
  have "k_rules (ks w3) = k_rules (ks w) \<union> lb_rules slb a \<union> lb_rules slb b - lb_rules slb b"
    by (simp add: D(1) B(2) A(2) r s)
  then have "lb_rules slb a \<subseteq> k_rules (ks w3)" "lb_rules slb b \<inter> k_rules (ks w3) = {}"
    using lb_rules_disjoint [OF assms(6), of slb] by blast+
  moreover have "{addr_text K a, addr_text K b} \<inter> k_addrs (ks w3) (link_Name (lb_link slb)) = {}"
    using assms(5,6) by (simp add: D(3) B(3) s)
  moreover have "k_ipvs (ks w3) (fwmark slb) = None" by (simp add: D(2) s)
  ultimately show ?thesis by blast
qed

text \<open>A load balancer on the interface of \<open>demo_kernel\<close>.\<close>

definition demo_lb :: serviceLb where
  "demo_lb = NewNetworkSpecificServiceLb demo_link ''n1'' ''s1'' 42"

lemmas ref_kernel_run = guarded_def rk_has_def rk_has_dest_def rk_set_dests_def rk_list_def
  rk_set_addrs_def map_put_def map_del_def

theorem backends_tracked_witness:
  "backends_ok (fst (snd (AddBackend ref_kernel [10, 0, 0, 9] demo_lb demo_kernel)))
     (ref_ks (snd (snd (AddBackend ref_kernel [10, 0, 0, 9] demo_lb demo_kernel))))"
proof -
  have "backends_ok demo_lb (ref_ks demo_kernel)"
    by (simp add: backends_ok_def demo_lb_def NewNetworkSpecificServiceLb_def ref_ks_def demo_kernel_def)
  from backends_tracked [OF kernel_contract_ref this, of "[10, 0, 0, 9]" "[]"] show ?thesis
    by (simp split: prod.splits)
qed

theorem SetBackends_exact_witness:
  "k_ipvs (ref_ks (snd (snd (SetBackends ref_kernel [[10, 0, 0, 9]] demo_lb demo_kernel)))) 42 = Some {ip_String [10, 0, 0, 9]}"
proof -
  let ?run = "SetBackends ref_kernel [[10, 0, 0, 9]] demo_lb demo_kernel"
  have "fst ?run = None"
    by (simp add: SetBackends_def present_service_def ensureIpvsService_def ref_kernel_run demo_lb_def slb_service_def
        NewNetworkSpecificServiceLb_def demo_kernel_def by_text_def)
  then have "?run = (None, fst (snd ?run), snd (snd ?run))" by (metis prod.collapse)
  from SetBackends_exact [OF kernel_contract_ref this] show ?thesis
    by (simp add: demo_lb_def NewNetworkSpecificServiceLb_def)
qed

theorem frontend_rules_leak_witness:
  "\<exists>slb1 w1 slb2 w2 w3. UpdateFrontendIP ref_kernel [10, 0, 0, 7] demo_lb demo_kernel = (None, slb1, w1) \<and>
    UpdateFrontendIP ref_kernel [10, 0, 0, 8] slb1 w1 = (None, slb2, w2) \<and>
    slb_Delete ref_kernel slb2 w2 = (Inr (), w3) \<and> lb_rules demo_lb [10, 0, 0, 7] \<subseteq> k_rules (ref_ks w3)"
proof -
  let ?m = "format_dec 42"
  let ?addr = "\<lambda>x. \<lparr>net_ip = v4_prefix @ [10, 0, 0, x], net_mask = cidr_mask 32 4\<rparr>"
  let ?rules = "\<lambda>x. frontend_rules (dotted [10, 0, 0, x]) ?m"
  let ?slb = "\<lambda>x. demo_lb\<lparr>frontendIP := [10, 0, 0, x], iptablesRules := ?rules x\<rparr>"
  let ?w1 = "demo_kernel\<lparr>rk_addrs := [(''lbf_n1'', List.insert (?addr 7) [v4net (10 * 2 ^ 24) 32])],
     rk_rules := rev (map rule_of (?rules 7)), rk_ipvs := [(42, [])]\<rparr>"
  let ?old = "filter (\<lambda>b. ipnet_String b \<noteq> ipnet_String (?addr 7))
     (List.insert (?addr 8) (List.insert (?addr 7) [v4net (10 * 2 ^ 24) 32]))"
  let ?w2 = "?w1\<lparr>rk_addrs := [(''lbf_n1'', ?old)], rk_rules := rev (map rule_of (?rules 8)) @ rev (map rule_of (?rules 7))\<rparr>"
  note ref = parse_ref_addr ip_String_v4 ParseIP_dotted UpdateFrontendIP_def EnsureInterfaceListensOnAddress_def
    ensureServiceLoadBalancerFrontend_def StopListeningOnAddress_def ensureIpvsService_def demo_lb_def slb_service_def
    NewNetworkSpecificServiceLb_def demo_kernel_def ApplyIpTablesRules_def demo_link_def frontend_rules_def dotted_inj
    Let_def rule_of_def
  have a: "UpdateFrontendIP ref_kernel [10, 0, 0, 7] demo_lb demo_kernel = (None, ?slb 7, ?w1)"
    by (simp add: ref ref_kernel_run)
  have 7: "ipnet_String (?addr 7) \<in> ipnet_String ` set (List.insert (?addr 8) (List.insert (?addr 7) [v4net (10 * 2 ^ 24) 32]))"
    by (rule imageI) simp
  have b: "UpdateFrontendIP ref_kernel [10, 0, 0, 8] (?slb 7) ?w1 = (None, ?slb 8, ?w2)"
    using 7 by (simp add: ref ref_kernel_run)
  have "ipnet_String (?addr 8) \<in> ipnet_String ` set ?old"
    by (rule imageI) (simp add: ipnet_String_host dotted_inj)
  then have "fst (slb_Delete ref_kernel (?slb 8) ?w2) = Inr ()"
    by (simp add: ref ref_kernel_run slb_Delete_def)
  then obtain w3 where d: "slb_Delete ref_kernel (?slb 8) ?w2 = (Inr (), w3)" by (metis prod.collapse)
  from frontend_rules_leak [OF kernel_contract_ref a b d] a b d show ?thesis by (simp add: ip_String_v4 dotted_inj)
qed

end
