(* ===== verification/Programs.thy ===== *)
theory Programs
  imports Prelude
begin

text \<open>
  Programs over a state, for the components whose methods chain many calls that can fail: a
  program returns a result or an error with the state it leaves, or does not return (\<open>None\<close>).
  Nothing in this theory models a file of the repository.  \<open>after p s Q\<close> says that \<open>p\<close>, started in \<open>s\<close>,
  establishes \<open>Q\<close> if it returns; the rules compute it along the structure of a program.
\<close>

type_synonym ('s, 'a) prog = "'s \<Rightarrow> ('a result \<times> 's) option"

definition returnP :: "'a \<Rightarrow> ('s, 'a) prog" where
  "returnP x s = Some (Inr x, s)"

definition failP :: "err \<Rightarrow> ('s, 'a) prog" where
  "failP e s = Some (Inl e, s)"

definition bindP :: "('s, 'a) prog \<Rightarrow> ('a \<Rightarrow> ('s, 'b) prog) \<Rightarrow> ('s, 'b) prog" where
  "bindP p f s = (case p s of
      None \<Rightarrow> None
    | Some (Inl e, s1) \<Rightarrow> Some (Inl e, s1)
    | Some (Inr x, s1) \<Rightarrow> f x s1)"

definition getP :: "('s \<Rightarrow> 'a) \<Rightarrow> ('s, 'a) prog" where
  "getP f s = Some (Inr (f s), s)"

definition updP :: "('s \<Rightarrow> 's) \<Rightarrow> ('s, unit) prog" where
  "updP f s = Some (Inr (), f s)"

text \<open>A loop whose body may return from the method with an error.\<close>

fun forP :: "('a \<Rightarrow> ('s, unit) prog) \<Rightarrow> 'a list \<Rightarrow> ('s, unit) prog" where
  "forP f [] = returnP ()"
| "forP f (x # xs) = bindP (f x) (\<lambda>_. forP f xs)"

text \<open>A loop that also carries a variable.\<close>

fun foldP :: "('a \<Rightarrow> 'b \<Rightarrow> ('s, 'b) prog) \<Rightarrow> 'a list \<Rightarrow> 'b \<Rightarrow> ('s, 'b) prog" where
  "foldP f [] acc = returnP acc"
| "foldP f (x # xs) acc = bindP (f x acc) (foldP f xs)"

text \<open>Go's error results: \<open>None\<close> is nil.\<close>

definition errP :: "err option \<Rightarrow> ('s, unit) prog" where
  "errP e = (case e of None \<Rightarrow> returnP () | Some e \<Rightarrow> failP e)"

definition resultP :: "'a result \<Rightarrow> ('s, 'a) prog" where
  "resultP r = (case r of Inl e \<Rightarrow> failP e | Inr x \<Rightarrow> returnP x)"

section \<open>What holds after a program\<close>

definition after :: "('s, 'a) prog \<Rightarrow> 's \<Rightarrow> ('a result \<Rightarrow> 's \<Rightarrow> bool) \<Rightarrow> bool" where
  "after p s Q \<longleftrightarrow> (case p s of None \<Rightarrow> True | Some (r, s') \<Rightarrow> Q r s')"

lemma after_use: "after p s Q \<Longrightarrow> p s = Some (r, s') \<Longrightarrow> Q r s'"
  by (simp add: after_def)

lemma afterI: "(\<And>r s'. p s = Some (r, s') \<Longrightarrow> Q r s') \<Longrightarrow> after p s Q"
  by (auto simp: after_def split: option.splits)

lemma after_mono: "after p s Q \<Longrightarrow> (\<And>r s'. Q r s' \<Longrightarrow> Q' r s') \<Longrightarrow> after p s Q'"
  by (auto simp: after_def split: option.splits)

lemma after_return [simp]: "after (returnP x) s Q \<longleftrightarrow> Q (Inr x) s"
  by (simp add: after_def returnP_def)

lemma after_fail [simp]: "after (failP e) s Q \<longleftrightarrow> Q (Inl e) s"
  by (simp add: after_def failP_def)

lemma after_get [simp]: "after (getP f) s Q \<longleftrightarrow> Q (Inr (f s)) s"
  by (simp add: after_def getP_def)

lemma after_upd [simp]: "after (updP f) s Q \<longleftrightarrow> Q (Inr ()) (f s)"
  by (simp add: after_def updP_def)

lemma after_bind [simp]:
  "after (bindP p f) s Q \<longleftrightarrow> after p s (\<lambda>r s1. case r of Inl e \<Rightarrow> Q (Inl e) s1 | Inr x \<Rightarrow> after (f x) s1 Q)"
  by (auto simp: after_def bindP_def split: option.splits sum.splits)

lemma after_bind_upd: "after (bindP (updP f) k) s Q \<longleftrightarrow> after (k ()) (f s) Q"
  by simp

lemma after_bind_get: "after (bindP (getP f) k) s Q \<longleftrightarrow> after (k (f s)) s Q"
  by simp

lemma after_err [simp]: "after (errP e) s Q \<longleftrightarrow> Q (case e of None \<Rightarrow> Inr () | Some x \<Rightarrow> Inl x) s"
  by (simp add: errP_def split: option.split)

lemma after_result [simp]: "after (resultP r) s Q \<longleftrightarrow> Q r s"
  by (simp add: resultP_def split: sum.split)

text \<open>A loop keeps what every turn keeps, also when a turn ends it with an error.\<close>

lemma after_for:
  assumes "I s" and "\<And>x s. x \<in> set xs \<Longrightarrow> I s \<Longrightarrow> after (f x) s (\<lambda>_ s1. I s1)"
  shows "after (forP f xs) s (\<lambda>_ s1. I s1)"
  using assms
proof (induction xs arbitrary: s)
  case (Cons x xs)
  have "after (f x) s (\<lambda>_ s1. I s1)" using Cons.prems by simp
  note first = this
  have rest: "after (forP f xs) s1 (\<lambda>_ s2. I s2)" if "I s1" for s1
    using Cons.IH [OF that] Cons.prems(2) by simp
  have "after (f x) s (\<lambda>r s1. case r of Inl e \<Rightarrow> I s1 | Inr _ \<Rightarrow> after (forP f xs) s1 (\<lambda>_ s2. I s2))"
    by (rule after_mono [OF first]) (simp add: rest split: sum.split)
  then show ?case by simp
qed simp

text \<open>A loop that ends normally has established, turn by turn, an invariant over the part done.\<close>

lemma after_for_done:
  assumes "I [] s"
    and "\<And>done x rest s. xs = done @ x # rest \<Longrightarrow> I done s \<Longrightarrow>
      after (f x) s (\<lambda>r s1. r = Inr () \<longrightarrow> I (done @ [x]) s1)"
  shows "after (forP f xs) s (\<lambda>r s1. r = Inr () \<longrightarrow> I xs s1)"
proof -
  have "after (forP f rest) s (\<lambda>r s1. r = Inr () \<longrightarrow> I xs s1)" if "xs = pre @ rest" "I pre s" for pre rest s
    using that
  proof (induction rest arbitrary: pre s)
    case (Cons x rest)
    have "after (f x) s (\<lambda>r s1. r = Inr () \<longrightarrow> I (pre @ [x]) s1)" using assms(2) Cons.prems by blast
    then have "after (f x) s (\<lambda>r s1. case r of Inl e \<Rightarrow> Inl e = Inr () \<longrightarrow> I xs s1
        | Inr _ \<Rightarrow> after (forP f rest) s1 (\<lambda>r s2. r = Inr () \<longrightarrow> I xs s2))"
      by (rule after_mono) (use Cons.IH [of "pre @ [x]"] Cons.prems(1) in \<open>auto split: sum.split\<close>)
    then show ?case by simp
  qed simp
  from this [of "[]" xs s] assms(1) show ?thesis by simp
qed

lemma after_fold_done:
  assumes "I [] acc s"
    and "\<And>done x rest acc s. xs = done @ x # rest \<Longrightarrow> I done acc s \<Longrightarrow>
      after (f x acc) s (\<lambda>r s1. case r of Inl _ \<Rightarrow> J s1 | Inr acc1 \<Rightarrow> I (done @ [x]) acc1 s1)"
  shows "after (foldP f xs acc) s (\<lambda>r s1. case r of Inl _ \<Rightarrow> J s1 | Inr acc1 \<Rightarrow> I xs acc1 s1)"
proof -
  have "after (foldP f rest acc) s (\<lambda>r s1. case r of Inl _ \<Rightarrow> J s1 | Inr acc1 \<Rightarrow> I xs acc1 s1)"
    if "xs = pre @ rest" "I pre acc s" for pre rest acc s
    using that
  proof (induction rest arbitrary: pre acc s)
    case (Cons x rest)
    have first: "after (f x acc) s (\<lambda>r s1. case r of Inl _ \<Rightarrow> J s1 | Inr acc1 \<Rightarrow> I (pre @ [x]) acc1 s1)"
      using assms(2) Cons.prems by blast
    have rest: "after (foldP f rest acc1) s1 (\<lambda>r s2. case r of Inl _ \<Rightarrow> J s2 | Inr acc2 \<Rightarrow> I xs acc2 s2)"
      if "I (pre @ [x]) acc1 s1" for acc1 s1
      using Cons.IH [OF _ that] Cons.prems(1) by simp
    have "after (f x acc) s (\<lambda>r s1. case r of Inl e \<Rightarrow> (case Inl e of Inl _ \<Rightarrow> J s1 | Inr acc1 \<Rightarrow> I xs acc1 s1)
        | Inr acc1 \<Rightarrow> after (foldP f rest acc1) s1 (\<lambda>r s2. case r of Inl _ \<Rightarrow> J s2 | Inr acc2 \<Rightarrow> I xs acc2 s2))"
      by (rule after_mono [OF first]) (simp add: rest split: sum.split_asm sum.split)
    then show ?case by simp
  qed simp
  from this [of "[]" xs acc s] assms(1) show ?thesis by simp
qed

lemma after_conj: "after p s Q \<Longrightarrow> after p s Q' \<Longrightarrow> after p s (\<lambda>r s'. Q r s' \<and> Q' r s')"
  by (auto simp: after_def split: option.splits)

section \<open>Invariants\<close>

named_theorems keeps_intros \<open>programs keep an invariant, whatever their result\<close>

definition keeps :: "('s \<Rightarrow> bool) \<Rightarrow> ('s, 'a) prog \<Rightarrow> bool" where
  "keeps I p \<longleftrightarrow> (\<forall>s. I s \<longrightarrow> after p s (\<lambda>_ t. I t))"

lemma keepsI: "(\<And>s. I s \<Longrightarrow> after p s (\<lambda>_ t. I t)) \<Longrightarrow> keeps I p"
  by (simp add: keeps_def)

lemma keepsD: "keeps I p \<Longrightarrow> I s \<Longrightarrow> after p s (\<lambda>_ t. I t)"
  by (simp add: keeps_def)

lemma keeps_bind [keeps_intros]: "keeps I p \<Longrightarrow> (\<And>x. keeps I (f x)) \<Longrightarrow> keeps I (bindP p f)"
  unfolding keeps_def after_bind by (auto simp: after_def split: option.splits sum.splits) 

lemma keeps_return [keeps_intros]: "keeps I (returnP x)"
  by (simp add: keeps_def)

lemma keeps_fail [keeps_intros]: "keeps I (failP e)"
  by (simp add: keeps_def)

lemma keeps_get [keeps_intros]: "keeps I (getP f)"
  by (simp add: keeps_def)

lemma keeps_upd [keeps_intros]: "(\<And>s. I s \<Longrightarrow> I (f s)) \<Longrightarrow> keeps I (updP f)"
  by (simp add: keeps_def)

lemma keeps_for [keeps_intros]: "(\<And>x. keeps I (f x)) \<Longrightarrow> keeps I (forP f xs)"
  by (induction xs) (simp_all add: keeps_intros)

lemma keeps_fold [keeps_intros]: "(\<And>x acc. keeps I (f x acc)) \<Longrightarrow> keeps I (foldP f xs acc)"
  by (induction xs arbitrary: acc) (simp_all add: keeps_intros)

section \<open>Objects with a world\<close>

text \<open>Programs over an object and the world, for the methods of one object.\<close>

definition ioN :: "('w, 'a) io \<Rightarrow> ('x \<times> 'w, 'a) prog" where
  "ioN op s = (case op (snd s) of (r, w1) \<Rightarrow> Some (r, fst s, w1))"

definition ioN_opt :: "('w \<Rightarrow> ('a result \<times> 'w) option) \<Rightarrow> ('x \<times> 'w, 'a) prog" where
  "ioN_opt op s = (case op (snd s) of None \<Rightarrow> None | Some (r, w1) \<Rightarrow> Some (r, fst s, w1))"

definition effN :: "('w \<Rightarrow> 'a \<times> 'w) \<Rightarrow> ('x \<times> 'w, 'a) prog" where
  "effN op s = (case op (snd s) of (r, w1) \<Rightarrow> Some (Inr r, fst s, w1))"

definition selfN :: "('x \<Rightarrow> 'a) \<Rightarrow> ('x \<times> 'w, 'a) prog" where
  "selfN f = getP (\<lambda>s. f (fst s))"

definition setN :: "('x \<Rightarrow> 'x) \<Rightarrow> ('x \<times> 'w, unit) prog" where
  "setN f = updP (\<lambda>s. (f (fst s), snd s))"

text \<open>An error is logged; a panic is not caught.\<close>

definition logE :: "('s, 'a) prog \<Rightarrow> ('s, unit) prog" where
  "logE p s = (case p s of
      None \<Rightarrow> None
    | Some (Inl (Panic t), s1) \<Rightarrow> Some (Inl (Panic t), s1)
    | Some (_, s1) \<Rightarrow> Some (Inr (), s1))"

text \<open>The error of a program as a value; a panic is not caught.\<close>

definition attemptP :: "('s, unit) prog \<Rightarrow> ('s, err option) prog" where
  "attemptP p s = (case p s of
      None \<Rightarrow> None
    | Some (Inl (Panic t), s1) \<Rightarrow> Some (Inl (Panic t), s1)
    | Some (Inl e, s1) \<Rightarrow> Some (Inr (Some e), s1)
    | Some (Inr _, s1) \<Rightarrow> Some (Inr None, s1))"

lemma after_ioN [simp]: "after (ioN op) s Q \<longleftrightarrow> (case op (snd s) of (r, w1) \<Rightarrow> Q r (fst s, w1))"
  by (simp add: after_def ioN_def split: prod.split)

lemma after_effN [simp]: "after (effN op) s Q \<longleftrightarrow> (case op (snd s) of (r, w1) \<Rightarrow> Q (Inr r) (fst s, w1))"
  by (simp add: after_def effN_def split: prod.split)

lemma after_selfN [simp]: "after (selfN f) s Q \<longleftrightarrow> Q (Inr (f (fst s))) s"
  by (simp add: selfN_def)

lemma after_setN [simp]: "after (setN f) s Q \<longleftrightarrow> Q (Inr ()) (f (fst s), snd s)"
  by (simp add: setN_def)

lemma after_bind_ioN: "after (bindP (ioN op) k) s Q \<longleftrightarrow>
    (case op (snd s) of (Inl e, w1) \<Rightarrow> Q (Inl e) (fst s, w1) | (Inr x, w1) \<Rightarrow> after (k x) (fst s, w1) Q)"
  by (auto split: prod.split sum.split)

lemma after_bind_selfN: "after (bindP (selfN f) k) s Q \<longleftrightarrow> after (k (f (fst s))) s Q"
  by simp

lemma after_logE: "after p s (\<lambda>_ s1. Q s1) \<Longrightarrow> after (logE p) s (\<lambda>_ s1. Q s1)"
  by (auto simp: after_def logE_def split: option.splits sum.splits err.splits)

end
