(* ===== verification/Worlds.thy ===== *)
theory Worlds
  imports Etcd Networking
begin

text \<open>
  A world that has an etcd and a kernel side by side, for the components that talk to both: the
  reference environment and the reference kernel are lifted to pairs.  Nothing in this theory models
  a file of the repository.
\<close>

definition in_fst :: "('w \<Rightarrow> 'a \<times> 'w) \<Rightarrow> 'w \<times> 'k \<Rightarrow> 'a \<times> 'w \<times> 'k" where
  "in_fst op w = (case op (fst w) of (r, w1) \<Rightarrow> (r, w1, snd w))"

definition in_snd :: "('k \<Rightarrow> 'a \<times> 'k) \<Rightarrow> 'w \<times> 'k \<Rightarrow> 'a \<times> 'w \<times> 'k" where
  "in_snd op w = (case op (snd w) of (r, k1) \<Rightarrow> (r, fst w, k1))"

definition lift_env :: "'w env \<Rightarrow> ('w \<times> 'k) env" where
  "lift_env E = \<lparr>conn_new = in_fst (conn_new E), commit = (\<lambda>cs ts es. in_fst (commit E cs ts es)),
     clock_now = in_fst (clock_now E), rand_intn = (\<lambda>n. in_fst (rand_intn E n)),
     fmt_time = fmt_time E, parse_time = parse_time E\<rparr>"

definition lift_kernel :: "'k kernel \<Rightarrow> ('w \<times> 'k) kernel" where
  "lift_kernel K = \<lparr>LinkByName = (\<lambda>n. in_snd (LinkByName K n)), LinkAdd = (\<lambda>l. in_snd (LinkAdd K l)),
     LinkSetMTU = (\<lambda>l m. in_snd (LinkSetMTU K l m)), LinkSetDown = (\<lambda>l. in_snd (LinkSetDown K l)),
     LinkSetUp = (\<lambda>l. in_snd (LinkSetUp K l)), ParseAddr = ParseAddr K,
     AddrReplace = (\<lambda>l a. in_snd (AddrReplace K l a)), AddrDel = (\<lambda>l a. in_snd (AddrDel K l a)),
     AddrList = (\<lambda>l. in_snd (AddrList K l)), iptables_New = in_snd (iptables_New K),
     AppendUnique = (\<lambda>t c r. in_snd (AppendUnique K t c r)),
     iptables_Delete = (\<lambda>t c r. in_snd (iptables_Delete K t c r)),
     iptables_List = (\<lambda>t c. in_snd (iptables_List K t c)), ipvs_New = in_snd (ipvs_New K),
     IsServicePresent = (\<lambda>v. in_snd (IsServicePresent K v)), GetService = (\<lambda>v. in_snd (GetService K v)),
     GetServices = in_snd (GetServices K), ipvs_NewService = (\<lambda>v. in_snd (ipvs_NewService K v)),
     UpdateService = (\<lambda>v. in_snd (UpdateService K v)), DelService = (\<lambda>v. in_snd (DelService K v)),
     GetDestinations = (\<lambda>v. in_snd (GetDestinations K v)),
     NewDestination = (\<lambda>v d. in_snd (NewDestination K v d)),
     UpdateDestination = (\<lambda>v d. in_snd (UpdateDestination K v d)),
     DelDestination = (\<lambda>v d. in_snd (DelDestination K v d))\<rparr>"

lemma does_in_snd: "does ks op pre eff \<Longrightarrow> does (\<lambda>w. ks (snd w)) (in_snd op) pre eff"
  unfolding does_def in_snd_def by (auto split: prod.splits sum.splits)

lemma snd_in_snd: "fst (in_snd op w) = fst (op (snd w))" "snd (snd (in_snd op w)) = snd (op (snd w))"
  by (simp_all add: in_snd_def case_prod_unfold)

lemma kernel_contract_lift:
  assumes "kernel_contract K ks"
  shows "kernel_contract (lift_kernel K) (\<lambda>w. ks (snd w))"
proof -
  note c = assms [unfolded kernel_contract_def]
  have "link_contract (lift_kernel K) (\<lambda>w. ks (snd w))"
    using c unfolding link_contract_def lift_kernel_def kernel.simps snd_in_snd by (blast intro: does_in_snd)
  moreover have "addr_contract (lift_kernel K) (\<lambda>w. ks (snd w))"
    using c unfolding addr_contract_def lift_kernel_def kernel.simps by (blast intro: does_in_snd)
  moreover have "iptables_contract (lift_kernel K) (\<lambda>w. ks (snd w))"
    using c unfolding iptables_contract_def lift_kernel_def kernel.simps by (blast intro: does_in_snd)
  moreover have "ipvs_contract (lift_kernel K) (\<lambda>w. ks (snd w))"
    using c unfolding ipvs_contract_def lift_kernel_def kernel.simps snd_in_snd by (blast intro: does_in_snd)
  ultimately show ?thesis unfolding kernel_contract_def by blast
qed

text \<open>Requests to etcd do not touch the kernel.\<close>

definition apart :: "'w env \<Rightarrow> ('w \<Rightarrow> kstate) \<Rightarrow> bool" where
  "apart E ks \<longleftrightarrow> (\<forall>w. ks (snd (conn_new E w)) = ks w) \<and> (\<forall>cs ts es w. ks (snd (commit E cs ts es w)) = ks w)"

lemma apart_lift: "apart (lift_env E) (\<lambda>w. ks (snd w))"
  by (simp add: apart_def lift_env_def in_fst_def case_prod_unfold)

lemma lift_kernel_simps [simp]:
  "LinkByName (lift_kernel K) n = in_snd (LinkByName K n)" "LinkAdd (lift_kernel K) l = in_snd (LinkAdd K l)"
  "ParseAddr (lift_kernel K) = ParseAddr K" "AddrReplace (lift_kernel K) l a = in_snd (AddrReplace K l a)"
  "AddrDel (lift_kernel K) l a = in_snd (AddrDel K l a)" "iptables_New (lift_kernel K) = in_snd (iptables_New K)"
  "AppendUnique (lift_kernel K) t c r = in_snd (AppendUnique K t c r)"
  "ipvs_New (lift_kernel K) = in_snd (ipvs_New K)" "IsServicePresent (lift_kernel K) v = in_snd (IsServicePresent K v)"
  "GetService (lift_kernel K) v = in_snd (GetService K v)" "ipvs_NewService (lift_kernel K) v = in_snd (ipvs_NewService K v)"
  by (simp_all add: lift_kernel_def)

lemma lift_env_simps [simp]:
  "conn_new (lift_env E) = in_fst (conn_new E)" "commit (lift_env E) cs ts es = in_fst (commit E cs ts es)"
  by (simp_all add: lift_env_def)

text \<open>Lifted contracts.\<close>

lemma fst_in_fst: "fst (in_fst op w) = fst (op (fst w))" "fst (snd (in_fst op w)) = snd (op (fst w))"
  by (simp_all add: in_fst_def case_prod_unfold)

lemma etcd_contract_lift:
  assumes "etcd_contract E kv rely"
  shows "etcd_contract (lift_env E) (\<lambda>w. kv (fst w)) rely"
proof -
  note C = assms [unfolded etcd_contract_def]
  have txn: "\<exists>m. rely (kv (fst w)) m \<and>
        (case commit (lift_env E) cs ts es w of
           (Inr r, w') \<Rightarrow> Succeeded r = list_all (cmp_holds m) cs \<and>
              run_ops (if Succeeded r then ts else es) m (Responses r) (kv (fst w'))
         | (Inl e, w') \<Rightarrow> kv (fst w') = m \<or> kv (fst w') = txn_effect cs ts es m)" for cs ts es w
  proof -
    obtain r v where rv: "commit E cs ts es (fst w) = (r, v)" by (cases "commit E cs ts es (fst w)")
    then have eq: "commit (lift_env E) cs ts es w = (r, v, snd w)" by (simp add: lift_env_def in_fst_def)
    have "\<exists>m. rely (kv (fst w)) m \<and>
        (case (r, v) of
           (Inr r, w') \<Rightarrow> Succeeded r = list_all (cmp_holds m) cs \<and>
              run_ops (if Succeeded r then ts else es) m (Responses r) (kv w')
         | (Inl e, w') \<Rightarrow> kv w' = m \<or> kv w' = txn_effect cs ts es m)"
      using C [THEN conjunct2, THEN conjunct2, THEN conjunct2, THEN conjunct2, THEN conjunct2, rule_format, of "fst w" cs ts es]
      unfolding rv .
    then show ?thesis unfolding eq prod.case fst_conv .
  qed
  have conn: "rely (kv (fst w)) (kv (fst (snd (conn_new (lift_env E) w))))" for w
    using C [THEN conjunct2, THEN conjunct2, THEN conjunct1] by (simp add: lift_env_def fst_in_fst)
  have clock: "kv (fst (snd (clock_now (lift_env E) w))) = kv (fst w)" for w
    using C [THEN conjunct2, THEN conjunct2, THEN conjunct2, THEN conjunct1] by (simp add: lift_env_def fst_in_fst)
  have rand: "kv (fst (snd (rand_intn (lift_env E) n w))) = kv (fst w) \<and> (0 < n \<longrightarrow> fst (rand_intn (lift_env E) n w) < n)" for n w
    using C [THEN conjunct2, THEN conjunct2, THEN conjunct2, THEN conjunct2, THEN conjunct1]
    by (simp add: lift_env_def fst_in_fst)
  show ?thesis
    unfolding etcd_contract_def
    by (intro conjI allI conn clock rand txn
        C [THEN conjunct1] C [THEN conjunct2, THEN conjunct1] rand [THEN conjunct1] impI rand [THEN conjunct2, THEN mp])
qed

lemma reliable_lift: "reliable E \<Longrightarrow> reliable (lift_env E)"
proof -
  assume R: "reliable E"
  have "\<exists>r w'. commit (lift_env E) cs ts es w = (Inr r, w')" for cs ts es w
  proof -
    obtain r w' where "commit E cs ts es (fst w) = (Inr r, w')" using R unfolding reliable_def by metis
    then show ?thesis by (simp add: lift_env_def in_fst_def)
  qed
  moreover have "fst (conn_new (lift_env E) w) = None" for w
    using R by (simp add: reliable_def lift_env_def in_fst_def case_prod_unfold)
  ultimately show ?thesis unfolding reliable_def by blast
qed

end
