(* ===== verification/Lb_Management.thy ===== *)
theory Lb_Management
  imports Programs Worlds Service_Lb Service Stores Fwmarks Pool
begin

text \<open>
  \<open>plugin/pkg/service_lb/service_lbs_management.go\<close>: the load balancers of all services of a node,
  one per service and flannel network.  Services and flannel networks are objects that other
  parts of the plugin share; the manager's maps hold references \<open>'r\<close> and \<open>'n\<close> to them and the state
  has the heaps they point to.  The mutex of the manager makes each program below one step;
  \<open>CreateLoadBalancer\<close> and the handlers run in goroutines, as separate programs.
\<close>

section \<open>State\<close>

record loadBalancerData =
  FrontendIPs :: "(string, ip) gomap option"

definition lbData_Equals :: "loadBalancerData \<Rightarrow> loadBalancerData \<Rightarrow> bool" where
  "lbData_Equals d o' = CompareIPMaps (FrontendIPs d) (FrontendIPs o')"

text \<open>A flannel network as this component uses it, and the events of a service it subscribes to.\<close>

record flannel_net =
  fn_mtu :: int
  fn_pool :: etcdPool

record service_events =
  ev_networks :: "unit event"
  ev_added :: "unit event"
  ev_removed :: "unit event"
  ev_mode :: "unit event"

text \<open>The packages and services the component calls.\<close>

record 'w sys =
  sys_etcd :: "'w env"
  sys_kernel :: "'w kernel"
  sys_rand :: "'w rand_read"
  sys_lbdata :: "loadBalancerData item_ops"

record ('r, 'n, 'w) lbm =
  services :: "(string, 'r) gomap"
  unsubscribers :: "(string, 'r \<times> nat \<times> nat \<times> nat) gomap"
  loadBalancers :: "(string, (string, serviceLb) gomap) gomap"
  loadBalancersData :: "loadBalancerData storeBase"
  fwmarksManagement :: fwmarks
  flannelNetworksByDockerID :: "(string, 'n) gomap"
  otherNetworksByDockerID :: "(string, unit) gomap"
  service_heap :: "'r \<Rightarrow> service"
  event_heap :: "'r \<Rightarrow> service_events"
  network_heap :: "'n \<Rightarrow> flannel_net"
  raised :: "('r \<times> svc_event) list"
  world :: 'w

section \<open>Calls of other components\<close>

definition ioP :: "('w, 'a) io \<Rightarrow> (('r, 'n, 'w) lbm, 'a) prog" where
  "ioP op s = (case op (world s) of (r, w1) \<Rightarrow> Some (r, s\<lparr>world := w1\<rparr>))"

definition io_optP :: "('w \<Rightarrow> ('a result \<times> 'w) option) \<Rightarrow> (('r, 'n, 'w) lbm, 'a) prog" where
  "io_optP op s = (case op (world s) of None \<Rightarrow> None | Some (r, w1) \<Rightarrow> Some (r, s\<lparr>world := w1\<rparr>))"

definition io_errP :: "('w \<Rightarrow> err option \<times> 'w) \<Rightarrow> (('r, 'n, 'w) lbm, unit) prog" where
  "io_errP op s = (case op (world s) of (e, w1) \<Rightarrow> errP e (s\<lparr>world := w1\<rparr>))"

text \<open>A method of a load balancer, which the map of its service points to.\<close>

definition put_lb :: "string \<Rightarrow> string \<Rightarrow> serviceLb \<Rightarrow> ('r, 'n, 'w) lbm \<Rightarrow> ('r, 'n, 'w) lbm" where
  "put_lb sid n slb s = (case map_get (loadBalancers s) sid of
      None \<Rightarrow> s
    | Some lbs \<Rightarrow> s\<lparr>loadBalancers := map_put sid (map_put n slb lbs) (loadBalancers s)\<rparr>)"

definition lbP ::
  "string \<Rightarrow> string \<Rightarrow> serviceLb \<Rightarrow> (serviceLb \<Rightarrow> 'w \<Rightarrow> err option \<times> serviceLb \<times> 'w) \<Rightarrow>
    (('r, 'n, 'w) lbm, unit) prog"
where
  "lbP sid n slb op s = (case op slb (world s) of (e, slb1, w1) \<Rightarrow> errP e (put_lb sid n slb1 (s\<lparr>world := w1\<rparr>)))"

definition put_pool :: "'n \<Rightarrow> etcdPool \<Rightarrow> ('r, 'n, 'w) lbm \<Rightarrow> ('r, 'n, 'w) lbm" where
  "put_pool nw p s = s\<lparr>network_heap := (network_heap s)(nw := (network_heap s nw)\<lparr>fn_pool := p\<rparr>)\<rparr>"

definition poolP ::
  "'n \<Rightarrow> (etcdPool \<Rightarrow> 'w \<Rightarrow> ('a result \<times> etcdPool \<times> 'w) option) \<Rightarrow> (('r, 'n, 'w) lbm, 'a) prog" where
  "poolP nw op s = (case op (fn_pool (network_heap s nw)) (world s) of
      None \<Rightarrow> None
    | Some (r, p, w1) \<Rightarrow> Some (r, put_pool nw p (s\<lparr>world := w1\<rparr>)))"

definition storeP ::
  "(loadBalancerData storeBase \<Rightarrow> 'w \<Rightarrow> ('w, loadBalancerData) store_res) \<Rightarrow> (('r, 'n, 'w) lbm, unit) prog" where
  "storeP op s = (case op (loadBalancersData s) (world s) of
      (e, ns, st, w1) \<Rightarrow> errP e (s\<lparr>loadBalancersData := st, world := w1\<rparr>))"

section \<open>Networks\<close>

definition SetFlannelNetwork :: "string \<Rightarrow> 'n \<Rightarrow> (('r, 'n, 'w) lbm, unit) prog" where
  "SetFlannelNetwork n nw =
     (if n = [] then failP (OtherError ''docker network id is empty'')
      else updP (\<lambda>s. s\<lparr>flannelNetworksByDockerID := cm_Set n nw (flannelNetworksByDockerID s)\<rparr>))"

definition RegisterOtherNetwork :: "string \<Rightarrow> (('r, 'n, 'w) lbm, unit) prog" where
  "RegisterOtherNetwork n = updP (\<lambda>s. s\<lparr>otherNetworksByDockerID := cm_Set n () (otherNetworksByDockerID s)\<rparr>)"

definition lbm_DeleteNetwork :: "string \<Rightarrow> (('r, 'n, 'w) lbm, unit) prog" where
  "lbm_DeleteNetwork n =
     (if n = [] then failP (OtherError ''docker network id is empty'')
      else updP (\<lambda>s. s\<lparr>flannelNetworksByDockerID := cm_Remove n (flannelNetworksByDockerID s),
                  otherNetworksByDockerID := cm_Remove n (otherNetworksByDockerID s)\<rparr>))"

definition hasMissingNetworks :: "'r \<Rightarrow> ('r, 'n, 'w) lbm \<Rightarrow> bool" where
  "hasMissingNetworks r s = list_ex (\<lambda>n. cm_Get n (flannelNetworksByDockerID s) = None \<and>
     cm_Get n (otherNetworksByDockerID s) = None) (si_Networks (GetInfo (service_heap s r)))"

section \<open>Backends\<close>

definition backendsP ::
  "(ip \<Rightarrow> serviceLb \<Rightarrow> 'w \<Rightarrow> err option \<times> serviceLb \<times> 'w) \<Rightarrow> string \<Rightarrow> (string, ip) gomap \<Rightarrow>
    (('r, 'n, 'w) lbm, unit) prog"
where
  "backendsP op sid ips =
     bindP (getP (\<lambda>s. cm_Get sid (loadBalancers s))) (\<lambda>lbs. case lbs of
        None \<Rightarrow> failP (OtherError ''no load balancer for service'')
      | Some _ \<Rightarrow> forP (\<lambda>(n, ip).
          bindP (getP (\<lambda>s. case cm_Get sid (loadBalancers s) of None \<Rightarrow> None | Some lbs \<Rightarrow> cm_Get n lbs)) (\<lambda>lb. case lb of
             None \<Rightarrow> failP (OtherError ''no load balancer for network'')
           | Some slb \<Rightarrow> lbP sid n slb (op ip))) ips)"

definition addBackendIPsToLoadBalancer ::
  "'w sys \<Rightarrow> string \<Rightarrow> (string, ip) gomap \<Rightarrow> (('r, 'n, 'w) lbm, unit) prog" where
  "addBackendIPsToLoadBalancer S = backendsP (AddBackend (sys_kernel S))"

definition removeBackendIPsFromLoadBalancer ::
  "'w sys \<Rightarrow> string \<Rightarrow> (string, ip) gomap \<Rightarrow> (('r, 'n, 'w) lbm, unit) prog" where
  "removeBackendIPsFromLoadBalancer S = backendsP (RemoveBackend (sys_kernel S))"

section \<open>Deleting\<close>

text \<open>Reading a key that a map does not have, or any key of a nil map, gives the zero value.\<close>

definition ip_at :: "(string, ip) gomap option \<Rightarrow> string \<Rightarrow> ip" where
  "ip_at m n = (case m of None \<Rightarrow> [] | Some m \<Rightarrow> (case map_get m n of None \<Rightarrow> [] | Some x \<Rightarrow> x))"

definition ip_entry :: "(string, ip) gomap option \<Rightarrow> string \<Rightarrow> ip option" where
  "ip_entry m n = (case m of None \<Rightarrow> None | Some m \<Rightarrow> map_get m n)"

definition go_entries :: "('k, 'v) gomap option \<Rightarrow> ('k, 'v) gomap" where
  "go_entries m = (case m of None \<Rightarrow> [] | Some m \<Rightarrow> m)"

definition vip_is_ours :: "ServiceInfo \<Rightarrow> serviceLb \<Rightarrow> string \<Rightarrow> bool" where
  "vip_is_ours info slb n \<longleftrightarrow> GetFrontendIP slb \<noteq> [] \<and>
     \<not> ip_Equal (ip_at (si_IpamVIPs info) n) (ip_at (si_VIPs info) n)"

definition deleteForNetwork ::
  "'w sys \<Rightarrow> ServiceInfo \<Rightarrow> serviceLb \<Rightarrow> string \<Rightarrow> (('r, 'n, 'w) lbm, unit) prog" where
  "deleteForNetwork S info slb n =
     bindP (ioP (slb_Delete (sys_kernel S) slb)) (\<lambda>_.
     bindP (if vip_is_ours info slb n
            then bindP (getP (\<lambda>s. cm_Get n (flannelNetworksByDockerID s))) (\<lambda>nw. case nw of
                None \<Rightarrow> failP (OtherError ''no network found'')
              | Some nw \<Rightarrow> poolP nw (\<lambda>p w. case ReleaseIP (sys_etcd S) (ip_String (GetFrontendIP slb)) p w of
                  (Some e, p1, w1) \<Rightarrow> Some (Inl e, p1, w1) | (None, p1, w1) \<Rightarrow> Some (Inr (), p1, w1)))
            else returnP ()) (\<lambda>_.
     bindP (getP fwmarksManagement) (\<lambda>f.
       io_errP (Release (sys_etcd S) f (si_ID info) n (slb_GetFwmark slb)))))"

text \<open>The function that \<open>CreateLoadBalancer\<close> stores: it takes back three of its four subscriptions.\<close>

definition unsubscribe_all :: "'r \<times> nat \<times> nat \<times> nat \<Rightarrow> ('r, 'n, 'w) lbm \<Rightarrow> ('r, 'n, 'w) lbm" where
  "unsubscribe_all u s = (case u of (r, i, j, k) \<Rightarrow>
     s\<lparr>event_heap := (event_heap s)(r := (event_heap s r)\<lparr>
        ev_networks := unsubscribe i (ev_networks (event_heap s r)),
        ev_added := unsubscribe j (ev_added (event_heap s r)),
        ev_removed := unsubscribe k (ev_removed (event_heap s r))\<rparr>)\<rparr>)"

definition run_unsubscriber :: "string \<Rightarrow> ('r, 'n, 'w) lbm \<Rightarrow> ('r, 'n, 'w) lbm" where
  "run_unsubscriber sid s = (case cm_Get sid (unsubscribers s) of
      None \<Rightarrow> s
    | Some u \<Rightarrow> unsubscribe_all u (s\<lparr>unsubscribers := cm_Remove sid (unsubscribers s)\<rparr>))"

definition DeleteLoadBalancer :: "'w sys \<Rightarrow> string \<Rightarrow> (('r, 'n, 'w) lbm, unit) prog" where
  "DeleteLoadBalancer S sid =
     bindP (getP (\<lambda>s. cm_Get sid (loadBalancers s))) (\<lambda>lbs. case lbs of
        None \<Rightarrow> failP (OtherError ''no load balancer found'')
      | Some lbs \<Rightarrow>
          bindP (updP (\<lambda>s. s\<lparr>loadBalancers := cm_Remove sid (loadBalancers s)\<rparr>)) (\<lambda>_.
          bindP (updP (run_unsubscriber sid)) (\<lambda>_.
          bindP (getP (\<lambda>s. cm_Get sid (services s))) (\<lambda>service. case service of
             None \<Rightarrow> failP (OtherError ''no service found'')
           | Some r \<Rightarrow>
               bindP (updP (\<lambda>s. s\<lparr>services := cm_Remove sid (services s)\<rparr>)) (\<lambda>_.
               bindP (getP (\<lambda>s. GetInfo (service_heap s r))) (\<lambda>info.
               bindP (forP (\<lambda>n. case cm_Get n lbs of
                        None \<Rightarrow> returnP ()
                      | Some slb \<Rightarrow> deleteForNetwork S info slb n) (cm_Keys lbs)) (\<lambda>_.
               storeP (DeleteItem (sys_etcd S) sid))))))))"

section \<open>Creating and updating\<close>

definition getInterfaceName :: "string \<Rightarrow> string" where
  "getInterfaceName n = GetInterfaceName ''lbf'' ''_'' n"

definition lookup_lb :: "string \<Rightarrow> string \<Rightarrow> ('r, 'n, 'w) lbm \<Rightarrow> serviceLb option" where
  "lookup_lb sid n s = (case cm_Get sid (loadBalancers s) of None \<Rightarrow> None | Some lbs \<Rightarrow> cm_Get n lbs)"

text \<open>One turn of the loop over the networks of the service.\<close>

definition ensure_lb :: "'w sys \<Rightarrow> string \<Rightarrow> string \<Rightarrow> (('r, 'n, 'w) lbm, unit) prog" where
  "ensure_lb S sid n =
     bindP (getP (\<lambda>s. cm_Get n (flannelNetworksByDockerID s))) (\<lambda>nw. case nw of
        None \<Rightarrow>
          bindP (getP (\<lambda>s. cm_Get n (otherNetworksByDockerID s))) (\<lambda>other. case other of
             Some _ \<Rightarrow> returnP ()
           | None \<Rightarrow> failP (OtherError ''network missing in internal state''))
      | Some nw \<Rightarrow>
          bindP (getP (\<lambda>s. fn_mtu (network_heap s nw))) (\<lambda>mtu.
          bindP (ioP (EnsureInterface (sys_kernel S) (getInterfaceName n) ''dummy'' mtu True)) (\<lambda>l.
          bindP (getP (lookup_lb sid n)) (\<lambda>lb. case lb of
             Some _ \<Rightarrow> returnP ()
           | None \<Rightarrow>
               bindP (getP fwmarksManagement) (\<lambda>f.
               bindP (io_optP (GetFwmark (sys_etcd S) (sys_rand S) f sid n)) (\<lambda>mark.
               updP (put_lb sid n (NewNetworkSpecificServiceLb l n sid mark))))))))"

text \<open>One turn of the loop over the networks that the service has left.\<close>

definition drop_lb :: "'w sys \<Rightarrow> ServiceInfo \<Rightarrow> string \<Rightarrow> string \<Rightarrow> (('r, 'n, 'w) lbm, unit) prog" where
  "drop_lb S info sid n =
     bindP (getP (lookup_lb sid n)) (\<lambda>lb. case lb of
        None \<Rightarrow> returnP ()
      | Some slb \<Rightarrow>
          bindP (updP (\<lambda>s. case cm_Get sid (loadBalancers s) of
              None \<Rightarrow> s
            | Some lbs \<Rightarrow> s\<lparr>loadBalancers := cm_Set sid (cm_Remove n lbs) (loadBalancers s)\<rparr>)) (\<lambda>_.
          deleteForNetwork S info slb n))"

text \<open>One turn of the loop over the addresses that docker's IPAM gave the service; \<open>d\<close> is the map of
  the frontend addresses so far.\<close>

definition set_frontend ::
  "'w sys \<Rightarrow> string \<Rightarrow> string \<Rightarrow> (string, ip) gomap \<Rightarrow> ip \<Rightarrow> (('r, 'n, 'w) lbm, (string, ip) gomap) prog" where
  "set_frontend S sid n d ip =
     bindP (getP (lookup_lb sid n)) (\<lambda>lb. case lb of
        None \<Rightarrow> failP (OtherError ''load balancer does not exist in internal state'')
      | Some slb \<Rightarrow>
          bindP (lbP sid n slb (UpdateFrontendIP (sys_kernel S) ip)) (\<lambda>_. returnP (map_put n ip d)))"

definition assign_vip ::
  "'w sys \<Rightarrow> string \<Rightarrow> loadBalancerData option \<Rightarrow> string \<times> ip \<Rightarrow> (string, ip) gomap \<Rightarrow>
    (('r, 'n, 'w) lbm, (string, ip) gomap) prog"
where
  "assign_vip S sid existing entry d =
     (case entry of (n, ipamVip) \<Rightarrow>
        bindP (getP (\<lambda>s. cm_Get n (otherNetworksByDockerID s))) (\<lambda>other. case other of
           Some _ \<Rightarrow> returnP (map_put n ipamVip d)
         | None \<Rightarrow>
             (case (case existing of None \<Rightarrow> None | Some e \<Rightarrow> ip_entry (FrontendIPs e) n) of
                Some ip \<Rightarrow> set_frontend S sid n d ip
              | None \<Rightarrow>
                  bindP (getP (\<lambda>s. cm_Get n (flannelNetworksByDockerID s))) (\<lambda>nw. case nw of
                     None \<Rightarrow> failP (OtherError ''network missing in internal state'')
                   | Some nw \<Rightarrow>
                       bindP (poolP nw (AllocateServiceVIP (sys_etcd S) (ip_String ipamVip) sid True))
                         (set_frontend S sid n d)))))"

definition set_vips :: "'r \<Rightarrow> (string, ip) gomap \<Rightarrow> ('r, 'n, 'w) lbm \<Rightarrow> ('r, 'n, 'w) lbm" where
  "set_vips r vips s = (case SetVIPs (Some vips) (service_heap s r) of (v, evs) \<Rightarrow>
     s\<lparr>service_heap := (service_heap s)(r := v), raised := raised s @ map (Pair r) evs\<rparr>)"

text \<open>The part of \<open>createOrUpdateLoadBalancer\<close> that runs under the mutex, on the information about the
  service that was read before waiting for its networks.\<close>

definition createOrUpdate_locked :: "'w sys \<Rightarrow> 'r \<Rightarrow> ServiceInfo \<Rightarrow> (('r, 'n, 'w) lbm, unit) prog" where
  "createOrUpdate_locked S r info =
     (let sid = si_ID info
      in bindP (updP (\<lambda>s. s\<lparr>services := cm_Set sid r (services s),
           loadBalancers := (case cm_Get sid (loadBalancers s) of
              None \<Rightarrow> cm_Set sid NewConcurrentMap (loadBalancers s) | Some _ \<Rightarrow> loadBalancers s)\<rparr>)) (\<lambda>_.
         bindP (getP (\<lambda>s. fst (lo_Difference
             (case cm_Get sid (loadBalancers s) of None \<Rightarrow> [] | Some lbs \<Rightarrow> cm_Keys lbs) (si_Networks info)))) (\<lambda>deleted.
         bindP (forP (ensure_lb S sid) (si_Networks info)) (\<lambda>_.
         bindP (forP (drop_lb S info sid) deleted) (\<lambda>_.
         bindP (getP (\<lambda>s. GetItem sid (loadBalancersData s))) (\<lambda>existing.
         bindP (foldP (assign_vip S sid existing) (go_entries (si_IpamVIPs info)) []) (\<lambda>frontends.
         bindP (storeP (AddOrUpdateItem (sys_etcd S) (sys_lbdata S) sid \<lparr>FrontendIPs = Some frontends\<rparr>)) (\<lambda>_.
         updP (set_vips r frontends)))))))))"

text \<open>
  \<open>createOrUpdateLoadBalancer\<close>: between reading the information and getting the mutex, other
  goroutines have turned the state into \<open>others s\<close>.  While a network of the service is missing there
  it keeps waiting: it does not return.
\<close>

definition createOrUpdateLoadBalancer ::
  "'w sys \<Rightarrow> (('r, 'n, 'w) lbm \<Rightarrow> ('r, 'n, 'w) lbm) \<Rightarrow> 'r \<Rightarrow> (('r, 'n, 'w) lbm, unit) prog" where
  "createOrUpdateLoadBalancer S others r =
     bindP (getP (\<lambda>s. GetInfo (service_heap s r))) (\<lambda>info.
     bindP (updP others) (\<lambda>_ s.
       if hasMissingNetworks r s then None else createOrUpdate_locked S r info s))"

definition subscribe_all :: "'r \<Rightarrow> ('r, 'n, 'w) lbm \<Rightarrow> ('r, 'n, 'w) lbm" where
  "subscribe_all r s =
     (let e = event_heap s r;
          (i, en) = Subscribe () (ev_networks e);
          (j, ea) = Subscribe () (ev_added e);
          (k, er) = Subscribe () (ev_removed e);
          (_, em) = Subscribe () (ev_mode e)
      in s\<lparr>unsubscribers := cm_Set (si_ID (GetInfo (service_heap s r))) (r, i, j, k) (unsubscribers s),
           event_heap := (event_heap s)(r := \<lparr>ev_networks = en, ev_added = ea, ev_removed = er, ev_mode = em\<rparr>)\<rparr>)"

definition CreateLoadBalancer ::
  "'w sys \<Rightarrow> (('r, 'n, 'w) lbm \<Rightarrow> ('r, 'n, 'w) lbm) \<Rightarrow> 'r \<Rightarrow> (('r, 'n, 'w) lbm, unit) prog" where
  "CreateLoadBalancer S others r =
     bindP (createOrUpdateLoadBalancer S others r) (\<lambda>_. updP (subscribe_all r))"

text \<open>What the subscribed handlers do; their errors are logged.\<close>

definition on_networks_changed ::
  "'w sys \<Rightarrow> (('r, 'n, 'w) lbm \<Rightarrow> ('r, 'n, 'w) lbm) \<Rightarrow> 'r \<Rightarrow> (('r, 'n, 'w) lbm, unit) prog" where
  "on_networks_changed S others r = logE (createOrUpdateLoadBalancer S others r)"

definition on_container_added :: "'w sys \<Rightarrow> 'r \<Rightarrow> ContainerInfo \<Rightarrow> (('r, 'n, 'w) lbm, unit) prog" where
  "on_container_added S r c =
     bindP (getP (\<lambda>s. si_ID (GetInfo (service_heap s r)))) (\<lambda>sid. logE (addBackendIPsToLoadBalancer S sid (c_IPs c)))"

definition on_container_removed :: "'w sys \<Rightarrow> 'r \<Rightarrow> ContainerInfo \<Rightarrow> (('r, 'n, 'w) lbm, unit) prog" where
  "on_container_removed S r c =
     bindP (getP (\<lambda>s. si_ID (GetInfo (service_heap s r)))) (\<lambda>sid. logE (removeBackendIPsFromLoadBalancer S sid (c_IPs c)))"

definition on_endpoint_mode_changed ::
  "'w sys \<Rightarrow> (('r, 'n, 'w) lbm \<Rightarrow> ('r, 'n, 'w) lbm) \<Rightarrow> 'r \<Rightarrow> (('r, 'n, 'w) lbm, unit) prog" where
  "on_endpoint_mode_changed S others r =
     bindP (getP (\<lambda>s. GetInfo (service_heap s r))) (\<lambda>info.
       if si_EndpointMode info = ServiceEndpointModeDnsrr then logE (DeleteLoadBalancer S (si_ID info))
       else if si_EndpointMode info = ServiceEndpointModeVip then logE (CreateLoadBalancer S others r)
       else returnP ())"

section \<open>Start and clean-up\<close>

definition NewServiceLbManagement ::
  "'w sys \<Rightarrow> string result \<Rightarrow> etcdClient \<Rightarrow> ('r \<Rightarrow> service) \<Rightarrow> ('r \<Rightarrow> service_events) \<Rightarrow> ('n \<Rightarrow> flannel_net) \<Rightarrow> 'w \<Rightarrow>
    ('r, 'n, 'w) lbm result"
where
  "NewServiceLbManagement S hostname client sh eh nh w = (case hostname of
      Inl e \<Rightarrow> Inl e
    | Inr host \<Rightarrow>
        (case wo_InitFromEtcd (sys_etcd S) (sys_lbdata S)
            (NewWriteOnlyStore (CreateSubClient client [host, ''data''])
               \<lparr>has_OnChanged = False, has_OnAdded = False, has_OnRemoved = False\<rparr>) w of
           (Some e, ns, st, w1) \<Rightarrow> Inl e
         | (None, ns, st, w1) \<Rightarrow> Inr \<lparr>services = NewConcurrentMap, unsubscribers = NewConcurrentMap,
             loadBalancers = NewConcurrentMap, loadBalancersData = st,
             fwmarksManagement = NewFwmarksManagement (CreateSubClient client [host, ''fwmarks'']),
             flannelNetworksByDockerID = NewConcurrentMap, otherNetworksByDockerID = NewConcurrentMap,
             service_heap = sh, event_heap = eh, network_heap = nh, raised = [], world = w1\<rparr>))"

text \<open>\<open>%08x\<close> of a mark.\<close>

definition hex8 :: "u32 \<Rightarrow> string" where
  "hex8 m = map (\<lambda>i. hex_digit (unat (drop_bit (4 * i) m AND 15))) (rev [0..<8])"

fun delete_ipvs :: "'w kernel \<Rightarrow> ipvs_service list \<Rightarrow> 'w \<Rightarrow> 'w" where
  "delete_ipvs K [] w = w"
| "delete_ipvs K (v # vs) w = delete_ipvs K vs (snd (DelService K v w))"

text \<open>Every rule is deleted from the table mangle, also those listed from the table nat.  The slice
  expression panics on a rule of fewer than two words.\<close>

fun delete_raw_rules :: "'w kernel \<Rightarrow> string list \<Rightarrow> ('w, unit) io" where
  "delete_raw_rules K [] w = (Inr (), w)"
| "delete_raw_rules K (raw # raws) w =
     (let ws = go_fields raw
      in if length ws < 2 then (Inl (Panic ''slice bounds out of range''), w)
         else let rule = drop 2 ws
              in if length rule = 0 then delete_raw_rules K raws w
                 else delete_raw_rules K raws (snd (iptables_Delete K ''mangle'' ''PREROUTING'' rule w)))"

fun clean_kernel :: "'w kernel \<Rightarrow> ipvs_service list \<Rightarrow> string list \<Rightarrow> u32 list \<Rightarrow> ('w, unit) io" where
  "clean_kernel K vs rules [] w = (Inr (), w)"
| "clean_kernel K vs rules (m # ms) w =
     (case delete_raw_rules K (filter (\<lambda>item. str_contains item (''0x'' @ hex8 m)) rules)
             (delete_ipvs K (filter (\<lambda>v. FWMark v = m) vs) w) of
        (Inl e, w1) \<Rightarrow> (Inl e, w1)
      | (Inr _, w1) \<Rightarrow> clean_kernel K vs rules ms w1)"

fun delete_stale_data :: "'w env \<Rightarrow> string \<Rightarrow> string list \<Rightarrow> (string \<times> string) list \<Rightarrow> 'w \<Rightarrow> 'w" where
  "delete_stale_data E pre existing [] w = w"
| "delete_stale_data E pre existing ((k, v) # kvs) w =
     (if \<not> lo_Some existing [trim_left CHR ''/'' (trim_prefix pre k)]
      then delete_stale_data E pre existing kvs (snd (etcd_Delete E k w))
      else delete_stale_data E pre existing kvs w)"

definition clean_data :: "'w env \<Rightarrow> etcdClient \<Rightarrow> string \<Rightarrow> string list \<Rightarrow> ('w, unit) io" where
  "clean_data E client host existing = WithConnection E (\<lambda>w.
     let pre = GetKey client [host, ''data'']
     in case etcd_GetPrefix E pre w of
          (Inl e, w1) \<Rightarrow> (Inl e, w1)
        | (Inr kvs, w1) \<Rightarrow> (Inr (), delete_stale_data E pre existing kvs w1))"

definition bind_io :: "('w, 'a) io \<Rightarrow> ('a \<Rightarrow> ('w, 'b) io) \<Rightarrow> ('w, 'b) io" where
  "bind_io op f w = (case op w of (Inl e, w1) \<Rightarrow> (Inl e, w1) | (Inr x, w1) \<Rightarrow> f x w1)"

definition CleanUpStaleLoadBalancers ::
  "'w sys \<Rightarrow> string result \<Rightarrow> etcdClient \<Rightarrow> string list \<Rightarrow> ('w, unit) io" where
  "CleanUpStaleLoadBalancers S hostname client existing = (case hostname of
      Inl e \<Rightarrow> (\<lambda>w. (Inl e, w))
    | Inr host \<Rightarrow>
        (let E = sys_etcd S; K = sys_kernel S
         in bind_io (cleanUpStaleFwmarks E (CreateSubClient client [host, ''fwmarks'']) existing) (\<lambda>marks.
            bind_io (iptables_New K) (\<lambda>_.
            bind_io (ipvs_New K) (\<lambda>_.
            bind_io (GetServices K) (\<lambda>vs.
            bind_io (iptables_List K ''mangle'' ''PREROUTING'') (\<lambda>mangle.
            bind_io (iptables_List K ''nat'' ''POSTROUTING'') (\<lambda>nat.
            bind_io (clean_kernel K vs (mangle @ nat) marks) (\<lambda>_.
            clean_data E client host existing)))))))))"

section \<open>Lemmas: what holds after a call\<close>

lemma after_io [simp]: "after (ioP op) s Q \<longleftrightarrow> (case op (world s) of (r, w1) \<Rightarrow> Q r (s\<lparr>world := w1\<rparr>))"
  by (simp add: after_def ioP_def split: prod.split)

lemma after_io_opt [simp]:
  "after (io_optP op) s Q \<longleftrightarrow> (case op (world s) of None \<Rightarrow> True | Some (r, w1) \<Rightarrow> Q r (s\<lparr>world := w1\<rparr>))"
  by (simp add: after_def io_optP_def split: prod.split option.split)

lemma after_io_err [simp]:
  "after (io_errP op) s Q \<longleftrightarrow>
    (case op (world s) of (e, w1) \<Rightarrow> Q (case e of None \<Rightarrow> Inr () | Some x \<Rightarrow> Inl x) (s\<lparr>world := w1\<rparr>))"
  by (simp add: after_def io_errP_def errP_def returnP_def failP_def split: prod.split option.split)

lemma after_lb [simp]:
  "after (lbP sid n slb op) s Q \<longleftrightarrow>
    (case op slb (world s) of (e, slb1, w1) \<Rightarrow>
      Q (case e of None \<Rightarrow> Inr () | Some x \<Rightarrow> Inl x) (put_lb sid n slb1 (s\<lparr>world := w1\<rparr>)))"
  by (simp add: after_def lbP_def errP_def returnP_def failP_def split: prod.split option.split)

lemma after_pool [simp]:
  "after (poolP nw op) s Q \<longleftrightarrow> (case op (fn_pool (network_heap s nw)) (world s) of
      None \<Rightarrow> True | Some (r, p, w1) \<Rightarrow> Q r (put_pool nw p (s\<lparr>world := w1\<rparr>)))"
  by (simp add: after_def poolP_def split: prod.split option.split)

lemma after_store [simp]:
  "after (storeP op) s Q \<longleftrightarrow> (case op (loadBalancersData s) (world s) of (e, ns, st, w1) \<Rightarrow>
      Q (case e of None \<Rightarrow> Inr () | Some x \<Rightarrow> Inl x) (s\<lparr>loadBalancersData := st, world := w1\<rparr>))"
  by (simp add: after_def storeP_def errP_def returnP_def failP_def split: prod.split option.split)

text \<open>The parts of the state that the work on the load balancers of a service leaves alone.\<close>

definition same_maps :: "('r, 'n, 'w) lbm \<Rightarrow> ('r, 'n, 'w) lbm \<Rightarrow> bool" where
  "same_maps s t \<longleftrightarrow> services t = services s \<and> unsubscribers t = unsubscribers s \<and>
     loadBalancersData t = loadBalancersData s \<and> flannelNetworksByDockerID t = flannelNetworksByDockerID s \<and>
     otherNetworksByDockerID t = otherNetworksByDockerID s \<and> service_heap t = service_heap s \<and>
     event_heap t = event_heap s \<and> raised t = raised s"

lemma same_maps_refl [simp]: "same_maps s s"
  by (simp add: same_maps_def)

lemma same_maps_trans: "same_maps s t \<Longrightarrow> same_maps t u \<Longrightarrow> same_maps s u"
  by (simp add: same_maps_def)

lemma same_maps_put [simp]:
  "same_maps s (put_lb sid n slb t) \<longleftrightarrow> same_maps s t"
  "same_maps s (put_pool nw p t) \<longleftrightarrow> same_maps s t"
  "same_maps s (t\<lparr>world := w\<rparr>) \<longleftrightarrow> same_maps s t"
  "same_maps s (t\<lparr>loadBalancers := l\<rparr>) \<longleftrightarrow> same_maps s t"
  by (auto simp: same_maps_def put_lb_def put_pool_def split: option.split)

lemma lookup_lb_put [simp]:
  "lookup_lb sid n (put_lb sid' n' slb s) =
    (if sid = sid' \<and> n = n' \<and> map_get (loadBalancers s) sid' \<noteq> None then Some slb else lookup_lb sid n s)"
  "lookup_lb sid n (put_pool nw p s) = lookup_lb sid n s"
  "lookup_lb sid n (s\<lparr>world := w\<rparr>) = lookup_lb sid n s"
  by (auto simp: lookup_lb_def put_lb_def put_pool_def cm_Get_def split: option.splits)

lemma has_service_put [simp]:
  "map_get (loadBalancers (put_lb sid' n' slb s)) sid = None \<longleftrightarrow> map_get (loadBalancers s) sid = None"
  "map_get (loadBalancers (put_pool nw p s)) sid = map_get (loadBalancers s) sid"
  by (auto simp: put_lb_def put_pool_def split: option.splits)

lemma deleteForNetwork_same:
  "after (deleteForNetwork S info slb n) s (\<lambda>_ t. same_maps s t \<and> loadBalancers t = loadBalancers s)"
  by (auto simp: deleteForNetwork_def same_maps_def put_pool_def split: option.splits prod.splits sum.splits)

text \<open>The networks for which a service has a load balancer.\<close>

definition known :: "string \<Rightarrow> ('r, 'n, 'w) lbm \<Rightarrow> bool" where
  "known sid s \<longleftrightarrow> map_get (loadBalancers s) sid \<noteq> None"

definition lb_nets :: "string \<Rightarrow> ('r, 'n, 'w) lbm \<Rightarrow> string set" where
  "lb_nets sid s = {n. lookup_lb sid n s \<noteq> None}"

definition flannel_nets :: "('r, 'n, 'w) lbm \<Rightarrow> string set" where
  "flannel_nets s = {n. map_has (flannelNetworksByDockerID s) n}"

lemma known_put [simp]:
  "known sid (put_lb sid' n slb s) = known sid s" "known sid (put_pool nw p s) = known sid s"
  "known sid (s\<lparr>world := w\<rparr>) = known sid s"
  by (auto simp: known_def)

lemma lb_nets_put [simp]:
  "lb_nets sid (put_lb sid n slb s) = (if known sid s then insert n (lb_nets sid s) else lb_nets sid s)"
  "lb_nets sid (put_pool nw p s) = lb_nets sid s" "lb_nets sid (s\<lparr>world := w\<rparr>) = lb_nets sid s"
  by (auto simp: lb_nets_def known_def)

lemma lb_nets_iff: "n \<in> lb_nets sid s \<longleftrightarrow> lookup_lb sid n s \<noteq> None"
  by (simp add: lb_nets_def)

lemma ensure_lb_after:
  "after (ensure_lb S sid n) s (\<lambda>r t. same_maps s t \<and> known sid t = known sid s \<and>
     (r = Inr () \<and> known sid s \<longrightarrow> lb_nets sid t = lb_nets sid s \<union> ({n} \<inter> flannel_nets s)))"
  by (auto simp: ensure_lb_def cm_Get_def flannel_nets_def lb_nets_iff split: option.splits prod.splits sum.splits)

lemma drop_lb_after:
  "after (drop_lb S info sid n) s (\<lambda>r t. same_maps s t \<and> known sid t = known sid s \<and>
     lb_nets sid t = lb_nets sid s - {n})"
proof (cases "lookup_lb sid n s")
  case None
  then show ?thesis by (auto simp: drop_lb_def lb_nets_def)
next
  case (Some slb)
  then obtain lbs where lbs: "map_get (loadBalancers s) sid = Some lbs" "map_get lbs n = Some slb"
    by (auto simp: lookup_lb_def cm_Get_def split: option.splits)
  let ?s1 = "s\<lparr>loadBalancers := cm_Set sid (cm_Remove n lbs) (loadBalancers s)\<rparr>"
  have "after (deleteForNetwork S info slb n) ?s1 (\<lambda>r t. same_maps s t \<and> known sid t = known sid s \<and>
     lb_nets sid t = lb_nets sid s - {n})"
    by (rule after_mono [OF deleteForNetwork_same])
      (use lbs in \<open>auto simp: lookup_lb_def lb_nets_def known_def cm_Get_def cm_Set_def cm_Remove_def same_maps_def\<close>)
  then show ?thesis using Some lbs by (simp add: drop_lb_def cm_Get_def)
qed

lemma UpdateFrontendIP_frontend:
  "UpdateFrontendIP K ip slb w = (None, slb1, w1) \<Longrightarrow> frontendIP slb1 = ip"
  by (auto simp: UpdateFrontendIP_def ensureServiceLoadBalancerFrontend_def Let_def
      split: prod.splits sum.splits option.splits if_splits)

text \<open>The frontend address \<open>x\<close> of a network: docker's own address in a network that is not flannel's;
  else the recorded one, if there is one, and the load balancer has it.\<close>

definition vip_ok ::
  "string \<Rightarrow> loadBalancerData option \<Rightarrow> ('r, 'n, 'w) lbm \<Rightarrow> string \<Rightarrow> ip \<Rightarrow> ip \<Rightarrow> bool" where
  "vip_ok sid existing t n ipamVip x \<longleftrightarrow>
     (if map_has (otherNetworksByDockerID t) n then x = ipamVip
      else (\<exists>slb. lookup_lb sid n t = Some slb \<and> frontendIP slb = x) \<and>
        (\<forall>e old. existing = Some e \<and> ip_entry (FrontendIPs e) n = Some old \<longrightarrow> x = old))"

lemma set_frontend_after:
  assumes "known sid s"
  shows "after (set_frontend S sid n d ip) s (\<lambda>r t. same_maps s t \<and> known sid t \<and> (case r of Inl _ \<Rightarrow> True
    | Inr d' \<Rightarrow> d' = map_put n ip d \<and> lb_nets sid t = lb_nets sid s \<and>
        (\<forall>m. m \<noteq> n \<longrightarrow> lookup_lb sid m t = lookup_lb sid m s) \<and>
        (\<exists>slb. lookup_lb sid n t = Some slb \<and> frontendIP slb = ip)))"
proof (cases "lookup_lb sid n s")
  case None
  then show ?thesis using assms by (simp add: set_frontend_def)
next
  case (Some slb)
  have "n \<in> lb_nets sid s" "map_get (loadBalancers s) sid \<noteq> None" using Some assms by (auto simp: lb_nets_def known_def)
  then show ?thesis using Some assms
    by (auto simp: set_frontend_def UpdateFrontendIP_frontend insert_absorb split: option.splits prod.splits)
qed

lemma assign_vip_after:
  assumes "known sid s"
  shows "after (assign_vip S sid existing (n, ipamVip) d) s (\<lambda>r t. same_maps s t \<and> known sid t \<and> (case r of Inl _ \<Rightarrow> True
    | Inr d' \<Rightarrow> (\<exists>x. d' = map_put n x d \<and> vip_ok sid existing t n ipamVip x) \<and> lb_nets sid t = lb_nets sid s \<and>
        (\<forall>m. m \<noteq> n \<longrightarrow> lookup_lb sid m t = lookup_lb sid m s)))"
    (is "after ?p s ?Q")
proof (cases "map_get (otherNetworksByDockerID s) n")
  case (Some u)
  then show ?thesis using assms by (auto simp: assign_vip_def cm_Get_def vip_ok_def)
next
  case no_other: None
  have sf: "after (set_frontend S sid n d ip) t ?Q"
    if "same_maps s t" "known sid t" "lb_nets sid t = lb_nets sid s" "\<And>m. lookup_lb sid m t = lookup_lb sid m s"
      "\<And>e old. existing = Some e \<Longrightarrow> ip_entry (FrontendIPs e) n = Some old \<Longrightarrow> ip = old" for ip t
    by (rule after_mono [OF set_frontend_after [OF that(2)]])
      (use that no_other in \<open>auto simp: vip_ok_def same_maps_def split: sum.splits\<close>)
  show ?thesis
  proof (cases "case existing of None \<Rightarrow> None | Some e \<Rightarrow> ip_entry (FrontendIPs e) n")
    case (Some old)
    have "after (set_frontend S sid n d old) s ?Q"
      by (rule sf) (use assms Some in \<open>auto split: option.splits\<close>)
    then show ?thesis using no_other Some by (simp add: assign_vip_def cm_Get_def)
  next
    case None
    then have none: "ip_entry (FrontendIPs e) n \<noteq> Some old" if "existing = Some e" for e old using that by simp
    have "after (set_frontend S sid n d ip) (put_pool nw p (s\<lparr>world := w1\<rparr>)) ?Q" for ip nw p w1
      by (rule sf) (use assms none in auto)
    then show ?thesis using no_other None assms
      by (auto simp: assign_vip_def cm_Get_def split: option.splits prod.splits sum.splits)
  qed
qed

lemma ensure_loop_after:
  assumes "known sid s"
  shows "after (forP (ensure_lb S sid) ns) s (\<lambda>r t. same_maps s t \<and> (r = Inr () \<longrightarrow>
     known sid t \<and> lb_nets sid t = lb_nets sid s \<union> (set ns \<inter> flannel_nets s)))"
proof (rule after_conj)
  show "after (forP (ensure_lb S sid) ns) s (\<lambda>r t. same_maps s t)"
  proof (rule after_for)
    fix n t
    assume "same_maps s t"
    then show "after (ensure_lb S sid n) t (\<lambda>_ u. same_maps s u)"
      by (intro after_mono [OF ensure_lb_after]) (blast intro: same_maps_trans)
  qed simp
  let ?I = "\<lambda>seen t. same_maps s t \<and> known sid t \<and> lb_nets sid t = lb_nets sid s \<union> (set seen \<inter> flannel_nets s)"
  have "after (forP (ensure_lb S sid) ns) s (\<lambda>r t. r = Inr () \<longrightarrow> ?I ns t)"
  proof (rule after_for_done)
    show "?I [] s" using assms by simp
    fix seen n rest t
    assume I: "?I seen t"
    then have fl: "flannel_nets t = flannel_nets s" by (simp add: same_maps_def flannel_nets_def)
    show "after (ensure_lb S sid n) t (\<lambda>r u. r = Inr () \<longrightarrow> ?I (seen @ [n]) u)"
      by (rule after_mono [OF ensure_lb_after]) (use I fl same_maps_trans in auto)
  qed
  then show "after (forP (ensure_lb S sid) ns) s (\<lambda>r t. r = Inr () \<longrightarrow>
      known sid t \<and> lb_nets sid t = lb_nets sid s \<union> (set ns \<inter> flannel_nets s))"
    by (rule after_mono) blast
qed

lemma drop_loop_after:
  fixes S :: "'w sys" and s :: "('r, 'n, 'w) lbm"
  shows "after (forP (drop_lb S info sid) ns) s (\<lambda>r t. same_maps s t \<and> known sid t = known sid s \<and>
     (r = Inr () \<longrightarrow> lb_nets sid t = lb_nets sid s - set ns))"
proof -
  have 1: "after (forP (drop_lb S info sid) ns) s (\<lambda>r t. same_maps s t \<and> known sid t = known sid s)"
  proof (rule after_for)
    fix n and t :: "('r, 'n, 'w) lbm"
    assume "same_maps s t \<and> known sid t = known sid s"
    then show "after (drop_lb S info sid n) t (\<lambda>_ u. same_maps s u \<and> known sid u = known sid s)"
      by (intro after_mono [OF drop_lb_after]) (use same_maps_trans in auto)
  qed simp
  have 2: "after (forP (drop_lb S info sid) ns) s (\<lambda>r t. r = Inr () \<longrightarrow> lb_nets sid t = lb_nets sid s - set ns)"
  proof (rule after_for_done [where I = "\<lambda>seen t. lb_nets sid t = lb_nets sid s - set seen"])
    fix seen n rest and t :: "('r, 'n, 'w) lbm"
    assume "lb_nets sid t = lb_nets sid s - set seen"
    then show "after (drop_lb S info sid n) t (\<lambda>r u. r = Inr () \<longrightarrow> lb_nets sid u = lb_nets sid s - set (seen @ [n]))"
      by (intro after_mono [OF drop_lb_after]) auto
  qed simp
  show ?thesis by (rule after_mono [OF after_conj [OF 1 2]]) simp
qed

lemma vip_ok_keeps:
  "vip_ok sid existing t n ip x \<Longrightarrow> same_maps t u \<Longrightarrow> lookup_lb sid n u = lookup_lb sid n t \<Longrightarrow>
    vip_ok sid existing u n ip x"
  unfolding vip_ok_def same_maps_def by metis

text \<open>The loop over the addresses, after it has seen the entries \<open>seen\<close>.\<close>

definition assigned ::
  "string \<Rightarrow> loadBalancerData option \<Rightarrow> ('r, 'n, 'w) lbm \<Rightarrow> (string \<times> ip) list \<Rightarrow> (string, ip) gomap \<Rightarrow>
    ('r, 'n, 'w) lbm \<Rightarrow> bool"
where
  "assigned sid existing s seen d t \<longleftrightarrow> same_maps s t \<and> known sid t \<and> lb_nets sid t = lb_nets sid s \<and>
     dom (map_get d) = fst ` set seen \<and>
     (\<forall>(n, ip) \<in> set seen. \<exists>x. map_get d n = Some x \<and> vip_ok sid existing t n ip x)"

lemma assigned_step:
  assumes "assigned sid existing s seen d t" and "n \<notin> fst ` set seen"
    and "same_maps t u" "known sid u" "lb_nets sid u = lb_nets sid t"
      "\<And>m. m \<noteq> n \<Longrightarrow> lookup_lb sid m u = lookup_lb sid m t" "vip_ok sid existing u n ip x"
  shows "assigned sid existing s (seen @ [(n, ip)]) (map_put n x d) u"
proof -
  have old: "\<exists>y. map_get (map_put n x d) m = Some y \<and> vip_ok sid existing u m ip' y" if m: "(m, ip') \<in> set seen" for m ip'
  proof -
    obtain y where y: "map_get d m = Some y" "vip_ok sid existing t m ip' y"
      using assms(1) m unfolding assigned_def by fast
    have "m \<noteq> n" using assms(2) m by force
    then show ?thesis using y vip_ok_keeps [OF y(2) assms(3)] assms(6) by simp
  qed
  have "\<forall>(m, ip') \<in> set (seen @ [(n, ip)]). \<exists>y. map_get (map_put n x d) m = Some y \<and> vip_ok sid existing u m ip' y"
    using old assms(7) by auto
  moreover have "dom (map_get (map_put n x d)) = fst ` set (seen @ [(n, ip)])"
    using assms(1) by (simp add: map_get_put_fun assigned_def)
  moreover have "same_maps s u" using assms(1,3) same_maps_trans unfolding assigned_def by blast
  moreover have "lb_nets sid u = lb_nets sid s" using assms(1,5) unfolding assigned_def by simp
  ultimately show ?thesis using assms(4) unfolding assigned_def by (intro conjI)
qed

lemma assign_loop_after:
  assumes "known sid s" and ok: "map_ok ipam"
  shows "after (foldP (assign_vip S sid existing) ipam []) s (\<lambda>r t. case r of Inl _ \<Rightarrow> same_maps s t
    | Inr d \<Rightarrow> assigned sid existing s ipam d t)"
proof (rule after_fold_done)
  show "assigned sid existing s [] [] s" using assms(1) by (auto simp: assigned_def)
  fix seen entry rest d t
  assume split: "ipam = seen @ entry # rest" and I: "assigned sid existing s seen d t"
  obtain n ip where e: "entry = (n, ip)" by (cases entry)
  have new: "n \<notin> fst ` set seen" using ok split by (auto simp: map_ok_def e)
  have t: "known sid t" "same_maps s t" using I by (auto simp: assigned_def)
  show "after (assign_vip S sid existing entry d) t
      (\<lambda>r u. case r of Inl _ \<Rightarrow> same_maps s u | Inr d' \<Rightarrow> assigned sid existing s (seen @ [entry]) d' u)"
    unfolding e
    by (rule after_mono [OF assign_vip_after [OF t(1)]])
      (use assigned_step [OF I new] same_maps_trans [OF t(2)] in \<open>auto split: sum.splits\<close>)
qed

lemma set_vips_simps [simp]:
  "loadBalancersData (set_vips r d s) = loadBalancersData s" "lb_nets sid (set_vips r d s) = lb_nets sid s"
  "lb_nets sid (s\<lparr>loadBalancersData := st\<rparr>) = lb_nets sid s"
  "vip_ok sid ex (set_vips r d s) = vip_ok sid ex s" "vip_ok sid ex (s\<lparr>world := w\<rparr>) = vip_ok sid ex s"
  "vip_ok sid ex (s\<lparr>loadBalancersData := st\<rparr>) = vip_ok sid ex s"
  "s_vips (service_heap (set_vips r d s) r) = Some d"
  by (auto simp: set_vips_def lb_nets_def lookup_lb_def vip_ok_def SetVIPs_def Let_def fun_eq_iff split: prod.splits)

text \<open>The last two steps: the addresses are stored and given to the service.\<close>

lemma store_and_set_after:
  "after (bindP (storeP (AddOrUpdateItem E T sid \<lparr>FrontendIPs = Some d\<rparr>)) (\<lambda>_. updP (set_vips r d))) t
    (\<lambda>res u. case res of Inl _ \<Rightarrow> service_heap u = service_heap t
     | Inr _ \<Rightarrow> s_vips (service_heap u r) = Some d \<and> GetItem sid (loadBalancersData u) = Some \<lparr>FrontendIPs = Some d\<rparr> \<and>
         lb_nets sid u = lb_nets sid t \<and> vip_ok sid ex u = vip_ok sid ex t)"
  by (auto simp: AddOrUpdateItem_def GetItem_def Let_def split: prod.splits sum.splits)

lemma locked_after:
  fixes S :: "'w sys" and s :: "('r, 'n, 'w) lbm"
  assumes ok: "map_ok (go_entries (si_IpamVIPs info))"
  defines "sid \<equiv> si_ID info" and "ipam \<equiv> go_entries (si_IpamVIPs info)"
  shows "after (createOrUpdate_locked S r info) s (\<lambda>res t. case res of Inl _ \<Rightarrow> service_heap t = service_heap s
    | Inr _ \<Rightarrow> (\<exists>vips. s_vips (service_heap t r) = Some vips \<and>
        GetItem sid (loadBalancersData t) = Some \<lparr>FrontendIPs = Some vips\<rparr> \<and> dom (map_get vips) = fst ` set ipam \<and>
        (\<forall>(n, ip) \<in> set ipam. \<exists>x. map_get vips n = Some x \<and> vip_ok sid (GetItem sid (loadBalancersData s)) t n ip x)) \<and>
        lb_nets sid t = (lb_nets sid s \<union> flannel_nets s) \<inter> set (si_Networks info))"
proof -
  let ?s0 = "s\<lparr>services := cm_Set sid r (services s),
       loadBalancers := (case cm_Get sid (loadBalancers s) of
          None \<Rightarrow> cm_Set sid NewConcurrentMap (loadBalancers s) | Some _ \<Rightarrow> loadBalancers s)\<rparr>"
  let ?del = "fst (lo_Difference (case cm_Get sid (loadBalancers ?s0) of None \<Rightarrow> [] | Some lbs \<Rightarrow> cm_Keys lbs) (si_Networks info))"
  let ?nets = "set (si_Networks info)" and ?ex = "GetItem sid (loadBalancersData s)"
  let ?Q = "\<lambda>res t. case res of Inl _ \<Rightarrow> service_heap t = service_heap s
    | Inr (_ :: unit) \<Rightarrow> (\<exists>vips. s_vips (service_heap t r) = Some vips \<and>
        GetItem sid (loadBalancersData t) = Some \<lparr>FrontendIPs = Some vips\<rparr> \<and> dom (map_get vips) = fst ` set ipam \<and>
        (\<forall>(n, ip) \<in> set ipam. \<exists>x. map_get vips n = Some x \<and> vip_ok sid ?ex t n ip x)) \<and>
        lb_nets sid t = (lb_nets sid s \<union> flannel_nets s) \<inter> ?nets"
  have k0: "known sid ?s0" by (auto simp: known_def cm_Get_def cm_Set_def split: option.splits)
  have n0: "lb_nets sid ?s0 = lb_nets sid s"
    by (auto simp: lb_nets_def lookup_lb_def cm_Get_def cm_Set_def NewConcurrentMap_def split: option.splits)
  have d0: "set ?del = lb_nets sid s - ?nets"
    unfolding set_fst_lo_Difference
    by (auto simp: lb_nets_def lookup_lb_def cm_Get_def cm_Set_def cm_Keys_def NewConcurrentMap_def split: option.splits)
  let ?store = "\<lambda>d. bindP (storeP (AddOrUpdateItem (sys_etcd S) (sys_lbdata S) sid \<lparr>FrontendIPs = Some d\<rparr>)) (\<lambda>_. updP (set_vips r d))"
  let ?assign = "bindP (foldP (assign_vip S sid ?ex) ipam []) ?store"
  have 4: "after (?store d) t ?Q"
    if a: "assigned sid ?ex u ipam d t" and u: "same_maps ?s0 u" "lb_nets sid u = (lb_nets sid s \<union> flannel_nets s) \<inter> ?nets"
    for u :: "('r, 'n, 'w) lbm" and d t
  proof (rule after_mono [OF store_and_set_after [where ex = ?ex]])
    fix res v
    assume post: "case res of Inl _ \<Rightarrow> service_heap v = service_heap t
     | Inr (_ :: unit) \<Rightarrow> s_vips (service_heap v r) = Some d \<and> GetItem sid (loadBalancersData v) = Some \<lparr>FrontendIPs = Some d\<rparr> \<and>
         lb_nets sid v = lb_nets sid t \<and> vip_ok sid ?ex v = vip_ok sid ?ex t"
    have "service_heap t = service_heap s" using a u(1) by (simp add: assigned_def same_maps_def)
    with post a u(2) show "?Q res v" by (auto simp: assigned_def split: sum.splits)
  qed
  have 3: "after ?assign u ?Q"
    if u: "same_maps ?s0 u" "known sid u" "lb_nets sid u = (lb_nets sid s \<union> flannel_nets s) \<inter> ?nets"
    for u :: "('r, 'n, 'w) lbm"
  proof -
    have sh: "service_heap t = service_heap s" if "same_maps u t" for t using that u(1) by (simp add: same_maps_def)
    show ?thesis unfolding after_bind [of "foldP (assign_vip S sid ?ex) ipam []"]
    proof (rule after_mono [OF assign_loop_after [OF u(2) ok [folded ipam_def]]])
      fix res t
      assume post: "case res of Inl _ \<Rightarrow> same_maps u t | Inr d \<Rightarrow> assigned sid ?ex u ipam d t"
      show "case res of Inl e \<Rightarrow> ?Q (Inl e) t | Inr d \<Rightarrow> after (?store d) t ?Q"
      proof (cases res)
        case (Inl e)
        then show ?thesis using post sh by simp
      next
        case (Inr d)
        then have "after (?store d) t ?Q" using 4 [OF _ u(1,3)] post by simp
        then show ?thesis using Inr by (simp only: sum.case)
      qed
    qed
  qed
  have ex: "GetItem sid (loadBalancersData u) = ?ex" if "same_maps ?s0 u" for u :: "('r, 'n, 'w) lbm"
    using that by (simp add: same_maps_def)
  let ?rest = "bindP (getP (\<lambda>s. GetItem sid (loadBalancersData s))) (\<lambda>existing.
      bindP (foldP (assign_vip S sid existing) ipam []) ?store)"
  have 2: "after (bindP (forP (drop_lb S info sid) ?del) (\<lambda>_. ?rest)) u ?Q"
    if u: "same_maps ?s0 u" "known sid u" "lb_nets sid u = lb_nets sid s \<union> (?nets \<inter> flannel_nets s)"
    for u :: "('r, 'n, 'w) lbm"
    unfolding after_bind [of "forP (drop_lb S info sid) ?del"]
  proof (rule after_mono [OF drop_loop_after])
    fix res t
    assume post: "same_maps u t \<and> known sid t = known sid u \<and> (res = Inr () \<longrightarrow> lb_nets sid t = lb_nets sid u - set ?del)"
    have t: "same_maps ?s0 t" using u(1) post same_maps_trans by blast
    show "case res of Inl e \<Rightarrow> ?Q (Inl e) t | Inr _ \<Rightarrow> after ?rest t ?Q"
    proof (cases res)
      case (Inl e)
      then show ?thesis using t by (simp add: same_maps_def)
    next
      case (Inr x)
      then have "lb_nets sid t = (lb_nets sid s \<union> flannel_nets s) \<inter> ?nets" using post u(3) d0 by auto
      then have "after ?assign t ?Q" using 3 t post u(2) by blast
      then show ?thesis using Inr ex [OF t] by simp
    qed
  qed
  have 1: "after (bindP (forP (ensure_lb S sid) (si_Networks info)) (\<lambda>_.
      bindP (forP (drop_lb S info sid) ?del) (\<lambda>_. ?rest))) ?s0 ?Q"
    unfolding after_bind [of "forP (ensure_lb S sid) (si_Networks info)"]
  proof (rule after_mono [OF ensure_loop_after [OF k0]])
    fix res t
    assume post: "same_maps ?s0 t \<and> (res = Inr () \<longrightarrow>
      known sid t \<and> lb_nets sid t = lb_nets sid ?s0 \<union> (?nets \<inter> flannel_nets ?s0))"
    show "case res of Inl e \<Rightarrow> ?Q (Inl e) t | Inr _ \<Rightarrow>
        after (bindP (forP (drop_lb S info sid) ?del) (\<lambda>_. ?rest)) t ?Q"
    proof (cases res)
      case (Inl e)
      then show ?thesis using post by (simp add: same_maps_def)
    next
      case (Inr x)
      have "flannel_nets ?s0 = flannel_nets s" by (simp add: flannel_nets_def)
      then have "after (bindP (forP (drop_lb S info sid) ?del) (\<lambda>_. ?rest)) t ?Q"
        using 2 post Inr n0 by auto
      then show ?thesis using Inr by (simp only: sum.case)
    qed
  qed
  show ?thesis
    using 1 unfolding createOrUpdate_locked_def Let_def sid_def [symmetric] ipam_def [symmetric]
      after_bind_upd after_bind_get [where f = "\<lambda>s. fst (lo_Difference (F s) (si_Networks info))" for F] .
qed

text \<open>A loop that meets a network nobody knows does not end normally.\<close>

lemma ensure_loop_unknown:
  assumes "map_get (flannelNetworksByDockerID s) n = None" and "map_get (otherNetworksByDockerID s) n = None"
    and "n \<in> set ns"
  shows "after (forP (ensure_lb S sid) ns) s (\<lambda>res t. same_maps s t \<and> res \<noteq> Inr ())"
proof -
  have 1: "after (forP (ensure_lb S sid) ns) s (\<lambda>res t. same_maps s t)"
  proof (rule after_for)
    fix m t
    assume "same_maps s t"
    then show "after (ensure_lb S sid m) t (\<lambda>_ u. same_maps s u)"
      by (intro after_mono [OF ensure_lb_after]) (blast intro: same_maps_trans)
  qed simp
  have 2: "after (forP (ensure_lb S sid) ns) s (\<lambda>res t. res = Inr () \<longrightarrow> same_maps s t \<and> n \<notin> set ns)"
  proof (rule after_for_done)
    fix seen m rest t
    assume I: "same_maps s t \<and> n \<notin> set seen"
    show "after (ensure_lb S sid m) t (\<lambda>res u. res = Inr () \<longrightarrow> same_maps s u \<and> n \<notin> set (seen @ [m]))"
    proof (cases "m = n")
      case True
      then show ?thesis using I assms(1,2) by (simp add: ensure_lb_def cm_Get_def same_maps_def)
    next
      case False
      then show ?thesis using I by (intro after_mono [OF ensure_lb_after]) (auto intro: same_maps_trans)
    qed
  qed simp
  show ?thesis by (rule after_mono [OF after_conj [OF 1 2]]) (use assms(3) in blast)
qed

lemma run_unsubscriber_simps [simp]:
  "loadBalancers (run_unsubscriber sid s) = loadBalancers s" "services (run_unsubscriber sid s) = services s"
  "ev_mode (event_heap (run_unsubscriber sid s) r) = ev_mode (event_heap s r)"
  by (auto simp: run_unsubscriber_def unsubscribe_all_def split: option.split prod.split)

lemma DeleteLoadBalancer_after:
  fixes S :: "'w sys" and s :: "('r, 'n, 'w) lbm"
  shows "after (DeleteLoadBalancer S sid) s (\<lambda>res t.
     map_get (loadBalancers t) sid = None \<and> (\<forall>j. j \<noteq> sid \<longrightarrow> map_get (loadBalancers t) j = map_get (loadBalancers s) j) \<and>
     (res = Inr () \<longrightarrow> map_get (services t) sid = None \<and> GetItem sid (loadBalancersData t) = None) \<and>
     (\<forall>r. ev_mode (event_heap t r) = ev_mode (event_heap s r)))"
    (is "after _ s ?Q")
proof (cases "map_get (loadBalancers s) sid")
  case None
  then show ?thesis by (simp add: DeleteLoadBalancer_def cm_Get_def)
next
  case (Some lbs)
  let ?J = "\<lambda>t. map_get (loadBalancers t) sid = None \<and>
     (\<forall>j. j \<noteq> sid \<longrightarrow> map_get (loadBalancers t) j = map_get (loadBalancers s) j) \<and>
     (\<forall>r. ev_mode (event_heap t r) = ev_mode (event_heap s r)) \<and> map_get (services t) sid = None"
  have loop: "after (forP (\<lambda>n. case cm_Get n lbs of None \<Rightarrow> returnP () | Some slb \<Rightarrow> deleteForNetwork S info slb n) ns) u
      (\<lambda>_ t. ?J t)" if "?J u" for ns info and u :: "('r, 'n, 'w) lbm"
  proof (rule after_for)
    show "?J u" by (rule that)
    fix n and t :: "('r, 'n, 'w) lbm"
    assume J: "?J t"
    show "after (case cm_Get n lbs of None \<Rightarrow> returnP () | Some slb \<Rightarrow> deleteForNetwork S info slb n) t (\<lambda>_ u. ?J u)"
    proof (cases "cm_Get n lbs")
      case (Some slb)
      show ?thesis unfolding Some option.case
        by (rule after_mono [OF deleteForNetwork_same]) (use J in \<open>simp add: same_maps_def\<close>)
    qed (use J in simp)
  qed
  have store: "after (storeP (DeleteItem E sid)) t ?Q" if "?J t" for E and t :: "('r, 'n, 'w) lbm"
    using that by (auto simp: DeleteItem_def GetItem_def Let_def split: prod.splits sum.splits)
  have rest: "after (bindP (forP (\<lambda>n. case cm_Get n lbs of None \<Rightarrow> returnP () | Some slb \<Rightarrow> deleteForNetwork S info slb n) ns)
      (\<lambda>_. storeP (DeleteItem (sys_etcd S) sid))) u ?Q" if "?J u" for ns info and u :: "('r, 'n, 'w) lbm"
    unfolding after_bind
  proof (rule after_mono [OF loop [OF that]])
    fix res and t :: "('r, 'n, 'w) lbm"
    assume "?J t"
    then show "case res of Inl e \<Rightarrow> ?Q (Inl e) t | Inr _ \<Rightarrow> after (storeP (DeleteItem (sys_etcd S) sid)) t ?Q"
      using store by (simp split: sum.split)
  qed
  let ?s2 = "run_unsubscriber sid (s\<lparr>loadBalancers := map_del sid (loadBalancers s)\<rparr>)"
  show ?thesis
  proof (cases "map_get (services s) sid")
    case None
    then show ?thesis using \<open>map_get (loadBalancers s) sid = Some lbs\<close>
      by (simp add: DeleteLoadBalancer_def cm_Get_def cm_Remove_def)
  next
    case (Some r)
    have "?J (?s2\<lparr>services := map_del sid (services ?s2)\<rparr>)" by simp
    from rest [OF this, of "GetInfo (service_heap (?s2\<lparr>services := map_del sid (services ?s2)\<rparr>) r)" "cm_Keys lbs"] show ?thesis
      using \<open>map_get (loadBalancers s) sid = Some lbs\<close> Some
      by (simp add: DeleteLoadBalancer_def cm_Get_def cm_Remove_def after_bind_upd after_bind_get
          del: after_bind after_store cong: option.case_cong)
  qed
qed

lemma assign_vip_same: "after (assign_vip S sid existing entry d) s (\<lambda>_ t. same_maps s t)"
  by (auto simp: assign_vip_def set_frontend_def split: prod.splits option.splits sum.splits)

lemma locked_events: "keeps (\<lambda>t. event_heap t = h) (createOrUpdate_locked S r info)"
proof -
  have 1: "keeps (\<lambda>t. event_heap t = h) (ensure_lb S sid n)" for sid n
    by (rule keepsI, rule after_mono [OF ensure_lb_after]) (simp add: same_maps_def)
  have 2: "keeps (\<lambda>t. event_heap t = h) (drop_lb S info sid n)" for sid n
    by (rule keepsI, rule after_mono [OF drop_lb_after]) (simp add: same_maps_def)
  have 3: "keeps (\<lambda>t. event_heap t = h) (assign_vip S sid ex n d)" for sid ex n d
    by (rule keepsI, rule after_mono [OF assign_vip_same]) (simp add: same_maps_def)
  have 4: "keeps (\<lambda>t. event_heap t = h) (storeP op)" for op
    by (rule keepsI) (auto split: prod.splits)
  show ?thesis
    unfolding createOrUpdate_locked_def Let_def
    by (intro keeps_intros 1 2 3 4) (auto simp: set_vips_def split: prod.splits)
qed

lemma length_map_put: "k \<notin> fst ` set m \<Longrightarrow> length (map_put k v m) = Suc (length m)"
  by (induction m) (auto simp: map_put_def)

section \<open>Properties\<close>


text \<open>
  The networks of a service may change while \<open>createOrUpdateLoadBalancer\<close> waits for them.  It then
  stops waiting, as all present networks are known, but works on the list it read before: if
  that has a network nobody knows, it fails and the service gets no address.
\<close>

theorem stale_networks_fail:
  assumes "n \<in> set (si_Networks (GetInfo (service_heap s r)))"
    and "map_get (flannelNetworksByDockerID (others s)) n = None"
    and "map_get (otherNetworksByDockerID (others s)) n = None"
  shows "case createOrUpdateLoadBalancer S others r s of
      None \<Rightarrow> True
    | Some (res, t) \<Rightarrow> res \<noteq> Inr () \<and> service_heap t = service_heap (others s)"
proof -
  let ?info = "GetInfo (service_heap s r)"
  have "after (createOrUpdate_locked S r ?info) u (\<lambda>res t. res \<noteq> Inr () \<and> service_heap t = service_heap u)"
    if u: "map_get (flannelNetworksByDockerID u) n = None" "map_get (otherNetworksByDockerID u) n = None" for u
    unfolding createOrUpdate_locked_def Let_def after_bind_upd
      after_bind_get [where f = "\<lambda>s. fst (lo_Difference (F s) (si_Networks info))" for F info]
      after_bind [of "forP (ensure_lb S sid) ns" for sid ns]
    by (rule after_mono [OF ensure_loop_unknown [OF _ _ assms(1)]])
      (use u in \<open>auto simp: same_maps_def split: sum.split\<close>)
  from this [OF assms(2,3)] show ?thesis
    by (simp add: after_def createOrUpdateLoadBalancer_def bindP_def getP_def updP_def)
qed

text \<open>
  \<open>DeleteLoadBalancer\<close> cannot be repeated.  Whatever its outcome, the manager has forgotten the load
  balancers of the service, and no others; a second call reports that there are none and
  changes nothing, also when the first one failed before the addresses and rules were removed.
\<close>

theorem DeleteLoadBalancer_no_retry:
  assumes "DeleteLoadBalancer S sid s = Some (res, t)"
  shows "DeleteLoadBalancer S sid t = Some (Inl (OtherError ''no load balancer found''), t) \<and>
    (\<forall>j. j \<noteq> sid \<longrightarrow> map_get (loadBalancers t) j = map_get (loadBalancers s) j) \<and>
    (res = Inr () \<longrightarrow> GetItem sid (loadBalancersData t) = None)"
  using after_use [OF DeleteLoadBalancer_after assms]
  by (simp add: DeleteLoadBalancer_def bindP_def getP_def cm_Get_def failP_def)

text \<open>
  Handlers for changes of the endpoint mode pile up.  Every successful \<open>CreateLoadBalancer\<close>
  subscribes one, and \<open>DeleteLoadBalancer\<close> takes back none: after a service has become DNSRR and VIP
  again, each of the handlers creates its load balancer.
\<close>

theorem mode_handlers_pile_up:
  assumes "CreateLoadBalancer S others r s = Some (Inr (), t)" and "event_heap (others s) = event_heap s"
    and "\<forall>(i, h) \<in> set (handlers (ev_mode (event_heap s r))). i < nextID (ev_mode (event_heap s r))"
    and "DeleteLoadBalancer S sid t = Some (res, u)"
  shows "length (handlers (ev_mode (event_heap u r))) = Suc (length (handlers (ev_mode (event_heap s r))))"
proof -
  from assms(1) obtain v where v: "createOrUpdate_locked S r (GetInfo (service_heap s r)) (others s) = Some (Inr (), v)"
    and t: "t = subscribe_all r v"
    by (auto simp: CreateLoadBalancer_def createOrUpdateLoadBalancer_def bindP_def getP_def updP_def
        split: option.splits prod.splits sum.splits if_splits)
  have "event_heap v = event_heap s"
    using after_use [OF keepsD [OF locked_events [where h = "event_heap s"] assms(2)] v] .
  moreover have "length (handlers (snd (Subscribe () e))) = Suc (length (handlers e))"
    if "\<forall>(i, h) \<in> set (handlers e). i < nextID e" for e
  proof -
    have "nextID e \<notin> fst ` set (handlers e)" using that by auto
    then show ?thesis by (simp add: Subscribe_def Let_def length_map_put)
  qed
  ultimately have "length (handlers (ev_mode (event_heap t r))) = Suc (length (handlers (ev_mode (event_heap s r))))"
    using assms(3) by (simp add: t subscribe_all_def Let_def case_prod_unfold)
  moreover have "ev_mode (event_heap u r) = ev_mode (event_heap t r)"
    using after_use [OF DeleteLoadBalancer_after assms(4)] by blast
  ultimately show ?thesis by simp
qed

section \<open>Cleaning up\<close>

definition nat_rules :: "kstate \<Rightarrow> rule set" where
  "nat_rules s = {x \<in> k_rules s. fst x = ''nat''}"

lemma delete_ipvs_rules:
  assumes "kernel_contract K ks"
  shows "k_rules (ks (delete_ipvs K vs w)) = k_rules (ks w)"
proof (induction vs arbitrary: w)
  case (Cons v vs)
  obtain r w1 where 1: "DelService K v w = (r, w1)" by fastforce
  then have "k_rules (ks w1) = k_rules (ks w)"
    using does_Inr [OF does_DelService [OF assms], of v w] does_Inl [OF does_DelService [OF assms], of v w] by (cases r) auto
  then show ?case using Cons.IH 1 by simp
qed simp

lemma delete_raw_rules_nat:
  assumes "kernel_contract K ks"
  shows "nat_rules (ks (snd (delete_raw_rules K raws w))) = nat_rules (ks w)"
proof (induction raws arbitrary: w)
  case (Cons raw raws)
  obtain r w1 where 1: "iptables_Delete K ''mangle'' ''PREROUTING'' (drop 2 (go_fields raw)) w = (r, w1)" by fastforce
  then have "nat_rules (ks w1) = nat_rules (ks w)"
    using does_Inr [OF does_iptables_Delete [OF assms], of "''mangle''" "''PREROUTING''" "drop 2 (go_fields raw)" w]
      does_Inl [OF does_iptables_Delete [OF assms], of "''mangle''" "''PREROUTING''" "drop 2 (go_fields raw)" w]
    by (cases r) (auto simp: nat_rules_def)
  then show ?case using Cons.IH 1 by (simp add: Let_def)
qed simp

lemma clean_kernel_nat:
  assumes "kernel_contract K ks"
  shows "nat_rules (ks (snd (clean_kernel K vs rules ms w))) = nat_rules (ks w)"
proof (induction ms arbitrary: w)
  case (Cons m ms)
  let ?w1 = "delete_ipvs K (filter (\<lambda>v. FWMark v = m) vs) w"
  let ?raws = "filter (\<lambda>item. str_contains item (''0x'' @ hex8 m)) rules"
  have "nat_rules (ks (snd (delete_raw_rules K ?raws ?w1))) = nat_rules (ks w)"
    using delete_raw_rules_nat [OF assms] delete_ipvs_rules [OF assms] by (simp add: nat_rules_def)
  then show ?case using Cons.IH by (auto split: prod.splits sum.splits)
qed simp

lemma bind_io_keeps:
  assumes "\<And>w. ks (snd (op w)) = ks w" and "\<And>x w. f (ks (snd (k x w))) = f (ks w)"
  shows "f (ks (snd (bind_io op k w))) = f (ks w)"
  using assms(1) [of w] assms(2) by (auto simp: bind_io_def split: prod.splits sum.splits)

lemma etcd_Delete_apart: "apart E ks \<Longrightarrow> ks (snd (etcd_Delete E k w)) = ks w"
  unfolding apart_def etcd_Delete_def by (metis (mono_tags, lifting) case_prod_unfold snd_conv sum.case_eq_if)

lemma apart_commit: "apart E ks \<Longrightarrow> commit E cs ts es w = (r, w1) \<Longrightarrow> ks w1 = ks w"
  unfolding apart_def by (metis snd_conv)

lemma apart_conn: "apart E ks \<Longrightarrow> conn_new E w = (r, w1) \<Longrightarrow> ks w1 = ks w"
  unfolding apart_def by (metis snd_conv)

lemma WithConnection_apart:
  "apart E ks \<Longrightarrow> (\<And>w. ks (snd (fn w)) = ks w) \<Longrightarrow> ks (snd (WithConnection E fn w)) = ks w"
  by (auto simp: WithConnection_def split: prod.splits option.splits dest: apart_conn)

lemma etcd_GetPrefix_apart: "apart E ks \<Longrightarrow> ks (snd (etcd_GetPrefix E p w)) = ks w"
  by (auto simp: etcd_GetPrefix_def split: prod.splits sum.splits dest: apart_commit)

lemma clean_marks_apart:
  assumes "apart E ks"
  shows "ks (snd (clean_marks E pre existing kvs marks w)) = ks w"
proof (induction kvs arbitrary: marks w)
  case (Cons kv kvs)
  have "ks w1 = ks w" if "etcd_Delete E (fst kv) w = (r, w1)" for r w1
    using etcd_Delete_apart [OF assms, of "fst kv" w] that by simp
  then show ?case using Cons.IH by (auto split: option.splits prod.splits)
qed simp

lemma cleanUpStaleFwmarks_apart:
  assumes "apart E ks"
  shows "ks (snd (cleanUpStaleFwmarks E c existing w)) = ks w"
  unfolding cleanUpStaleFwmarks_def
proof (rule WithConnection_apart [OF assms])
  fix w
  show "ks (snd (case etcd_GetPrefix E (GetKey c []) w of (Inl e, w1) \<Rightarrow> (Inl e, w1)
      | (Inr kvs, w1) \<Rightarrow> case clean_marks E (GetKey c []) existing kvs [] w1 of (marks, w2) \<Rightarrow> (Inr (map_vals marks), w2))) = ks w"
    using etcd_GetPrefix_apart [OF assms, of "GetKey c []" w] clean_marks_apart [OF assms]
    by (auto split: prod.splits sum.splits) (metis snd_conv)+
qed

lemma clean_data_apart:
  assumes "apart E ks"
  shows "ks (snd (clean_data E c host existing w)) = ks w"
  unfolding clean_data_def
proof (rule WithConnection_apart [OF assms])
  fix w
  have d: "ks (snd (Inr (), delete_stale_data E pre existing kvs w)) = ks w" for pre kvs w
    by (induction kvs arbitrary: w) (auto simp: etcd_Delete_apart [OF assms])
  show "ks (snd (let pre = GetKey c [host, ''data''] in case etcd_GetPrefix E pre w of (Inl e, w1) \<Rightarrow> (Inl e, w1)
      | (Inr kvs, w1) \<Rightarrow> (Inr (), delete_stale_data E pre existing kvs w1))) = ks w"
    using etcd_GetPrefix_apart [OF assms, of "GetKey c [host, ''data'']" w] d
    by (auto simp: Let_def split: prod.splits sum.splits)
qed

lemma does_quiet: "does ks op pre (\<lambda>s. s) \<Longrightarrow> ks (snd (op w)) = ks w"
  by (drule does_def [THEN iffD1], drule spec [of _ w]) (auto split: prod.splits sum.splits)

lemma CleanUp_nat:
  assumes K: "kernel_contract (sys_kernel S) ks" and E: "apart (sys_etcd S) ks"
  shows "nat_rules (ks (snd (CleanUpStaleLoadBalancers S hostname c existing w))) = nat_rules (ks w)"
proof -
  note quiet = does_quiet [OF does_iptables_New [OF K]] does_quiet [OF does_ipvs_New [OF K]]
    does_quiet [OF does_GetServices [OF K]] does_quiet [OF does_iptables_List [OF K]]
    cleanUpStaleFwmarks_apart [OF E]
  show ?thesis
  proof (cases hostname)
    case (Inr host)
    have final: "nat_rules (ks (snd (bind_io (clean_kernel K vs rules ms) (\<lambda>_. clean_data (sys_etcd S) c host existing) w))) =
        nat_rules (ks w)" if "K = sys_kernel S" for K vs rules ms w
      using clean_kernel_nat [OF assms(1), of vs rules ms w] clean_data_apart [OF E, of c host existing] that
      by (auto simp: bind_io_def split: prod.splits sum.splits)
    show ?thesis
      unfolding CleanUpStaleLoadBalancers_def Let_def Inr sum.case
      by ((rule bind_io_keeps [where f = nat_rules], rule quiet)+, rule final [OF refl])
  qed (simp add: CleanUpStaleLoadBalancers_def)
qed

section \<open>Property of the clean-up\<close>

text \<open>
  Cleaning up leaves the masquerading rules of stale load balancers in place: the rules that
  are listed from the table \<open>nat\<close> are deleted from the table \<open>mangle\<close>, so the table \<open>nat\<close> is the same
  afterwards, whatever is stale.
\<close>

theorem CleanUp_keeps_nat:
  assumes "kernel_contract (sys_kernel S) ks" and "apart (sys_etcd S) ks"
  shows "{x \<in> k_rules (ks (snd (CleanUpStaleLoadBalancers S hostname client existing w))). fst x = ''nat''} =
    {x \<in> k_rules (ks w). fst x = ''nat''}"
  using CleanUp_nat [OF assms] unfolding nat_rules_def .

section \<open>Examples\<close>

definition ref_sys :: "(ref_world \<times> ref_kernel_state) sys" where
  "ref_sys = \<lparr>sys_etcd = lift_env ref_env, sys_kernel = lift_kernel ref_kernel, sys_rand = (\<lambda>n w. (Some (replicate n 0), w)),
     sys_lbdata = \<lparr>marshal = (\<lambda>_. Some ''data''), unmarshal = (\<lambda>_. None), item_Equals = lbData_Equals\<rparr>\<rparr>"

lemma ref_sys_simps [simp]:
  "sys_etcd ref_sys = lift_env ref_env" "sys_kernel ref_sys = lift_kernel ref_kernel"
  "marshal (sys_lbdata ref_sys) x = Some ''data''"
  by (simp_all add: ref_sys_def)

text \<open>A service in one flannel network, whose load balancer exists and whose address is recorded.\<close>

definition web :: service where
  "web = (NewService ''s1'' ''web'')\<lparr>s_networks := [''n1''], s_ipamVIPs := Some [(''n1'', [10, 0, 0, 2])]\<rparr>"

definition demo_net :: flannel_net where
  "demo_net = \<lparr>fn_mtu = 1450, fn_pool = \<lparr>poolID = ''net1'', poolSubnet = v4net (10 * 2 ^ 24) 24,
     ep_client = NewEtcdClient [] 5 ''/pool'', allIPs = [], allocatedIPs = [], unusedIPs = []\<rparr>\<rparr>"

definition no_events :: service_events where
  "no_events = \<lparr>ev_networks = NewEvent, ev_added = NewEvent, ev_removed = NewEvent, ev_mode = NewEvent\<rparr>"

definition demo_lbm :: "(unit, unit, ref_world \<times> ref_kernel_state) lbm" where
  "demo_lbm = \<lparr>services = [], unsubscribers = [], loadBalancers = [(''s1'', [(''n1'', demo_lb)])],
     loadBalancersData = \<lparr>st_client = NewEtcdClient [] 5 ''/lb'', st_data = [(''s1'', \<lparr>FrontendIPs = Some [(''n1'', [10, 0, 0, 7])]\<rparr>)],
       st_handlers = \<lparr>has_OnChanged = False, has_OnAdded = False, has_OnRemoved = False\<rparr>\<rparr>,
     fwmarksManagement = NewFwmarksManagement (NewEtcdClient [] 5 ''/fwmarks''),
     flannelNetworksByDockerID = [(''n1'', ())], otherNetworksByDockerID = [], service_heap = (\<lambda>_. web),
     event_heap = (\<lambda>_. no_events), network_heap = (\<lambda>_. demo_net), raised = [], world = (([], 0), demo_kernel)\<rparr>"

theorem CleanUp_keeps_nat_witness:
  "{x \<in> k_rules (ref_ks (snd (snd (CleanUpStaleLoadBalancers ref_sys (Inr ''node'') (NewEtcdClient [] 5 ''/lb'') []
      (([], 0), demo_kernel\<lparr>rk_rules := [(''nat'', ''POSTROUTING'', [''-d''])]\<rparr>))))). fst x = ''nat''} =
    {(''nat'', ''POSTROUTING'', [''-d''])}"
proof -
  let ?w = "(([], 0), demo_kernel\<lparr>rk_rules := [(''nat'', ''POSTROUTING'', [''-d''])]\<rparr>)"
  have K: "kernel_contract (sys_kernel ref_sys) (\<lambda>w. ref_ks (snd w))"
    unfolding ref_sys_simps by (rule kernel_contract_lift [OF kernel_contract_ref])
  have E: "apart (sys_etcd ref_sys) (\<lambda>w. ref_ks (snd w))"
    unfolding ref_sys_simps by (rule apart_lift)
  have "{x \<in> k_rules (ref_ks (snd ?w)). fst x = ''nat''} = {(''nat'', ''POSTROUTING'', [''-d''])}"
    by (auto simp: ref_ks_def)
  then show ?thesis
    using CleanUp_keeps_nat [OF K E, of "Inr ''node''" "NewEtcdClient [] 5 ''/lb''" "[]" ?w] by (simp only:)
qed

theorem DeleteLoadBalancer_no_retry_witness:
  "\<exists>t. DeleteLoadBalancer ref_sys ''s1'' demo_lbm = Some (Inl (OtherError ''no service found''), t) \<and>
    DeleteLoadBalancer ref_sys ''s1'' t = Some (Inl (OtherError ''no load balancer found''), t)"
proof -
  let ?t = "demo_lbm\<lparr>loadBalancers := []\<rparr>"
  have lb: "loadBalancers demo_lbm = [(''s1'', [(''n1'', demo_lb)])]" "services demo_lbm = []" "unsubscribers demo_lbm = []"
    by (simp_all add: demo_lbm_def)
  have "DeleteLoadBalancer ref_sys ''s1'' demo_lbm = Some (Inl (OtherError ''no service found''), ?t)"
    by (simp add: DeleteLoadBalancer_def bindP_def getP_def updP_def lb cm_Get_def cm_Remove_def map_del_def
        run_unsubscriber_def failP_def)
  with DeleteLoadBalancer_no_retry [OF this] show ?thesis by blast
qed

lemmas lb_run = bindP_def getP_def updP_def returnP_def failP_def errP_def in_fst_def in_snd_def guarded_def
  cm_Get_def cm_Set_def cm_Keys_def Let_def

lemma ref_store: "fst (AddOrUpdateItem (lift_env ref_env) (sys_lbdata ref_sys) sid d st w) = None"
  by (cases w) (simp add: AddOrUpdateItem_def WithConnection_def storeItem_def PutIfNewOrChanged_def in_fst_def
      ref_commit_def Let_def case_prod_unfold)

lemma demo_frontend:
  "fst (UpdateFrontendIP (lift_kernel ref_kernel) [10, 0, 0, 7] demo_lb (ew, demo_kernel)) = None"
  by (simp add: parse_ref_addr ip_String_v4 ParseIP_dotted UpdateFrontendIP_def EnsureInterfaceListensOnAddress_def
    ensureServiceLoadBalancerFrontend_def ensureIpvsService_def demo_lb_def slb_service_def
    NewNetworkSpecificServiceLb_def demo_kernel_def ApplyIpTablesRules_def demo_link_def frontend_rules_def
    Let_def ref_kernel_run in_snd_def)

lemma demo_run:
  "\<exists>t. createOrUpdate_locked ref_sys () (GetInfo web) demo_lbm = Some (Inr (), t) \<and>
    event_heap t = event_heap demo_lbm \<and> otherNetworksByDockerID t = [] \<and> map_get (loadBalancers t) ''s2'' = None"
proof -
  let ?s0 = "demo_lbm\<lparr>services := [(''s1'', ())]\<rparr>"
  have "getInterfaceName ''n1'' = ''lbf_n1''"
    by (simp add: getInterfaceName_def GetInterfaceName_def Let_def maxInterfaceNameLength_def)
  then have e: "ensure_lb ref_sys ''s1'' ''n1'' ?s0 = Some (Inr (), ?s0)"
    by (simp add: ensure_lb_def lb_run demo_lbm_def ioP_def demo_net_def EnsureInterface_def
        interfaceExists_def adjust_interface_def demo_kernel_def demo_link_def lookup_lb_def)
  have info: "si_ID (GetInfo web) = ''s1''" "si_Networks (GetInfo web) = [''n1'']"
    "go_entries (si_IpamVIPs (GetInfo web)) = [(''n1'', [10, 0, 0, 2])]"
    by (simp_all add: web_def NewService_def GetInfo_def go_entries_def)
  obtain slb1 w1 where f: "UpdateFrontendIP (lift_kernel ref_kernel) [10, 0, 0, 7] demo_lb (world ?s0) = (None, slb1, w1)"
  proof -
    have "fst (UpdateFrontendIP (lift_kernel ref_kernel) [10, 0, 0, 7] demo_lb (world ?s0)) = None"
      using demo_frontend [of "([], 0)"] by (simp add: demo_lbm_def)
    then show ?thesis using that by (metis prod.collapse)
  qed
  let ?s1 = "put_lb ''s1'' ''n1'' slb1 (?s0\<lparr>world := w1\<rparr>)"
  have ex: "GetItem ''s1'' (loadBalancersData ?s0) = Some \<lparr>FrontendIPs = Some [(''n1'', [10, 0, 0, 7])]\<rparr>"
    by (simp add: demo_lbm_def GetItem_def)
  have lb: "lookup_lb ''s1'' ''n1'' ?s0 = Some demo_lb" "map_get (otherNetworksByDockerID ?s0) ''n1'' = None"
    "cm_Get ''s1'' (loadBalancers demo_lbm) = Some [(''n1'', demo_lb)]"
    by (simp_all add: demo_lbm_def lookup_lb_def cm_Get_def)
  have a: "assign_vip ref_sys ''s1'' (GetItem ''s1'' (loadBalancersData ?s0)) (''n1'', [10, 0, 0, 2]) [] ?s0 =
      Some (Inr [(''n1'', [10, 0, 0, 7])], ?s1)"
    unfolding ex using lb(1,2) f
    by (simp add: assign_vip_def ip_entry_def set_frontend_def lb_run lbP_def map_put_def)
  obtain ns st w2 where st: "AddOrUpdateItem (lift_env ref_env) (sys_lbdata ref_sys) ''s1'' \<lparr>FrontendIPs = Some [(''n1'', [10, 0, 0, 7])]\<rparr>
      (loadBalancersData ?s1) (world ?s1) = (None, ns, st, w2)"
    using ref_store [of "''s1''" "\<lparr>FrontendIPs = Some [(''n1'', [10, 0, 0, 7])]\<rparr>" "loadBalancersData ?s1" "world ?s1"]
    by (metis prod.collapse)
  let ?t = "set_vips () [(''n1'', [10, 0, 0, 7])] (?s1\<lparr>loadBalancersData := st, world := w2\<rparr>)"
  have "createOrUpdate_locked ref_sys () (GetInfo web) demo_lbm = Some (Inr (), ?t)"
  proof -
    have s0: "cm_Set ''s1'' () (services demo_lbm) = [(''s1'', ())]"
      by (simp add: demo_lbm_def cm_Set_def map_put_def)
    have del: "fst (lo_Difference (cm_Keys [(''n1'', demo_lb)]) [''n1'']) = []"
      by (simp add: lo_Difference_def cm_Keys_def map_keys_def)
    show ?thesis
      unfolding createOrUpdate_locked_def Let_def info
      using e a st
      by (simp add: bindP_def updP_def getP_def s0 lb(3) del returnP_def storeP_def errP_def)
  qed
  moreover have "event_heap ?t = event_heap demo_lbm \<and> otherNetworksByDockerID ?t = [] \<and> map_get (loadBalancers ?t) ''s2'' = None"
    by (simp add: set_vips_def put_lb_def demo_lbm_def split: prod.split option.split)
  ultimately show ?thesis by blast
qed


theorem stale_networks_fail_witness:
  "\<exists>t. createOrUpdateLoadBalancer ref_sys (\<lambda>s. s\<lparr>service_heap := \<lambda>_. web\<rparr>) ()
     (demo_lbm\<lparr>service_heap := \<lambda>_. web\<lparr>s_networks := [''n2'', ''n1'']\<rparr>\<rparr>) =
       Some (Inl (OtherError ''network missing in internal state''), t) \<and> service_heap t = (\<lambda>_. web)"
proof -
  let ?others = "\<lambda>s. s\<lparr>service_heap := \<lambda>_. web\<rparr> :: (unit, unit, ref_world \<times> ref_kernel_state) lbm"
  let ?s = "demo_lbm\<lparr>service_heap := \<lambda>_. web\<lparr>s_networks := [''n2'', ''n1'']\<rparr>\<rparr>"
  have nets: "flannelNetworksByDockerID demo_lbm = [(''n1'', ())]" "otherNetworksByDockerID demo_lbm = []"
    by (simp_all add: demo_lbm_def)
  have web: "s_networks web = [''n1'']" by (simp add: web_def NewService_def)
  obtain t where run: "createOrUpdateLoadBalancer ref_sys ?others () ?s =
      Some (Inl (OtherError ''network missing in internal state''), t)"
    by (simp add: createOrUpdateLoadBalancer_def createOrUpdate_locked_def bindP_def getP_def updP_def failP_def Let_def
        hasMissingNetworks_def GetInfo_def nets web cm_Get_def ensure_lb_def)
  have "case createOrUpdateLoadBalancer ref_sys ?others () ?s of None \<Rightarrow> True
    | Some (res, t) \<Rightarrow> res \<noteq> Inr () \<and> service_heap t = service_heap (?others ?s)"
    by (rule stale_networks_fail [where n = "''n2''"]) (simp_all add: GetInfo_def nets)
  with run show ?thesis by simp
qed

theorem mode_handlers_pile_up_witness:
  "\<exists>t u res. CreateLoadBalancer ref_sys id () demo_lbm = Some (Inr (), t) \<and>
    DeleteLoadBalancer ref_sys ''s2'' t = Some (res, u) \<and> length (handlers (ev_mode (event_heap u ()))) = 1"
proof -
  obtain v where v: "createOrUpdate_locked ref_sys () (GetInfo web) demo_lbm = Some (Inr (), v)"
    "map_get (loadBalancers v) ''s2'' = None" using demo_run by blast
  have svc: "service_heap demo_lbm () = web" "\<not> hasMissingNetworks () demo_lbm"
    by (simp_all add: demo_lbm_def hasMissingNetworks_def GetInfo_def web_def NewService_def cm_Get_def)
  have c: "CreateLoadBalancer ref_sys id () demo_lbm = Some (Inr (), subscribe_all () v)"
    using v(1) svc by (simp add: CreateLoadBalancer_def createOrUpdateLoadBalancer_def bindP_def getP_def updP_def)
  have d: "DeleteLoadBalancer ref_sys ''s2'' (subscribe_all () v) =
      Some (Inl (OtherError ''no load balancer found''), subscribe_all () v)"
    using v(2) by (simp add: DeleteLoadBalancer_def bindP_def getP_def cm_Get_def failP_def subscribe_all_def Let_def
        case_prod_unfold)
  have e: "ev_mode (event_heap demo_lbm ()) = NewEvent" by (simp add: demo_lbm_def no_events_def)
  have "length (handlers (ev_mode (event_heap (subscribe_all () v) ()))) = Suc (length (handlers (ev_mode (event_heap demo_lbm ()))))"
    by (rule mode_handlers_pile_up [OF c _ _ d]) (simp_all add: e NewEvent_def)
  with c d show ?thesis by (simp add: e NewEvent_def)
qed

end
