(* ===== verification/Lock_Order.thy ===== *)
theory Lock_Order
  imports Prelude
begin

text \<open>
  The two mutexes that meet when a container of a service goes away while the service's load
  balancer is deleted: that of the load balancer manager (\<open>service_lb/service_lbs_management.go\<close>) and
  that of the event \<open>OnContainerRemoved\<close> (\<open>common/event.go\<close>).  \<open>DeleteLoadBalancer\<close> holds the first
  and takes the second to unsubscribe; \<open>Raise\<close> holds the second while the handler takes the first.
  The step relation has one step per operation on a mutex; everything else of the two
  methods is modelled in \<open>Lb_Management\<close> and \<open>Service\<close>.
\<close>

section \<open>The two goroutines\<close>

text \<open>\<open>DeleteLoadBalancer\<close>: about to lock the manager, about to lock the event in the unsubscriber, about
  to unlock the event, about to unlock the manager.\<close>

datatype delete_pc = DStart | DUnsubscribe | DUnlockEvent | DUnlock | DDone

text \<open>\<open>Raise\<close>: about to lock the event, in the handler about to lock the manager, in it about to
  unlock the manager, about to unlock the event.\<close>

datatype raise_pc = RStart | RHandler | RUnlockManager | RUnlock | RDone

record locks =
  deleting :: delete_pc
  raising :: raise_pc
  manager_locked :: bool
  event_locked :: bool

definition start :: locks where
  "start = \<lparr>deleting = DStart, raising = RStart, manager_locked = False, event_locked = False\<rparr>"

inductive step :: "locks \<Rightarrow> locks \<Rightarrow> bool" where
  D_lock: "deleting s = DStart \<Longrightarrow> \<not> manager_locked s \<Longrightarrow>
    step s (s\<lparr>deleting := DUnsubscribe, manager_locked := True\<rparr>)"
| D_lock_event: "deleting s = DUnsubscribe \<Longrightarrow> \<not> event_locked s \<Longrightarrow>
    step s (s\<lparr>deleting := DUnlockEvent, event_locked := True\<rparr>)"
| D_unlock_event: "deleting s = DUnlockEvent \<Longrightarrow> step s (s\<lparr>deleting := DUnlock, event_locked := False\<rparr>)"
| D_unlock: "deleting s = DUnlock \<Longrightarrow> step s (s\<lparr>deleting := DDone, manager_locked := False\<rparr>)"
| R_lock: "raising s = RStart \<Longrightarrow> \<not> event_locked s \<Longrightarrow>
    step s (s\<lparr>raising := RHandler, event_locked := True\<rparr>)"
| R_lock_manager: "raising s = RHandler \<Longrightarrow> \<not> manager_locked s \<Longrightarrow>
    step s (s\<lparr>raising := RUnlockManager, manager_locked := True\<rparr>)"
| R_unlock_manager: "raising s = RUnlockManager \<Longrightarrow> step s (s\<lparr>raising := RUnlock, manager_locked := False\<rparr>)"
| R_unlock: "raising s = RUnlock \<Longrightarrow> step s (s\<lparr>raising := RDone, event_locked := False\<rparr>)"

inductive reachable :: "locks \<Rightarrow> bool" where
  init: "reachable start"
| next_step: "reachable s \<Longrightarrow> step s t \<Longrightarrow> reachable t"

inductive_cases step_cases: "step s t"

definition finished :: "locks \<Rightarrow> bool" where
  "finished s \<longleftrightarrow> deleting s = DDone \<and> raising s = RDone"

definition stuck :: "locks \<Rightarrow> bool" where
  "stuck s \<longleftrightarrow> (\<forall>t. \<not> step s t)"

section \<open>Lemmas\<close>

text \<open>Who holds which mutex.\<close>

definition owners :: "locks \<Rightarrow> bool" where
  "owners s \<longleftrightarrow>
     (manager_locked s \<longleftrightarrow> deleting s \<in> {DUnsubscribe, DUnlockEvent, DUnlock} \<or> raising s = RUnlockManager) \<and>
     \<not> (deleting s \<in> {DUnsubscribe, DUnlockEvent, DUnlock} \<and> raising s = RUnlockManager) \<and>
     (event_locked s \<longleftrightarrow> raising s \<in> {RHandler, RUnlockManager, RUnlock} \<or> deleting s = DUnlockEvent) \<and>
     \<not> (raising s \<in> {RHandler, RUnlockManager, RUnlock} \<and> deleting s = DUnlockEvent)"

lemma owners_reachable: "reachable s \<Longrightarrow> owners s"
proof (induction rule: reachable.induct)
  case init
  show ?case by (simp add: owners_def start_def)
next
  case (next_step s t)
  from next_step.hyps(2) next_step.IH show ?case by (cases rule: step.cases) (auto simp: owners_def)
qed

lemma progress:
  assumes "owners s" and "\<not> finished s" and "stuck s"
  shows "deleting s = DUnsubscribe \<and> raising s = RHandler"
proof -
  have no: "\<not> step s t" for t using assms(3) by (simp add: stuck_def)
  have "\<not> (deleting s = DStart \<and> \<not> manager_locked s)" "\<not> (deleting s = DUnsubscribe \<and> \<not> event_locked s)"
    "deleting s \<noteq> DUnlockEvent" "deleting s \<noteq> DUnlock"
    "\<not> (raising s = RStart \<and> \<not> event_locked s)" "\<not> (raising s = RHandler \<and> \<not> manager_locked s)"
    "raising s \<noteq> RUnlockManager" "raising s \<noteq> RUnlock"
    using no by (blast intro: step.intros)+
  with assms(1,2) show ?thesis
    unfolding owners_def finished_def by (cases "deleting s"; cases "raising s") auto
qed

lemma deadlocked_stuck:
  assumes "deleting s = DUnsubscribe" "raising s = RHandler" "manager_locked s" "event_locked s"
  shows "stuck s"
  unfolding stuck_def using assms by (auto elim: step_cases)

section \<open>Property\<close>

text \<open>
  C34: deleting the load balancer of a service can deadlock with the removal of one of its
  containers, and this is the only way they block: a reachable state in which neither
  goroutine can go on, and not both are done, is the one in which each waits for the
  mutex of the other; and there is such a state.
\<close>

theorem delete_and_raise_deadlock:
  "(\<exists>s. reachable s \<and> stuck s \<and> \<not> finished s) \<and>
   {s. reachable s \<and> stuck s \<and> \<not> finished s} \<subseteq>
     {\<lparr>deleting = DUnsubscribe, raising = RHandler, manager_locked = True, event_locked = True\<rparr>}"
proof
  let ?s1 = "start\<lparr>deleting := DUnsubscribe, manager_locked := True\<rparr>"
  let ?s2 = "?s1\<lparr>raising := RHandler, event_locked := True\<rparr>"
  have "step start ?s1" by (rule D_lock) (simp_all add: start_def)
  then have "reachable ?s1" using init next_step by blast
  moreover have "step ?s1 ?s2" by (rule R_lock) (simp_all add: start_def)
  ultimately have "reachable ?s2" using next_step by blast
  moreover have "stuck ?s2" by (rule deadlocked_stuck) simp_all
  moreover have "\<not> finished ?s2" by (simp add: finished_def)
  ultimately show "\<exists>s. reachable s \<and> stuck s \<and> \<not> finished s" by blast
  show "{s. reachable s \<and> stuck s \<and> \<not> finished s} \<subseteq>
     {\<lparr>deleting = DUnsubscribe, raising = RHandler, manager_locked = True, event_locked = True\<rparr>}"
  proof
    fix s
    assume "s \<in> {s. reachable s \<and> stuck s \<and> \<not> finished s}"
    then have o: "owners s" and "deleting s = DUnsubscribe" "raising s = RHandler"
      using owners_reachable progress by blast+
    then have "manager_locked s" "event_locked s" by (auto simp: owners_def)
    with \<open>deleting s = DUnsubscribe\<close> \<open>raising s = RHandler\<close>
    show "s \<in> {\<lparr>deleting = DUnsubscribe, raising = RHandler, manager_locked = True, event_locked = True\<rparr>}"
      by (cases s) simp
  qed
qed

end
