(* ===== verification/Docker_Data.thy ===== *)
theory Docker_Data
  imports Sharded_Store Service
begin

text \<open>
  \<open>plugin/pkg/docker\<close>: the node's view of the docker containers, services and networks, kept in
  three etcd stores, and the handling of docker events (\<open>types.go\<close>, \<open>data.go\<close>, \<open>containers.go\<close>,
  \<open>networks.go\<close>, \<open>services.go\<close>, \<open>events.go\<close>).  The docker client and \<open>encoding/json\<close> are parameters
  (\<open>docker\<close>, \<open>codecs\<close>).  The handlers given to \<open>NewData\<close> are called synchronously by the stores;
  every operation returns those calls in order.  An operation holds the mutex of \<open>data\<close> and
  runs without others; the watches of the stores run beside them and are modelled in
  \<open>Stores\<close> and \<open>Sharded_Store\<close>.
\<close>

section \<open>The docker client\<close>

record docker_endpoint =
  de_NetworkID :: string
  de_IPAddress :: string
  de_IPAMConfig :: "string option"   \<comment> \<open>\<open>IPv4Address\<close>, or nil\<close>
  de_DNSNames :: "string list"
  de_EndpointID :: string

record docker_container =
  dk_Running :: bool
  dk_Labels :: "(string, string) gomap"
  dk_Name :: string
  dk_SandboxKey :: string
  dk_Networks :: "(string, docker_endpoint) gomap"

record docker_network =
  dn_Name :: string
  dn_Options :: "(string, string) gomap"
  dn_Subnets :: "string list"

record docker_service =
  ds_Name :: string
  ds_EndpointMode :: "string option"   \<comment> \<open>\<open>Spec.EndpointSpec\<close> may be nil\<close>
  ds_Targets :: "string list"
  ds_VirtualIPs :: "(string \<times> string) list"   \<comment> \<open>\<open>Addr\<close> and \<open>NetworkID\<close>\<close>

text \<open>\<open>Info\<close> also says whether the deadline of its context was exceeded.\<close>

record 'w docker =
  Hostname :: "('w, string) io"
  NewClient :: "('w, unit) io"
  Info :: "'w \<Rightarrow> (bool \<times> bool result) \<times> 'w"
  ContainerList :: "('w, string list) io"
  ContainerInspect :: "string \<Rightarrow> ('w, docker_container) io"
  NetworkList :: "('w, string list) io"
  NetworkInspect :: "string \<Rightarrow> ('w, docker_network) io"
  ServiceList :: "('w, string list) io"
  ServiceInspect :: "string \<Rightarrow> ('w, docker_service) io"

section \<open>Types\<close>

text \<open>The struct of \<open>docker\<close> embeds that of \<open>common\<close>.\<close>

record dContainerInfo = ContainerInfo +
  IpamIPs :: "(string, ip) gomap"

record dServiceInfo =
  dsi_ID :: string
  dsi_Name :: string
  dsi_EndpointMode :: string
  dsi_Networks :: "string list"
  dsi_IpamVIPs :: "(string, ip) gomap"

definition dContainerInfo_Equals :: "dContainerInfo \<Rightarrow> dContainerInfo \<Rightarrow> bool" where
  "dContainerInfo_Equals c d =
     (if c_ID c \<noteq> c_ID d \<or> c_Name c \<noteq> c_Name d \<or> c_ServiceID c \<noteq> c_ServiceID d \<or>
         c_ServiceName c \<noteq> c_ServiceName d \<or> c_SandboxKey c \<noteq> c_SandboxKey d then False
      else if \<not> CompareIPMaps (Some (c_IPs c)) (Some (c_IPs d)) then False
      else if \<not> CompareIPMaps (Some (IpamIPs c)) (Some (IpamIPs d)) then False
      else if \<not> CompareStringMaps (Some (c_Endpoints c)) (Some (c_Endpoints d)) then False
      else if \<not> CompareStringArrayMaps (Some (c_DNSNames c)) (Some (c_DNSNames d)) then False
      else True)"

definition dServiceInfo_Equals :: "dServiceInfo \<Rightarrow> dServiceInfo \<Rightarrow> bool" where
  "dServiceInfo_Equals c d =
     (if dsi_ID c \<noteq> dsi_ID d \<or> dsi_Name c \<noteq> dsi_Name d then False
      else if \<not> CompareIPMaps (Some (dsi_IpamVIPs c)) (Some (dsi_IpamVIPs d)) then False
      else True)"

record codecs =
  json_container :: "(dContainerInfo \<Rightarrow> string option) \<times> (string \<Rightarrow> dContainerInfo option)"
  json_service :: "(dServiceInfo \<Rightarrow> string option) \<times> (string \<Rightarrow> dServiceInfo option)"
  json_network :: "(NetworkInfo \<Rightarrow> string option) \<times> (string \<Rightarrow> NetworkInfo option)"

definition container_ops :: "codecs \<Rightarrow> dContainerInfo item_ops" where
  "container_ops J = \<lparr>marshal = fst (json_container J), unmarshal = snd (json_container J),
     item_Equals = dContainerInfo_Equals\<rparr>"

definition service_ops :: "codecs \<Rightarrow> dServiceInfo item_ops" where
  "service_ops J = \<lparr>marshal = fst (json_service J), unmarshal = snd (json_service J),
     item_Equals = dServiceInfo_Equals\<rparr>"

definition network_ops :: "codecs \<Rightarrow> NetworkInfo item_ops" where
  "network_ops J = \<lparr>marshal = fst (json_network J), unmarshal = snd (json_network J),
     item_Equals = (\<lambda>a b. NetworkInfo_Equals a (Some b))\<rparr>"

section \<open>State\<close>

text \<open>The client of docker and the clients of etcd are constant; all handlers are set.\<close>

record data =
  hostname :: string
  containers :: "dContainerInfo sstore"
  dservices :: "dServiceInfo storeBase"
  networks :: "NetworkInfo storeBase"
  isManagerNode :: bool

datatype docker_note =
    DContainers "dContainerInfo shard_note"
  | DServices "dServiceInfo notification"
  | DNetworks "NetworkInfo notification"

type_synonym 'w data_res = "err option \<times> docker_note list \<times> data \<times> 'w"

definition in_containers :: "data \<Rightarrow> ('w, dContainerInfo) sstore_res \<Rightarrow> 'w data_res" where
  "in_containers d r = (case r of (e, ns, st, w) \<Rightarrow> (e, map DContainers ns, d\<lparr>containers := st\<rparr>, w))"

definition in_services :: "data \<Rightarrow> ('w, dServiceInfo) store_res \<Rightarrow> 'w data_res" where
  "in_services d r = (case r of (e, ns, st, w) \<Rightarrow> (e, map DServices ns, d\<lparr>dservices := st\<rparr>, w))"

definition in_networks :: "data \<Rightarrow> ('w, NetworkInfo) store_res \<Rightarrow> 'w data_res" where
  "in_networks d r = (case r of (e, ns, st, w) \<Rightarrow> (e, map DNetworks ns, d\<lparr>networks := st\<rparr>, w))"

definition NewData :: "'w docker \<Rightarrow> etcdClient \<Rightarrow> ('w, data) io" where
  "NewData D c w =
     (case Hostname D w of
        (Inl e, w1) \<Rightarrow> (Inl e, w1)
      | (Inr host, w1) \<Rightarrow>
          (case NewClient D w1 of
             (Inl e, w2) \<Rightarrow> (Inl e, w2)
           | (Inr _, w2) \<Rightarrow>
               (case Info D w2 of
                  ((deadline, r), w3) \<Rightarrow>
                    if deadline then (Inl (Panic ''Docker API not available''), w3)
                    else (case r of
                       Inl e \<Rightarrow> (Inl e, w3)
                     | Inr controlAvailable \<Rightarrow>
                         (let sc = CreateSubClient c [''services'']; nc = CreateSubClient c [''networks'']
                          in (Inr \<lparr>hostname = host,
                                containers = NewShardedDistributedStore (CreateSubClient c [''containers'']) host all_handlers,
                                dservices = (if controlAvailable then NewWriteOnlyStore sc all_handlers
                                            else NewReadOnlyStore sc all_handlers),
                                networks = (if controlAvailable then NewWriteOnlyStore nc all_handlers
                                            else NewReadOnlyStore nc all_handlers),
                                isManagerNode = controlAvailable\<rparr>, w3))))))"

text \<open>A list of docker objects that could not be read is used as a nil map by all callers.\<close>

definition or_nil :: "('k, 'v) gomap result \<Rightarrow> ('k, 'v) gomap" where
  "or_nil r = (case r of Inl _ \<Rightarrow> [] | Inr m \<Rightarrow> m)"

section \<open>Containers\<close>

text \<open>A value that \<open>net.ParseIP\<close> rejects is the nil address.\<close>

definition parse_or_nil :: "string \<Rightarrow> ip" where
  "parse_or_nil s = (case ParseIP s of None \<Rightarrow> [] | Some a \<Rightarrow> a)"

definition attach :: "docker_endpoint \<Rightarrow> ip \<Rightarrow> dContainerInfo \<Rightarrow> dContainerInfo" where
  "attach ne a c =
     (let n = de_NetworkID ne
      in c\<lparr>c_IPs := map_put n a (c_IPs c),
           IpamIPs := (case de_IPAMConfig ne of
               Some v4 \<Rightarrow> if v4 \<noteq> [] then map_put n (parse_or_nil v4) (IpamIPs c) else IpamIPs c
             | None \<Rightarrow> IpamIPs c),
           c_DNSNames := map_put n (de_DNSNames ne) (c_DNSNames c),
           c_Endpoints := map_put n (de_EndpointID ne) (c_Endpoints c)\<rparr>)"

fun attach_networks :: "(string \<times> docker_endpoint) list \<Rightarrow> dContainerInfo \<Rightarrow> dContainerInfo" where
  "attach_networks [] c = c"
| "attach_networks ((networkName, ne) # nets) c =
     (if networkName = ''host'' then attach_networks nets c
      else if de_IPAddress ne = [] then attach_networks nets c
      else (case ParseIP (de_IPAddress ne) of
              None \<Rightarrow> attach_networks nets c
            | Some a \<Rightarrow> attach_networks nets (attach ne a c)))"

definition label :: "(string, string) gomap \<Rightarrow> string \<Rightarrow> string" where
  "label m k = (case map_get m k of None \<Rightarrow> [] | Some v \<Rightarrow> v)"

definition new_container_info :: "string \<Rightarrow> docker_container \<Rightarrow> dContainerInfo" where
  "new_container_info i k = \<lparr>c_ID = i, c_Name = trim_left CHR ''/'' (dk_Name k),
     c_ServiceID = label (dk_Labels k) ''com.docker.swarm.service.id'',
     c_ServiceName = label (dk_Labels k) ''com.docker.swarm.service.name'',
     c_SandboxKey = dk_SandboxKey k, c_IPs = [], c_DNSNames = [], c_Endpoints = [], IpamIPs = []\<rparr>"

definition getContainerInfoFromDocker :: "'w docker \<Rightarrow> string \<Rightarrow> ('w, dContainerInfo) io" where
  "getContainerInfoFromDocker D i w = (case ContainerInspect D i w of
      (Inl e, w1) \<Rightarrow> (Inl e, w1)
    | (Inr k, w1) \<Rightarrow>
        if \<not> dk_Running k then (Inl (OtherError ''container is not running''), w1)
        else (Inr (attach_networks (dk_Networks k) (new_container_info i k)), w1))"

fun collect_containers ::
  "'w docker \<Rightarrow> string list \<Rightarrow> (string, dContainerInfo) gomap \<Rightarrow> 'w \<Rightarrow> (string, dContainerInfo) gomap \<times> 'w"
where
  "collect_containers D [] infos w = (infos, w)"
| "collect_containers D (i # is) infos w = (case getContainerInfoFromDocker D i w of
      (Inl _, w1) \<Rightarrow> collect_containers D is infos w1
    | (Inr c, w1) \<Rightarrow>
        if length (c_IPs c) = 0 then collect_containers D is infos w1
        else collect_containers D is (map_put (c_ID c) c infos) w1)"

definition getContainersInfosFromDocker :: "'w docker \<Rightarrow> ('w, (string, dContainerInfo) gomap) io" where
  "getContainersInfosFromDocker D w = (case ContainerList D w of
      (Inl e, w1) \<Rightarrow> (Inl e, w1)
    | (Inr raw, w1) \<Rightarrow> (case collect_containers D raw [] w1 of (infos, w2) \<Rightarrow> (Inr infos, w2)))"

definition initContainers :: "'w env \<Rightarrow> 'w docker \<Rightarrow> codecs \<Rightarrow> data \<Rightarrow> 'w \<Rightarrow> 'w data_res" where
  "initContainers E D J d w = (case getContainersInfosFromDocker D w of
      (r, w1) \<Rightarrow> in_containers d (ss_Init E (container_ops J) (or_nil r) (containers d) w1))"

definition syncContainers :: "'w env \<Rightarrow> 'w docker \<Rightarrow> codecs \<Rightarrow> data \<Rightarrow> 'w \<Rightarrow> 'w data_res" where
  "syncContainers E D J d w = (case getContainersInfosFromDocker D w of
      (r, w1) \<Rightarrow> in_containers d (ss_Sync E (container_ops J) (or_nil r) (containers d) w1))"

definition handleContainer :: "'w env \<Rightarrow> 'w docker \<Rightarrow> codecs \<Rightarrow> string \<Rightarrow> data \<Rightarrow> 'w \<Rightarrow> 'w data_res" where
  "handleContainer E D J i d w = (case getContainerInfoFromDocker D i w of
      (Inl e, w1) \<Rightarrow> (Some e, [], d, w1)
    | (Inr c, w1) \<Rightarrow>
        if length (c_IPs c) = 0 then (None, [], d, w1)
        else in_containers d (ss_AddOrUpdateItem E (container_ops J) i c (containers d) w1))"

definition handleDeletedContainer :: "'w env \<Rightarrow> string \<Rightarrow> data \<Rightarrow> 'w \<Rightarrow> 'w data_res" where
  "handleDeletedContainer E i d w = in_containers d (ss_DeleteItem E i (containers d) w)"

definition without :: "string \<Rightarrow> (string, 'v) gomap \<Rightarrow> (string, 'v) gomap" where
  "without n m = filter (\<lambda>(k, v). k \<noteq> n) m"

definition disconnect :: "string \<Rightarrow> dContainerInfo \<Rightarrow> dContainerInfo" where
  "disconnect n c = c\<lparr>c_Endpoints := without n (c_Endpoints c), c_IPs := without n (c_IPs c),
     IpamIPs := without n (IpamIPs c), c_DNSNames := without n (c_DNSNames c)\<rparr>"

definition handleDisconnectedContainer ::
  "'w env \<Rightarrow> codecs \<Rightarrow> string \<Rightarrow> string \<Rightarrow> data \<Rightarrow> 'w \<Rightarrow> 'w data_res" where
  "handleDisconnectedContainer E J n i d w = (case ss_GetItem i (containers d) of
      (_, None) \<Rightarrow> (Some (OtherError ''container does not exist''), [], d, w)
    | (shardKey, Some c) \<Rightarrow>
        if shardKey \<noteq> localShardKey (containers d)
        then (Some (OtherError ''container is not from the local node''), [], d, w)
        else in_containers d (ss_AddOrUpdateItem E (container_ops J) i (disconnect n c) (containers d) w))"

section \<open>Networks\<close>

definition getNetworkInfoFromDocker :: "'w docker \<Rightarrow> string \<Rightarrow> ('w, NetworkInfo) io" where
  "getNetworkInfoFromDocker D i w = (case NetworkInspect D i w of
      (Inl e, w1) \<Rightarrow> (Inl e, w1)
    | (Inr n, w1) \<Rightarrow>
        (Inr \<lparr>DockerID = i, FlannelID = label (dn_Options n) ''flannel-id'',
              Subnet = (if length (dn_Subnets n) > 0 then hd (dn_Subnets n) else []),
              Name = dn_Name n\<rparr>, w1))"

fun collect_networks ::
  "'w docker \<Rightarrow> string list \<Rightarrow> (string, NetworkInfo) gomap \<Rightarrow> 'w \<Rightarrow> (string, NetworkInfo) gomap \<times> 'w"
where
  "collect_networks D [] infos w = (infos, w)"
| "collect_networks D (i # is) infos w = (case getNetworkInfoFromDocker D i w of
      (Inl _, w1) \<Rightarrow> collect_networks D is infos w1
    | (Inr n, w1) \<Rightarrow> collect_networks D is (map_put (DockerID n) n infos) w1)"

definition getNetworksInfosFromDocker :: "'w docker \<Rightarrow> ('w, (string, NetworkInfo) gomap) io" where
  "getNetworksInfosFromDocker D w = (case NetworkList D w of
      (Inl e, w1) \<Rightarrow> (Inl e, w1)
    | (Inr raw, w1) \<Rightarrow> (case collect_networks D raw [] w1 of (infos, w2) \<Rightarrow> (Inr infos, w2)))"

definition initNetworks :: "'w env \<Rightarrow> 'w docker \<Rightarrow> codecs \<Rightarrow> data \<Rightarrow> 'w \<Rightarrow> 'w data_res" where
  "initNetworks E D J d w =
     (if isManagerNode d
      then (case getNetworksInfosFromDocker D w of
              (r, w1) \<Rightarrow> in_networks d (wo_Init E (network_ops J) (or_nil r) (networks d) w1))
      else in_networks d (ro_Init E (network_ops J) (networks d) w))"

definition syncNetworks :: "'w env \<Rightarrow> 'w docker \<Rightarrow> codecs \<Rightarrow> data \<Rightarrow> 'w \<Rightarrow> 'w data_res" where
  "syncNetworks E D J d w =
     (if isManagerNode d
      then (case getNetworksInfosFromDocker D w of
              (r, w1) \<Rightarrow> in_networks d (wo_Sync E (network_ops J) (or_nil r) (networks d) w1))
      else in_networks d (ro_Sync E (network_ops J) (networks d) w))"

text \<open>The store of a node that is no manager does not satisfy the asserted interface.\<close>

definition not_writable :: err where
  "not_writable = Panic ''interface conversion''"

definition handleNetwork :: "'w env \<Rightarrow> 'w docker \<Rightarrow> codecs \<Rightarrow> string \<Rightarrow> data \<Rightarrow> 'w \<Rightarrow> 'w data_res" where
  "handleNetwork E D J i d w = (case getNetworkInfoFromDocker D i w of
      (Inl e, w1) \<Rightarrow> (Some e, [], d, w1)
    | (Inr n, w1) \<Rightarrow>
        if isManagerNode d then in_networks d (AddOrUpdateItem E (network_ops J) i n (networks d) w1)
        else (Some not_writable, [], d, w1))"

definition handleDeletedNetwork :: "'w env \<Rightarrow> string \<Rightarrow> data \<Rightarrow> 'w \<Rightarrow> 'w data_res" where
  "handleDeletedNetwork E i d w =
     (if isManagerNode d then in_networks d (DeleteItem E i (networks d) w)
      else (Some not_writable, [], d, w))"

section \<open>Services\<close>

fun parse_vips :: "(string \<times> string) list \<Rightarrow> (string, ip) gomap \<Rightarrow> (string, ip) gomap result" where
  "parse_vips [] vips = Inr vips"
| "parse_vips ((addr, n) # es) vips =
     (if addr = [] then parse_vips es vips
      else (case ParseCIDR addr of
              None \<Rightarrow> Inl (InvalidIP addr)
            | Some (a, _) \<Rightarrow> parse_vips es (map_put n a vips)))"

text \<open>\<open>None\<close> is an ignored service; a nil \<open>EndpointSpec\<close> is dereferenced.\<close>

definition getServiceInfoFromDocker :: "'w docker \<Rightarrow> string \<Rightarrow> ('w, dServiceInfo option) io" where
  "getServiceInfoFromDocker D i w = (case ServiceInspect D i w of
      (Inl e, w1) \<Rightarrow> (Inl e, w1)
    | (Inr s, w1) \<Rightarrow>
        (case ds_EndpointMode s of
           None \<Rightarrow> (Inl (Panic ''nil EndpointSpec''), w1)
         | Some mode \<Rightarrow>
             (case parse_vips (ds_VirtualIPs s) [] of
                Inl e \<Rightarrow> (Inl e, w1)
              | Inr vips \<Rightarrow>
                  if length vips = 0 \<and> mode = ServiceEndpointModeVip then (Inr None, w1)
                  else (Inr (Some \<lparr>dsi_ID = i, dsi_Name = ds_Name s, dsi_EndpointMode = mode,
                              dsi_Networks = ds_Targets s, dsi_IpamVIPs = vips\<rparr>), w1))))"

text \<open>Errors are skipped, but a panic ends the process.\<close>

fun collect_services ::
  "'w docker \<Rightarrow> string list \<Rightarrow> (string, dServiceInfo) gomap \<Rightarrow> ('w, (string, dServiceInfo) gomap) io"
where
  "collect_services D [] infos w = (Inr infos, w)"
| "collect_services D (i # is) infos w = (case getServiceInfoFromDocker D i w of
      (Inl (Panic p), w1) \<Rightarrow> (Inl (Panic p), w1)
    | (Inl _, w1) \<Rightarrow> collect_services D is infos w1
    | (Inr None, w1) \<Rightarrow> collect_services D is infos w1
    | (Inr (Some s), w1) \<Rightarrow> collect_services D is (map_put (dsi_ID s) s infos) w1)"

definition getServicesInfosFromDocker :: "'w docker \<Rightarrow> ('w, (string, dServiceInfo) gomap) io" where
  "getServicesInfosFromDocker D w = (case ServiceList D w of
      (Inl e, w1) \<Rightarrow> (Inl e, w1)
    | (Inr raw, w1) \<Rightarrow> collect_services D raw [] w1)"

definition with_services ::
  "('w, (string, dServiceInfo) gomap) io \<Rightarrow> data \<Rightarrow>
    ((string, dServiceInfo) gomap \<Rightarrow> 'w \<Rightarrow> ('w, dServiceInfo) store_res) \<Rightarrow> 'w \<Rightarrow> 'w data_res" where
  "with_services get d store w = (case get w of
      (Inl (Panic p), w1) \<Rightarrow> (Some (Panic p), [], d, w1)
    | (r, w1) \<Rightarrow> in_services d (store (or_nil r) w1))"

definition initServices :: "'w env \<Rightarrow> 'w docker \<Rightarrow> codecs \<Rightarrow> data \<Rightarrow> 'w \<Rightarrow> 'w data_res" where
  "initServices E D J d w =
     (if isManagerNode d
      then with_services (getServicesInfosFromDocker D) d
             (\<lambda>infos. wo_Init E (service_ops J) infos (dservices d)) w
      else in_services d (ro_Init E (service_ops J) (dservices d) w))"

definition syncServices :: "'w env \<Rightarrow> 'w docker \<Rightarrow> codecs \<Rightarrow> data \<Rightarrow> 'w \<Rightarrow> 'w data_res" where
  "syncServices E D J d w =
     (if isManagerNode d
      then with_services (getServicesInfosFromDocker D) d
             (\<lambda>infos. wo_Sync E (service_ops J) infos (dservices d)) w
      else in_services d (ro_Sync E (service_ops J) (dservices d) w))"

definition handleService :: "'w env \<Rightarrow> 'w docker \<Rightarrow> codecs \<Rightarrow> string \<Rightarrow> data \<Rightarrow> 'w \<Rightarrow> 'w data_res" where
  "handleService E D J i d w = (case getServiceInfoFromDocker D i w of
      (Inl e, w1) \<Rightarrow> (Some e, [], d, w1)
    | (Inr None, w1) \<Rightarrow> (None, [], d, w1)
    | (Inr (Some s), w1) \<Rightarrow>
        if isManagerNode d then in_services d (AddOrUpdateItem E (service_ops J) i s (dservices d) w1)
        else (Some not_writable, [], d, w1))"

definition handleDeletedService :: "'w env \<Rightarrow> string \<Rightarrow> data \<Rightarrow> 'w \<Rightarrow> 'w data_res" where
  "handleDeletedService E i d w =
     (if isManagerNode d then in_services d (DeleteItem E i (dservices d) w)
      else (Some not_writable, [], d, w))"

section \<open>Start\<close>

text \<open>\<open>Init\<close>: the three stores one after the other, then what they hold is handed out as added.\<close>

definition data_Init :: "'w env \<Rightarrow> 'w docker \<Rightarrow> codecs \<Rightarrow> data \<Rightarrow> 'w \<Rightarrow> 'w data_res" where
  "data_Init E D J d w = (case initNetworks E D J d w of
      (Some e, ns, d1, w1) \<Rightarrow> (Some e, ns, d1, w1)
    | (None, ns1, d1, w1) \<Rightarrow>
        (case initServices E D J d1 w1 of
           (Some e, ns2, d2, w2) \<Rightarrow> (Some e, ns1 @ ns2, d2, w2)
         | (None, ns2, d2, w2) \<Rightarrow>
             (case initContainers E D J d2 w2 of
                (Some e, ns3, d3, w3) \<Rightarrow> (Some e, ns1 @ ns2 @ ns3, d3, w3)
              | (None, ns3, d3, w3) \<Rightarrow>
                  (None,
                   ns1 @ ns2 @ ns3 @
                   [DNetworks (NAdded (GetAll (networks d3))),
                    DServices (NAdded (GetAll (dservices d3))),
                    DContainers (SAdded (concat (map (\<lambda>(k, vals). map (\<lambda>(i, v). (k, i, v)) vals)
                      (ss_GetAll (containers d3)))))],
                   d3, w3))))"

section \<open>Events\<close>

record docker_event =
  ev_Type :: string
  ev_Action :: string
  ev_ActorID :: string
  ev_Attributes :: "(string, string) gomap"

definition handleEvent :: "'w env \<Rightarrow> 'w docker \<Rightarrow> codecs \<Rightarrow> docker_event \<Rightarrow> data \<Rightarrow> 'w \<Rightarrow> 'w data_res" where
  "handleEvent E D J ev d w =
     (let actor = ev_ActorID ev; act = ev_Action ev; container = label (ev_Attributes ev) ''container''
      in if ev_Type ev = ''network'' then
           (if act = ''update'' then handleNetwork E D J actor d w
            else if act = ''remove'' then handleDeletedNetwork E actor d w
            else if act = ''connect'' then handleContainer E D J container d w
            else if act = ''disconnect'' then handleDisconnectedContainer E J actor container d w
            else (None, [], d, w))
         else if ev_Type ev = ''container'' then
           (if act = ''die'' then handleDeletedContainer E actor d w
            else if act = ''destroy'' then handleDeletedContainer E actor d w
            else (None, [], d, w))
         else if ev_Type ev = ''service'' then
           (if act = ''create'' then handleService E D J actor d w
            else if act = ''update'' then handleService E D J actor d w
            else if act = ''remove'' then handleDeletedService E actor d w
            else (None, [], d, w))
         else (None, [], d, w))"

text \<open>
  The loop over what the two channels deliver: \<open>None\<close> is an error of the event stream, after
  which the node subscribes anew.  An error of an event is logged; a panic ends the process.
\<close>

fun handleDockerEvents ::
  "'w env \<Rightarrow> 'w docker \<Rightarrow> codecs \<Rightarrow> docker_event option list \<Rightarrow> data \<Rightarrow> 'w \<Rightarrow> 'w data_res"
where
  "handleDockerEvents E D J [] d w = (None, [], d, w)"
| "handleDockerEvents E D J (None # evs) d w = handleDockerEvents E D J evs d w"
| "handleDockerEvents E D J (Some ev # evs) d w = (case handleEvent E D J ev d w of
      (Some (Panic p), ns, d1, w1) \<Rightarrow> (Some (Panic p), ns, d1, w1)
    | (_, ns, d1, w1) \<Rightarrow>
        (case handleDockerEvents E D J evs d1 w1 of (e, ns2, d2, w2) \<Rightarrow> (e, ns @ ns2, d2, w2)))"

section \<open>Lemmas: reading a container\<close>

text \<open>The attachments that are used, with their parsed addresses.\<close>

fun attached :: "(string \<times> docker_endpoint) list \<Rightarrow> (docker_endpoint \<times> ip) list" where
  "attached [] = []"
| "attached ((networkName, ne) # nets) =
     (if networkName = ''host'' then attached nets
      else case ParseIP (de_IPAddress ne) of None \<Rightarrow> attached nets | Some a \<Rightarrow> (ne, a) # attached nets)"

lemma ParseIP_Nil: "ParseIP [] = None"
  by (simp add: ParseIP_def parse_v4_def)

lemma attach_networks_fold: "attach_networks nets c = fold (\<lambda>(ne, a). attach ne a) (attached nets) c"
  by (induction nets c rule: attach_networks.induct) (auto simp: ParseIP_Nil split: option.splits)

lemma attached_parse: "(ne, a) \<in> set (attached nets) \<Longrightarrow> ParseIP (de_IPAddress ne) = Some a"
  by (induction nets rule: attached.induct) (auto split: if_splits option.splits)

lemma attached_iff:
  "(ne, a) \<in> set (attached nets) \<longleftrightarrow>
    (\<exists>nm. (nm, ne) \<in> set nets \<and> nm \<noteq> ''host'' \<and> ParseIP (de_IPAddress ne) = Some a)"
  by (induction nets rule: attached.induct) (auto split: option.splits)

text \<open>
  A well-formed description: the three maps that are filled for every network have the same
  networks, the IPAM addresses are of some of them, and every address has 16 bytes.
\<close>

definition container_wf :: "dContainerInfo \<Rightarrow> bool" where
  "container_wf c \<longleftrightarrow> map_ok (c_IPs c) \<and> map_ok (IpamIPs c) \<and> map_ok (c_DNSNames c) \<and> map_ok (c_Endpoints c) \<and>
     dom (map_get (c_DNSNames c)) = dom (map_get (c_IPs c)) \<and>
     dom (map_get (c_Endpoints c)) = dom (map_get (c_IPs c)) \<and>
     dom (map_get (IpamIPs c)) \<subseteq> dom (map_get (c_IPs c)) \<and>
     (\<forall>n a. map_get (c_IPs c) n = Some a \<longrightarrow> length a = 16)"

lemma dom_map_put [simp]: "dom (map_get (map_put k v m)) = insert k (dom (map_get m))"
  by (simp add: map_get_put_fun)

lemma length_ParseIP: "ParseIP s = Some a \<Longrightarrow> length a = 16"
  using ParseIP_Some by fastforce

lemma container_wf_attach: "container_wf c \<Longrightarrow> length a = 16 \<Longrightarrow> container_wf (attach ne a c)"
  unfolding container_wf_def attach_def by (auto simp: Let_def split: option.splits)

lemma container_wf_new: "container_wf (new_container_info i k)"
  by (auto simp: container_wf_def new_container_info_def)

lemma container_wf_fold: "container_wf c \<Longrightarrow> \<forall>(ne, a) \<in> set xs. length a = 16 \<Longrightarrow>
    container_wf (fold (\<lambda>(ne, a). attach ne a) xs c)"
  by (induction xs arbitrary: c) (auto simp: container_wf_attach)

lemma getContainerInfo_wf:
  assumes "getContainerInfoFromDocker D i w = (Inr c, w1)"
  shows "container_wf c"
proof -
  obtain k where "c = attach_networks (dk_Networks k) (new_container_info i k)"
    using assms by (auto simp: getContainerInfoFromDocker_def split: prod.splits sum.splits if_splits)
  moreover have "\<forall>(ne, a) \<in> set (attached (dk_Networks k)). length a = 16"
    using attached_parse length_ParseIP by fastforce
  ultimately show ?thesis
    by (simp add: attach_networks_fold container_wf_fold container_wf_new)
qed

lemma map_get_without: "map_get (without n m) = (map_get m)(n := None)"
  using map_get_filter_key [of "\<lambda>k. k \<noteq> n" m] by (auto simp: without_def)

lemma map_ok_without [simp]: "map_ok m \<Longrightarrow> map_ok (without n m)"
  by (simp add: without_def case_prod_unfold)

lemma container_wf_disconnect: "container_wf c \<Longrightarrow> container_wf (disconnect n c)"
  by (auto simp: container_wf_def disconnect_def map_get_without)

section \<open>Lemmas: the local shard\<close>

text \<open>Every container of the local shard, and every one that the index attributes to it, is well-formed.\<close>

definition local_wf :: "dContainerInfo sstore \<Rightarrow> bool" where
  "local_wf s \<longleftrightarrow>
     (\<forall>sh i c. (localShardKey s, sh) \<in> set (shardedData s) \<and> (i, c) \<in> set sh \<longrightarrow> container_wf c) \<and>
     (\<forall>i c. ss_GetItem i s = (localShardKey s, Some c) \<longrightarrow> container_wf c)"

lemma set_map_del: "set (map_del k m) \<subseteq> set m"
  by (auto simp: map_del_def AList.delete_eq)

lemma local_wf_shard:
  "local_wf s \<Longrightarrow> map_get (shardedData s) (localShardKey s) = Some sh \<Longrightarrow> (i, c) \<in> set sh \<Longrightarrow> container_wf c"
  unfolding local_wf_def by (blast dest: map_get_in_set)

lemma local_wf_add:
  assumes "local_wf s" "container_wf c" "ss_AddOrUpdateItem E T i c s w = (e, ns, s', w')"
  shows "local_wf s' \<and> localShardKey s' = localShardKey s"
proof (cases "map_get (shardedData s) (localShardKey s)")
  case (Some sh)
  let ?s = "s\<lparr>shardedData := map_put (localShardKey s) (map_put i c sh) (shardedData s),
     ss_data := map_put i c (ss_data s), itemToShardKey := map_put i (localShardKey s) (itemToShardKey s)\<rparr>"
  have "local_wf ?s"
    using assms(1,2) local_wf_shard [OF assms(1) Some] set_map_put [of i c sh]
      set_map_put [of "localShardKey s" "map_put i c sh" "shardedData s"]
    by (auto simp: local_wf_def ss_GetItem_def) blast+
  moreover have "s' = ?s"
    using assms(3) Some by (auto simp: ss_AddOrUpdateItem_def Let_def split: prod.splits sum.splits)
  ultimately show ?thesis by simp
qed (use assms in \<open>simp add: ss_AddOrUpdateItem_def\<close>)

lemma local_wf_delete:
  assumes "local_wf s" "ss_DeleteItem E i s w = (e, ns, s', w')"
  shows "local_wf s' \<and> localShardKey s' = localShardKey s"
proof (cases "map_get (shardedData s) (localShardKey s)")
  case (Some sh)
  let ?s = "s\<lparr>shardedData := map_put (localShardKey s) (map_del i sh) (shardedData s),
     ss_data := map_del i (ss_data s), itemToShardKey := map_del i (itemToShardKey s)\<rparr>"
  have "local_wf ?s"
    using assms(1) local_wf_shard [OF assms(1) Some] set_map_del [of i sh]
      set_map_put [of "localShardKey s" "map_del i sh" "shardedData s"]
    by (auto simp: local_wf_def ss_GetItem_def split: if_splits) blast+
  moreover have "s' = ?s"
    using assms(2) Some by (auto simp: ss_DeleteItem_def Let_def split: prod.splits sum.splits)
  ultimately show ?thesis by simp
qed (use assms in \<open>simp add: ss_DeleteItem_def\<close>)

lemma index_shard_get:
  "index_shard k items (d0, ix0) = (d, ix) \<Longrightarrow> map_get d i = Some c \<Longrightarrow>
    (i, c) \<in> set items \<and> map_get ix i = Some k \<or> map_get d0 i = Some c \<and> map_get ix i = map_get ix0 i"
proof (induction items arbitrary: d0 ix0)
  case (Cons ic items)
  obtain j x where [simp]: "ic = (j, x)" by (cases ic)
  show ?case using Cons.IH [of "map_put j x d0" "map_put j k ix0"] Cons.prems by (auto split: if_splits)
qed simp

lemma index_shards_get:
  "index_shards shards (d0, ix0) = (d, ix) \<Longrightarrow> map_get d i = Some c \<Longrightarrow>
    (\<exists>k items. (k, items) \<in> set shards \<and> (i, c) \<in> set items \<and> map_get ix i = Some k) \<or>
    map_get d0 i = Some c \<and> map_get ix i = map_get ix0 i"
proof (induction shards arbitrary: d0 ix0)
  case (Cons ki shards)
  obtain k items where [simp]: "ki = (k, items)" by (cases ki)
  obtain d1 ix1 where 1: "index_shard k items (d0, ix0) = (d1, ix1)" by (cases "index_shard k items (d0, ix0)")
  have "(\<exists>k items. (k, items) \<in> set shards \<and> (i, c) \<in> set items \<and> map_get ix i = Some k) \<or>
      map_get d1 i = Some c \<and> map_get ix i = map_get ix1 i"
    using Cons.IH [of d1 ix1] Cons.prems 1 by simp
  then show ?case
  proof
    assume *: "map_get d1 i = Some c \<and> map_get ix i = map_get ix1 i"
    then show ?thesis using index_shard_get [OF 1, of i c] by auto
  qed auto
qed simp

lemma ss_syncToInternalState_wf:
  assumes "local_wf s" and "shardKey = localShardKey s \<Longrightarrow> \<forall>(i, c) \<in> set truth. container_wf c"
    and "ss_syncToInternalState T shardKey truth s = (diff, s')"
  shows "local_wf s' \<and> localShardKey s' = localShardKey s"
proof -
  let ?shards = "map_put shardKey truth (shardedData s)"
  obtain d ix where 1: "index_shards ?shards ([], itemToShardKey s) = (d, ix)"
    by (cases "index_shards ?shards ([], itemToShardKey s)")
  have s': "s' = s\<lparr>shardedData := ?shards, ss_data := d, itemToShardKey := ix\<rparr>"
    using assms(3) 1 by (auto simp: ss_syncToInternalState_def Let_def split: prod.splits)
  have A: "(localShardKey s, sh) \<in> set ?shards \<Longrightarrow> (i, c) \<in> set sh \<Longrightarrow> container_wf c" for sh i c
    using set_map_put [of shardKey truth "shardedData s"] assms(1,2) unfolding local_wf_def by blast
  have "(case map_get ix i of None \<Rightarrow> [] | Some k \<Rightarrow> k) = localShardKey s \<Longrightarrow> map_get d i = Some c \<Longrightarrow> container_wf c" for i c
    using index_shards_get [OF 1, of i c] A by auto
  with A show ?thesis by (auto simp: s' local_wf_def ss_GetItem_def)
qed

lemma sync_shards_wf:
  "local_wf s \<Longrightarrow> sync_shards E T items shards diff s w = (e, diff', s', w') \<Longrightarrow>
    local_wf s' \<and> localShardKey s' = localShardKey s"
proof (induction shards arbitrary: diff s w)
  case (Cons ki shards)
  obtain k sh where [simp]: "ki = (k, sh)" by (cases ki)
  obtain ch ad rm where [simp]: "diff = (ch, ad, rm)" by (cases diff)
  show ?case
  proof (cases "k = localShardKey s")
    case True
    then show ?thesis using Cons
      by (auto simp: case_prod_unfold Let_def split: prod.splits sum.splits)
  next
    case False
    obtain d1 s1 where 1: "ss_syncToInternalState T k sh s = (d1, s1)" by (cases "ss_syncToInternalState T k sh s")
    have "local_wf s1 \<and> localShardKey s1 = localShardKey s"
      using ss_syncToInternalState_wf [OF Cons.prems(1) _ 1] False by blast
    then show ?thesis using Cons.IH [of s1] Cons.prems(2) False 1 by (auto split: prod.splits)
  qed
qed simp

lemma ss_sync_wf:
  assumes "local_wf s" and "\<forall>(i, c) \<in> set items. container_wf c" and "ss_sync E T items h s w = (e, ns, s', w')"
  shows "local_wf s' \<and> localShardKey s' = localShardKey s"
proof -
  obtain d1 s1 where 1: "ss_syncToInternalState T (localShardKey s) items s = (d1, s1)"
    by (cases "ss_syncToInternalState T (localShardKey s) items s")
  note wf1 = ss_syncToInternalState_wf [OF assms(1) assms(2) 1]
  have "s' = s1 \<or> (\<exists>ed e' d2 w1 w2. sync_shards E T items ed d1 s1 w1 = (e', d2, s', w2))"
    using assms(3) 1 unfolding ss_sync_def by (fastforce split: prod.splits option.splits sum.splits bool.splits)
  then show ?thesis
  proof
    assume "\<exists>ed e' d2 w1 w2. sync_shards E T items ed d1 s1 w1 = (e', d2, s', w2)"
    then show ?thesis using sync_shards_wf wf1 by metis
  qed (use wf1 in simp)
qed

lemma collect_containers_wf:
  "\<forall>(i, c) \<in> set infos. container_wf c \<Longrightarrow> collect_containers D is infos w = (infos', w') \<Longrightarrow>
    \<forall>(i, c) \<in> set infos'. container_wf c"
proof (induction "is" arbitrary: infos w)
  case (Cons i "is")
  obtain r w1 where 1: "getContainerInfoFromDocker D i w = (r, w1)" by (cases "getContainerInfoFromDocker D i w")
  have put: "\<forall>(i, c) \<in> set (map_put (c_ID c) c infos). container_wf c" if "r = Inr c" for c
    using getContainerInfo_wf [of D i w c w1] 1 that Cons.prems(1) set_map_put [of "c_ID c" c infos] by auto
  show ?case
    using Cons.IH [of infos w1] Cons.IH [OF put, of _ w1] Cons.prems 1 by (auto split: sum.splits if_splits)
qed simp

lemma or_nil_containers_wf:
  assumes "getContainersInfosFromDocker D w = (r, w1)"
  shows "\<forall>(i, c) \<in> set (or_nil r). container_wf c"
proof (cases "ContainerList D w")
  case (Pair l w2)
  show ?thesis
  proof (cases l)
    case (Inr raw)
    obtain infos w3 where c: "collect_containers D raw [] w2 = (infos, w3)" by (cases "collect_containers D raw [] w2")
    have "r = Inr infos" using assms Pair Inr c by (simp add: getContainersInfosFromDocker_def)
    moreover have "\<forall>(i, c) \<in> set infos. container_wf c" using collect_containers_wf [OF _ c] by simp
    ultimately show ?thesis by (simp add: or_nil_def)
  qed (use assms Pair in \<open>auto simp: getContainersInfosFromDocker_def or_nil_def\<close>)
qed

definition data_of :: "'w data_res \<Rightarrow> data" where
  "data_of r = fst (snd (snd r))"

definition data_wf :: "data \<Rightarrow> bool" where
  "data_wf d \<longleftrightarrow> local_wf (containers d)"

lemma data_wf_in_services [simp]: "data_wf (data_of (in_services d r)) = data_wf d"
  by (simp add: data_wf_def data_of_def in_services_def split: prod.split)

lemma data_wf_in_networks [simp]: "data_wf (data_of (in_networks d r)) = data_wf d"
  by (simp add: data_wf_def data_of_def in_networks_def split: prod.split)

lemma data_wf_in_containers:
  "(\<And>e ns s w. r = (e, ns, s, w) \<Longrightarrow> local_wf s) \<Longrightarrow> data_wf (data_of (in_containers d r))"
  by (cases r) (simp add: data_wf_def data_of_def in_containers_def)

lemma data_of_same [simp]: "data_of (e, ns, d, w) = d"
  by (simp add: data_of_def)

lemma data_wf_containers:
  assumes "data_wf d"
  shows "data_wf (data_of (initContainers E D J d w))"
    and "data_wf (data_of (syncContainers E D J d w))"
proof -
  obtain r w1 where 1: "getContainersInfosFromDocker D w = (r, w1)" by (cases "getContainersInfosFromDocker D w")
  have wf: "local_wf (containers d)" using assms by (simp add: data_wf_def)
  note S = ss_sync_wf [OF wf or_nil_containers_wf [OF 1]]
  show "data_wf (data_of (syncContainers E D J d w))"
    unfolding syncContainers_def 1 prod.case
    by (rule data_wf_in_containers) (simp add: ss_Sync_def, drule S, simp)
  show "data_wf (data_of (initContainers E D J d w))"
    unfolding initContainers_def 1 prod.case
    by (rule data_wf_in_containers)
      (auto simp: ss_Init_def split: prod.splits option.splits sum.splits dest: S)
qed

lemma data_wf_handleContainer:
  assumes "data_wf d"
  shows "data_wf (data_of (handleContainer E D J i d w))"
proof (cases "getContainerInfoFromDocker D i w")
  case (Pair r w1)
  show ?thesis
  proof (cases r)
    case (Inr c)
    have "container_wf c" using getContainerInfo_wf [of D i w c w1] Pair Inr by simp
    then have "data_wf (data_of (in_containers d (ss_AddOrUpdateItem E (container_ops J) i c (containers d) w1)))"
      using assms unfolding data_wf_def by (intro data_wf_in_containers [unfolded data_wf_def]) (blast dest: local_wf_add)
    with assms show ?thesis by (simp add: handleContainer_def Pair Inr)
  qed (use assms Pair in \<open>simp add: handleContainer_def\<close>)
qed

lemma data_wf_deleted: "data_wf d \<Longrightarrow> data_wf (data_of (handleDeletedContainer E i d w))"
  unfolding handleDeletedContainer_def
  by (rule data_wf_in_containers) (unfold data_wf_def, blast dest: local_wf_delete)

lemma data_wf_disconnected:
  assumes "data_wf d"
  shows "data_wf (data_of (handleDisconnectedContainer E J n i d w))"
proof (cases "\<exists>c. ss_GetItem i (containers d) = (localShardKey (containers d), Some c)")
  case True
  then obtain c where c: "ss_GetItem i (containers d) = (localShardKey (containers d), Some c)" by blast
  have "container_wf (disconnect n c)"
    using assms c unfolding data_wf_def local_wf_def by (blast intro: container_wf_disconnect)
  then have "data_wf (data_of (in_containers d (ss_AddOrUpdateItem E (container_ops J) i (disconnect n c) (containers d) w)))"
    using assms unfolding data_wf_def by (intro data_wf_in_containers [unfolded data_wf_def]) (blast dest: local_wf_add)
  then show ?thesis by (simp add: handleDisconnectedContainer_def c)
next
  case False
  then show ?thesis using assms by (auto simp: handleDisconnectedContainer_def split: prod.split option.split)
qed

lemma data_wf_services:
  assumes "data_wf d"
  shows "data_wf (data_of (initServices E D J d w))" "data_wf (data_of (handleService E D J i d w))"
    "data_wf (data_of (handleDeletedService E i d w))"
  using assms
  by (auto simp: initServices_def with_services_def handleService_def handleDeletedService_def
      split: prod.split sum.split err.split option.split)

lemma data_wf_networks:
  assumes "data_wf d"
  shows "data_wf (data_of (initNetworks E D J d w))" "data_wf (data_of (handleNetwork E D J i d w))"
    "data_wf (data_of (handleDeletedNetwork E i d w))"
  using assms
  by (auto simp: initNetworks_def handleNetwork_def handleDeletedNetwork_def split: prod.split sum.split)

lemma data_wf_handleEvent: "data_wf d \<Longrightarrow> data_wf (data_of (handleEvent E D J ev d w))"
  unfolding handleEvent_def Let_def
  by (simp add: data_wf_services data_wf_networks data_wf_handleContainer data_wf_deleted data_wf_disconnected)

lemma data_wf_events: "data_wf d \<Longrightarrow> data_wf (data_of (handleDockerEvents E D J evs d w))"
proof (induction evs arbitrary: d w)
  case (Cons ev evs)
  show ?case
  proof (cases ev)
    case (Some e)
    obtain er ns d1 w1 where H: "handleEvent E D J e d w = (er, ns, d1, w1)" by (cases "handleEvent E D J e d w")
    have "data_wf d1" using data_wf_handleEvent [OF Cons.prems, of E D J e w] H by simp
    then have "data_wf (data_of (handleDockerEvents E D J evs d1 w1))" by (rule Cons.IH)
    then show ?thesis using \<open>data_wf d1\<close> Some H by (auto simp: data_of_def split: option.splits err.splits prod.split)
  qed (simp add: Cons)
qed simp

lemma data_wf_Init:
  assumes "data_wf d"
  shows "data_wf (data_of (data_Init E D J d w))"
proof -
  obtain e1 n1 d1 w1 where 1: "initNetworks E D J d w = (e1, n1, d1, w1)" by (cases "initNetworks E D J d w")
  obtain e2 n2 d2 w2 where 2: "initServices E D J d1 w1 = (e2, n2, d2, w2)" by (cases "initServices E D J d1 w1")
  obtain e3 n3 d3 w3 where 3: "initContainers E D J d2 w2 = (e3, n3, d3, w3)" by (cases "initContainers E D J d2 w2")
  have "data_wf d1" using data_wf_networks(1) [OF assms, of E D J w] 1 by simp
  moreover from this have "data_wf d2" using data_wf_services(1) [of d1 E D J w1] 2 by simp
  moreover from this have "data_wf d3" using data_wf_containers(1) [of d2 E D J w2] 3 by simp
  ultimately show ?thesis by (auto simp: data_Init_def 1 2 3 split: option.split)
qed

lemma NewData_wf: "NewData D c w = (Inr d, w') \<Longrightarrow> data_wf d"
  by (auto simp: NewData_def Let_def NewShardedDistributedStore_def data_wf_def local_wf_def ss_GetItem_def
      map_put_def split: prod.splits sum.splits if_splits)

section \<open>Lemmas: lists that could not be read\<close>

lemma wo_Sync_nothing:
  assumes "etcd_contract E kv (=)" and "store_keys (st_client s) (kv w)" and "decodable T (st_client s) (kv w)"
    and "st_handlers s = all_handlers" and "wo_Sync E T [] s w = (None, ns, s', w')"
  shows "st_data s' = [] \<and> (\<forall>i. valid_id i \<longrightarrow> kv w' (GetKey (st_client s) [i]) = None) \<and>
    (\<forall>k. (\<forall>i. valid_id i \<longrightarrow> k \<noteq> GetKey (st_client s) [i]) \<longrightarrow> kv w' k = kv w k) \<and>
    ns = (if st_data s = [] then []
          else [NRemoved (map (\<lambda>i. (i, the (map_get (st_data s) i))) (map_keys (st_data s)))])"
proof -
  obtain diff s1 u where S: "syncToInternalState T [] s = (diff, s1)"
    and W: "WithConnection E (write_all E T [] s1) w = (Inr u, w')" and s': "s' = s1"
    and ns: "ns = call_handlers (st_handlers s1) diff"
    using assms(5) by (auto simp: wo_Sync_def wo_sync_def split: prod.splits sum.splits)
  have s1: "s1 = s\<lparr>st_data := []\<rparr>"
    and diff: "diff = ([], [], map (\<lambda>i. (i, the (map_get (st_data s) i))) (fst (lo_Difference (map_keys (st_data s)) [])))"
    using S by (auto simp: syncToInternalState_def case_prod_unfold Let_def map_keys_def)
  obtain w1 where cn: "conn_new E w = (None, w1)" and W1: "write_all E T [] s1 w1 = (Inr u, w')"
    using W by (rule WithConnection_Inr)
  have kv1: "kv w1 = kv w" using conn_new_rely [OF assms(1) cn] by simp
  have "store_keys (st_client s1) (kv w1)" "decodable T (st_client s1) (kv w1)"
    using assms(2,3) by (simp_all add: s1 kv1)
  note A = write_all_alone [OF assms(1) W1 _ _ this, unfolded kv1]
  have "fst (lo_Difference (map_keys (st_data s)) []) = map_keys (st_data s)"
    by (simp add: lo_Difference_def)
  then have "ns = (if st_data s = [] then []
          else [NRemoved (map (\<lambda>i. (i, the (map_get (st_data s) i))) (map_keys (st_data s)))])"
    using assms(4) by (simp add: ns diff s1 call_handlers_def all_handlers_def map_keys_def)
  with A show ?thesis by (simp add: s' s1)
qed

lemma map_of_fold_put:
  "distinct (map fst xs) \<Longrightarrow>
    map_get (fold (\<lambda>(k, v). map_put k v) xs m) n = (case map_of xs n of None \<Rightarrow> map_get m n | Some v \<Rightarrow> Some v)"
proof (induction xs arbitrary: m)
  case (Cons kv xs)
  obtain k v where [simp]: "kv = (k, v)" by (cases kv)
  have "map_of xs k = None" using Cons.prems by (simp add: map_of_eq_None_iff)
  then show ?case using Cons.IH [of "map_put k v m"] Cons.prems by (auto split: option.split)
qed simp

lemma attach_fold_maps:
  "c_IPs (fold (\<lambda>(ne, a). attach ne a) xs c) = fold (\<lambda>(k, v). map_put k v) (map (\<lambda>(ne, a). (de_NetworkID ne, a)) xs) (c_IPs c)"
  "c_DNSNames (fold (\<lambda>(ne, a). attach ne a) xs c) =
    fold (\<lambda>(k, v). map_put k v) (map (\<lambda>(ne, a). (de_NetworkID ne, de_DNSNames ne)) xs) (c_DNSNames c)"
  "c_Endpoints (fold (\<lambda>(ne, a). attach ne a) xs c) =
    fold (\<lambda>(k, v). map_put k v) (map (\<lambda>(ne, a). (de_NetworkID ne, de_EndpointID ne)) xs) (c_Endpoints c)"
  "c_ID (fold (\<lambda>(ne, a). attach ne a) xs c) = c_ID c"
  "c_ServiceID (fold (\<lambda>(ne, a). attach ne a) xs c) = c_ServiceID c"
  "c_SandboxKey (fold (\<lambda>(ne, a). attach ne a) xs c) = c_SandboxKey c"
  by (induction xs arbitrary: c) (auto simp: attach_def Let_def)

lemma attached_maps:
  assumes "distinct (map (\<lambda>(ne, a). de_NetworkID ne) xs)"
  shows "map_get (fold (\<lambda>(k, v). map_put k v) (map (\<lambda>(ne, a). (de_NetworkID ne, f ne a)) xs) []) n = Some v \<longleftrightarrow>
    (\<exists>ne a. (ne, a) \<in> set xs \<and> de_NetworkID ne = n \<and> f ne a = v)"
proof -
  let ?ys = "map (\<lambda>(ne, a). (de_NetworkID ne, f ne a)) xs"
  have "map fst ?ys = map (\<lambda>(ne, a). de_NetworkID ne) xs" by auto
  then have d: "distinct (map fst ?ys)" using assms by (simp only:)
  then have "map_of ?ys n = Some v \<longleftrightarrow> (n, v) \<in> set ?ys" by (rule map_of_eq_Some_iff)
  moreover have "(n, v) \<in> set ?ys \<longleftrightarrow> (\<exists>ne a. (ne, a) \<in> set xs \<and> de_NetworkID ne = n \<and> f ne a = v)" by force
  ultimately show ?thesis using map_of_fold_put [OF d, of "[]" n] by (cases "map_of ?ys n") simp_all
qed

section \<open>Properties\<close>

text \<open>
  What is read of a running container: for networks with distinct IDs, exactly the attachments
  with a valid address and another name than host count, each with its address, its DNS names and
  its endpoint.
\<close>

theorem container_networks_read:
  assumes "ContainerInspect D i w = (Inr k, w1)" and "dk_Running k"
    and "distinct (map (\<lambda>(ne, a). de_NetworkID ne) (attached (dk_Networks k)))"
    and "getContainerInfoFromDocker D i w = (r, w2)"
  shows "\<exists>c. r = Inr c \<and> w2 = w1 \<and> c_ID c = i \<and> c_SandboxKey c = dk_SandboxKey k \<and>
    c_ServiceID c = label (dk_Labels k) ''com.docker.swarm.service.id'' \<and>
    (\<forall>n a. map_get (c_IPs c) n = Some a \<longleftrightarrow> (\<exists>nm ne. (nm, ne) \<in> set (dk_Networks k) \<and> nm \<noteq> ''host'' \<and>
       de_NetworkID ne = n \<and> ParseIP (de_IPAddress ne) = Some a)) \<and>
    (\<forall>(ne, a) \<in> set (attached (dk_Networks k)).
       map_get (c_DNSNames c) (de_NetworkID ne) = Some (de_DNSNames ne) \<and>
       map_get (c_Endpoints c) (de_NetworkID ne) = Some (de_EndpointID ne))"
proof -
  let ?xs = "attached (dk_Networks k)" and ?n = "new_container_info i k"
  let ?c = "fold (\<lambda>(ne, a). attach ne a) ?xs ?n"
  have r: "r = Inr ?c" "w2 = w1"
    using assms(1,2,4) by (simp_all add: getContainerInfoFromDocker_def attach_networks_fold)
  note get = attached_maps [OF assms(3)]
  have IPs: "map_get (c_IPs ?c) n = Some a \<longleftrightarrow> (\<exists>nm ne. (nm, ne) \<in> set (dk_Networks k) \<and> nm \<noteq> ''host'' \<and>
       de_NetworkID ne = n \<and> ParseIP (de_IPAddress ne) = Some a)" for n a
    using get [where f = "\<lambda>_ a. a"] by (simp add: attach_fold_maps new_container_info_def attached_iff) blast
  have names: "map_get (c_DNSNames ?c) (de_NetworkID ne) = Some (de_DNSNames ne)" if "(ne, a) \<in> set ?xs" for ne a
    using get [where f = "\<lambda>ne _. de_DNSNames ne"] that by (simp add: attach_fold_maps new_container_info_def) blast
  have eps: "map_get (c_Endpoints ?c) (de_NetworkID ne) = Some (de_EndpointID ne)" if "(ne, a) \<in> set ?xs" for ne a
    using get [where f = "\<lambda>ne _. de_EndpointID ne"] that by (simp add: attach_fold_maps new_container_info_def) blast
  have "\<forall>(ne, a) \<in> set ?xs. map_get (c_DNSNames ?c) (de_NetworkID ne) = Some (de_DNSNames ne) \<and>
      map_get (c_Endpoints ?c) (de_NetworkID ne) = Some (de_EndpointID ne)"
    using names eps by blast
  with IPs show ?thesis by (simp add: r attach_fold_maps(4-6)) (simp add: new_container_info_def)
qed

text \<open>A docker daemon with one container in two networks, and one whose lists fail.\<close>

definition demo_container :: docker_container where
  "demo_container = \<lparr>dk_Running = True, dk_Labels = [(''com.docker.swarm.service.id'', ''s1'')], dk_Name = ''/web.1'',
     dk_SandboxKey = ''ns1'',
     dk_Networks = [(''host'', \<lparr>de_NetworkID = ''h'', de_IPAddress = [], de_IPAMConfig = None, de_DNSNames = [], de_EndpointID = []\<rparr>),
       (''net'', \<lparr>de_NetworkID = ''n1'', de_IPAddress = dotted [10, 0, 1, 5], de_IPAMConfig = None,
          de_DNSNames = [''web''], de_EndpointID = ''e1''\<rparr>)]\<rparr>"

definition demo_docker :: "ref_world docker" where
  "demo_docker = \<lparr>Hostname = (\<lambda>w. (Inr ''node1'', w)), NewClient = (\<lambda>w. (Inr (), w)), Info = (\<lambda>w. ((False, Inr True), w)),
     ContainerList = (\<lambda>w. (Inr [''c1''], w)), ContainerInspect = (\<lambda>i w. (Inr demo_container, w)),
     NetworkList = (\<lambda>w. (Inl (OtherError ''timeout''), w)),
     NetworkInspect = (\<lambda>i w. (Inr \<lparr>dn_Name = i, dn_Options = [], dn_Subnets = []\<rparr>, w)),
     ServiceList = (\<lambda>w. (Inr [], w)), ServiceInspect = (\<lambda>i w. (Inl (OtherError ''no such service''), w))\<rparr>"

definition demo_codecs :: codecs where
  "demo_codecs = \<lparr>json_container = (\<lambda>c. Some (c_ID c), \<lambda>s. None), json_service = (\<lambda>s. Some (dsi_ID s), \<lambda>s. None),
     json_network = (marshal ni_ops, unmarshal ni_ops)\<rparr>"

lemma attached_demo:
  "attached (dk_Networks demo_container) =
    [(\<lparr>de_NetworkID = ''n1'', de_IPAddress = dotted [10, 0, 1, 5], de_IPAMConfig = None,
       de_DNSNames = [''web''], de_EndpointID = ''e1''\<rparr>, v4_prefix @ [10, 0, 1, 5])]"
  by (simp add: demo_container_def ParseIP_dotted)

theorem container_networks_read_witness:
  "\<exists>c. fst (getContainerInfoFromDocker demo_docker ''c1'' ([], 0)) = Inr c \<and>
    map_get (c_DNSNames c) ''n1'' = Some [''web'']"
proof -
  obtain r w2 where run: "getContainerInfoFromDocker demo_docker ''c1'' ([], 0) = (r, w2)"
    by (cases "getContainerInfoFromDocker demo_docker ''c1'' ([], 0)")
  have "ContainerInspect demo_docker ''c1'' ([], 0) = (Inr demo_container, ([], 0))" "dk_Running demo_container"
    by (simp_all add: demo_docker_def demo_container_def)
  from container_networks_read [OF this _ run] show ?thesis
    unfolding attached_demo run by auto
qed

text \<open>
  C28: Every container that the node keeps in its own shard is well-formed: its addresses, DNS names and
  endpoints are of the same networks, and every address has 16 bytes.  A new \<open>data\<close> satisfies this,
  and \<open>Init\<close>, a synchronisation and every sequence of docker events keep it, whatever docker and
  etcd answer.
\<close>

theorem containers_wf_preserved:
  "(NewData D c w = (Inr d0, w0) \<longrightarrow> data_wf d0) \<and>
   (data_wf d \<longrightarrow> data_wf (data_of (data_Init E D J d w)) \<and> data_wf (data_of (syncContainers E D J d w)) \<and>
      data_wf (data_of (handleDockerEvents E D J evs d w)))"
  using NewData_wf [of D c w d0 w0] data_wf_Init [of d E D J w] data_wf_containers(2) [of d E D J w]
    data_wf_events [of d E D J evs w]
  by blast

theorem containers_wf_preserved_witness:
  "\<exists>d0 w0. NewData demo_docker (NewEtcdClient [] 5 ''/docker'') ([], 0) = (Inr d0, w0) \<and>
    data_wf (data_of (handleDockerEvents ref_env demo_docker demo_codecs
      [Some \<lparr>ev_Type = ''network'', ev_Action = ''connect'', ev_ActorID = ''n1'', ev_Attributes = [(''container'', ''c1'')]\<rparr>] d0 w0))"
proof -
  obtain d0 w0 where 0: "NewData demo_docker (NewEtcdClient [] 5 ''/docker'') ([], 0) = (Inr d0, w0)"
    by (simp add: NewData_def demo_docker_def Let_def)
  note P = containers_wf_preserved [where D = demo_docker and c = "NewEtcdClient [] 5 ''/docker''"
      and w = "([], 0)" and ?d0.0 = d0 and ?w0.0 = w0]
  have "data_wf d0" using P 0 by blast
  with containers_wf_preserved [where d = d0 and D = demo_docker and E = ref_env and w = w0] 0
  show ?thesis by blast
qed

text \<open>
  On a manager a list of networks that could not be read counts as an empty one: a synchronisation
  that reports no error then has deleted every network from etcd, announces the removal of every
  network the node knew, and has forgotten them.
\<close>

theorem failed_list_deletes_networks:
  assumes "etcd_contract E kv (=)" and "isManagerNode d" and "NetworkList D w = (Inl e, w1)"
    and "st_handlers (networks d) = all_handlers" and "store_keys (st_client (networks d)) (kv w1)"
    and "decodable (network_ops J) (st_client (networks d)) (kv w1)"
    and "syncNetworks E D J d w = (None, ns, d', w')"
  shows "st_data (networks d') = [] \<and> (\<forall>i. valid_id i \<longrightarrow> kv w' (GetKey (st_client (networks d)) [i]) = None) \<and>
    (st_data (networks d) \<noteq> [] \<longrightarrow> (\<exists>gone. ns = [DNetworks (NRemoved gone)] \<and> map fst gone = map_keys (st_data (networks d))))"
proof -
  obtain ns1 s' where S: "wo_Sync E (network_ops J) [] (networks d) w1 = (None, ns1, s', w')"
    and d': "d' = d\<lparr>networks := s'\<rparr>" and ns: "ns = map DNetworks ns1"
    using assms(2,3,7)
    by (auto simp: syncNetworks_def getNetworksInfosFromDocker_def or_nil_def in_networks_def split: prod.splits)
  from wo_Sync_nothing [OF assms(1,5,6,4) S] show ?thesis
    by (auto simp: d' ns comp_def)
qed

definition demo_data :: data where
  "demo_data = \<lparr>hostname = ''node1'', containers = NewShardedDistributedStore net_client ''node1'' all_handlers,
     dservices = NewWriteOnlyStore net_client all_handlers,
     networks = (NewWriteOnlyStore net_client all_handlers)\<lparr>st_data := [(''n1'', ni_item ''f1'')]\<rparr>, isManagerNode = True\<rparr>"

theorem failed_list_deletes_networks_witness:
  "\<exists>ns d' w'. syncNetworks ref_env demo_docker demo_codecs demo_data ([(''/networks/n1'', ''f1'')], 0) = (None, ns, d', w') \<and>
    ref_kv w' ''/networks/n1'' = None"
  (is "\<exists>ns d' w'. ?run = _ \<and> _")
proof -
  have ops: "network_ops demo_codecs = ni_ops"
    by (simp add: network_ops_def demo_codecs_def ni_ops_def)
  obtain ns s' w' where "wo_Sync ref_env ni_ops [] (networks demo_data) ([(''/networks/n1'', ''f1'')], 0) = (None, ns, s', w')"
    unfolding demo_data_def
    by (simp add: wo_Sync_def wo_sync_def WithConnection_def write_all_def loadData_def
        etcd_GetPrefix_def etcd_Delete_def ref_commit_def NewWriteOnlyStore_def map_put_def
        net_client_prefix parseItem_def trim_prefix_def trim_left_def ni_ops_def ni_item_def
        GetKey_single lo_Difference_def map_keys_def syncToInternalState_def case_prod_unfold Let_def)
  moreover have "getNetworksInfosFromDocker demo_docker w = (Inl (OtherError ''timeout''), w)" for w
    by (simp add: getNetworksInfosFromDocker_def demo_docker_def)
  moreover have "isManagerNode demo_data" by (simp add: demo_data_def)
  ultimately have run: "?run = (None, map DNetworks ns, demo_data\<lparr>networks := s'\<rparr>, w')"
    by (simp add: syncNetworks_def ops or_nil_def in_networks_def)
  have c: "st_client (networks demo_data) = net_client" by (simp add: demo_data_def NewWriteOnlyStore_def)
  have K: "store_keys (st_client (networks demo_data)) (ref_kv ([(''/networks/n1'', ''f1'')], 0))"
    unfolding c fst_conv key_n1 by (rule store_keys_single [OF valid_n1])
  have Dec: "decodable (network_ops demo_codecs) (st_client (networks demo_data)) (ref_kv ([(''/networks/n1'', ''f1'')], 0))"
    by (simp add: decodable_def ops ni_ops_def)
  have M: "isManagerNode demo_data" and H: "st_handlers (networks demo_data) = all_handlers"
    by (simp_all add: demo_data_def NewWriteOnlyStore_def)
  have L: "NetworkList demo_docker ([(''/networks/n1'', ''f1'')], 0) = (Inl (OtherError ''timeout''), ([(''/networks/n1'', ''f1'')], 0))"
    by (simp add: demo_docker_def)
  have "ref_kv w' (GetKey net_client [''n1'']) = None"
    using failed_list_deletes_networks [OF etcd_contract_ref M L H K Dec run, THEN conjunct2, THEN conjunct1,
        rule_format, OF valid_n1]
    unfolding c .
  then have "ref_kv w' ''/networks/n1'' = None" unfolding key_n1 .
  with run show ?thesis by (intro exI conjI)
qed

end
