(* ===== verification/Bridge.thy ===== *)
theory Bridge
  imports Networking
begin

text \<open>
  \<open>plugin/pkg/bridge/bridge.go\<close> and \<open>veth.go\<close>: the bridge of a network on a node, its address, route
  and iptables rules, and the veth pairs attached to it.  The requests beyond those of \<open>kernel\<close> are
  the fields of \<open>netlink\<close>.  A link is identified by its name (the code holds its index).
\<close>

section \<open>The kernel interface\<close>

text \<open>A link as \<open>LinkList\<close> returns it; \<open>bl_Peer\<close> is the peer of a veth.\<close>

record blink =
  bl_Name :: string
  bl_Index :: int
  bl_MasterIndex :: int
  bl_Peer :: "string option"

record route =
  rt_Dst :: "ipnet option"
  rt_Src :: ip
  rt_Link :: string

text \<open>The message of \<open>patchBridge\<close>: the link, its state and the attributes of a bridge.\<close>

record link_request =
  rq_Link :: link
  rq_Up :: bool
  rq_Kind :: string
  rq_AgeingTime :: u32
  rq_GroupFwdMask :: "16 word"

text \<open>\<open>RouteAdd\<close> fails with the text of its error.\<close>

record 'w netlink =
  nl_kernel :: "'w kernel"
  LinkList :: "('w, blink list) io"
  LinkDel :: "string \<Rightarrow> ('w, unit) io"
  LinkAddVeth :: "string \<Rightarrow> string \<Rightarrow> string \<Rightarrow> int \<Rightarrow> ('w, unit) io"
  LinkSetMaster :: "link \<Rightarrow> link \<Rightarrow> ('w, unit) io"
  RouteAdd :: "route \<Rightarrow> 'w \<Rightarrow> string option \<times> 'w"
  RouteReplace :: "route \<Rightarrow> ('w, unit) io"
  RouteDel :: "route \<Rightarrow> ('w, unit) io"
  nl_Execute :: "link_request \<Rightarrow> ('w, unit) io"
  NewRandom :: "'w \<Rightarrow> string \<times> 'w"
  ParseMAC :: "string \<Rightarrow> string option"

section \<open>The bridge\<close>

record bridge =
  br_interfaceName :: string
  br_rules :: "IptablesRule list"
  br_network :: FlannelNetworkInfo
  br_route :: "route option"   \<comment> \<open>\<open>None\<close> is the zero value\<close>

definition getBridgeInterfaceName :: "string \<Rightarrow> string" where
  "getBridgeInterfaceName flannelNetworkID = GetInterfaceName ''fl'' ''-'' flannelNetworkID"

text \<open>\<open>String\<close> of a nil network.\<close>

definition subnet_String :: "ipnet option \<Rightarrow> string" where
  "subnet_String n = (case n of None \<Rightarrow> ''<nil>'' | Some s \<Rightarrow> ipnet_String s)"

definition getIptablesRules :: "string \<Rightarrow> ipnet option \<Rightarrow> IptablesRule list" where
  "getIptablesRules i hostSubnet =
    [\<lparr>Table = ''nat'', Chain = ''POSTROUTING'',
       RuleSpec = [''-s'', subnet_String hostSubnet, ''!'', ''-o'', i, ''-j'', ''MASQUERADE'']\<rparr>,
     \<lparr>Table = ''nat'', Chain = ''DOCKER'', RuleSpec = [''-i'', i, ''-j'', ''RETURN'']\<rparr>,
     \<lparr>Table = ''filter'', Chain = ''FORWARD'', RuleSpec = [''-i'', i, ''-o'', i, ''-j'', ''ACCEPT'']\<rparr>,
     \<lparr>Table = ''filter'', Chain = ''FORWARD'', RuleSpec = [''-i'', i, ''!'', ''-o'', i, ''-j'', ''ACCEPT'']\<rparr>,
     \<lparr>Table = ''filter'', Chain = ''FORWARD'', RuleSpec = [''-o'', i, ''-j'', ''DOCKER'']\<rparr>,
     \<lparr>Table = ''filter'', Chain = ''FORWARD'',
       RuleSpec = [''-o'', i, ''-m'', ''conntrack'', ''--ctstate'', ''RELATED,ESTABLISHED'', ''-j'', ''ACCEPT'']\<rparr>,
     \<lparr>Table = ''filter'', Chain = ''DOCKER-ISOLATION-STAGE-1'',
       RuleSpec = [''-i'', i, ''!'', ''-o'', i, ''-j'', ''DOCKER-ISOLATION-STAGE-2'']\<rparr>,
     \<lparr>Table = ''filter'', Chain = ''DOCKER-ISOLATION-STAGE-2'', RuleSpec = [''-o'', i, ''-j'', ''DROP'']\<rparr>]"

definition NewBridgeInterface :: "FlannelNetworkInfo \<Rightarrow> bridge" where
  "NewBridgeInterface network =
     (let interfaceName = getBridgeInterfaceName (fi_FlannelID network)
      in \<lparr>br_interfaceName = interfaceName, br_rules = getIptablesRules interfaceName (fi_HostSubnet network),
          br_network = network, br_route = None\<rparr>)"

definition getRoute :: "FlannelNetworkInfo \<Rightarrow> link \<Rightarrow> route" where
  "getRoute network l = \<lparr>rt_Dst = fi_HostSubnet network, rt_Src = fi_LocalGateway network, rt_Link = link_Name l\<rparr>"

definition Hydrate :: "'w netlink \<Rightarrow> FlannelNetworkInfo \<Rightarrow> ('w, bridge) io" where
  "Hydrate N network w =
     (let b = NewBridgeInterface network
      in case LinkByName (nl_kernel N) (br_interfaceName b) w of
           (Inl text, w1) \<Rightarrow> (Inl (OtherError text), w1)
         | (Inr l, w1) \<Rightarrow> (Inr (b\<lparr>br_route := Some (getRoute network l)\<rparr>), w1))"

text \<open>
  The route is added, or replaced when there is one; other errors of the request are dropped.
\<close>

definition set_route :: "'w netlink \<Rightarrow> route \<Rightarrow> ('w, unit) io" where
  "set_route N r w = (case RouteAdd N r w of
      (None, w1) \<Rightarrow> (Inr (), w1)
    | (Some text, w1) \<Rightarrow> if str_contains text ''file exists'' then RouteReplace N r w1 else (Inr (), w1))"

definition patchBridge :: "'w netlink \<Rightarrow> link \<Rightarrow> ('w, unit) io" where
  "patchBridge N l = nl_Execute N \<lparr>rq_Link = l, rq_Up = True, rq_Kind = link_Type l, rq_AgeingTime = 0,
     rq_GroupFwdMask = 0xfff8\<rparr>"

text \<open>\<open>Ensure\<close> dereferences the host subnet.\<close>

definition bridge_Ensure :: "'w netlink \<Rightarrow> bridge \<Rightarrow> 'w \<Rightarrow> err option \<times> bridge \<times> 'w" where
  "bridge_Ensure N b w =
     (case EnsureInterface (nl_kernel N) (br_interfaceName b) ''bridge'' (fi_MTU (br_network b)) True w of
        (Inl e, w1) \<Rightarrow> (Some e, b, w1)
      | (Inr l, w1) \<Rightarrow>
          (case fi_HostSubnet (br_network b) of
             None \<Rightarrow> (Some (Panic ''nil host subnet''), b, w1)
           | Some hostSubnet \<Rightarrow>
               (let (ones, _) = mask_Size (net_mask hostSubnet);
                    addr = ip_String (fi_LocalGateway (br_network b)) @ ''/'' @ format_dec ones
                in case ReplaceIPsOfInterface (nl_kernel N) l [addr] w1 of
                     (Inl e, w2) \<Rightarrow> (Some e, b, w2)
                   | (Inr _, w2) \<Rightarrow>
                       (case patchBridge N l w2 of
                          (Inl e, w3) \<Rightarrow> (Some e, b, w3)
                        | (Inr _, w3) \<Rightarrow>
                            (let r = getRoute (br_network b) l
                             in case set_route N r w3 of
                                  (Inl e, w4) \<Rightarrow> (Some e, b, w4)
                                | (Inr _, w4) \<Rightarrow>
                                    (let b' = b\<lparr>br_route := Some r\<rparr>
                                     in case ApplyIpTablesRules (nl_kernel N) (br_rules b) ''create'' w4 of
                                          (Inl e, w5) \<Rightarrow> (Some e, b', w5)
                                        | (Inr _, w5) \<Rightarrow> (None, b', w5)))))))"

definition zero_route :: route where
  "zero_route = \<lparr>rt_Dst = None, rt_Src = [], rt_Link = []\<rparr>"

definition bridge_Delete :: "'w netlink \<Rightarrow> bridge \<Rightarrow> ('w, unit) io" where
  "bridge_Delete N b w = (case LinkByName (nl_kernel N) (br_interfaceName b) w of
      (Inl text, w1) \<Rightarrow> (Inl (OtherError text), w1)
    | (Inr l, w1) \<Rightarrow>
        (case ApplyIpTablesRules (nl_kernel N) (br_rules b) ''delete'' w1 of
           (Inl e, w2) \<Rightarrow> (Inl e, w2)
         | (Inr _, w2) \<Rightarrow>
             (case RouteDel N (case br_route b of None \<Rightarrow> zero_route | Some r \<Rightarrow> r) w2 of
                (Inl e, w3) \<Rightarrow> (Inl e, w3)
              | (Inr _, w3) \<Rightarrow> LinkDel N (link_Name l) w3)))"

section \<open>Stale interfaces\<close>

text \<open>The rules of a chain that mention the interface.\<close>

fun delete_mentions :: "'w kernel \<Rightarrow> string \<Rightarrow> string \<Rightarrow> string \<Rightarrow> string list \<Rightarrow> ('w, unit) io" where
  "delete_mentions K i t c [] w = (Inr (), w)"
| "delete_mentions K i t c (rule # rules) w =
     (if str_contains rule i
      then (let ws = go_fields rule; ws' = (if length ws > 2 \<and> hd ws = ''-A'' then drop 2 ws else ws)
            in case iptables_Delete K t c ws' w of
                 (Inl e, w1) \<Rightarrow> (Inl e, w1)
               | (Inr _, w1) \<Rightarrow> delete_mentions K i t c rules w1)
      else delete_mentions K i t c rules w)"

fun delete_in_chains :: "'w kernel \<Rightarrow> string \<Rightarrow> (string \<times> string) list \<Rightarrow> ('w, unit) io" where
  "delete_in_chains K i [] w = (Inr (), w)"
| "delete_in_chains K i ((t, c) # tcs) w = (case iptables_List K t c w of
      (Inl e, w1) \<Rightarrow> (Inl e, w1)
    | (Inr rules, w1) \<Rightarrow>
        (case delete_mentions K i t c rules w1 of
           (Inl e, w2) \<Rightarrow> (Inl e, w2)
         | (Inr _, w2) \<Rightarrow> delete_in_chains K i tcs w2))"

text \<open>The order of the two tables is that of a map.\<close>

definition tableChains :: "(string \<times> string) list" where
  "tableChains = [(''nat'', ''POSTROUTING''), (''nat'', ''DOCKER''), (''filter'', ''FORWARD''),
     (''filter'', ''DOCKER-ISOLATION-STAGE-1''), (''filter'', ''DOCKER-ISOLATION-STAGE-2'')]"

definition deleteIptablesRules :: "'w kernel \<Rightarrow> string \<Rightarrow> ('w, unit) io" where
  "deleteIptablesRules K i w = (case iptables_New K w of
      (Inl e, w1) \<Rightarrow> (Inl e, w1)
    | (Inr _, w1) \<Rightarrow> delete_in_chains K i tableChains w1)"

text \<open>The links attached to a stale bridge; errors are logged.\<close>

fun delete_veths :: "'w netlink \<Rightarrow> blink \<Rightarrow> blink list \<Rightarrow> 'w \<Rightarrow> 'w" where
  "delete_veths N l [] w = w"
| "delete_veths N l (v # vs) w =
     (if bl_MasterIndex v = bl_Index l
      then (case bl_Peer v of
              None \<Rightarrow> delete_veths N l vs w
            | Some peer \<Rightarrow>
                (case LinkByName (nl_kernel N) peer w of
                   (Inl _, w1) \<Rightarrow> delete_veths N l vs w1
                 | (Inr p, w1) \<Rightarrow>
                     (case LinkDel N (bl_Name v) w1 of (_, w2) \<Rightarrow>
                       (case LinkDel N (link_Name p) w2 of (_, w3) \<Rightarrow> delete_veths N l vs w3))))
      else delete_veths N l vs w)"

fun delete_stale_links :: "'w netlink \<Rightarrow> string list \<Rightarrow> blink list \<Rightarrow> blink list \<Rightarrow> 'w \<Rightarrow> 'w" where
  "delete_stale_links N valid links [] w = w"
| "delete_stale_links N valid links (l # ls) w =
     (if prefix ''fl-'' (bl_Name l) \<and> \<not> lo_Some valid [bl_Name l]
      then (case LinkDel N (bl_Name l) (delete_veths N l links w) of (_, w1) \<Rightarrow>
             (case deleteIptablesRules (nl_kernel N) (bl_Name l) w1 of (_, w2) \<Rightarrow>
               delete_stale_links N valid links ls w2))
      else delete_stale_links N valid links ls w)"

definition CleanUpStaleInterfaces :: "'w netlink \<Rightarrow> string list \<Rightarrow> ('w, unit) io" where
  "CleanUpStaleInterfaces N validFlannelNetworkIDs w = (case LinkList N w of
      (Inl e, w1) \<Rightarrow> (Inl e, w1)
    | (Inr links, w1) \<Rightarrow>
        (Inr (), delete_stale_links N (map getBridgeInterfaceName validFlannelNetworkIDs) links links w1))"

section \<open>Veth pairs\<close>

record vethPair =
  insideName :: string
  outsideName :: string

definition HydrateVethPair :: "string \<Rightarrow> string \<Rightarrow> vethPair" where
  "HydrateVethPair inside outside = \<lparr>insideName = inside, outsideName = outside\<rparr>"

definition randomVethName :: "'w netlink \<Rightarrow> 'w \<Rightarrow> string \<times> 'w" where
  "randomVethName N w = (case NewRandom N w of (uuid, w1) \<Rightarrow>
     (''veth'' @ take 8 (filter (\<lambda>c. c \<noteq> CHR ''-'') uuid), w1))"

definition attachInterfaceToBridge :: "'w netlink \<Rightarrow> bridge \<Rightarrow> string \<Rightarrow> ('w, unit) io" where
  "attachInterfaceToBridge N b interfaceName w =
     (case LinkByName (nl_kernel N) (br_interfaceName b) w of
        (Inl text, w1) \<Rightarrow> (case LinkList N w1 of (_, w2) \<Rightarrow> (Inl (OtherError text), w2))
      | (Inr br, w1) \<Rightarrow>
          (case LinkByName (nl_kernel N) interfaceName w1 of
             (Inl text, w2) \<Rightarrow> (Inl (OtherError text), w2)
           | (Inr iface, w2) \<Rightarrow>
               (case LinkSetMaster N iface br w2 of
                  (Inl e, w3) \<Rightarrow> (Inl e, w3)
                | (Inr _, w3) \<Rightarrow> LinkSetUp (nl_kernel N) iface w3)))"

definition CreateAttachedVethPair :: "'w netlink \<Rightarrow> bridge \<Rightarrow> string \<Rightarrow> ('w, vethPair) io" where
  "CreateAttachedVethPair N b macAddress w =
     (case randomVethName N w of (inside, w1) \<Rightarrow>
       (case randomVethName N w1 of (outside, w2) \<Rightarrow>
         (case ParseMAC N macAddress of
            None \<Rightarrow> (Inl (OtherError ''invalid MAC address''), w2)
          | Some mac \<Rightarrow>
              (case LinkAddVeth N inside outside mac (fi_MTU (br_network b)) w2 of
                 (Inl e, w3) \<Rightarrow> (Inl e, w3)
               | (Inr _, w3) \<Rightarrow>
                   (case attachInterfaceToBridge N b outside w3 of
                      (Inl e, w4) \<Rightarrow> (case LinkDel N inside w4 of (_, w5) \<Rightarrow> (Inl e, w5))
                    | (Inr _, w4) \<Rightarrow> (Inr \<lparr>insideName = inside, outsideName = outside\<rparr>, w4))))))"

definition veth_Delete :: "'w netlink \<Rightarrow> vethPair \<Rightarrow> ('w, unit) io" where
  "veth_Delete N v w = (case LinkByName (nl_kernel N) (outsideName v) w of
      (Inl text, w1) \<Rightarrow> (Inl (OtherError text), w1)
    | (Inr l, w1) \<Rightarrow> LinkDel N (link_Name l) w1)"

section \<open>What the requests do\<close>

definition bridge_contract :: "'w netlink \<Rightarrow> ('w \<Rightarrow> kstate) \<Rightarrow> bool" where
  "bridge_contract N ks \<longleftrightarrow> kernel_contract (nl_kernel N) ks \<and>
     (\<forall>r. rq_Up r \<longrightarrow> does ks (nl_Execute N r) (\<lambda>s _. k_links s (link_Name (rq_Link r)) \<noteq> None)
        (set_link (link_Name (rq_Link r)) (\<lambda>x. x\<lparr>link_Up := True\<rparr>))) \<and>
     (\<forall>r w. ks (snd (RouteAdd N r w)) = ks w) \<and>
     (\<forall>r. does ks (RouteReplace N r) (\<lambda>_ _. True) (\<lambda>s. s)) \<and>
     (\<forall>r. does ks (RouteDel N r) (\<lambda>_ _. True) (\<lambda>s. s)) \<and>
     (\<forall>n w. k_rules (ks (snd (LinkDel N n w))) = k_rules (ks w)) \<and>
     (\<forall>n w. fst (LinkDel N n w) = Inr () \<longrightarrow> k_links (ks (snd (LinkDel N n w))) n = None)"

text \<open>The reference kernel with these requests: routes are not recorded, and no veth is attached.\<close>

definition ref_netlink :: "ref_kernel_state netlink" where
  "ref_netlink = \<lparr>nl_kernel = ref_kernel, LinkList = (\<lambda>w. (Inr [], w)),
     LinkDel = (\<lambda>n. guarded (\<lambda>w. map_has (rk_links w) n) (\<lambda>w. w\<lparr>rk_links := map_del n (rk_links w)\<rparr>)),
     LinkAddVeth = (\<lambda>i out mac mtu. guarded (\<lambda>w. \<not> map_has (rk_links w) i \<and> \<not> map_has (rk_links w) out)
       (\<lambda>w. w\<lparr>rk_links := map_put i \<lparr>link_Name = i, link_Type = ''veth'', link_MTU = mtu, link_Up = False\<rparr>
          (map_put out \<lparr>link_Name = out, link_Type = ''veth'', link_MTU = mtu, link_Up = False\<rparr> (rk_links w))\<rparr>)),
     LinkSetMaster = (\<lambda>l m. guarded (\<lambda>_. True) id), RouteAdd = (\<lambda>r w. (None, w)),
     RouteReplace = (\<lambda>r. guarded (\<lambda>_. True) id), RouteDel = (\<lambda>r. guarded (\<lambda>_. True) id),
     nl_Execute = (\<lambda>r. rk_set_link (rq_Link r) (\<lambda>x. x\<lparr>link_Up := True\<rparr>)), NewRandom = (\<lambda>w. (''00000000'', w)),
     ParseMAC = Some\<rparr>"

section \<open>Lemmas\<close>

lemma bridge_kernel: "bridge_contract N ks \<Longrightarrow> kernel_contract (nl_kernel N) ks"
  by (simp add: bridge_contract_def)

lemma does_patchBridge: "bridge_contract N ks \<Longrightarrow>
    does ks (patchBridge N l) (\<lambda>s _. k_links s (link_Name l) \<noteq> None) (set_link (link_Name l) (\<lambda>x. x\<lparr>link_Up := True\<rparr>))"
proof -
  assume "bridge_contract N ks"
  then have "rq_Up r \<Longrightarrow> does ks (nl_Execute N r) (\<lambda>s _. k_links s (link_Name (rq_Link r)) \<noteq> None)
      (set_link (link_Name (rq_Link r)) (\<lambda>x. x\<lparr>link_Up := True\<rparr>))" for r
    unfolding bridge_contract_def by blast
  from this [of "\<lparr>rq_Link = l, rq_Up = True, rq_Kind = link_Type l, rq_AgeingTime = 0, rq_GroupFwdMask = 0xfff8\<rparr>"]
  show ?thesis by (simp add: patchBridge_def)
qed

lemma does_RouteReplace: "bridge_contract N ks \<Longrightarrow> does ks (RouteReplace N r) (\<lambda>_ _. True) (\<lambda>s. s)"
  by (simp add: bridge_contract_def)

lemma does_RouteDel: "bridge_contract N ks \<Longrightarrow> does ks (RouteDel N r) (\<lambda>_ _. True) (\<lambda>s. s)"
  by (simp add: bridge_contract_def)

lemma RouteAdd_ks: "bridge_contract N ks \<Longrightarrow> RouteAdd N r w = (e, w') \<Longrightarrow> ks w' = ks w"
  unfolding bridge_contract_def by (metis snd_conv)

lemma LinkDel_ks: "bridge_contract N ks \<Longrightarrow> LinkDel N n w = (Inr (), w') \<Longrightarrow>
    k_rules (ks w') = k_rules (ks w) \<and> k_links (ks w') n = None"
  unfolding bridge_contract_def by (metis fst_conv snd_conv)

lemma bridge_contract_ref: "bridge_contract ref_netlink ref_ks"
proof -
  have "does ref_ks (nl_Execute ref_netlink r) (\<lambda>s _. k_links s (link_Name (rq_Link r)) \<noteq> None)
      (set_link (link_Name (rq_Link r)) (\<lambda>x. x\<lparr>link_Up := True\<rparr>))" for r
    using does_LinkSetUp [OF kernel_contract_ref, of "rq_Link r"] by (simp add: ref_netlink_def)
  moreover have "does ref_ks (guarded (\<lambda>_. True) id) (\<lambda>_ _. True) (\<lambda>s. s)"
    by (rule does_guarded) auto
  ultimately show ?thesis
    unfolding bridge_contract_def using kernel_contract_ref
    by (auto simp: ref_netlink_def guarded_def ref_ks_def)
qed

lemma set_route_ks:
  assumes "bridge_contract N ks" and "set_route N r w = (Inr (), w')"
  shows "ks w' = ks w"
proof -
  obtain e w1 where 1: "RouteAdd N r w = (e, w1)" by fastforce
  show ?thesis
    using assms(2) 1 RouteAdd_ks [OF assms(1) 1] does_Inr [OF does_RouteReplace [OF assms(1)], of r w1 "()" w']
    by (auto simp: set_route_def split: option.splits if_splits)
qed

lemma GetInterfaceName_take: "GetInterfaceName p s n = take 15 (p @ s @ n)"
  by (simp add: GetInterfaceName_def maxInterfaceNameLength_def Let_def)

lemma parse_ref_addr_len:
  assumes "length x = 4" and "n \<le> 32"
  shows "ParseAddr ref_kernel (dotted x @ ''/'' @ format_dec n) = Some \<lparr>net_ip = v4_prefix @ x, net_mask = cidr_mask n 4\<rparr>"
proof -
  let ?s = "dotted x @ ''/'' @ format_dec n"
  have "takeWhile (\<lambda>c. c \<noteq> CHR ''/'') ?s = dotted x" "dropWhile (\<lambda>c. c \<noteq> CHR ''/'') ?s = ''/'' @ format_dec n"
    using slash_not_in_dotted [of x] by (auto simp: takeWhile_append dropWhile_append)
  then have "ParseCIDR ?s =
      Some (v4_prefix @ x, \<lparr>net_ip = ip_and x (cidr_mask n 4), net_mask = cidr_mask n 4\<rparr>)"
    using assms by (simp add: ParseCIDR_def Let_def parse_v4_dotted parse_dec_format_dec)
  then show ?thesis by (simp add: ref_kernel_def)
qed

section \<open>Properties\<close>

text \<open>
  C40: The name of a bridge has at most 15 characters, the bound of the kernel; networks whose IDs have
  at most 12 characters have different bridges, but only the first 12 characters of an ID count: two
  networks that agree on them share one bridge.
\<close>

theorem bridge_names_bound:
  "length (getBridgeInterfaceName a) \<le> 15 \<and>
   (length a \<le> 12 \<longrightarrow> length b \<le> 12 \<longrightarrow> getBridgeInterfaceName a = getBridgeInterfaceName b \<longrightarrow> a = b) \<and>
   (getBridgeInterfaceName a = getBridgeInterfaceName b \<longleftrightarrow> take 12 a = take 12 b)"
proof -
  have "getBridgeInterfaceName x = ''fl-'' @ take 12 x" for x
    by (simp add: getBridgeInterfaceName_def GetInterfaceName_take)
  then show ?thesis by simp
qed

theorem bridge_names_bound_witness:
  "getBridgeInterfaceName ''production-web-1'' = getBridgeInterfaceName ''production-web-2''"
  using bridge_names_bound [of "''production-web-1''" "''production-web-2''"] by simp

text \<open>
  C14: When \<open>Ensure\<close> of a bridge succeeds the bridge is up with the MTU of the network, has exactly the
  gateway address of the node, and its eight iptables rules are there beside all that were; \<open>Delete\<close>
  afterwards takes exactly these rules away and the bridge with them.
\<close>

theorem bridge_Ensure_Delete:
  assumes "bridge_contract N ks" and "fi_HostSubnet info = Some subnet"
    and "ParseAddr (nl_kernel N) (ip_String (fi_LocalGateway info) @ ''/'' @ format_dec (fst (mask_Size (net_mask subnet)))) = Some a"
    and "bridge_Ensure N (NewBridgeInterface info) w = (None, b, w1)"
  shows "k_addrs (ks w1) (getBridgeInterfaceName (fi_FlannelID info)) = {ipnet_String a} \<and>
    (\<exists>l. k_links (ks w1) (getBridgeInterfaceName (fi_FlannelID info)) = Some l \<and> link_Type l = ''bridge'' \<and>
       link_MTU l = fi_MTU info \<and> link_Up l) \<and>
    k_rules (ks w1) = k_rules (ks w) \<union> rule_of ` set (br_rules b) \<and>
    (\<forall>w2. bridge_Delete N b w1 = (Inr (), w2) \<longrightarrow>
       k_rules (ks w2) = k_rules (ks w) - rule_of ` set (br_rules b) \<and>
       k_links (ks w2) (getBridgeInterfaceName (fi_FlannelID info)) = None)"
proof -
  let ?K = "nl_kernel N" and ?n = "getBridgeInterfaceName (fi_FlannelID info)"
  let ?addr = "ip_String (fi_LocalGateway info) @ ''/'' @ format_dec (fst (mask_Size (net_mask subnet)))"
  note K = bridge_kernel [OF assms(1)]
  have N: "br_interfaceName (NewBridgeInterface info) = ?n" "br_network (NewBridgeInterface info) = info"
    by (simp_all add: NewBridgeInterface_def Let_def)
  obtain l v1 v2 v3 v4 where 1: "EnsureInterface ?K ?n ''bridge'' (fi_MTU info) True w = (Inr l, v1)"
    "ReplaceIPsOfInterface ?K l [?addr] v1 = (Inr (), v2)" "patchBridge N l v2 = (Inr (), v3)"
    "set_route N (getRoute info l) v3 = (Inr (), v4)"
    "ApplyIpTablesRules ?K (br_rules (NewBridgeInterface info)) ''create'' v4 = (Inr (), w1)"
    and b: "b = (NewBridgeInterface info)\<lparr>br_route := Some (getRoute info l)\<rparr>"
    using assms(4) unfolding bridge_Ensure_def N assms(2)
    by (auto simp: case_prod_unfold Let_def split: sum.splits prod.splits)
       (metis prod.collapse)+
  have rules: "br_rules b = br_rules (NewBridgeInterface info)" "br_interfaceName b = ?n" using N by (simp_all add: b)
  note E = EnsureInterface_exact [OF K 1(1)]
  have suffix: "with_suffix ?addr = ?addr"
    by (simp add: with_suffix_def str_contains_char)
  have R: "ks v2 = set_addrs ?n (\<lambda>_. {ipnet_String a}) (ks v1)"
    using ReplaceIPsOfInterface_exact [OF K 1(2)] E assms(3) by (simp add: suffix [simplified])
  have P: "ks v3 = set_link ?n (\<lambda>x. x\<lparr>link_Up := True\<rparr>) (ks v2)"
    using does_Inr [OF does_patchBridge [OF assms(1)] 1(3)] E by simp
  have S: "ks v4 = ks v3" by (rule set_route_ks [OF assms(1) 1(4)])
  have A: "ks w1 = (ks v4)\<lparr>k_rules := k_rules (ks v4) \<union> rule_of ` set (br_rules b)\<rparr>"
    unfolding rules by (rule ApplyIpTablesRules_ks(1) [OF K 1(5) refl])
  have old: "k_rules (ks v1) = k_rules (ks w)"
    using E [THEN conjunct2, THEN conjunct2, THEN conjunct2] unfolding only_link_def
    by (metis kstate.select_convs(3) kstate.surjective kstate.update_convs(1))
  have k1: "k_rules (ks w1) = k_rules (ks w) \<union> rule_of ` set (br_rules b)"
    by (simp add: A S P R set_addrs_def set_link_def old)
  have D: "k_rules (ks w2) = k_rules (ks w) - rule_of ` set (br_rules b) \<and> k_links (ks w2) ?n = None"
    if "bridge_Delete N b w1 = (Inr (), w2)" for w2
  proof -
    obtain r1 u1 where 2: "LinkByName ?K ?n w1 = (r1, u1)" by fastforce
    obtain r2 u2 where 3: "ApplyIpTablesRules ?K (br_rules b) ''delete'' u1 = (r2, u2)" by fastforce
    obtain r3 u3 where 4: "RouteDel N (getRoute info l) u2 = (r3, u3)" by fastforce
    have route: "br_route b = Some (getRoute info l)" by (simp add: b)
    note run = that [unfolded bridge_Delete_def rules(2) route 2 option.case prod.case]
    obtain l' where r1: "r1 = Inr l'" using run by (cases r1) auto
    have r2: "r2 = Inr ()" using run by (cases r2) (auto simp: r1 3)
    have r3: "r3 = Inr ()" using run by (cases r3) (auto simp: r1 r2 3 4)
    have 5: "LinkDel N (link_Name l') u3 = (Inr (), w2)" using run by (simp add: r1 r2 r3 3 4)
    note 2 = 2 [unfolded r1] and 3 = 3 [unfolded r2] and 4 = 4 [unfolded r3]
    have l': "link_Name l' = ?n" "ks u1 = ks w1" using LinkByName_ks [OF K 2] by auto
    have "ks u2 = (ks u1)\<lparr>k_rules := k_rules (ks u1) - rule_of ` set (br_rules b)\<rparr>"
      by (rule ApplyIpTablesRules_ks(2) [OF K 3 refl])
    moreover have "ks u3 = ks u2" using does_Inr [OF does_RouteDel [OF assms(1)] 4] by simp
    ultimately show ?thesis using LinkDel_ks [OF assms(1) 5] k1 l' by auto
  qed
  have "k_addrs (ks w1) ?n = {ipnet_String a}" by (simp add: A S P R set_addrs_def set_link_def)
  moreover have "k_links (ks w1) ?n = Some (l\<lparr>link_MTU := fi_MTU info, link_Up := True\<rparr>)"
    using E by (simp add: A S P R set_addrs_def set_link_def)
  ultimately show ?thesis using E k1 D by auto
qed

text \<open>A network of a node, and its bridge.\<close>

definition demo_info :: FlannelNetworkInfo where
  "demo_info = \<lparr>fi_FlannelID = ''net1'', fi_MTU = 1450, fi_Network = None,
     fi_HostSubnet = Some \<lparr>net_ip = [10, 1, 0, 0], net_mask = [255, 255, 255, 0]\<rparr>, fi_LocalGateway = [10, 1, 0, 1]\<rparr>"

lemma mask_Size_24: "mask_Size [255, 255, 255, 0] = (24, 32)"
  by code_simp

definition demo_bridge :: ref_kernel_state where
  "demo_bridge = \<lparr>rk_links = [(''fl-net1'', \<lparr>link_Name = ''fl-net1'', link_Type = ''bridge'', link_MTU = 1450, link_Up = True\<rparr>)],
     rk_addrs = [], rk_rules = [(''nat'', ''POSTROUTING'', [''-j'', ''ACCEPT''])], rk_ipvs = []\<rparr>"

lemma apply_ref_create: "\<exists>w'. apply_rules (AppendUnique ref_kernel) rules w = (Inr (), w')"
  by (induction rules arbitrary: w) (auto simp: guarded_def)

theorem bridge_Ensure_Delete_witness:
  "\<exists>b w1. bridge_Ensure ref_netlink (NewBridgeInterface demo_info) demo_bridge = (None, b, w1) \<and>
    k_addrs (ref_ks w1) (getBridgeInterfaceName ''net1'') = {ipnet_String \<lparr>net_ip = v4_prefix @ [10, 1, 0, 1], net_mask = cidr_mask 24 4\<rparr>}"
proof -
  let ?l = "\<lparr>link_Name = ''fl-net1'', link_Type = ''bridge'', link_MTU = 1450, link_Up = True\<rparr>"
  let ?addr = "dotted [10, 1, 0, 1] @ ''/'' @ format_dec 24"
  have n: "getBridgeInterfaceName ''net1'' = ''fl-net1''"
    by (simp add: getBridgeInterfaceName_def GetInterfaceName_take)
  have E: "EnsureInterface ref_kernel ''fl-net1'' ''bridge'' 1450 True demo_bridge = (Inr ?l, demo_bridge)"
    by (simp add: EnsureInterface_def interfaceExists_def adjust_interface_def demo_bridge_def)
  have p: "ParseAddr ref_kernel ?addr = Some \<lparr>net_ip = v4_prefix @ [10, 1, 0, 1], net_mask = cidr_mask 24 4\<rparr>"
    by (rule parse_ref_addr_len) simp_all
  have s: "with_suffix ?addr = ?addr" by (simp add: with_suffix_def str_contains_char)
  obtain w2 where R: "ReplaceIPsOfInterface ref_kernel ?l [?addr] demo_bridge = (Inr (), w2)" and l2: "rk_links w2 = rk_links demo_bridge"
    by (auto simp: ReplaceIPsOfInterface_def s [simplified] p [simplified] guarded_def rk_set_addrs_def rk_list_def demo_bridge_def
        addressesEqual_def List.insert_def)
  obtain w3 where P: "patchBridge ref_netlink ?l w2 = (Inr (), w3)"
    using l2 by (auto simp: patchBridge_def ref_netlink_def rk_set_link_def guarded_def demo_bridge_def)
  have S: "set_route ref_netlink r w3 = (Inr (), w3)" for r by (simp add: set_route_def ref_netlink_def)
  obtain w4 where A: "ApplyIpTablesRules ref_kernel (br_rules (NewBridgeInterface demo_info)) ''create'' w3 = (Inr (), w4)"
    using apply_ref_create [of "br_rules (NewBridgeInterface demo_info)" w3] by (auto simp: ApplyIpTablesRules_def guarded_def)
  have k: "nl_kernel ref_netlink = ref_kernel" by (simp add: ref_netlink_def)
  have B: "br_interfaceName (NewBridgeInterface demo_info) = ''fl-net1''" "br_network (NewBridgeInterface demo_info) = demo_info"
    using n by (simp_all add: NewBridgeInterface_def demo_info_def Let_def)
  have addr: "ip_String (fi_LocalGateway demo_info) @ ''/'' @ format_dec (fst (mask_Size [255, 255, 255, 0])) = ?addr"
    by (simp add: demo_info_def mask_Size_24 ip_String_def)
  have sub: "fi_HostSubnet demo_info = Some \<lparr>net_ip = [10, 1, 0, 0], net_mask = [255, 255, 255, 0]\<rparr>" "fi_MTU demo_info = 1450"
    by (simp_all add: demo_info_def)
  obtain b where run: "bridge_Ensure ref_netlink (NewBridgeInterface demo_info) demo_bridge = (None, b, w4)"
    unfolding bridge_Ensure_def B sub k
    using E R P S A addr by (auto simp: Let_def case_prod_unfold)
  have "k_addrs (ref_ks w4) (getBridgeInterfaceName (fi_FlannelID demo_info)) = {ipnet_String \<lparr>net_ip = v4_prefix @ [10, 1, 0, 1], net_mask = cidr_mask 24 4\<rparr>}"
    by (rule bridge_Ensure_Delete [OF bridge_contract_ref sub(1) _ run, THEN conjunct1])
      (use p addr k in simp)
  with run show ?thesis by (auto simp: demo_info_def)
qed

end
