(* ===== verification/Endpoints.thy ===== *)
theory Endpoints
  imports Bridge Stores Worlds
begin

text \<open>
  \<open>plugin/pkg/flannel_network/endpoint.go\<close>: an endpoint of a container in a network, its veth pair and
  its record in etcd under \<open>prefix/endpointID\<close>.  \<open>encoding/json\<close> on \<open>endpointJson\<close> is a parameter.
  An operation returns the error or nothing, the endpoint and the world.
\<close>

section \<open>State\<close>

record endpointJson =
  ej_IPAddress :: string
  ej_MacAddress :: string
  ej_VethInside :: string
  ej_VethOutside :: string
  ej_SandboxKey :: string

type_synonym ejson = "(endpointJson \<Rightarrow> string option) \<times> (string \<Rightarrow> endpointJson option)"

text \<open>The client and the bridge are nil in the zero value.\<close>

record endpoint =
  ep_id :: string
  ep_ip :: ip
  ep_mac :: string
  ep_veth :: "vethPair option"
  ep_sandboxKey :: string
  ep_etcdClient :: "etcdClient option"
  ep_bridge :: "bridge option"

definition zero_endpoint :: endpoint where
  "zero_endpoint = \<lparr>ep_id = [], ep_ip = [], ep_mac = [], ep_veth = None, ep_sandboxKey = [],
     ep_etcdClient = None, ep_bridge = None\<rparr>"

record endpointInfo =
  ei_ID :: string
  ei_IpAddress :: ip
  ei_MacAddress :: string
  ei_VethInside :: string
  ei_VethOutside :: string

definition MarshalJSON :: "ejson \<Rightarrow> endpoint \<Rightarrow> string option" where
  "MarshalJSON J e = fst J \<lparr>ej_IPAddress = ip_String (ep_ip e), ej_MacAddress = ep_mac e,
     ej_VethInside = (case ep_veth e of None \<Rightarrow> [] | Some v \<Rightarrow> insideName v),
     ej_VethOutside = (case ep_veth e of None \<Rightarrow> [] | Some v \<Rightarrow> outsideName v),
     ej_SandboxKey = ep_sandboxKey e\<rparr>"

definition endpointKey :: "etcdClient \<Rightarrow> string \<Rightarrow> string" where
  "endpointKey c i = GetKey c [i]"

definition ep_GetInfo :: "endpoint \<Rightarrow> endpointInfo" where
  "ep_GetInfo e = \<lparr>ei_ID = ep_id e, ei_IpAddress = ep_ip e, ei_MacAddress = ep_mac e,
     ei_VethInside = (case ep_veth e of None \<Rightarrow> [] | Some v \<Rightarrow> insideName v),
     ei_VethOutside = (case ep_veth e of None \<Rightarrow> [] | Some v \<Rightarrow> outsideName v)\<rparr>"

section \<open>Operations\<close>

text \<open>A nil client is dereferenced by \<open>WithConnection\<close>.\<close>

definition with_client :: "'w env \<Rightarrow> etcdClient option \<Rightarrow> (etcdClient \<Rightarrow> ('w, 'a) io) \<Rightarrow> ('w, 'a) io" where
  "with_client E c fn w = (case c of
      None \<Rightarrow> (Inl (Panic ''nil etcd client''), w)
    | Some c \<Rightarrow> WithConnection E (fn c) w)"

definition writeToEtcd :: "'w env \<Rightarrow> ejson \<Rightarrow> endpoint \<Rightarrow> bool \<Rightarrow> ('w, unit) io" where
  "writeToEtcd E J e create = with_client E (ep_etcdClient e) (\<lambda>c w.
     case MarshalJSON J e of
       None \<Rightarrow> (Inl (OtherError ''error saving endpoint data as JSON''), w)
     | Some endpointData \<Rightarrow>
         (let key = endpointKey c (ep_id e)
          in if create
             then (case commit E [CreateRev0 key] [OpPut key endpointData] [] w of
                     (Inl x, w1) \<Rightarrow> (Inl x, w1)
                   | (Inr resp, w1) \<Rightarrow>
                       if \<not> Succeeded resp then (Inl (OtherError ''endpoint key already exists''), w1)
                       else (Inr (), w1))
             else etcd_Put E key endpointData w))"

definition NewEndpoint ::
  "'w env \<Rightarrow> ejson \<Rightarrow> etcdClient \<Rightarrow> string \<Rightarrow> ip \<Rightarrow> string \<Rightarrow> bridge option \<Rightarrow> ('w, endpoint) io" where
  "NewEndpoint E J c i a mac b w =
     (let e = \<lparr>ep_id = i, ep_ip = a, ep_mac = mac, ep_veth = None, ep_sandboxKey = [],
               ep_etcdClient = Some c, ep_bridge = b\<rparr>
      in case writeToEtcd E J e True w of
           (Inl x, w1) \<Rightarrow> (Inl x, w1)
         | (Inr _, w1) \<Rightarrow> (Inr e, w1))"

definition Join ::
  "'w env \<Rightarrow> 'w netlink \<Rightarrow> ejson \<Rightarrow> string \<Rightarrow> endpoint \<Rightarrow> 'w \<Rightarrow> err option \<times> endpoint \<times> 'w" where
  "Join E N J sandboxKey e w = (case ep_bridge e of
      None \<Rightarrow> (Some (Panic ''nil bridge''), e, w)
    | Some b \<Rightarrow>
        (case CreateAttachedVethPair N b (ep_mac e) w of
           (Inl x, w1) \<Rightarrow> (Some x, e, w1)
         | (Inr v, w1) \<Rightarrow>
             (let e1 = e\<lparr>ep_sandboxKey := sandboxKey, ep_veth := Some v\<rparr>
              in case writeToEtcd E J e1 False w1 of
                   (Inl x, w2) \<Rightarrow> (Some x, e1, w2)
                 | (Inr _, w2) \<Rightarrow> (None, e1, w2))))"

definition Leave ::
  "'w env \<Rightarrow> 'w netlink \<Rightarrow> ejson \<Rightarrow> endpoint \<Rightarrow> 'w \<Rightarrow> err option \<times> endpoint \<times> 'w" where
  "Leave E N J e w = (case ep_veth e of
      None \<Rightarrow> (Some (Panic ''nil veth pair''), e, w)
    | Some v \<Rightarrow>
        (case veth_Delete N v w of
           (Inl x, w1) \<Rightarrow> (Some x, e, w1)
         | (Inr _, w1) \<Rightarrow>
             (let e1 = e\<lparr>ep_sandboxKey := [], ep_veth := None\<rparr>
              in case writeToEtcd E J e1 False w1 of
                   (Inl x, w2) \<Rightarrow> (Some x, e1, w2)
                 | (Inr _, w2) \<Rightarrow> (None, e1, w2))))"

definition delete_key :: "'w env \<Rightarrow> ejson \<Rightarrow> endpoint \<Rightarrow> ('w, unit) io" where
  "delete_key E J e = with_client E (ep_etcdClient e) (\<lambda>c w.
     case MarshalJSON J e of
       None \<Rightarrow> (Inl (OtherError ''error saving endpoint data as JSON''), w)
     | Some endpointData \<Rightarrow>
         (let key = endpointKey c (ep_id e)
          in case commit E [ValueEq key endpointData] [OpDelete key] [] w of
               (Inl x, w1) \<Rightarrow> (Inl x, w1)
             | (Inr resp, w1) \<Rightarrow>
                 if \<not> Succeeded resp then (Inl (OtherError ''endpoint key does not exist with this value''), w1)
                 else (Inr (), w1)))"

definition ep_Delete ::
  "'w env \<Rightarrow> 'w netlink \<Rightarrow> ejson \<Rightarrow> endpoint \<Rightarrow> 'w \<Rightarrow> err option \<times> endpoint \<times> 'w" where
  "ep_Delete E N J e w =
     (case (if ep_sandboxKey e \<noteq> [] then Leave E N J e w else (None, e, w)) of
        (Some x, e1, w1) \<Rightarrow> (Some x, e1, w1)
      | (None, e1, w1) \<Rightarrow>
          (case delete_key E J e1 w1 of
             (Inl x, w2) \<Rightarrow> (Some x, e1, w2)
           | (Inr _, w2) \<Rightarrow> (None, e1, w2)))"

section \<open>Loading\<close>

text \<open>
  The loop of \<open>loadEndpointsFromEtcd\<close>.  An entry is made for the first part of every key, also
  when the key is then ignored or its value cannot be decoded.
\<close>

definition hydrate_endpoint :: "etcdClient \<Rightarrow> bridge option \<Rightarrow> string \<Rightarrow> endpointJson \<Rightarrow> endpoint" where
  "hydrate_endpoint c b i d = \<lparr>ep_id = i,
     ep_ip = (case ParseIP (ej_IPAddress d) of None \<Rightarrow> [] | Some a \<Rightarrow> a), ep_mac = ej_MacAddress d,
     ep_veth = Some (HydrateVethPair (ej_VethInside d) (ej_VethOutside d)), ep_sandboxKey = ej_SandboxKey d,
     ep_etcdClient = Some c, ep_bridge = b\<rparr>"

fun load_endpoints ::
  "ejson \<Rightarrow> etcdClient \<Rightarrow> bridge option \<Rightarrow> (string \<times> string) list \<Rightarrow> (string, endpoint) gomap \<Rightarrow> (string, endpoint) gomap"
where
  "load_endpoints J c b [] eps = eps"
| "load_endpoints J c b ((k, v) # kvs) eps =
     (let key = trim_left CHR ''/'' (trim_prefix (GetKey c []) k);
          keyParts = split_on CHR ''/'' key;
          i = hd keyParts;
          eps1 = (if map_has eps i then eps else map_put i zero_endpoint eps)
      in if length keyParts = 1
         then (case snd J v of
                 None \<Rightarrow> load_endpoints J c b kvs eps1
               | Some d \<Rightarrow> load_endpoints J c b kvs (map_put i (hydrate_endpoint c b i d) eps1))
         else load_endpoints J c b kvs eps1)"

definition loadEndpointsFromEtcd ::
  "'w env \<Rightarrow> ejson \<Rightarrow> etcdClient \<Rightarrow> bridge option \<Rightarrow> ('w, endpoint list) io" where
  "loadEndpointsFromEtcd E J c b = WithConnection E (\<lambda>w.
     case etcd_GetPrefix E (GetKey c []) w of
       (Inl x, w1) \<Rightarrow> (Inl x, w1)
     | (Inr kvs, w1) \<Rightarrow> (Inr (map_vals (load_endpoints J c b kvs [])), w1))"

section \<open>Lemmas\<close>

text \<open>Requests to the kernel do not touch etcd.\<close>

definition netlink_apart :: "'w netlink \<Rightarrow> ('w \<Rightarrow> keyspace) \<Rightarrow> bool" where
  "netlink_apart N kv \<longleftrightarrow>
     (\<forall>n w. kv (snd (LinkByName (nl_kernel N) n w)) = kv w) \<and> (\<forall>l w. kv (snd (LinkSetUp (nl_kernel N) l w)) = kv w) \<and>
     (\<forall>w. kv (snd (LinkList N w)) = kv w) \<and> (\<forall>n w. kv (snd (LinkDel N n w)) = kv w) \<and>
     (\<forall>i out mac mtu w. kv (snd (LinkAddVeth N i out mac mtu w)) = kv w) \<and>
     (\<forall>l m w. kv (snd (LinkSetMaster N l m w)) = kv w) \<and> (\<forall>w. kv (snd (NewRandom N w)) = kv w)"

lemma netlink_apartD:
  assumes "netlink_apart N kv"
  shows "LinkByName (nl_kernel N) n w = (r1, w') \<Longrightarrow> kv w' = kv w"
    and "LinkSetUp (nl_kernel N) l w = (r2, w') \<Longrightarrow> kv w' = kv w"
    and "LinkList N w = (r3, w') \<Longrightarrow> kv w' = kv w"
    and "LinkDel N n w = (r4, w') \<Longrightarrow> kv w' = kv w"
    and "LinkAddVeth N n out mac mtu w = (r5, w') \<Longrightarrow> kv w' = kv w"
    and "LinkSetMaster N l m w = (r6, w') \<Longrightarrow> kv w' = kv w"
    and "NewRandom N w = (r7, w') \<Longrightarrow> kv w' = kv w"
  using assms unfolding netlink_apart_def by (metis snd_conv)+

lemma attach_apart:
  assumes "netlink_apart N kv" and "attachInterfaceToBridge N b i w = (r, w')"
  shows "kv w' = kv w"
  using assms(2)
  by (auto simp: attachInterfaceToBridge_def split: prod.splits sum.splits
      dest!: netlink_apartD [OF assms(1)])

lemma veth_apart:
  assumes "netlink_apart N kv"
  shows "CreateAttachedVethPair N b mac w = (r, w') \<Longrightarrow> kv w' = kv w"
    and "veth_Delete N v w = (r2, w') \<Longrightarrow> kv w' = kv w"
  by (auto simp: CreateAttachedVethPair_def randomVethName_def veth_Delete_def
      split: prod.splits sum.splits option.splits
      dest!: netlink_apartD [OF assms] attach_apart [OF assms])

lemma etcd_Put_alone:
  assumes "etcd_contract E kv (=)" and "etcd_Put E k v w = (Inr u, w')"
  shows "kv w' = (kv w)(k \<mapsto> v)"
proof -
  obtain t where t: "commit E [] [OpPut k v] [] w = (Inr t, w')"
    using assms(2) by (auto simp: etcd_Put_def split: prod.splits sum.splits)
  show ?thesis by (rule commit_Inr [OF assms(1) t]) (auto simp: run_ops_Cons)
qed

lemma commit_guarded_alone:
  assumes "etcd_contract E kv (=)" and "commit E [c] [op] [] w = (Inr t, w')"
  shows "Succeeded t = cmp_holds (kv w) c" and "kv w' = (if Succeeded t then op_effect op (kv w) else kv w)"
  by (rule commit_Inr [OF assms], auto simp: run_ops_Cons)+

text \<open>The endpoint is recorded in etcd as it is in memory.\<close>

definition stored_ep :: "ejson \<Rightarrow> etcdClient \<Rightarrow> keyspace \<Rightarrow> endpoint \<Rightarrow> bool" where
  "stored_ep J c m e \<longleftrightarrow> ep_etcdClient e = Some c \<and> MarshalJSON J e \<noteq> None \<and>
     m (endpointKey c (ep_id e)) = MarshalJSON J e"

lemma writeToEtcd_alone:
  assumes C: "etcd_contract E kv (=)" and c: "ep_etcdClient e = Some c" and W: "writeToEtcd E J e create w = (Inr u, w')"
  shows "stored_ep J c (kv w') e \<and> kv w' = (kv w)(endpointKey c (ep_id e) := MarshalJSON J e) \<and>
    (create \<longrightarrow> kv w (endpointKey c (ep_id e)) = None)"
proof -
  let ?k = "endpointKey c (ep_id e)"
  obtain w1 s where cn: "conn_new E w = (None, w1)" and s: "MarshalJSON J e = Some s"
    and B: "(if create
             then (case commit E [CreateRev0 ?k] [OpPut ?k s] [] w1 of
                     (Inl x, w1) \<Rightarrow> (Inl x, w1)
                   | (Inr resp, w1) \<Rightarrow>
                       if \<not> Succeeded resp then (Inl (OtherError ''endpoint key already exists''), w1)
                       else (Inr (), w1))
             else etcd_Put E ?k s w1) = (Inr u, w')"
    using W by (auto simp: writeToEtcd_def with_client_def c Let_def elim!: WithConnection_Inr split: option.splits)
  have k1: "kv w1 = kv w" using conn_new_rely [OF C cn] by simp
  show ?thesis
  proof (cases create)
    case True
    then obtain t where t: "commit E [CreateRev0 ?k] [OpPut ?k s] [] w1 = (Inr t, w')" "Succeeded t"
      using B by (auto split: prod.splits sum.splits if_splits)
    from commit_guarded_alone [OF C t(1)] t(2) show ?thesis by (simp add: stored_ep_def c s k1)
  next
    case False
    then have "etcd_Put E ?k s w1 = (Inr u, w')" using B by simp
    from etcd_Put_alone [OF C this] show ?thesis using False by (simp add: stored_ep_def c s k1)
  qed
qed

text \<open>A run of joins and leaves none of which fails.\<close>

datatype ep_op = OJoin string | OLeave

fun ep_run :: "'w env \<Rightarrow> 'w netlink \<Rightarrow> ejson \<Rightarrow> ep_op list \<Rightarrow> endpoint \<Rightarrow> 'w \<Rightarrow> (endpoint \<times> 'w) option" where
  "ep_run E N J [] e w = Some (e, w)"
| "ep_run E N J (op # ops) e w =
     (case (case op of OJoin sandboxKey \<Rightarrow> Join E N J sandboxKey e w | OLeave \<Rightarrow> Leave E N J e w) of
        (None, e1, w1) \<Rightarrow> ep_run E N J ops e1 w1
      | (Some _, _, _) \<Rightarrow> None)"

lemma Join_alone:
  assumes C: "etcd_contract E kv (=)" and A: "netlink_apart N kv" and c: "ep_etcdClient e = Some c"
    and R: "Join E N J sandboxKey e w = (None, e', w')"
  shows "stored_ep J c (kv w') e' \<and> ep_id e' = ep_id e \<and> ep_veth e' \<noteq> None \<and>
    kv w' = (kv w)(endpointKey c (ep_id e) := MarshalJSON J e')"
proof -
  obtain b v w1 u where v: "CreateAttachedVethPair N b (ep_mac e) w = (Inr v, w1)"
    and e': "e' = e\<lparr>ep_sandboxKey := sandboxKey, ep_veth := Some v\<rparr>" and W: "writeToEtcd E J e' False w1 = (Inr u, w')"
    using R by (auto simp: Join_def Let_def split: option.splits prod.splits sum.splits)
  have "ep_etcdClient e' = Some c" using c by (simp add: e')
  note W = writeToEtcd_alone [OF C this W, unfolded veth_apart(1) [OF A v]]
  have "ep_id e' = ep_id e" "ep_veth e' \<noteq> None" by (simp_all add: e')
  with W show ?thesis by metis
qed

lemma Leave_alone:
  assumes C: "etcd_contract E kv (=)" and A: "netlink_apart N kv" and c: "ep_etcdClient e = Some c"
    and R: "Leave E N J e w = (None, e', w')"
  shows "stored_ep J c (kv w') e' \<and> ep_id e' = ep_id e \<and> ep_veth e' = None \<and> ep_sandboxKey e' = [] \<and>
    kv w' = (kv w)(endpointKey c (ep_id e) := MarshalJSON J e')"
proof -
  obtain v w1 u1 u where v: "veth_Delete N v w = (Inr u1, w1)"
    and e': "e' = e\<lparr>ep_sandboxKey := [], ep_veth := None\<rparr>" and W: "writeToEtcd E J e' False w1 = (Inr u, w')"
    using R by (auto simp: Leave_def Let_def split: option.splits prod.splits sum.splits)
  have "ep_etcdClient e' = Some c" using c by (simp add: e')
  note W = writeToEtcd_alone [OF C this W, unfolded veth_apart(2) [OF A v]]
  have "ep_id e' = ep_id e" "ep_veth e' = None" "ep_sandboxKey e' = []" by (simp_all add: e')
  with W show ?thesis by metis
qed

lemma ep_run_alone:
  assumes C: "etcd_contract E kv (=)" and A: "netlink_apart N kv"
  shows "stored_ep J c (kv w) e \<Longrightarrow> (ep_veth e = None \<longrightarrow> ep_sandboxKey e = []) \<Longrightarrow> ep_run E N J ops e w = Some (e', w') \<Longrightarrow>
    stored_ep J c (kv w') e' \<and> (ep_veth e' = None \<longrightarrow> ep_sandboxKey e' = []) \<and> ep_id e' = ep_id e \<and>
    kv w' = (kv w)(endpointKey c (ep_id e) := MarshalJSON J e')"
proof (induction ops arbitrary: e w)
  case Nil
  then show ?case by (auto simp: stored_ep_def)
next
  case (Cons op ops)
  have c: "ep_etcdClient e = Some c" using Cons.prems(1) by (simp add: stored_ep_def)
  obtain e1 w1 where 1: "(case op of OJoin sandboxKey \<Rightarrow> Join E N J sandboxKey e w | OLeave \<Rightarrow> Leave E N J e w) = (None, e1, w1)"
    and 2: "ep_run E N J ops e1 w1 = Some (e', w')"
    using Cons.prems(3) by (auto split: prod.splits option.splits)
  have S: "stored_ep J c (kv w1) e1 \<and> (ep_veth e1 = None \<longrightarrow> ep_sandboxKey e1 = []) \<and> ep_id e1 = ep_id e \<and>
      kv w1 = (kv w)(endpointKey c (ep_id e) := MarshalJSON J e1)"
  proof (cases op)
    case (OJoin sk)
    with 1 have "Join E N J sk e w = (None, e1, w1)" by simp
    from Join_alone [OF C A c this] show ?thesis by (intro conjI) blast+
  next
    case OLeave
    with 1 have "Leave E N J e w = (None, e1, w1)" by simp
    from Leave_alone [OF C A c this] show ?thesis by (intro conjI) blast+
  qed
  from Cons.IH [OF _ _ 2] S have I: "stored_ep J c (kv w') e' \<and> (ep_veth e' = None \<longrightarrow> ep_sandboxKey e' = []) \<and> ep_id e' = ep_id e1 \<and>
    kv w' = (kv w1)(endpointKey c (ep_id e1) := MarshalJSON J e')" by blast
  have "kv w' = (kv w)(endpointKey c (ep_id e) := MarshalJSON J e')"
    using I S by (metis fun_upd_upd)
  with I S show ?case by metis
qed

lemma delete_key_alone:
  assumes C: "etcd_contract E kv (=)" and c: "ep_etcdClient e = Some c" and D: "delete_key E J e w = (Inr u, w')"
  shows "kv w' = (kv w)(endpointKey c (ep_id e) := None)"
proof -
  obtain w1 s t where cn: "conn_new E w = (None, w1)"
    and t: "commit E [ValueEq (endpointKey c (ep_id e)) s] [OpDelete (endpointKey c (ep_id e))] [] w1 = (Inr t, w')" "Succeeded t"
    using D by (auto simp: delete_key_def with_client_def c Let_def elim!: WithConnection_Inr
        split: option.splits prod.splits sum.splits if_splits)
  from commit_guarded_alone [OF C t(1)] t(2) conn_new_rely [OF C cn] show ?thesis by simp
qed

lemma delete_key_reliable:
  assumes C: "etcd_contract E kv (=)" and R: "reliable E" and S: "stored_ep J c (kv w) e"
  shows "\<exists>w'. delete_key E J e w = (Inr (), w')"
proof -
  obtain s where s: "MarshalJSON J e = Some s" "kv w (endpointKey c (ep_id e)) = Some s" "ep_etcdClient e = Some c"
    using S by (auto simp: stored_ep_def)
  obtain w1 where cn: "conn_new E w = (None, w1)" using R unfolding reliable_def by (metis prod.collapse)
  obtain t w' where t: "commit E [ValueEq (endpointKey c (ep_id e)) s] [OpDelete (endpointKey c (ep_id e))] [] w1 = (Inr t, w')"
    using R unfolding reliable_def by metis
  have "Succeeded t" using commit_guarded_alone [OF C t] conn_new_rely [OF C cn] s by simp
  then show ?thesis using s cn t by (simp add: delete_key_def with_client_def WithConnection_def Let_def)
qed

lemma ep_Delete_alone:
  assumes C: "etcd_contract E kv (=)" and A: "netlink_apart N kv" and c: "ep_etcdClient e = Some c"
    and D: "ep_Delete E N J e w = (None, e', w')"
  shows "kv w' = (kv w)(endpointKey c (ep_id e) := None)"
proof (cases "ep_sandboxKey e = []")
  case True
  then obtain u where "delete_key E J e w = (Inr u, w')"
    using D by (auto simp: ep_Delete_def split: prod.splits sum.splits)
  from delete_key_alone [OF C c this] show ?thesis .
next
  case False
  then obtain e1 w1 u where L: "Leave E N J e w = (None, e1, w1)" and K: "delete_key E J e1 w1 = (Inr u, w')"
    using D by (auto simp: ep_Delete_def split: prod.splits sum.splits option.splits)
  note L = Leave_alone [OF C A c L]
  then have "ep_etcdClient e1 = Some c" by (simp add: stored_ep_def)
  from delete_key_alone [OF C this K] L show ?thesis by (metis fun_upd_upd)
qed

section \<open>Properties\<close>

text \<open>
  C13: The life of an endpoint, with no other writer: after it was created and any number of joins and
  leaves succeeded, etcd records the endpoint as it is in memory and nothing else has changed; when
  \<open>Delete\<close> succeeds etcd is as it was before the endpoint was created, and \<open>Delete\<close> of an endpoint that
  is not joined succeeds whenever etcd answers.
\<close>

theorem endpoint_life_cycle:
  assumes "etcd_contract E kv (=)" and "netlink_apart N kv"
    and "NewEndpoint E J c i a mac b w = (Inr e0, w0)" and "ep_run E N J ops e0 w0 = Some (e, w1)"
  shows "stored_ep J c (kv w1) e \<and> kv w1 = (kv w)(endpointKey c i := MarshalJSON J e) \<and>
    (\<forall>e' w2. ep_Delete E N J e w1 = (None, e', w2) \<longrightarrow> kv w2 = kv w) \<and>
    (ep_veth e = None \<and> reliable E \<longrightarrow> (\<exists>w2. ep_Delete E N J e w1 = (None, e, w2)))"
proof -
  obtain u where e0: "ep_etcdClient e0 = Some c" "ep_id e0 = i" "ep_sandboxKey e0 = []" and W: "writeToEtcd E J e0 True w = (Inr u, w0)"
    using assms(3) by (auto simp: NewEndpoint_def Let_def split: prod.splits sum.splits)
  note W = writeToEtcd_alone [OF assms(1) e0(1) W]
  have free: "kv w (endpointKey c i) = None" using W e0(2) by simp
  have R: "stored_ep J c (kv w1) e \<and> (ep_veth e = None \<longrightarrow> ep_sandboxKey e = []) \<and> ep_id e = ep_id e0 \<and>
      kv w1 = (kv w0)(endpointKey c (ep_id e0) := MarshalJSON J e)"
    using ep_run_alone [OF assms(1,2) _ _ assms(4)] W e0(3) by blast
  have k1: "kv w1 = (kv w)(endpointKey c i := MarshalJSON J e)" using R W e0(2) by (metis fun_upd_upd)
  have c: "ep_etcdClient e = Some c" using R by (simp add: stored_ep_def)
  have "kv w2 = kv w" if "ep_Delete E N J e w1 = (None, e', w2)" for e' w2
    using ep_Delete_alone [OF assms(1,2) c that] k1 R e0(2) free by (metis fun_upd_triv fun_upd_upd)
  moreover have "\<exists>w2. ep_Delete E N J e w1 = (None, e, w2)" if "ep_veth e = None" and r: "reliable E"
  proof -
    obtain w2 where "delete_key E J e w1 = (Inr (), w2)" using delete_key_reliable [OF assms(1) r] R by blast
    then show ?thesis using R that by (simp add: ep_Delete_def)
  qed
  ultimately show ?thesis using R k1 by blast
qed

text \<open>An etcd, and a kernel with the bridge of a network.\<close>

definition lift_netlink :: "'k netlink \<Rightarrow> ('w \<times> 'k) netlink" where
  "lift_netlink N = \<lparr>nl_kernel = lift_kernel (nl_kernel N), LinkList = in_snd (LinkList N),
     LinkDel = (\<lambda>n. in_snd (LinkDel N n)), LinkAddVeth = (\<lambda>i out mac mtu. in_snd (LinkAddVeth N i out mac mtu)),
     LinkSetMaster = (\<lambda>l m. in_snd (LinkSetMaster N l m)), RouteAdd = (\<lambda>r. in_snd (RouteAdd N r)),
     RouteReplace = (\<lambda>r. in_snd (RouteReplace N r)), RouteDel = (\<lambda>r. in_snd (RouteDel N r)),
     nl_Execute = (\<lambda>r. in_snd (nl_Execute N r)), NewRandom = in_snd (NewRandom N), ParseMAC = ParseMAC N\<rparr>"

lemma netlink_apart_lift: "netlink_apart (lift_netlink N) (\<lambda>w. kv (fst w))"
  by (simp add: netlink_apart_def lift_netlink_def lift_kernel_def in_snd_def case_prod_unfold)

definition demo_ejson :: ejson where
  "demo_ejson = (\<lambda>d. if d = \<lparr>ej_IPAddress = ej_IPAddress d, ej_MacAddress = [], ej_VethInside = [], ej_VethOutside = [],
       ej_SandboxKey = []\<rparr> then Some (ej_IPAddress d) else None,
     \<lambda>s. Some \<lparr>ej_IPAddress = s, ej_MacAddress = [], ej_VethInside = [], ej_VethOutside = [], ej_SandboxKey = []\<rparr>)"

theorem endpoint_life_cycle_witness:
  "\<exists>e w1 w2. NewEndpoint (lift_env ref_env) demo_ejson net_client ''e1'' [10, 1, 0, 5] [] None (([], 0), demo_kernel) = (Inr e, w1) \<and>
    ep_Delete (lift_env ref_env) (lift_netlink ref_netlink) demo_ejson e w1 = (None, e, w2) \<and> map_get (fst (fst w2)) = map_get []"
proof -
  obtain e w1 where N: "NewEndpoint (lift_env ref_env) demo_ejson net_client ''e1'' [10, 1, 0, 5] [] None (([], 0), demo_kernel) = (Inr e, w1)"
    and v: "ep_veth e = None"
    by (simp add: NewEndpoint_def writeToEtcd_def with_client_def WithConnection_def MarshalJSON_def demo_ejson_def
        in_fst_def ref_commit_def Let_def)
  have r: "ep_run (lift_env ref_env) (lift_netlink ref_netlink) demo_ejson [] e w1 = Some (e, w1)" by simp
  note L = endpoint_life_cycle [OF etcd_contract_lift [OF etcd_contract_ref] netlink_apart_lift N r]
  from L v reliable_lift [OF reliable_ref] obtain w2
    where D: "ep_Delete (lift_env ref_env) (lift_netlink ref_netlink) demo_ejson e w1 = (None, e, w2)" by blast
  with L have "ref_kv (fst w2) = ref_kv (fst (([], 0), demo_kernel))" by blast
  then have "map_get (fst (fst w2)) = map_get []" by simp
  with N D show ?thesis by (intro exI conjI) assumption+
qed

text \<open>An entry is decided by the last key with its id.\<close>

lemma load_endpoints_skip:
  "\<forall>k \<in> fst ` set kvs. hd (split_on CHR ''/'' (trim_left CHR ''/'' (trim_prefix (GetKey c []) k))) \<noteq> i \<Longrightarrow>
    map_get (load_endpoints J c b kvs eps) i = map_get eps i"
  by (induction J c b kvs eps rule: load_endpoints.induct) (auto simp: Let_def split: option.splits)

lemma load_endpoints_append: "load_endpoints J c b (xs @ ys) eps = load_endpoints J c b ys (load_endpoints J c b xs eps)"
  by (induction J c b xs eps rule: load_endpoints.induct) (auto simp: Let_def split: option.split)

lemma load_endpoints_get:
  assumes i: "valid_id i" and d: "distinct (map fst kvs)" and m: "(GetKey c [i], s) \<in> set kvs"
    and K: "\<forall>k \<in> fst ` set kvs. \<exists>j. valid_id j \<and> k = GetKey c [j]" and s: "snd J s = Some x"
  shows "map_get (load_endpoints J c b kvs eps) i = Some (hydrate_endpoint c b i x)"
proof -
  have id: "split_on CHR ''/'' (trim_left CHR ''/'' (trim_prefix (client_prefix c) (GetKey c [j]))) = [j]" if "valid_id j" for j
    using item.parse_key [OF that, of c] .
  obtain xs ys where kvs: "kvs = xs @ (GetKey c [i], s) # ys" using split_list [OF m] by blast
  have "hd (split_on CHR ''/'' (trim_left CHR ''/'' (trim_prefix (GetKey c []) k))) \<noteq> i" if "k \<in> fst ` set ys" for k
  proof -
    have "k \<in> fst ` set kvs" using that kvs by auto
    then obtain j where j: "valid_id j" "k = GetKey c [j]" using K by blast
    have "GetKey c [i] \<notin> fst ` set ys" using d kvs by simp
    with that have "k \<noteq> GetKey c [i]" by metis
    then show ?thesis using j by (auto simp: id)
  qed
  then have "map_get (load_endpoints J c b ys eps') i = map_get eps' i" for eps'
    by (intro load_endpoints_skip) blast
  then show ?thesis unfolding kvs load_endpoints_append by (simp add: id [OF i] s)
qed

text \<open>
  An endpoint that etcd records is read back by \<open>loadEndpointsFromEtcd\<close> as it was, up to the length
  of its address and with the bridge it is given, except that an endpoint that is not joined comes back
  with a veth pair without names.
\<close>

theorem endpoint_reload:
  assumes "etcd_contract E kv (=)" and codec: "\<forall>d s. fst J d = Some s \<longrightarrow> snd J s = Some d"
    and K: "store_keys c (kv w)" and i: "valid_id (ep_id e)" and S: "stored_ep J c (kv w) e" and ip: "length (ep_ip e) = 4"
    and L: "loadEndpointsFromEtcd E J c b w = (Inr eps, w')"
  shows "e\<lparr>ep_ip := v4_prefix @ ep_ip e, ep_bridge := b,
      ep_veth := (case ep_veth e of None \<Rightarrow> Some (HydrateVethPair [] []) | Some v \<Rightarrow> Some v)\<rparr> \<in> set eps"
proof -
  obtain w1 kvs where cn: "conn_new E w = (None, w1)" and g: "etcd_GetPrefix E (GetKey c []) w1 = (Inr kvs, w')"
    and eps: "eps = map_vals (load_endpoints J c b kvs [])"
    using L by (auto simp: loadEndpointsFromEtcd_def elim!: WithConnection_Inr split: prod.splits sum.splits)
  note G = etcd_GetPrefix_Inr [OF assms(1) g]
  have kw: "kv w' = kv w" using G(1) conn_new_rely [OF assms(1) cn] by simp
  obtain s where s: "MarshalJSON J e = Some s" "kv w (GetKey c [ep_id e]) = Some s" "ep_etcdClient e = Some c"
    using S by (auto simp: stored_ep_def endpointKey_def)
  let ?d = "\<lparr>ej_IPAddress = ip_String (ep_ip e), ej_MacAddress = ep_mac e,
     ej_VethInside = (case ep_veth e of None \<Rightarrow> [] | Some v \<Rightarrow> insideName v),
     ej_VethOutside = (case ep_veth e of None \<Rightarrow> [] | Some v \<Rightarrow> outsideName v),
     ej_SandboxKey = ep_sandboxKey e\<rparr>"
  have x: "snd J s = Some ?d" using codec s(1) by (simp add: MarshalJSON_def)
  have "(GetKey c [ep_id e], s) \<in> set kvs"
    using G(3) s(2) kw item.key_prefix [of c "ep_id e"] by (simp add: GetKey_def [of c "[]"])
  moreover have "\<forall>k \<in> fst ` set kvs. \<exists>j. valid_id j \<and> k = GetKey c [j]"
    using G(3) K kw by (fastforce simp: store_keys_def GetKey_def [of c "[]"])
  ultimately have "(ep_id e, hydrate_endpoint c b (ep_id e) ?d) \<in> set (load_endpoints J c b kvs [])"
    using load_endpoints_get [OF i G(2) _ _ x] by (blast intro: map_get_in_set)
  then have "hydrate_endpoint c b (ep_id e) ?d \<in> set eps" by (force simp: eps map_vals_def)
  moreover have "hydrate_endpoint c b (ep_id e) ?d = e\<lparr>ep_ip := v4_prefix @ ep_ip e, ep_bridge := b,
      ep_veth := (case ep_veth e of None \<Rightarrow> Some (HydrateVethPair [] []) | Some v \<Rightarrow> Some v)\<rparr>"
    using s(3) ParseIP_dotted [OF ip]
    by (intro endpoint.equality) (simp_all add: hydrate_endpoint_def ip_String_v4 [OF ip] HydrateVethPair_def split: option.split)
  ultimately show ?thesis by simp
qed


theorem endpoint_reload_witness:
  "\<exists>eps w'. loadEndpointsFromEtcd ref_env demo_ejson net_client None ([(GetKey net_client [''n1''], dotted [10, 1, 0, 5])], 0) = (Inr eps, w') \<and>
    \<lparr>ep_id = ''n1'', ep_ip = v4_prefix @ [10, 1, 0, 5], ep_mac = [], ep_veth = Some (HydrateVethPair [] []),
      ep_sandboxKey = [], ep_etcdClient = Some net_client, ep_bridge = None\<rparr> \<in> set eps"
proof -
  let ?w = "([(GetKey net_client [''n1''], dotted [10, 1, 0, 5])], 0) :: ref_world"
  let ?e = "\<lparr>ep_id = ''n1'', ep_ip = [10, 1, 0, 5], ep_mac = [], ep_veth = None,
      ep_sandboxKey = [], ep_etcdClient = Some net_client, ep_bridge = None\<rparr>"
  obtain eps w' where L: "loadEndpointsFromEtcd ref_env demo_ejson net_client None ?w = (Inr eps, w')"
    by (simp add: loadEndpointsFromEtcd_def WithConnection_def etcd_GetPrefix_def ref_commit_def split_def)
  have c: "\<forall>d s. fst demo_ejson d = Some s \<longrightarrow> snd demo_ejson s = Some d" by (simp add: demo_ejson_def)
  have S: "stored_ep demo_ejson net_client (ref_kv ?w) ?e"
    by (simp add: stored_ep_def MarshalJSON_def demo_ejson_def endpointKey_def ip_String_v4)
  have i: "valid_id (ep_id ?e)" and ip: "length (ep_ip ?e) = 4" by (simp_all add: valid_id_def)
  have K: "store_keys net_client (ref_kv ?w)" using store_keys_single [OF valid_n1] by simp
  from endpoint_reload [OF etcd_contract_ref c K i S ip L]
  show ?thesis using L by (intro exI conjI) (assumption, simp)
qed

end
