(* ===== verification/Flannel_Network.thy ===== *)
theory Flannel_Network
  imports Endpoints Docker_Data Pool Programs
begin

text \<open>
  \<open>plugin/pkg/flannel_network/network.go\<close> and \<open>util.go\<close>: a flannel network on a node.  Its
  configuration is a key of etcd that the first node writes; the subnet of the node comes from
  \<open>flanneld\<close>, a process that the network starts under a lock and that reports through a file.  The
  process, the files and the lock are fields of \<open>host\<close>.  \<open>None\<close>, a program that does not return, comes
  from \<open>ipsInSubnet\<close> only.
\<close>

section \<open>Data\<close>

record BackendConfig =
  bc_Type :: string
  bc_VNI :: int

record Config =
  cf_Network :: string
  cf_SubnetLen :: int
  cf_Backend :: BackendConfig

record BackendData =
  bd_VNI :: int
  bd_VtepMAC :: string

record SubnetConfig =
  sc_PublicIP :: string
  sc_BackendType :: string
  sc_BackendData :: BackendData

record network_codecs =
  json_config :: "(Config \<Rightarrow> string option) \<times> (string \<Rightarrow> Config option)"
  json_subnet :: "string \<Rightarrow> SubnetConfig option"
  json_endpoint :: ejson

text \<open>The outcome of waiting for flanneld: its exit (without an error for status 0), the line it prints when it is up, or neither in time.\<close>

datatype bootstrap = FlanneldExited "err option" | BootstrapDone | BootstrapTimeout

datatype file_stat = FileExists | FileMissing | StatError

text \<open>The errors of a signal that the code tells apart.\<close>

datatype signal_error = ProcessFinished | ESRCH | EPERM | OtherSignalError

text \<open>
  \<open>GetRev\<close> reads a key with its modification revision, \<open>DeleteAtRev\<close> is the transaction that deletes
  a key if it still has a revision (0: the key does not exist); \<open>StartFlanneld\<close> makes the pipes and the process.
\<close>

record 'w host =
  h_etcd :: "'w env"
  h_netlink :: "'w netlink"
  h_hostname :: string
  h_codecs :: network_codecs
  GetRev :: "string \<Rightarrow> ('w, (string \<times> nat) option) io"
  DeleteAtRev :: "string \<Rightarrow> nat \<Rightarrow> ('w, bool) io"
  LockNewMutex :: "string \<Rightarrow> ('w, unit) io"
  UnlockAndCloseSession :: "'w \<Rightarrow> 'w"
  StartFlanneld :: "string list \<Rightarrow> ('w, nat) io"
  AwaitBootstrap :: "nat \<Rightarrow> 'w \<Rightarrow> bootstrap \<times> 'w"
  SignalTerm :: "nat \<Rightarrow> ('w, unit) io"
  SignalZero :: "nat \<Rightarrow> 'w \<Rightarrow> signal_error option \<times> 'w"
  Stat :: "string \<Rightarrow> 'w \<Rightarrow> file_stat \<times> 'w"
  RemoveFile :: "string \<Rightarrow> ('w, unit) io"
  ReadLines :: "string \<Rightarrow> ('w, string list \<times> err option) io"
  LocalAddrs :: "('w, ip list) io"

section \<open>The network\<close>

record network =
  flannelID :: string
  flannelDaemonProcess :: "nat option"
  nw_client :: etcdClient
  networkSubnet :: ipnet
  hostSubnet :: ipnet
  hostSubnetSize :: int
  localGateway :: ip
  nw_mtu :: int
  defaultFlannelOptions :: "string list"
  nw_pool :: "etcdPool option"
  nw_bridge :: "bridge option"
  nw_endpoints :: "(string, endpoint) gomap"
  endpointsEtcdClient :: etcdClient
  nw_vni :: int

type_synonym ('w, 'a) netP = "(network \<times> 'w, 'a) prog"

definition zero_ipnet :: ipnet where
  "zero_ipnet = \<lparr>net_ip = [], net_mask = []\<rparr>"

definition NewNetwork ::
  "'w host \<Rightarrow> etcdClient \<Rightarrow> string \<Rightarrow> ipnet \<Rightarrow> int \<Rightarrow> string list \<Rightarrow> int \<Rightarrow> network" where
  "NewNetwork H client i subnet len options v = \<lparr>flannelID = i, flannelDaemonProcess = None,
     nw_client = client, networkSubnet = subnet, hostSubnet = zero_ipnet, hostSubnetSize = len,
     localGateway = [], nw_mtu = 0, defaultFlannelOptions = options, nw_pool = None, nw_bridge = None,
     nw_endpoints = [], endpointsEtcdClient = CreateSubClient client [i, h_hostname H, ''endpoints''],
     nw_vni = v\<rparr>"

text \<open>\<open>GetInfo\<close> returns pointers to the two subnets; the record has their values at the time of the call.\<close>

definition nw_GetInfo :: "network \<Rightarrow> FlannelNetworkInfo" where
  "nw_GetInfo n = \<lparr>fi_FlannelID = flannelID n, fi_MTU = nw_mtu n, fi_Network = Some (networkSubnet n),
     fi_HostSubnet = Some (hostSubnet n), fi_LocalGateway = localGateway n\<rparr>"

definition GetPool :: "network \<Rightarrow> etcdPool option" where
  "GetPool n = nw_pool n"

definition GetEndpoint :: "string \<Rightarrow> network \<Rightarrow> endpoint option" where
  "GetEndpoint i n = map_get (nw_endpoints n) i"

section \<open>Calls\<close>

text \<open>\<open>WithConnection\<close> around a program.\<close>

definition connN :: "'w host \<Rightarrow> ('w, 'a) netP \<Rightarrow> ('w, 'a) netP" where
  "connN H p s = (case conn_new (h_etcd H) (snd s) of
      (Some client_nil, w1) \<Rightarrow> Some (Inl (if client_nil then Panic ''nil client'' else ConnectError), fst s, w1)
    | (None, w1) \<Rightarrow> p (fst s, w1))"

section \<open>Configuration in etcd\<close>

definition flannelConfigPrefixKey :: "network \<Rightarrow> string" where
  "flannelConfigPrefixKey n = GetKey (nw_client n) [flannelID n]"

definition flannelConfigKey :: "network \<Rightarrow> string" where
  "flannelConfigKey n = flannelConfigPrefixKey n @ ''/config''"

definition flannelConfigSubnetKey :: "network \<Rightarrow> ipnet \<Rightarrow> string" where
  "flannelConfigSubnetKey n subnet = flannelConfigPrefixKey n @ ''/subnets/'' @ SubnetToKey (ipnet_String subnet)"

definition flannelLockKey :: "network \<Rightarrow> string" where
  "flannelLockKey n = flannelConfigPrefixKey n @ ''/lock''"

text \<open>\<open>None\<close>: not found; otherwise the configuration and its modification revision.\<close>

definition readNetworkConfig :: "'w host \<Rightarrow> network \<Rightarrow> ('w, (Config \<times> nat) option) io" where
  "readNetworkConfig H n = WithConnection (h_etcd H) (\<lambda>w.
     case GetRev H (flannelConfigKey n) w of
       (Inl e, w1) \<Rightarrow> (Inl e, w1)
     | (Inr None, w1) \<Rightarrow> (Inr None, w1)
     | (Inr (Some (v, revision)), w1) \<Rightarrow>
         (case snd (json_config (h_codecs H)) v of
            None \<Rightarrow> (Inl (DecodeError ''config''), w1)
          | Some c \<Rightarrow> (Inr (Some (c, revision)), w1)))"

definition network_config :: "network \<Rightarrow> Config" where
  "network_config n = \<lparr>cf_Network = ipnet_String (networkSubnet n), cf_SubnetLen = hostSubnetSize n,
     cf_Backend = \<lparr>bc_Type = ''vxlan'', bc_VNI = nw_vni n\<rparr>\<rparr>"

definition check_network :: "network \<Rightarrow> Config \<Rightarrow> unit result" where
  "check_network n c = (if cf_Network c = ipnet_String (networkSubnet n) then Inr ()
     else Inl (OtherError ''there already is a flannel config for another network''))"

definition ensureFlannelConfig :: "'w host \<Rightarrow> network \<Rightarrow> ('w, unit) io" where
  "ensureFlannelConfig H n = WithConnection (h_etcd H) (\<lambda>w.
     let networkConfigKey = flannelConfigKey n
     in case readNetworkConfig H n w of
       (Inl e, w1) \<Rightarrow> (Inl e, w1)
     | (Inr (Some (c, _)), w1) \<Rightarrow> (check_network n c, w1)
     | (Inr None, w1) \<Rightarrow>
         (case fst (json_config (h_codecs H)) (network_config n) of
            None \<Rightarrow> (Inl (OtherError ''failed to serialize configuration''), w1)
          | Some configString \<Rightarrow>
              (case commit (h_etcd H) [CreateRev0 networkConfigKey] [OpPut networkConfigKey configString] [] w1 of
                 (Inl e, w2) \<Rightarrow> (Inl e, w2)
               | (Inr resp, w2) \<Rightarrow>
                   if \<not> Succeeded resp
                   then (case readNetworkConfig H n w2 of
                           (Inl e, w3) \<Rightarrow> (Inl e, w3)
                         | (Inr (Some (c, _)), w3) \<Rightarrow> (check_network n c, w3)
                         | (Inr None, w3) \<Rightarrow> (Inr (), w3))
                   else (Inr (), w2))))"

text \<open>The first request of \<open>cleanupEtcdData\<close> deletes without comparing.\<close>

definition cleanupEtcdData :: "'w host \<Rightarrow> network \<Rightarrow> ('w, unit) io" where
  "cleanupEtcdData H n = WithConnection (h_etcd H) (\<lambda>w.
     case etcd_Delete (h_etcd H) (flannelConfigSubnetKey n (hostSubnet n)) w of
       (Inl e, w1) \<Rightarrow> (Inl e, w1)
     | (Inr _, w1) \<Rightarrow>
         (case readNetworkConfig H n w1 of
            (Inl e, w2) \<Rightarrow> (Inl e, w2)
          | (Inr result, w2) \<Rightarrow>
              if (case result of None \<Rightarrow> False | Some (c, _) \<Rightarrow> cf_Network c \<noteq> ipnet_String (networkSubnet n))
              then (Inl (OtherError ''the flannel config has an unexpected network''), w2)
              else (case DeleteAtRev H (flannelConfigKey n) (case result of None \<Rightarrow> 0 | Some (_, revision) \<Rightarrow> revision) w2 of
                      (Inl e, w3) \<Rightarrow> (Inl e, w3)
                    | (Inr True, w3) \<Rightarrow> (Inr (), w3)
                    | (Inr False, w3) \<Rightarrow>
                        (case etcd_Get (h_etcd H) (flannelConfigKey n) w3 of
                           (Inl e, w4) \<Rightarrow> (Inl e, w4)
                         | (Inr kvs, w4) \<Rightarrow>
                             (if kvs \<noteq> [] then Inl (OtherError ''error deleting flannel network config'') else Inr (), w4)))))"

section \<open>The flanneld process\<close>

definition endFlannelDaemonProcess :: "'w host \<Rightarrow> ('w, unit) netP" where
  "endFlannelDaemonProcess H = bindP (selfN flannelDaemonProcess) (\<lambda>p. case p of
      None \<Rightarrow> returnP ()
    | Some p \<Rightarrow> bindP (ioN (SignalTerm H p)) (\<lambda>_. setN (\<lambda>n. n\<lparr>flannelDaemonProcess := None\<rparr>)))"

definition isFlannelDaemonProcessRunning :: "'w host \<Rightarrow> ('w, bool) netP" where
  "isFlannelDaemonProcessRunning H = bindP (selfN flannelDaemonProcess) (\<lambda>p. case p of
      None \<Rightarrow> returnP False
    | Some p \<Rightarrow> bindP (effN (SignalZero H p)) (\<lambda>e. returnP (case e of
          None \<Rightarrow> True
        | Some ProcessFinished \<Rightarrow> False
        | Some ESRCH \<Rightarrow> False
        | Some EPERM \<Rightarrow> True
        | Some OtherSignalError \<Rightarrow> False)))"

text \<open>
  One pipe of the process: the lines up to its end, whether this reader has closed the channel and
  whether the channel is closed; the result is the new state of the channel.
\<close>

fun readPipe :: "string list \<Rightarrow> bool \<Rightarrow> bool \<Rightarrow> bool result" where
  "readPipe [] channelClosed closed = Inr closed"
| "readPipe (line # lines) channelClosed closed =
     (if str_contains line ''bootstrap done'' \<and> \<not> channelClosed
      then (if closed then Inl (Panic ''close of closed channel'') else readPipe lines True True)
      else readPipe lines channelClosed closed)"

text \<open>\<open>waitForFileWithContext\<close>; \<open>polls\<close> is the number of times the file is looked for before the context ends.\<close>

fun waitForFile :: "'w host \<Rightarrow> string \<Rightarrow> nat \<Rightarrow> ('w, unit) io" where
  "waitForFile H path 0 w = (Inl (OtherError ''timed out waiting for file''), w)"
| "waitForFile H path (Suc polls) w = (case Stat H path w of
      (FileExists, w1) \<Rightarrow> (Inr (), w1)
    | (StatError, w1) \<Rightarrow> (Inl (OtherError ''error checking file''), w1)
    | (FileMissing, w1) \<Rightarrow> waitForFile H path polls w1)"

text \<open>The context ends after 5 s and a poll takes at least 100 ms.\<close>

definition env_file_polls :: nat where "env_file_polls = 50"

text \<open>\<open>strconv.Atoi\<close>.\<close>

definition Atoi :: "string \<Rightarrow> int option" where
  "Atoi s = (let neg = (s \<noteq> [] \<and> hd s = CHR ''-''); ds = (if s \<noteq> [] \<and> hd s \<in> {CHR ''-'', CHR ''+''} then tl s else s)
     in case parse_dec ds of
          None \<Rightarrow> None
        | Some n \<Rightarrow> (let i = (if neg then - int n else int n)
                   in if - (2 ^ 63) \<le> i \<and> i < 2 ^ 63 then Some i else None))"

definition getFlannelEnvFilename :: "network \<Rightarrow> string" where
  "getFlannelEnvFilename n = ''/flannel-env/'' @ flannelID n @ ''.env''"

section \<open>The file of flanneld\<close>

definition set_network_subnet :: "string \<Rightarrow> ('w, unit) netP" where
  "set_network_subnet v = (case ParseCIDR v of
      None \<Rightarrow> failP (OtherError ''invalid CIDR format for network'')
    | Some (_, ipNet) \<Rightarrow> setN (\<lambda>n. n\<lparr>networkSubnet := ipNet\<rparr>))"

definition set_host_subnet :: "'w host \<Rightarrow> string \<Rightarrow> ('w, unit) netP" where
  "set_host_subnet H v = (case ParseCIDR v of
      None \<Rightarrow> failP (OtherError ''invalid CIDR format for subnet'')
    | Some (i, ipNet) \<Rightarrow>
        bindP (selfN (\<lambda>n. (flannelID n, CreateSubClient (nw_client n)
          [flannelID n, ''host-subnets'', SubnetToKey (ipnet_String ipNet)]))) (\<lambda>(fid, client).
        bindP (ioN_opt (NewEtcdBasedAddressPool (h_etcd H) fid ipNet client)) (\<lambda>pool.
        setN (\<lambda>n. n\<lparr>hostSubnet := ipNet, localGateway := i, nw_pool := Some pool\<rparr>))))"

definition set_mtu :: "string \<Rightarrow> ('w, unit) netP" where
  "set_mtu v = (case Atoi v of
      None \<Rightarrow> failP (OtherError ''invalid MTU value'')
    | Some m \<Rightarrow> setN (\<lambda>n. n\<lparr>nw_mtu := m\<rparr>))"

definition load_line :: "'w host \<Rightarrow> string \<Rightarrow> ('w, unit) netP" where
  "load_line H text = (let line = trim_space text in
     if line = [] \<or> prefix ''#'' line then returnP ()
     else if CHR ''='' \<notin> set line then returnP ()
     else (let key = takeWhile (\<lambda>c. c \<noteq> CHR ''='') line; v = tl (dropWhile (\<lambda>c. c \<noteq> CHR ''='') line) in
       if \<not> prefix ''FLANNEL_'' key then returnP ()
       else (let key = trim_prefix ''FLANNEL_'' key in
         if key = ''NETWORK'' then set_network_subnet v
         else if key = ''SUBNET'' then set_host_subnet H v
         else if key = ''MTU'' then set_mtu v
         else returnP ())))"

text \<open>The bridge is set only if \<open>Ensure\<close> succeeded.\<close>

definition loadFlannelConfig :: "'w host \<Rightarrow> string \<Rightarrow> ('w, unit) netP" where
  "loadFlannelConfig H filename =
     bindP (ioN (waitForFile H filename env_file_polls)) (\<lambda>_.
     bindP (ioN (ReadLines H filename)) (\<lambda>(lines, scan_error).
     bindP (forP (load_line H) lines) (\<lambda>_.
     bindP (errP scan_error) (\<lambda>_.
     bindP (selfN (\<lambda>n. NewBridgeInterface (nw_GetInfo n))) (\<lambda>b.
     bindP (effN (\<lambda>w. case bridge_Ensure (h_netlink H) b w of (e, b1, w1) \<Rightarrow> ((e, b1), w1))) (\<lambda>(e, b1).
     bindP (errP e) (\<lambda>_. setN (\<lambda>n. n\<lparr>nw_bridge := Some b1\<rparr>))))))))"

section \<open>Starting\<close>

text \<open>A deferred \<open>UnlockAndCloseSession\<close>.\<close>

definition unlocking :: "'w host \<Rightarrow> ('w, 'a) netP \<Rightarrow> ('w, 'a) netP" where
  "unlocking H p s = (case p s of
      None \<Rightarrow> None
    | Some (r, n, w) \<Rightarrow> Some (r, n, UnlockAndCloseSession H w))"

text \<open>
  The closure of \<open>startFlannel\<close>.  When flanneld exits with status 0 the error is nil, \<open>WithMessagef\<close>
  of nil is nil, and the command that is returned is nil as well (\<open>None\<close>).
\<close>

definition start_daemon :: "'w host \<Rightarrow> string list \<Rightarrow> ('w, nat option) netP" where
  "start_daemon H args = connN H (
     bindP (selfN flannelLockKey) (\<lambda>lockKey.
     bindP (ioN (LockNewMutex H lockKey)) (\<lambda>_.
     unlocking H (
       bindP (ioN (StartFlanneld H args)) (\<lambda>p.
       bindP (effN (AwaitBootstrap H p)) (\<lambda>b. case b of
           FlanneldExited None \<Rightarrow> returnP None
         | FlanneldExited (Some e) \<Rightarrow> failP e
         | BootstrapDone \<Rightarrow> returnP (Some p)
         | BootstrapTimeout \<Rightarrow>
             bindP (logE (endFlannelDaemonProcess H)) (\<lambda>_. failP (OtherError ''flanneld failed to bootstrap''))))))))"

definition flannel_args :: "network \<Rightarrow> string list" where
  "flannel_args n = [''-subnet-file='' @ getFlannelEnvFilename n, ''-etcd-prefix='' @ flannelConfigPrefixKey n,
     ''-etcd-endpoints='' @ join '','' (endpoints (nw_client n))] @ defaultFlannelOptions n"

definition startFlannel :: "'w host \<Rightarrow> ('w, unit) netP" where
  "startFlannel H =
     bindP (selfN flannel_args) (\<lambda>args.
     bindP (start_daemon H args) (\<lambda>cmd.
     bindP (selfN getFlannelEnvFilename) (\<lambda>subnetFile.
     bindP (attemptP (loadFlannelConfig H subnetFile)) (\<lambda>e. case cmd of
         None \<Rightarrow> failP (Panic ''nil command'')
       | Some p \<Rightarrow>
           bindP (setN (\<lambda>n. n\<lparr>flannelDaemonProcess := Some p\<rparr>)) (\<lambda>_. case e of
               None \<Rightarrow> returnP ()
             | Some e \<Rightarrow> bindP (logE (endFlannelDaemonProcess H)) (\<lambda>_. failP e))))))"

definition nw_Ensure :: "'w host \<Rightarrow> ('w, unit) netP" where
  "nw_Ensure H =
     bindP (selfN id) (\<lambda>n.
     bindP (ioN (ensureFlannelConfig H n)) (\<lambda>_.
     bindP (isFlannelDaemonProcessRunning H) (\<lambda>running. if running then returnP () else startFlannel H)))"

section \<open>Endpoints\<close>

definition AddEndpoint :: "'w host \<Rightarrow> string \<Rightarrow> ip \<Rightarrow> string \<Rightarrow> ('w, endpoint) netP" where
  "AddEndpoint H i a mac =
     bindP (selfN id) (\<lambda>n.
     bindP (ioN (NewEndpoint (h_etcd H) (json_endpoint (h_codecs H)) (endpointsEtcdClient n) i a mac (nw_bridge n))) (\<lambda>e.
     bindP (setN (\<lambda>n. n\<lparr>nw_endpoints := map_put i e (nw_endpoints n)\<rparr>)) (\<lambda>_. returnP e)))"

text \<open>A method of an endpoint that the map of the network points to.\<close>

definition endpointN ::
  "string \<Rightarrow> (endpoint \<Rightarrow> 'w \<Rightarrow> err option \<times> endpoint \<times> 'w) \<Rightarrow> endpoint \<Rightarrow> ('w, unit) netP" where
  "endpointN i op e s = (case op e (snd s) of (x, e1, w1) \<Rightarrow>
     errP x ((fst s)\<lparr>nw_endpoints := map_put i e1 (nw_endpoints (fst s))\<rparr>, w1))"

definition delete_endpoint :: "'w host \<Rightarrow> endpoint \<Rightarrow> 'w \<Rightarrow> err option \<times> endpoint \<times> 'w" where
  "delete_endpoint H = ep_Delete (h_etcd H) (h_netlink H) (json_endpoint (h_codecs H))"

definition nw_DeleteEndpoint :: "'w host \<Rightarrow> string \<Rightarrow> ('w, unit) netP" where
  "nw_DeleteEndpoint H i = bindP (selfN (GetEndpoint i)) (\<lambda>e. case e of
      None \<Rightarrow> failP (OtherError ''endpoint does not exist'')
    | Some e \<Rightarrow>
        bindP (endpointN i (delete_endpoint H) e) (\<lambda>_.
        setN (\<lambda>n. n\<lparr>nw_endpoints := map_del i (nw_endpoints n)\<rparr>)))"

definition cleanupEndpoints :: "'w host \<Rightarrow> ('w, unit) netP" where
  "cleanupEndpoints H = bindP (selfN nw_endpoints) (forP (\<lambda>(i, e). endpointN i (delete_endpoint H) e))"

section \<open>Deleting\<close>

definition deleteFileIfExists :: "'w host \<Rightarrow> string \<Rightarrow> ('w, unit) io" where
  "deleteFileIfExists H filename w = (case Stat H filename w of
      (FileExists, w1) \<Rightarrow> RemoveFile H filename w1
    | (FileMissing, w1) \<Rightarrow> (Inr (), w1)
    | (StatError, w1) \<Rightarrow> (Inl (OtherError ''error checking file''), w1))"

definition cleanupFlannelEnvFile :: "'w host \<Rightarrow> ('w, unit) netP" where
  "cleanupFlannelEnvFile H = bindP (selfN getFlannelEnvFilename) (\<lambda>f. logE (ioN (deleteFileIfExists H f)))"

text \<open>\<open>%d\<close> of an int.\<close>

definition format_int :: "int \<Rightarrow> string" where
  "format_int i = (if i < 0 then ''-'' @ format_dec (nat (- i)) else format_dec (nat i))"

definition flannelLinkName :: "int \<Rightarrow> string" where
  "flannelLinkName v = ''flannel.'' @ format_int v"

definition release_all :: "'w host \<Rightarrow> ('w, unit) netP" where
  "release_all H s = (case nw_pool (fst s) of
      None \<Rightarrow> Some (Inl (Panic ''nil pool''), s)
    | Some p \<Rightarrow> (case ReleaseAllIPs (h_etcd H) p (snd s) of (e, p1, w1) \<Rightarrow> errP e ((fst s)\<lparr>nw_pool := Some p1\<rparr>, w1)))"

definition cleanupInterfaces :: "'w host \<Rightarrow> ('w, unit) netP" where
  "cleanupInterfaces H = (let N = h_netlink H; K = nl_kernel N in
     bindP (selfN id) (\<lambda>n.
     bindP (ioN (\<lambda>w. case LinkByName K (flannelLinkName (nw_vni n)) w of
         (Inl text, w1) \<Rightarrow> (Inl (OtherError text), w1) | (Inr l, w1) \<Rightarrow> (Inr l, w1))) (\<lambda>flannelLink.
     bindP (ioN (StopListeningOnAddress K flannelLink (ip_String (net_ip (hostSubnet n))))) (\<lambda>_.
     bindP (ioN (AddrList K flannelLink)) (\<lambda>addresses.
     bindP (if length addresses = 0 then ioN (LinkDel N (link_Name flannelLink)) else returnP ()) (\<lambda>_.
     bindP (case nw_bridge n of None \<Rightarrow> failP (Panic ''nil bridge'') | Some b \<Rightarrow> ioN (bridge_Delete N b)) (\<lambda>_.
     release_all H)))))))"

definition nw_Delete :: "'w host \<Rightarrow> ('w, unit) netP" where
  "nw_Delete H =
     bindP (endFlannelDaemonProcess H) (\<lambda>_.
     bindP (cleanupFlannelEnvFile H) (\<lambda>_.
     bindP (selfN id) (\<lambda>n.
     bindP (ioN (cleanupEtcdData H n)) (\<lambda>_.
     bindP (cleanupInterfaces H) (\<lambda>_.
     bindP (cleanupEndpoints H) (\<lambda>_.
     setN (\<lambda>n. n\<lparr>nw_endpoints := [], localGateway := [], hostSubnet := zero_ipnet, nw_mtu := 0\<rparr>)))))))"

section \<open>Initialising\<close>

text \<open>The containers of this node, from the data of docker.\<close>

definition local_containers :: "data \<Rightarrow> dContainerInfo list" where
  "local_containers d = (case ss_GetShard (localShardKey (containers d)) (containers d) of
      None \<Rightarrow> [] | Some m \<Rightarrow> map_vals m)"

definition local_endpoint_ids :: "data \<Rightarrow> string list" where
  "local_endpoint_ids d = concat (map (\<lambda>c. map_vals (c_Endpoints c)) (local_containers d))"

definition local_container_ips :: "data \<Rightarrow> ip list" where
  "local_container_ips d = concat (map (\<lambda>c. map_vals (c_IPs c)) (local_containers d))"

definition existing_service_ids :: "data \<Rightarrow> string list" where
  "existing_service_ids d = map_keys (GetAll (dservices d))"

text \<open>The loop over the stored endpoints; an endpoint that is deleted is not in the map.\<close>

definition init_endpoint :: "'w host \<Rightarrow> string list \<Rightarrow> endpoint \<Rightarrow> ('w, unit) netP" where
  "init_endpoint H existing e =
     (if lo_Some existing [ei_ID (ep_GetInfo e)]
      then setN (\<lambda>n. n\<lparr>nw_endpoints := map_put (ei_ID (ep_GetInfo e)) e (nw_endpoints n)\<rparr>)
      else logE (ioN (\<lambda>w. case delete_endpoint H e w of (None, _, w1) \<Rightarrow> (Inr (), w1) | (Some x, _, w1) \<Rightarrow> (Inl x, w1))))"

definition allocation_in_use :: "data \<Rightarrow> Allocation \<Rightarrow> bool" where
  "allocation_in_use d a =
     (if AllocationType a = AllocationTypeContainerIP then list_ex (\<lambda>i. ip_Equal i (Ip a)) (local_container_ips d)
      else if AllocationType a = AllocationTypeServiceVIP then lo_Some (existing_service_ids d) [Data a]
      else False)"

definition release_ip :: "'w host \<Rightarrow> string \<Rightarrow> ('w, unit) netP" where
  "release_ip H i s = (case nw_pool (fst s) of
      None \<Rightarrow> Some (Inl (Panic ''nil pool''), s)
    | Some p \<Rightarrow> (case ReleaseIP (h_etcd H) i p (snd s) of (e, p1, w1) \<Rightarrow> errP e ((fst s)\<lparr>nw_pool := Some p1\<rparr>, w1)))"

definition init_allocation :: "'w host \<Rightarrow> data \<Rightarrow> Allocation \<Rightarrow> ('w, unit) netP" where
  "init_allocation H d a = (if allocation_in_use d a then returnP () else logE (release_ip H (ip_String (Ip a))))"

definition nw_Init :: "'w host \<Rightarrow> data \<Rightarrow> ('w, unit) netP" where
  "nw_Init H d =
     bindP (nw_Ensure H) (\<lambda>_.
     bindP (selfN id) (\<lambda>n.
     bindP (ioN (loadEndpointsFromEtcd (h_etcd H) (json_endpoint (h_codecs H)) (endpointsEtcdClient n) (nw_bridge n))) (\<lambda>eps.
     bindP (forP (init_endpoint H (local_endpoint_ids d)) eps) (\<lambda>_.
     bindP (selfN nw_pool) (\<lambda>pool. case pool of
         None \<Rightarrow> failP (Panic ''nil pool'')
       | Some p \<Rightarrow> forP (init_allocation H d) (GetAllocations p))))))"

section \<open>Stale networks\<close>

definition IsUnspecified :: "ip \<Rightarrow> bool" where
  "IsUnspecified i \<longleftrightarrow> ip_Equal i [0, 0, 0, 0] \<or> ip_Equal i (replicate 16 0)"

definition getLocalIPsMap :: "'w host \<Rightarrow> ('w, (string, unit) gomap) io" where
  "getLocalIPsMap H w = (case LocalAddrs H w of
      (Inl e, w1) \<Rightarrow> (Inl e, w1)
    | (Inr ips, w1) \<Rightarrow> (Inr (fold (\<lambda>i m. if i = [] \<or> IsUnspecified i then m else map_put (ip_String i) () m) ips []), w1))"

text \<open>The networks whose data is deleted, and the VNIs of the networks that are kept.\<close>

type_synonym scan = "(string, unit) gomap \<times> (int, string) gomap"

definition scan_network ::
  "network_codecs \<Rightarrow> etcdClient \<Rightarrow> NetworkInfo list \<Rightarrow> (string, unit) gomap \<Rightarrow> string \<times> string \<Rightarrow> scan \<Rightarrow> scan"
where
  "scan_network J c existing localIPs kv acc = (case (kv, acc) of ((k, v), (todelete, vnis)) \<Rightarrow>
     (let key = trim_left CHR ''/'' (trim_prefix (GetKey c []) k);
          keyParts = split_on CHR ''/'' key;
          flannelNetworkID = hd keyParts
      in if \<not> list_ex (\<lambda>item. FlannelID item = flannelNetworkID) existing
         then (map_put flannelNetworkID () todelete, vnis)
         else if length keyParts = 2 \<and> keyParts ! 1 = ''config''
         then (case snd (json_config J) v of
                 None \<Rightarrow> (todelete, vnis)
               | Some cf \<Rightarrow> (todelete, map_put (bc_VNI (cf_Backend cf)) flannelNetworkID vnis))
         else if length keyParts = 3 \<and> keyParts ! 1 = ''subnets''
         then (case json_subnet J v of
                 None \<Rightarrow> (todelete, vnis)
               | Some sc \<Rightarrow>
                   if \<not> map_has localIPs (sc_PublicIP sc) then (todelete, vnis)
                   else (todelete, map_put (bd_VNI (sc_BackendData sc)) flannelNetworkID vnis))
         else (todelete, vnis)))"

text \<open>The data is deleted by the prefix of its key, without a slash at the end; errors are logged.\<close>

fun delete_networks :: "'w env \<Rightarrow> etcdClient \<Rightarrow> string list \<Rightarrow> 'w \<Rightarrow> 'w" where
  "delete_networks E c [] w = w"
| "delete_networks E c (i # is) w = (case etcd_DeletePrefix E (GetKey c [i]) w of (_, w1) \<Rightarrow> delete_networks E c is w1)"

fun delete_flannel_links :: "'w netlink \<Rightarrow> string list \<Rightarrow> blink list \<Rightarrow> 'w \<Rightarrow> 'w" where
  "delete_flannel_links N valid [] w = w"
| "delete_flannel_links N valid (l # ls) w =
     (if prefix ''flannel'' (bl_Name l) \<and> \<not> lo_Some valid [bl_Name l]
      then (case LinkDel N (bl_Name l) w of (_, w1) \<Rightarrow> delete_flannel_links N valid ls w1)
      else delete_flannel_links N valid ls w)"

definition cleanup_networks_data ::
  "'w host \<Rightarrow> etcdClient \<Rightarrow> NetworkInfo list \<Rightarrow> (string, unit) gomap \<Rightarrow> ('w, (int, string) gomap) io" where
  "cleanup_networks_data H c existing localIPs = WithConnection (h_etcd H) (\<lambda>w.
     case etcd_GetPrefix (h_etcd H) (GetKey c []) w of
       (Inl e, w1) \<Rightarrow> (Inl e, w1)
     | (Inr kvs, w1) \<Rightarrow>
         (case fold (scan_network (h_codecs H) c existing localIPs) kvs ([], []) of
            (todelete, vnis) \<Rightarrow> (Inr vnis, delete_networks (h_etcd H) c (map_keys todelete) w1)))"

definition CleanupStaleNetworks :: "'w host \<Rightarrow> etcdClient \<Rightarrow> NetworkInfo list \<Rightarrow> ('w, unit) io" where
  "CleanupStaleNetworks H c existing w = (case getLocalIPsMap H w of
      (Inl e, w1) \<Rightarrow> (Inl e, w1)
    | (Inr localIPs, w1) \<Rightarrow>
        (case cleanup_networks_data H c existing localIPs w1 of
           (Inl e, w2) \<Rightarrow> (Inl e, w2)
         | (Inr knownNetworksVNIs, w2) \<Rightarrow>
             (case LinkList (h_netlink H) w2 of
                (Inl e, w3) \<Rightarrow> (Inl e, w3)
              | (Inr links, w3) \<Rightarrow>
                  CleanUpStaleInterfaces (h_netlink H) (map_vals knownNetworksVNIs)
                    (delete_flannel_links (h_netlink H) (map flannelLinkName (map_keys knownNetworksVNIs)) links w3))))"

section \<open>Lemmas\<close>

text \<open>What the requests that carry a revision do, with the other writers of \<open>rely\<close>.\<close>

definition rev_contract :: "'w host \<Rightarrow> ('w \<Rightarrow> keyspace) \<Rightarrow> (keyspace \<Rightarrow> keyspace \<Rightarrow> bool) \<Rightarrow> bool" where
  "rev_contract H kv rely \<longleftrightarrow> etcd_contract (h_etcd H) kv rely \<and>
     (\<forall>k w. rely (kv w) (kv (snd (GetRev H k w)))) \<and>
     (\<forall>k w v n w'. GetRev H k w = (Inr (Some (v, n)), w') \<longrightarrow> kv w' k = Some v) \<and>
     (\<forall>k w w'. GetRev H k w = (Inr None, w') \<longrightarrow> kv w' k = None) \<and>
     (\<forall>k n w r w'. DeleteAtRev H k n w = (r, w') \<longrightarrow> (\<exists>m. rely (kv w) m \<and>
        (case r of Inr True \<Rightarrow> kv w' = m(k := None) | Inr False \<Rightarrow> kv w' = m | Inl _ \<Rightarrow> kv w' = m \<or> kv w' = m(k := None))))"

lemma rev_etcd: "rev_contract H kv rely \<Longrightarrow> etcd_contract (h_etcd H) kv rely"
  by (simp add: rev_contract_def)

lemma GetRev_rely: "rev_contract H kv rely \<Longrightarrow> GetRev H k w = (r, w') \<Longrightarrow> rely (kv w) (kv w')"
  unfolding rev_contract_def by (metis snd_conv)

lemma GetRev_found: "rev_contract H kv rely \<Longrightarrow> GetRev H k w = (Inr (Some (v, n)), w') \<Longrightarrow> kv w' k = Some v"
  unfolding rev_contract_def by blast

lemma GetRev_missing: "rev_contract H kv rely \<Longrightarrow> GetRev H k w = (Inr None, w') \<Longrightarrow> kv w' k = None"
  unfolding rev_contract_def by blast

lemma DeleteAtRev_rely:
  assumes "rev_contract H kv rely" and "DeleteAtRev H k n w = (r, w')"
  obtains m where "rely (kv w) m" and "r = Inr True \<Longrightarrow> kv w' = m(k := None)" and "r = Inr False \<Longrightarrow> kv w' = m"
    and "kv w' = m \<or> kv w' = m(k := None)"
proof -
  have "\<exists>m. rely (kv w) m \<and>
        (case r of Inr True \<Rightarrow> kv w' = m(k := None) | Inr False \<Rightarrow> kv w' = m | Inl _ \<Rightarrow> kv w' = m \<or> kv w' = m(k := None))"
    using assms unfolding rev_contract_def by blast
  then obtain m where "rely (kv w) m"
    "case r of Inr True \<Rightarrow> kv w' = m(k := None) | Inr False \<Rightarrow> kv w' = m | Inl _ \<Rightarrow> kv w' = m \<or> kv w' = m(k := None)" by blast
  then show thesis by (intro that [of m]) (auto split: sum.splits bool.splits)
qed

text \<open>A key that, once written, keeps its value.\<close>

definition write_once :: "string \<Rightarrow> (keyspace \<Rightarrow> keyspace \<Rightarrow> bool) \<Rightarrow> bool" where
  "write_once k rely \<longleftrightarrow> (\<forall>m m' v. rely m m' \<longrightarrow> m k = Some v \<longrightarrow> m' k = Some v)"

lemma readNetworkConfig_rely:
  assumes R: "rev_contract H kv rely" and X: "readNetworkConfig H n w = (r, w')"
  shows "rely (kv w) (kv w')"
    and "r = Inr None \<Longrightarrow> kv w' (flannelConfigKey n) = None"
    and "r = Inr (Some (c, revision)) \<Longrightarrow>
      \<exists>v. kv w' (flannelConfigKey n) = Some v \<and> snd (json_config (h_codecs H)) v = Some c"
proof -
  obtain x w1 where cn: "conn_new (h_etcd H) w = (x, w1)" by fastforce
  obtain y w2 where g: "GetRev H (flannelConfigKey n) w1 = (y, w2)" by fastforce
  note rs = conn_new_rely [OF rev_etcd [OF R] cn] GetRev_rely [OF R g]
  show "rely (kv w) (kv w')"
    using X cn g rs etcd_rely_trans [OF rev_etcd [OF R] rs]
    by (auto simp: readNetworkConfig_def WithConnection_def split: option.splits sum.splits)
  show "kv w' (flannelConfigKey n) = None" if "r = Inr None"
    using X cn g that GetRev_missing [OF R]
    by (auto simp: readNetworkConfig_def WithConnection_def split: option.splits sum.splits)
  show "\<exists>v. kv w' (flannelConfigKey n) = Some v \<and> snd (json_config (h_codecs H)) v = Some c"
    if "r = Inr (Some (c, revision))"
    using X cn g that GetRev_found [OF R]
    by (auto simp: readNetworkConfig_def WithConnection_def split: option.splits sum.splits)
qed

text \<open>A transaction that creates a key.\<close>

lemma commit_create:
  assumes "etcd_contract E kv rely" and "commit E [CreateRev0 k] [OpPut k v] [] w = (Inr t, w')"
  obtains m where "rely (kv w) m" and "Succeeded t = (m k = None)" and "kv w' = (if Succeeded t then m(k \<mapsto> v) else m)"
  by (rule commit_Inr [OF assms]) (auto simp: run_ops_Cons intro: that)


text \<open>A host over the reference etcd and kernel: flanneld starts as process 1 and writes the given lines.\<close>

type_synonym ref_pair = "ref_world \<times> ref_kernel_state"

definition ref_host :: "bootstrap \<Rightarrow> string list \<Rightarrow> network_codecs \<Rightarrow> ref_pair host" where
  "ref_host b lines J = \<lparr>h_etcd = lift_env ref_env, h_netlink = lift_netlink ref_netlink, h_hostname = ''node1'',
     h_codecs = J,
     GetRev = (\<lambda>k w. (Inr (map_option (\<lambda>v. (v, 1)) (ref_kv (fst w) k)), w)),
     DeleteAtRev = (\<lambda>k n w. if (n = 0) = (ref_kv (fst w) k = None)
        then (Inr True, (map_del k (fst (fst w)), snd (fst w)), snd w) else (Inr False, w)),
     LockNewMutex = (\<lambda>k w. (Inr (), w)), UnlockAndCloseSession = id,
     StartFlanneld = (\<lambda>args w. (Inr 1, w)), AwaitBootstrap = (\<lambda>p w. (b, w)),
     SignalTerm = (\<lambda>p w. (Inr (), w)), SignalZero = (\<lambda>p w. (None, w)),
     Stat = (\<lambda>f w. (FileExists, w)), RemoveFile = (\<lambda>f w. (Inr (), w)),
     ReadLines = (\<lambda>f w. (Inr (lines, None), w)), LocalAddrs = (\<lambda>w. (Inr [], w))\<rparr>"

lemma ref_host_simps [simp]:
  "h_etcd (ref_host b ls J) = lift_env ref_env" "h_netlink (ref_host b ls J) = lift_netlink ref_netlink"
  "h_hostname (ref_host b ls J) = ''node1''" "h_codecs (ref_host b ls J) = J"
  "GetRev (ref_host b ls J) k w = (Inr (map_option (\<lambda>v. (v, 1)) (ref_kv (fst w) k)), w)"
  "LockNewMutex (ref_host b ls J) k w = (Inr (), w)" "UnlockAndCloseSession (ref_host b ls J) w = w"
  "StartFlanneld (ref_host b ls J) args w = (Inr 1, w)" "AwaitBootstrap (ref_host b ls J) p w = (b, w)"
  "SignalTerm (ref_host b ls J) p w = (Inr (), w)" "SignalZero (ref_host b ls J) p w = (None, w)" "Stat (ref_host b ls J) f w = (FileExists, w)"
  "RemoveFile (ref_host b ls J) f w = (Inr (), w)" "ReadLines (ref_host b ls J) f w = (Inr (ls, None), w)"
  "LocalAddrs (ref_host b ls J) w = (Inr [], w)"
  by (simp_all add: ref_host_def)

lemma DeleteAtRev_ref: "DeleteAtRev (ref_host b ls J) k n w =
    (if (n = 0) = (ref_kv (fst w) k = None) then (Inr True, (map_del k (fst (fst w)), snd (fst w)), snd w) else (Inr False, w))"
  by (simp add: ref_host_def)

lemma rev_contract_ref: "rev_contract (ref_host b ls J) (\<lambda>w. ref_kv (fst w)) (=)"
  unfolding rev_contract_def
  by (intro conjI) (auto simp: etcd_contract_lift [OF etcd_contract_ref] DeleteAtRev_ref map_get_del_fun split: if_splits)

text \<open>Codecs that round trip on the values of the examples.\<close>

definition demo_ncodecs :: network_codecs where
  "demo_ncodecs = \<lparr>json_config = (\<lambda>c. if c = \<lparr>cf_Network = cf_Network c, cf_SubnetLen = 24, cf_Backend = \<lparr>bc_Type = ''vxlan'', bc_VNI = 5\<rparr>\<rparr>
        then Some (cf_Network c) else None,
      \<lambda>s. Some \<lparr>cf_Network = s, cf_SubnetLen = 24, cf_Backend = \<lparr>bc_Type = ''vxlan'', bc_VNI = 5\<rparr>\<rparr>),
     json_subnet = (\<lambda>s. None), json_endpoint = demo_ejson\<rparr>"

lemma demo_ncodecs_config: "\<forall>c s. fst (json_config demo_ncodecs) c = Some s \<longrightarrow> snd (json_config demo_ncodecs) s = Some c"
  by (simp add: demo_ncodecs_def)

definition demo_network :: network where
  "demo_network = NewNetwork (ref_host BootstrapDone [] demo_ncodecs) net_client ''web'' (v4net 167772160 16) 24 [] 5"


lemma etcd_Delete_Inl_alone:
  assumes "etcd_contract E kv (=)" and "etcd_Delete E k w = (Inl e, w')"
  shows "kv w' = kv w \<or> kv w' = (kv w)(k := None)"
proof -
  have t: "commit E [] [OpDelete k] [] w = (Inl e, w')"
    using assms(2) by (auto simp: etcd_Delete_def split: prod.splits sum.splits)
  show ?thesis by (rule commit_Inl [OF assms(1) t]) (auto simp: txn_effect_def)
qed

text \<open>
  With no other writer, a successful \<open>cleanupEtcdData\<close> deletes the configuration of the network
  and the lease of this node and nothing else; when the configuration is for another subnet it is an
  error and the configuration stays.
\<close>

theorem cleanupEtcdData_exact:
  assumes R: "rev_contract H kv (=)" and X: "cleanupEtcdData H n w = (r, w')"
  shows "(r = Inr () \<longrightarrow> kv w' = (kv w)(flannelConfigSubnetKey n (hostSubnet n) := None, flannelConfigKey n := None)) \<and>
    (\<forall>v c. kv w (flannelConfigKey n) = Some v \<and> snd (json_config (h_codecs H)) v = Some c \<and>
       cf_Network c \<noteq> ipnet_String (networkSubnet n) \<longrightarrow> r \<noteq> Inr () \<and> kv w' (flannelConfigKey n) = Some v)"
proof -
  let ?E = "h_etcd H" and ?k = "flannelConfigKey n" and ?s = "flannelConfigSubnetKey n (hostSubnet n)"
  let ?foreign = "\<lambda>result. case result of None \<Rightarrow> False | Some (c, _) \<Rightarrow> cf_Network c \<noteq> ipnet_String (networkSubnet n)"
  note C = rev_etcd [OF R]
  have neq: "?s \<noteq> ?k" by (simp add: flannelConfigSubnetKey_def flannelConfigKey_def)
  obtain x w0 where cn: "conn_new ?E w = (x, w0)" by fastforce
  obtain y w1 where dl: "etcd_Delete ?E ?s w0 = (y, w1)" by fastforce
  obtain res w2 where rd: "readNetworkConfig H n w1 = (res, w2)" by fastforce
  have k0: "kv w0 = kv w" using conn_new_rely [OF C cn] by simp
  have k1: "y = Inr () \<Longrightarrow> kv w1 = (kv w)(?s := None)" "kv w1 ?k = kv w ?k"
    using etcd_Delete_alone [OF C] etcd_Delete_Inl_alone [OF C] dl k0 neq by (cases y; fastforce)+
  have k2: "kv w2 = kv w1" using readNetworkConfig_rely(1) [OF R rd] by simp
  note unfold = cleanupEtcdData_def WithConnection_def
  have failed: ?thesis if "\<exists>e. r = Inl e" "kv w' ?k = kv w ?k" using that by auto
  consider (stop) "x \<noteq> None" | (undeleted) e where "x = None" "y = Inl e" | (unread) e where "x = None" "y = Inr ()" "res = Inl e"
    | (foreign) result where "x = None" "y = Inr ()" "res = Inr result" "?foreign result"
    | (own) result where "x = None" "y = Inr ()" "res = Inr result" "\<not> ?foreign result"
    by (cases x; cases y; cases res) auto
  then show ?thesis
  proof cases
    case stop
    then obtain b where "x = Some b" by blast
    with X cn have "(r, w') = (Inl (if b then Panic ''nil client'' else ConnectError), w0)" by (simp add: unfold)
    then show ?thesis using k0 by (intro failed) auto
  next
    case undeleted
    with X cn dl have "(r, w') = (Inl e, w1)" by (simp add: unfold)
    then show ?thesis using k1(2) by (intro failed) auto
  next
    case unread
    with X cn dl rd have "(r, w') = (Inl e, w2)" by (simp add: unfold)
    then show ?thesis using k1(2) k2 by (intro failed) auto
  next
    case foreign
    with X cn dl rd have "(r, w') = (Inl (OtherError ''the flannel config has an unexpected network''), w2)" by (simp add: unfold)
    then show ?thesis using k1(2) k2 by (intro failed) auto
  next
    case own
    obtain z w3 where d: "DeleteAtRev H ?k (case result of None \<Rightarrow> 0 | Some (_, revision) \<Rightarrow> revision) w2 = (z, w3)" by fastforce
    obtain g w4 where get: "etcd_Get ?E ?k w3 = (g, w4)" by fastforce
    have not_foreign: "\<not> (\<exists>v c. kv w ?k = Some v \<and> snd (json_config (h_codecs H)) v = Some c \<and> cf_Network c \<noteq> ipnet_String (networkSubnet n))"
      using own(4) readNetworkConfig_rely(2,3) [OF R rd] k1(2) k2 own(3) by (cases result) auto
    have X: "(r, w') = (case z of Inl e \<Rightarrow> (Inl e, w3) | Inr True \<Rightarrow> (Inr (), w3)
        | Inr False \<Rightarrow> (case g of Inl e \<Rightarrow> (Inl e, w4)
            | Inr kvs \<Rightarrow> (if kvs \<noteq> [] then Inl (OtherError ''error deleting flannel network config'') else Inr (), w4)))"
      using X cn dl rd own d get by (auto simp: cleanupEtcdData_def WithConnection_def split: sum.splits bool.splits)
    obtain m where m: "kv w2 = m" "z = Inr True \<Longrightarrow> kv w3 = m(?k := None)" "z = Inr False \<Longrightarrow> kv w3 = m"
      using DeleteAtRev_rely [OF R d] by metis
    have "kv w' = (kv w)(?s := None, ?k := None)" if ok: "r = Inr ()"
    proof (cases "z = Inr True")
      case True
      then show ?thesis using X m k1(1) k2 own(2) by simp
    next
      case False
      with X ok have z: "z = Inr False" and "g = Inr []" "w' = w4" by (auto split: sum.splits bool.splits if_splits)
      with etcd_Get_Inr [OF C get [unfolded \<open>g = Inr []\<close>]] have "kv w' = kv w3" "kv w' ?k = None"
        by (auto split: option.splits)
      then have "kv w' = (kv w3)(?k := None)" by (metis fun_upd_triv)
      then show ?thesis using m z k1(1) k2 own(2) by simp
    qed
    with not_foreign show ?thesis by blast
  qed
qed

theorem cleanupEtcdData_exact_witness:
  "\<exists>w'. cleanupEtcdData (ref_host BootstrapDone [] demo_ncodecs) demo_network
      (([(flannelConfigKey demo_network, ipnet_String (networkSubnet demo_network))], 0), demo_kernel) = (Inr (), w') \<and>
    ref_kv (fst w') = (\<lambda>_. None)"
proof -
  let ?w = "(([(flannelConfigKey demo_network, ipnet_String (networkSubnet demo_network))], 0), demo_kernel) :: ref_pair"
  have neq: "flannelConfigKey demo_network \<noteq> flannelConfigSubnetKey demo_network z" for z
    by (simp add: flannelConfigSubnetKey_def flannelConfigKey_def)
  obtain w' where X: "cleanupEtcdData (ref_host BootstrapDone [] demo_ncodecs) demo_network ?w = (Inr (), w')"
    using neq by (simp add: cleanupEtcdData_def readNetworkConfig_def WithConnection_def in_fst_def ref_commit_def etcd_Delete_def
        demo_ncodecs_def DeleteAtRev_ref map_del_def Let_def)
  with cleanupEtcdData_exact [OF rev_contract_ref X] show ?thesis by auto
qed

text \<open>The lines that flanneld writes.\<close>

lemma trim_space_id: "s \<noteq> [] \<Longrightarrow> \<not> is_space (hd s) \<Longrightarrow> \<not> is_space (last s) \<Longrightarrow> trim_space s = s"
proof -
  have d: "dropWhile is_space t = t" if "t \<noteq> []" "\<not> is_space (hd t)" for t using that by (cases t) auto
  show "s \<noteq> [] \<Longrightarrow> \<not> is_space (hd s) \<Longrightarrow> \<not> is_space (last s) \<Longrightarrow> trim_space s = s"
    by (simp add: trim_space_def d hd_rev)
qed

lemma load_line_key:
  assumes "CHR ''='' \<notin> set key" and "v \<noteq> []" and "\<not> is_space (last v)"
  shows "load_line H (''FLANNEL_'' @ key @ ''='' @ v) =
    (if key = ''NETWORK'' then set_network_subnet v else if key = ''SUBNET'' then set_host_subnet H v
     else if key = ''MTU'' then set_mtu v else returnP ())"
proof -
  let ?l = "''FLANNEL_'' @ key @ ''='' @ v"
  have "trim_space ?l = ?l" using assms by (intro trim_space_id) (auto simp: is_space_def)
  moreover have "takeWhile (\<lambda>c. c \<noteq> CHR ''='') ?l = ''FLANNEL_'' @ key" "tl (dropWhile (\<lambda>c. c \<noteq> CHR ''='') ?l) = v"
    using assms(1) by (auto simp: takeWhile_append dropWhile_append)
  moreover have "trim_prefix ''FLANNEL_'' (''FLANNEL_'' @ key) = key" by (rule trim_prefix_append)
  ultimately show ?thesis unfolding load_line_def Let_def by auto
qed

lemma format_dec_last: "is_digit (last (format_dec k))"
  using format_dec_digits [of k] format_dec_nonempty [of k] by (simp add: list_all_iff)

lemma digit_no_space: "is_digit c \<Longrightarrow> \<not> is_space c"
  by (auto simp: is_digit_def is_space_def)

lemma Atoi_format_dec: "k < 2 ^ 63 \<Longrightarrow> Atoi (format_dec k) = Some (int k)"
proof -
  assume k: "k < 2 ^ 63"
  have "is_digit (hd (format_dec k))" using format_dec_digits [of k] format_dec_nonempty [of k] by (cases "format_dec k") auto
  then have "hd (format_dec k) \<noteq> CHR ''-''" "hd (format_dec k) \<noteq> CHR ''+''" by (auto simp: is_digit_def)
  moreover have "int k < 2 ^ 63" using k by (metis of_nat_less_iff of_nat_numeral of_nat_power)
  ultimately show ?thesis by (simp add: Atoi_def Let_def)
qed

text \<open>
  C27: The file of flanneld is read back as the subnets, gateway and MTU that it was written with: the
  network then has an address pool over the subnet of the node, kept under the key of that subnet.
\<close>

theorem flannel_env_read:
  assumes "length x = 4" and "length y = 4" and "a \<le> 32" and "b \<le> 32" and "m < 2 ^ 63"
  shows "forP (load_line H) [''FLANNEL_NETWORK='' @ dotted x @ ''/'' @ format_dec a,
      ''FLANNEL_SUBNET='' @ dotted y @ ''/'' @ format_dec b, ''FLANNEL_MTU='' @ format_dec m, ''FLANNEL_IPMASQ=true''] (n, w) =
    (let network = \<lparr>net_ip = ip_and x (cidr_mask a 4), net_mask = cidr_mask a 4\<rparr>;
         subnet = \<lparr>net_ip = ip_and y (cidr_mask b 4), net_mask = cidr_mask b 4\<rparr>
     in case NewEtcdBasedAddressPool (h_etcd H) (flannelID n) subnet
           (CreateSubClient (nw_client n) [flannelID n, ''host-subnets'', SubnetToKey (ipnet_String subnet)]) w of
          None \<Rightarrow> None
        | Some (Inl e, w1) \<Rightarrow> Some (Inl e, n\<lparr>networkSubnet := network\<rparr>, w1)
        | Some (Inr pool, w1) \<Rightarrow> Some (Inr (), n\<lparr>networkSubnet := network, hostSubnet := subnet,
            localGateway := v4_prefix @ y, nw_mtu := int m, nw_pool := Some pool\<rparr>, w1))"
proof -
  have l: "\<not> is_space (last (s @ format_dec k))" for s k
    using digit_no_space [OF format_dec_last] by simp
  have "load_line H (''FLANNEL_NETWORK='' @ dotted x @ ''/'' @ format_dec a) = set_network_subnet (dotted x @ ''/'' @ format_dec a)"
    using load_line_key [of "''NETWORK''" "dotted x @ ''/'' @ format_dec a" H] l [of "dotted x @ ''/''" a] by simp
  moreover have "load_line H (''FLANNEL_SUBNET='' @ dotted y @ ''/'' @ format_dec b) = set_host_subnet H (dotted y @ ''/'' @ format_dec b)"
    using load_line_key [of "''SUBNET''" "dotted y @ ''/'' @ format_dec b" H] l [of "dotted y @ ''/''" b] by simp
  moreover have "load_line H (''FLANNEL_MTU='' @ format_dec m) = set_mtu (format_dec m)"
    using load_line_key [of "''MTU''" "format_dec m" H] l [of "[]" m] by simp
  moreover have "load_line H ''FLANNEL_IPMASQ=true'' = returnP ()"
    using load_line_key [of "''IPMASQ''" "''true''" H] by (simp add: is_space_def)
  ultimately show ?thesis
    using ParseCIDR_dotted [OF assms(1,3)] ParseCIDR_dotted [OF assms(2,4)] Atoi_format_dec [OF assms(5)]
    by (simp add: set_network_subnet_def set_host_subnet_def set_mtu_def bindP_def selfN_def setN_def getP_def updP_def
        ioN_opt_def returnP_def Let_def split: option.split sum.split prod.split)
qed

theorem flannel_env_read_witness:
  "forP (load_line (ref_host BootstrapDone [] demo_ncodecs)) [''FLANNEL_NETWORK='' @ dotted [10, 1, 0, 0] @ ''/'' @ format_dec 16,
      ''FLANNEL_SUBNET='' @ dotted [10, 1, 7, 1] @ ''/'' @ format_dec 24, ''FLANNEL_MTU='' @ format_dec 1450, ''FLANNEL_IPMASQ=true'']
      (demo_network, (([], 0), demo_kernel)) =
    (case NewEtcdBasedAddressPool (lift_env ref_env) ''web'' \<lparr>net_ip = [10, 1, 7, 0], net_mask = [255, 255, 255, 0]\<rparr>
           (CreateSubClient net_client [''web'', ''host-subnets'', SubnetToKey (ipnet_String \<lparr>net_ip = [10, 1, 7, 0], net_mask = [255, 255, 255, 0]\<rparr>)])
           (([], 0), demo_kernel) of
          None \<Rightarrow> None
        | Some (Inl e, w1) \<Rightarrow> Some (Inl e, demo_network\<lparr>networkSubnet := \<lparr>net_ip = [10, 1, 0, 0], net_mask = [255, 255, 0, 0]\<rparr>\<rparr>, w1)
        | Some (Inr pool, w1) \<Rightarrow> Some (Inr (), demo_network\<lparr>networkSubnet := \<lparr>net_ip = [10, 1, 0, 0], net_mask = [255, 255, 0, 0]\<rparr>,
            hostSubnet := \<lparr>net_ip = [10, 1, 7, 0], net_mask = [255, 255, 255, 0]\<rparr>,
            localGateway := v4_prefix @ [10, 1, 7, 1], nw_mtu := 1450, nw_pool := Some pool\<rparr>, w1))"
proof -
  have m: "cidr_mask 16 4 = [255, 255, 0, 0]" "cidr_mask 24 4 = [255, 255, 255, 0]" by code_simp+
  have i: "ip_and [10, 1, 0, 0] [255, 255, 0, 0] = [10, 1, 0, 0]" "ip_and [10, 1, 7, 1] [255, 255, 255, 0] = [10, 1, 7, 0]"
    by (simp_all add: ip_and_def)
  have d: "flannelID demo_network = ''web''" "nw_client demo_network = net_client"
    by (simp_all add: demo_network_def NewNetwork_def)
  show ?thesis
    using flannel_env_read [of "[10, 1, 0, 0]" "[10, 1, 7, 1]" 16 24 1450 "ref_host BootstrapDone [] demo_ncodecs" demo_network
      "(([], 0), demo_kernel)"]
    unfolding m i d ref_host_simps Let_def of_nat_numeral by simp
qed

lemma ReleaseIP_others:
  assumes "ReleaseIP E i p w = (e, p1, w1)"
  shows "j \<noteq> i \<Longrightarrow> map_get (allocatedIPs p1) j = map_get (allocatedIPs p) j"
  using assms by (auto simp: ReleaseIP_def ReleaseIPIfReserved_def split: option.splits prod.splits sum.splits if_splits)

text \<open>The addresses in use are still allocated, and no endpoint was added but those of local containers.\<close>

definition in_use_kept :: "data \<Rightarrow> etcdPool \<Rightarrow> (string \<Rightarrow> endpoint option) \<Rightarrow> network \<Rightarrow> bool" where
  "in_use_kept d p es n \<longleftrightarrow> (\<exists>p'. nw_pool n = Some p' \<and>
     (\<forall>i a. map_get (allocatedIPs p) i = Some a \<and> allocation_in_use d a \<longrightarrow> map_get (allocatedIPs p') i = Some a)) \<and>
   (\<forall>i. i \<notin> set (local_endpoint_ids d) \<longrightarrow> map_get (nw_endpoints n) i = es i)"

lemma init_endpoint_kept:
  "in_use_kept d p es (fst s) \<and> nw_pool (fst s) = pool \<Longrightarrow>
    after (init_endpoint H (local_endpoint_ids d) e) s (\<lambda>_ s1. in_use_kept d p es (fst s1) \<and> nw_pool (fst s1) = pool)"
  unfolding init_endpoint_def
  by (auto simp: in_use_kept_def lo_Some_def ep_GetInfo_def intro!: after_logE split: prod.split)

lemma init_allocation_kept:
  assumes keyed: "\<forall>i a. map_get (allocatedIPs p) i = Some a \<longrightarrow> i = ip_String (a_ip a)" and ok: "map_ok (allocatedIPs p)"
    and a: "a \<in> set (GetAllocations p)" and K: "in_use_kept d p es (fst s)"
  shows "after (init_allocation H d a) s (\<lambda>_ s1. in_use_kept d p es (fst s1))"
proof (cases "allocation_in_use d a")
  case True
  then show ?thesis using K by (simp add: init_allocation_def)
next
  case False
  let ?j = "ip_String (Ip a)"
  obtain p' where p': "nw_pool (fst s) = Some p'"
    and in_use: "\<forall>i a. map_get (allocatedIPs p) i = Some a \<and> allocation_in_use d a \<longrightarrow> map_get (allocatedIPs p') i = Some a"
    and eps: "\<forall>i. i \<notin> set (local_endpoint_ids d) \<longrightarrow> map_get (nw_endpoints (fst s)) i = es i"
    using K unfolding in_use_kept_def by blast
  obtain e p1 w1 where rel: "ReleaseIP (h_etcd H) ?j p' (snd s) = (e, p1, w1)" by (metis prod_cases3)
  have "map_get (allocatedIPs p) ?j = Some a"
  proof -
    have "a \<in> ran (map_get (allocatedIPs p))" using a ok by (simp add: GetAllocations_def set_map_vals)
    then obtain i where "map_get (allocatedIPs p) i = Some a" by (auto simp: ran_def)
    moreover from this keyed have "i = ?j" by (auto simp: Ip_def)
    ultimately show ?thesis by simp
  qed
  then have "map_get (allocatedIPs p1) i = Some x" if "map_get (allocatedIPs p) i = Some x \<and> allocation_in_use d x" for i x
    using that False in_use ReleaseIP_others [OF rel, of i] by (cases "i = ?j") auto
  then have "in_use_kept d p es ((fst s)\<lparr>nw_pool := Some p1\<rparr>)" using eps by (simp add: in_use_kept_def)
  then show ?thesis using False p' rel
    by (auto simp: init_allocation_def release_ip_def after_def errP_def returnP_def failP_def logE_def
        split: option.split sum.split err.split)
qed


text \<open>A node that runs flanneld for the network and one container in it.\<close>

definition demo_in_use :: Allocation where
  "demo_in_use = \<lparr>a_ip = [10, 0, 0, 5], allocationType = AllocationTypeContainerIP, allocatedAt = 0,
     dataKey = [], data = ''02:01''\<rparr>"

definition demo_used_pool :: etcdPool where
  "demo_used_pool = demo_pool\<lparr>allocatedIPs := [(dotted [10, 0, 0, 5], demo_in_use)], unusedIPs := []\<rparr>"

definition running_network :: network where
  "running_network = demo_network\<lparr>flannelDaemonProcess := Some 1, nw_pool := Some demo_used_pool\<rparr>"

definition running_data :: data where
  "running_data = demo_data\<lparr>containers := (containers demo_data)\<lparr>shardedData :=
     [(''node1'', [(''c1'', (new_container_info ''c1'' demo_container)\<lparr>c_IPs := [(''n1'', [10, 0, 0, 5])]\<rparr>)])]\<rparr>\<rparr>"

definition running_world :: ref_pair where
  "running_world = (([(flannelConfigKey demo_network, ipnet_String (networkSubnet demo_network))], 0), demo_kernel)"

lemma demo_network_simps [simp]:
  "flannelID demo_network = ''web''" "nw_client demo_network = net_client" "flannelDaemonProcess demo_network = None"
  "nw_endpoints demo_network = []" "nw_vni demo_network = 5" "nw_pool demo_network = None"
  "endpointsEtcdClient demo_network = CreateSubClient net_client [''web'', ''node1'', ''endpoints'']"
  by (simp_all add: demo_network_def NewNetwork_def)

lemma flannelConfigKey_cong: "flannelConfigKey (n\<lparr>flannelDaemonProcess := x, nw_pool := y\<rparr>) = flannelConfigKey n"
  by (simp add: flannelConfigKey_def flannelConfigPrefixKey_def)

lemma running_Ensure:
  "nw_Ensure (ref_host b ls demo_ncodecs) (running_network, running_world) = Some (Inr (), running_network, running_world)"
proof -
  have "SignalZero (ref_host b ls demo_ncodecs) p w = (None, w)" for p w by (simp add: ref_host_def)
  then show ?thesis
    by (simp add: nw_Ensure_def running_world_def running_network_def bindP_def selfN_def getP_def ioN_def effN_def returnP_def
        isFlannelDaemonProcessRunning_def ensureFlannelConfig_def readNetworkConfig_def WithConnection_def in_fst_def
        flannelConfigKey_cong demo_ncodecs_def check_network_def Let_def)
qed

lemma no_demo_endpoints:
  "loadEndpointsFromEtcd (lift_env ref_env) J (CreateSubClient net_client [''web'', ''node1'', ''endpoints'']) b running_world =
    (Inr [], running_world)"
proof -
  have "\<not> prefix (client_prefix (CreateSubClient net_client [''web'', ''node1'', ''endpoints''])) (flannelConfigKey demo_network)"
    by (simp add: CreateSubClient_def NewEtcdClient_def net_client_prefix GetKey_def flannelConfigKey_def flannelConfigPrefixKey_def
        trim_right_def)
  then show ?thesis
    by (simp add: loadEndpointsFromEtcd_def WithConnection_def etcd_GetPrefix_def in_fst_def ref_commit_def running_world_def
        map_vals_def Let_def)
qed


text \<open>
  Two failures of starting flanneld.  When it is not up in time and none was recorded before, the
  error is returned and nothing is done to the process: it runs on, unrecorded.  When it exits with
  status 0 before it is up the error is nil, and the use of the nil command is a panic.
\<close>

theorem startFlannel_failures:
  assumes "flannelDaemonProcess n = None" and "conn_new (h_etcd H) w = (None, w0)"
    and "LockNewMutex H (flannelLockKey n) w0 = (Inr (), w1)" and "StartFlanneld H (flannel_args n) w1 = (Inr p, w2)"
  shows "(AwaitBootstrap H p w2 = (BootstrapTimeout, w3) \<longrightarrow>
      startFlannel H (n, w) = Some (Inl (OtherError ''flanneld failed to bootstrap''), n, UnlockAndCloseSession H w3)) \<and>
    (AwaitBootstrap H p w2 = (FlanneldExited None, w3) \<longrightarrow>
      startFlannel H (n, w) = None \<or> (\<exists>t s. startFlannel H (n, w) = Some (Inl (Panic t), s)))"
proof (intro conjI impI)
  assume "AwaitBootstrap H p w2 = (BootstrapTimeout, w3)"
  then show "startFlannel H (n, w) = Some (Inl (OtherError ''flanneld failed to bootstrap''), n, UnlockAndCloseSession H w3)"
    using assms
    by (simp add: startFlannel_def start_daemon_def connN_def unlocking_def bindP_def selfN_def getP_def ioN_def effN_def
        endFlannelDaemonProcess_def logE_def returnP_def failP_def)
next
  assume "AwaitBootstrap H p w2 = (FlanneldExited None, w3)"
  then have d: "start_daemon H (flannel_args n) (n, w) = Some (Inr None, n, UnlockAndCloseSession H w3)"
    using assms by (simp add: start_daemon_def connN_def unlocking_def bindP_def selfN_def getP_def ioN_def effN_def returnP_def)
  show "startFlannel H (n, w) = None \<or> (\<exists>t s. startFlannel H (n, w) = Some (Inl (Panic t), s))"
    by (auto simp: startFlannel_def d bindP_def selfN_def getP_def attemptP_def failP_def split: option.splits sum.splits err.splits)
qed

theorem startFlannel_failures_witness:
  "startFlannel (ref_host BootstrapTimeout [] demo_ncodecs) (demo_network, running_world) =
     Some (Inl (OtherError ''flanneld failed to bootstrap''), demo_network, running_world)"
  using startFlannel_failures [of demo_network "ref_host BootstrapTimeout [] demo_ncodecs" running_world running_world running_world 1 running_world]
  by (simp add: in_fst_def running_world_def)

lemma load_endpoints_undecodable:
  assumes i: "valid_id i" and m: "(GetKey c [i], v) \<in> set kvs" and d: "distinct (map fst kvs)"
    and K: "\<forall>k \<in> fst ` set kvs. \<exists>j. valid_id j \<and> k = GetKey c [j]" and v: "snd J v = None"
  shows "map_get (load_endpoints J c b kvs []) i = Some zero_endpoint"
proof -
  have id: "split_on CHR ''/'' (trim_left CHR ''/'' (trim_prefix (client_prefix c) (GetKey c [j]))) = [j]" if "valid_id j" for j
    using item.parse_key [OF that, of c] .
  obtain xs ys where kvs: "kvs = xs @ (GetKey c [i], v) # ys" using split_list [OF m] by blast
  have other: "hd (split_on CHR ''/'' (trim_left CHR ''/'' (trim_prefix (GetKey c []) k))) \<noteq> i"
    if "k \<in> fst ` set xs \<or> k \<in> fst ` set ys" for k
  proof -
    have "k \<in> fst ` set kvs" using that kvs by auto
    then obtain j where j: "valid_id j" "k = GetKey c [j]" using K by blast
    have "GetKey c [i] \<notin> fst ` set xs \<and> GetKey c [i] \<notin> fst ` set ys" using d kvs by auto
    with that have "k \<noteq> GetKey c [i]" by metis
    then show ?thesis using j by (auto simp: id)
  qed
  have "map_get (load_endpoints J c b ys eps') i = map_get eps' i" for eps'
    by (rule load_endpoints_skip) (use other in blast)
  moreover have "map_get (load_endpoints J c b xs []) i = None"
    by (subst load_endpoints_skip) (use other in \<open>auto\<close>)
  ultimately show ?thesis unfolding kvs load_endpoints_append by (simp add: id [OF i] v)
qed

lemma delete_zero_endpoint: "delete_endpoint H zero_endpoint w = (Some (Panic ''nil etcd client''), zero_endpoint, w)"
  by (simp add: delete_endpoint_def ep_Delete_def delete_key_def with_client_def zero_endpoint_def)

lemma logE_result: "after (logE p) s (\<lambda>r _. case r of Inl e \<Rightarrow> (\<exists>t. e = Panic t) | Inr _ \<Rightarrow> True)"
  by (auto simp: after_def logE_def split: option.split sum.split err.split)

lemma init_endpoints_panic:
  assumes "[] \<notin> set ids"
  shows "after (forP (init_endpoint H ids) eps) s (\<lambda>r _. case r of Inl e \<Rightarrow> (\<exists>t. e = Panic t) | Inr _ \<Rightarrow> zero_endpoint \<notin> set eps)"
proof (induction eps arbitrary: s)
  case (Cons e eps)
  have "after (init_endpoint H ids e) s (\<lambda>r _. case r of Inl e \<Rightarrow> (\<exists>t. e = Panic t) | Inr _ \<Rightarrow> e \<noteq> zero_endpoint)"
  proof (cases "e = zero_endpoint")
    case True
    have "ei_ID (ep_GetInfo zero_endpoint) = []" by (simp add: ep_GetInfo_def zero_endpoint_def)
    then have "init_endpoint H ids e s = Some (Inl (Panic ''nil etcd client''), s)"
      using assms True by (simp add: init_endpoint_def lo_Some_def delete_zero_endpoint logE_def ioN_def)
    then show ?thesis by (simp add: after_def)
  next
    case False
    have "after (init_endpoint H ids e) s (\<lambda>r _. case r of Inl e \<Rightarrow> (\<exists>t. e = Panic t) | Inr _ \<Rightarrow> True)"
      by (simp add: init_endpoint_def logE_result)
    then show ?thesis by (rule after_mono) (use False in \<open>auto split: sum.splits\<close>)
  qed
  then show ?case
    unfolding forP.simps after_bind
  proof (rule after_mono)
    fix r s1 assume r: "case r of Inl e \<Rightarrow> (\<exists>t. e = Panic t) | Inr _ \<Rightarrow> e \<noteq> zero_endpoint"
    have rest: "after (forP (init_endpoint H ids) eps) s1
        (\<lambda>r _. case r of Inl e \<Rightarrow> (\<exists>t. e = Panic t) | Inr _ \<Rightarrow> zero_endpoint \<notin> set (e # eps))" if "e \<noteq> zero_endpoint"
      by (rule after_mono [OF Cons.IH]) (use that in \<open>auto split: sum.splits\<close>)
    show "case r of Inl x \<Rightarrow> (case Inl x of Inl e \<Rightarrow> (\<exists>t. e = Panic t) | Inr _ \<Rightarrow> zero_endpoint \<notin> set (e # eps))
        | Inr _ \<Rightarrow> after (forP (init_endpoint H ids) eps) s1
            (\<lambda>r _. case r of Inl e \<Rightarrow> (\<exists>t. e = Panic t) | Inr _ \<Rightarrow> zero_endpoint \<notin> set (e # eps))"
      using r rest by (cases r) simp_all
  qed
qed simp

text \<open>
  When the record of an endpoint of this node in etcd cannot be decoded, \<open>Init\<close> of the network
  panics: the endpoint that is loaded for it is the zero value, which has no client to delete it with.
\<close>

theorem undecodable_endpoint_panics:
  assumes C: "etcd_contract (h_etcd H) kv (=)" and E: "nw_Ensure H (n, w) = Some (Inr (), n1, w1)"
    and K: "store_keys (endpointsEtcdClient n1) (kv w1)" and i: "valid_id i"
    and v: "kv w1 (GetKey (endpointsEtcdClient n1) [i]) = Some v" "snd (json_endpoint (h_codecs H)) v = None"
    and d: "[] \<notin> set (local_endpoint_ids d)" and run: "nw_Init H d (n, w) = Some (r, n', w')"
  shows "(\<exists>e w2. loadEndpointsFromEtcd (h_etcd H) (json_endpoint (h_codecs H)) (endpointsEtcdClient n1) (nw_bridge n1) w1 = (Inl e, w2) \<and> r = Inl e) \<or>
    (\<exists>t. r = Inl (Panic t))"
proof -
  let ?c = "endpointsEtcdClient n1" and ?J = "json_endpoint (h_codecs H)"
  obtain x w2 where L: "loadEndpointsFromEtcd (h_etcd H) ?J ?c (nw_bridge n1) w1 = (x, w2)" by fastforce
  show ?thesis
  proof (cases x)
    case (Inl e)
    then have "r = Inl e" using run E L by (simp add: nw_Init_def bindP_def selfN_def getP_def ioN_def)
    then show ?thesis using L Inl by blast
  next
    case (Inr eps)
    obtain w3 kvs where cn: "conn_new (h_etcd H) w1 = (None, w3)" and g: "etcd_GetPrefix (h_etcd H) (GetKey ?c []) w3 = (Inr kvs, w2)"
      and eps: "eps = map_vals (load_endpoints ?J ?c (nw_bridge n1) kvs [])"
      using L Inr by (auto simp: loadEndpointsFromEtcd_def elim!: WithConnection_Inr split: prod.splits sum.splits)
    note G = etcd_GetPrefix_Inr [OF C g]
    have kw: "kv w2 = kv w1" using G(1) conn_new_rely [OF C cn] by simp
    have "(GetKey ?c [i], v) \<in> set kvs" using G(3) v(1) kw item.key_prefix [of ?c i] by simp
    moreover have "\<forall>k \<in> fst ` set kvs. \<exists>j. valid_id j \<and> k = GetKey ?c [j]"
      using G(3) K kw by (fastforce simp: store_keys_def)
    ultimately have "map_get (load_endpoints ?J ?c (nw_bridge n1) kvs []) i = Some zero_endpoint"
      using load_endpoints_undecodable [OF i _ G(2) _ v(2)] by blast
    then have z: "zero_endpoint \<in> set eps" by (force simp: eps map_vals_def dest: map_get_in_set)
    have "after (forP (init_endpoint H (local_endpoint_ids d)) eps) (n1, w2) (\<lambda>r _. \<exists>t. r = Inl (Panic t))"
      by (rule after_mono [OF init_endpoints_panic [OF d]]) (use z in \<open>auto split: sum.splits\<close>)
    then have "\<exists>t. r = Inl (Panic t)"
      using run E L Inr by (auto simp: nw_Init_def bindP_def selfN_def getP_def ioN_def after_def split: option.splits sum.splits)
    then show ?thesis by blast
  qed
qed

definition bad_ncodecs :: network_codecs where
  "bad_ncodecs = demo_ncodecs\<lparr>json_endpoint := (\<lambda>d. None, \<lambda>s. None)\<rparr>"

definition demo_endpoints_client :: etcdClient where
  "demo_endpoints_client = CreateSubClient net_client [''web'', ''node1'', ''endpoints'']"

definition bad_world :: ref_pair where
  "bad_world = (([(flannelConfigKey demo_network, ipnet_String (networkSubnet demo_network)),
     (GetKey demo_endpoints_client [''n1''], ''bad'')], 0), demo_kernel)"

lemma config_key_apart: "\<not> prefix (client_prefix demo_endpoints_client) (flannelConfigKey demo_network)"
  by (simp add: demo_endpoints_client_def CreateSubClient_def NewEtcdClient_def net_client_prefix GetKey_def flannelConfigKey_def
      flannelConfigPrefixKey_def trim_right_def)

lemma bad_load: "loadEndpointsFromEtcd (lift_env ref_env) (json_endpoint bad_ncodecs) demo_endpoints_client b bad_world =
    (Inr [zero_endpoint], bad_world)"
proof -
  have p: "prefix (client_prefix demo_endpoints_client) (GetKey demo_endpoints_client [''n1''])" by (rule item.key_prefix)
  have neq: "flannelConfigKey demo_network \<noteq> GetKey demo_endpoints_client [''n1'']" using config_key_apart p by auto
  have "split_on CHR ''/'' (trim_left CHR ''/'' (trim_prefix (client_prefix demo_endpoints_client) (GetKey demo_endpoints_client [''n1'']))) = [''n1'']"
    using item.parse_key [OF valid_n1] .
  then show ?thesis
    using config_key_apart p neq
    by (simp add: loadEndpointsFromEtcd_def WithConnection_def etcd_GetPrefix_def in_fst_def ref_commit_def bad_world_def
        map_vals_def bad_ncodecs_def map_put_def Let_def)
qed

theorem undecodable_endpoint_panics_witness:
  "\<exists>t s. nw_Init (ref_host BootstrapDone [] bad_ncodecs) running_data (running_network, bad_world) = Some (Inl (Panic t), s)"
proof -
  let ?H = "ref_host BootstrapDone [] bad_ncodecs"
  have c: "endpointsEtcdClient running_network = demo_endpoints_client"
    by (simp add: running_network_def demo_endpoints_client_def)
  have E: "nw_Ensure ?H (running_network, bad_world) = Some (Inr (), running_network, bad_world)"
    by (simp add: nw_Ensure_def bad_world_def running_network_def bindP_def selfN_def getP_def ioN_def effN_def returnP_def
        isFlannelDaemonProcessRunning_def ensureFlannelConfig_def readNetworkConfig_def WithConnection_def in_fst_def
        flannelConfigKey_cong bad_ncodecs_def demo_ncodecs_def check_network_def Let_def)
  have ids: "local_endpoint_ids running_data = []"
    by (simp add: local_endpoint_ids_def local_containers_def ss_GetShard_def running_data_def demo_data_def
        NewShardedDistributedStore_def map_vals_def new_container_info_def demo_container_def attach_def map_put_def)
  have zi: "ei_ID (ep_GetInfo zero_endpoint) = []" by (simp add: ep_GetInfo_def zero_endpoint_def)
  obtain r n' w' where run: "nw_Init ?H running_data (running_network, bad_world) = Some (r, n', w')"
    using E bad_load by (simp add: nw_Init_def bindP_def selfN_def getP_def ioN_def returnP_def c init_endpoint_def ids
        lo_Some_def zi logE_def delete_zero_endpoint)
  have K: "store_keys (endpointsEtcdClient running_network) (ref_kv (fst bad_world))"
    using config_key_apart valid_n1 by (auto simp: c store_keys_def bad_world_def)
  have v: "ref_kv (fst bad_world) (GetKey (endpointsEtcdClient running_network) [''n1'']) = Some ''bad''"
    using config_key_apart item.key_prefix [of demo_endpoints_client "''n1''"] by (auto simp: c bad_world_def)
  have u: "snd (json_endpoint (h_codecs ?H)) ''bad'' = None" by (simp add: bad_ncodecs_def)
  from undecodable_endpoint_panics [OF rev_etcd [OF rev_contract_ref] E K valid_n1 v u _ run] ids bad_load c run
  show ?thesis by auto
qed

text \<open>The network that a key below the prefix belongs to, and the networks that docker does not have.\<close>

definition network_of :: "etcdClient \<Rightarrow> string \<Rightarrow> string" where
  "network_of c k = hd (split_on CHR ''/'' (trim_left CHR ''/'' (trim_prefix (GetKey c []) k)))"

definition stale :: "NetworkInfo list \<Rightarrow> string \<Rightarrow> bool" where
  "stale existing i \<longleftrightarrow> (\<forall>item \<in> set existing. FlannelID item \<noteq> i)"

lemma scan_network_todelete:
  "i \<in> set (map_keys (fst (scan_network J c existing ips kv acc))) \<longleftrightarrow>
    i \<in> set (map_keys (fst acc)) \<or> (network_of c (fst kv) = i \<and> stale existing i)"
proof -
  obtain k v todelete vnis where [simp]: "kv = (k, v)" "acc = (todelete, vnis)" by (cases kv; cases acc)
  have "fst (scan_network J c existing ips kv acc) =
      (if stale existing (network_of c k) then map_put (network_of c k) () todelete else todelete)"
    by (auto simp: scan_network_def network_of_def stale_def list_ex_iff Let_def split: option.split)
  then show ?thesis by (auto simp: set_map_keys_iff)
qed

lemma scan_networks_todelete:
  "i \<in> set (map_keys (fst (fold (scan_network J c existing ips) kvs acc))) \<longleftrightarrow>
    i \<in> set (map_keys (fst acc)) \<or> (\<exists>k \<in> fst ` set kvs. network_of c k = i \<and> stale existing i)"
proof (induction kvs arbitrary: acc)
  case (Cons kv kvs)
  show ?case unfolding fold_Cons comp_apply Cons.IH scan_network_todelete by auto
qed simp

lemma etcd_DeletePrefix_alone:
  assumes C: "etcd_contract E kv (=)" and R: "reliable E"
  shows "kv (snd (etcd_DeletePrefix E p w)) = (\<lambda>k. if prefix p k then None else kv w k)"
proof -
  obtain t w' where t: "commit E [] [OpDeletePrefix p] [] w = (Inr t, w')" using R unfolding reliable_def by metis
  have "kv w' = (\<lambda>k. if prefix p k then None else kv w k)"
    by (rule commit_Inr [OF C t]) (auto simp: run_ops_Cons)
  then show ?thesis using t by (simp add: etcd_DeletePrefix_def)
qed

lemma delete_networks_alone:
  assumes C: "etcd_contract E kv (=)" and R: "reliable E"
  shows "kv (delete_networks E c is w) = (\<lambda>k. if \<exists>i \<in> set is. prefix (GetKey c [i]) k then None else kv w k)"
proof (induction "is" arbitrary: w)
  case (Cons i "is")
  obtain r w1 where 1: "etcd_DeletePrefix E (GetKey c [i]) w = (r, w1)" by fastforce
  have "kv w1 = (\<lambda>k. if prefix (GetKey c [i]) k then None else kv w k)"
    using etcd_DeletePrefix_alone [OF C R, of "GetKey c [i]" w] 1 by simp
  then show ?case using Cons.IH [of w1] 1 by (auto simp: fun_eq_iff)
qed simp

text \<open>
  What \<open>CleanupStaleNetworks\<close> deletes from etcd: the keys of every network that docker does not
  have, and with them the keys of each existing network whose id begins with the id of such a network;
  all other keys stay.
\<close>

theorem stale_networks_deleted:
  assumes C: "etcd_contract (h_etcd H) kv (=)" and R: "reliable (h_etcd H)"
    and X: "cleanup_networks_data H c existing ips w = (Inr vnis, w')"
  shows "kv w' k = (if \<exists>i. stale existing i \<and> prefix (GetKey c [i]) k \<and>
      (\<exists>k'. kv w k' \<noteq> None \<and> prefix (client_prefix c) k' \<and> network_of c k' = i) then None else kv w k)"
proof -
  obtain w1 kvs w2 where cn: "conn_new (h_etcd H) w = (None, w1)" and g: "etcd_GetPrefix (h_etcd H) (GetKey c []) w1 = (Inr kvs, w2)"
    and w': "w' = delete_networks (h_etcd H) c (map_keys (fst (fold (scan_network (h_codecs H) c existing ips) kvs ([], [])))) w2"
    using X by (auto simp: cleanup_networks_data_def elim!: WithConnection_Inr split: prod.splits sum.splits)
  note G = etcd_GetPrefix_Inr [OF C g]
  have k2: "kv w2 = kv w" using G(1) conn_new_rely [OF C cn] by simp
  have keys: "i \<in> set (map_keys (fst (fold (scan_network (h_codecs H) c existing ips) kvs ([], [])))) \<longleftrightarrow>
      stale existing i \<and> (\<exists>k'. kv w k' \<noteq> None \<and> prefix (client_prefix c) k' \<and> network_of c k' = i)" for i
  proof -
    have "(\<exists>k \<in> fst ` set kvs. network_of c k = i) \<longleftrightarrow> (\<exists>k'. kv w k' \<noteq> None \<and> prefix (client_prefix c) k' \<and> network_of c k' = i)"
    proof
      assume "\<exists>k \<in> fst ` set kvs. network_of c k = i"
      then obtain k v where "(k, v) \<in> set kvs" "network_of c k = i" by auto
      then show "\<exists>k'. kv w k' \<noteq> None \<and> prefix (client_prefix c) k' \<and> network_of c k' = i"
        using G(3) [of k v] k2 by auto
    next
      assume "\<exists>k'. kv w k' \<noteq> None \<and> prefix (client_prefix c) k' \<and> network_of c k' = i"
      then obtain k v where "kv w k = Some v" "prefix (client_prefix c) k" "network_of c k = i" by auto
      then show "\<exists>k \<in> fst ` set kvs. network_of c k = i" using G(3) [of k v] k2 by force
    qed
    then show ?thesis
      unfolding scan_networks_todelete [of i "h_codecs H" c existing ips kvs "([], [])"] by (auto simp: map_keys_def)
  qed
  have "(\<exists>i \<in> set (map_keys (fst (fold (scan_network (h_codecs H) c existing ips) kvs ([], [])))). prefix (GetKey c [i]) k) \<longleftrightarrow>
      (\<exists>i. stale existing i \<and> prefix (GetKey c [i]) k \<and>
      (\<exists>k'. kv w k' \<noteq> None \<and> prefix (client_prefix c) k' \<and> network_of c k' = i))"
    unfolding Bex_def keys by (intro ex_cong1) (simp only: conj_ac)
  then show ?thesis unfolding w' delete_networks_alone [OF C R] k2 by simp
qed

theorem stale_networks_deleted_witness:
  "\<exists>vnis w'. cleanup_networks_data (ref_host BootstrapDone [] demo_ncodecs) net_client [ni_item ''net10''] []
      (([(''/networks/net1/config'', ''a''), (''/networks/net10/config'', ''b'')], 0), demo_kernel) = (Inr vnis, w') \<and>
    ref_kv (fst w') ''/networks/net10/config'' = None"
proof -
  let ?w = "(([(''/networks/net1/config'', ''a''), (''/networks/net10/config'', ''b'')], 0), demo_kernel) :: ref_pair"
  let ?H = "ref_host BootstrapDone [] demo_ncodecs"
  obtain vnis w' where X: "cleanup_networks_data ?H net_client [ni_item ''net10''] [] ?w = (Inr vnis, w')"
    by (simp add: cleanup_networks_data_def WithConnection_def etcd_GetPrefix_def in_fst_def ref_commit_def case_prod_unfold)
  have s: "stale [ni_item ''net10''] ''net1''" by (simp add: stale_def ni_item_def)
  have p: "prefix (GetKey net_client [''net1'']) ''/networks/net10/config''"
    "prefix (client_prefix net_client) ''/networks/net1/config''"
    by (simp_all add: GetKey_def net_client_prefix)
  have n: "network_of net_client ''/networks/net1/config'' = ''net1''"
    by (simp add: network_of_def net_client_prefix trim_prefix_def)
  have "ref_kv (fst ?w) ''/networks/net1/config'' \<noteq> None" by simp
  with stale_networks_deleted [OF rev_etcd [OF rev_contract_ref] _ X, of "''/networks/net10/config''"] s p n
  show ?thesis using X reliable_lift [OF reliable_ref] by (metis ref_host_simps(1))
qed

end
