(* ===== verification/Nameserver.thy ===== *)
theory Nameserver
  imports Worlds Networking Resolver Docker_Data Init_Manager Programs "HOL-Library.Multiset"
begin

text \<open>
  \<open>plugin/pkg/dns/server.go\<close>: the name server that the plugin runs in the network namespace of each
  container: its start, the iptables rules that send the DNS traffic of the container to it, the networks
  it answers for, and the answer to a query.  Sockets, namespaces, files, the packages iptables and
  miekg/dns are not part of the repository: they are the fields of the records \<open>nshost\<close> and \<open>dnslib\<close>.
\<close>

section \<open>The host\<close>

text \<open>
  \<open>Done\<close> is the test of the context of the initialisation, whose answer may change from call to call.
  A listener is a socket and its port; \<open>GetFromPath\<close> returns the handle of a namespace.
\<close>

record 'w nshost =
  ns_kernel :: "'w kernel"
  ChainExists :: "string \<Rightarrow> string \<Rightarrow> ('w, bool) io"
  NewChain :: "string \<Rightarrow> string \<Rightarrow> ('w, unit) io"
  InsertRule :: "string \<Rightarrow> string \<Rightarrow> nat \<Rightarrow> string list \<Rightarrow> ('w, unit) io"
  ns_LinkList :: "('w, string list) io"
  ns_AddrList :: "string \<Rightarrow> ('w, ip list) io"
  WriteFile :: "string \<Rightarrow> ('w, unit) io"
  GetFromPath :: "string \<Rightarrow> ('w, nat) io"
  SetNs :: "nat \<Rightarrow> ('w, unit) io"
  CloseNs :: "nat \<Rightarrow> 'w \<Rightarrow> unit \<times> 'w"
  ListenPacket :: "string \<Rightarrow> ('w, nat \<times> nat) io"
  Listen :: "string \<Rightarrow> ('w, nat \<times> nat) io"
  CloseSocket :: "nat \<Rightarrow> 'w \<Rightarrow> unit \<times> 'w"
  ActivateAndServe :: "nat \<Rightarrow> 'w \<Rightarrow> unit \<times> 'w"
  ShutdownContext :: "nat \<Rightarrow> ('w, unit) io"
  Done :: "'w \<Rightarrow> bool \<times> 'w"

section \<open>The name server\<close>

text \<open>A server is the socket it listens on.  The ready file is empty when no hook is available.\<close>

record nameserver =
  networkNamespace :: string
  portTCP :: nat
  portUDP :: nat
  listenIP :: string
  tcpServer :: "nat option"
  udpServer :: "nat option"
  validNetworkIDs :: "(string, unit) cmap"
  isHookAvailable :: bool
  readyFile :: string
  ns_initManager :: InitManager

type_synonym ('w, 'a) nsprog = "(nameserver \<times> 'w, 'a) prog"

definition SandboxesPath :: string where "SandboxesPath = ''/hostfs/var/run/flannel-np/sandboxes''"

definition ReadyPath :: string where "ReadyPath = ''/hostfs/var/run/flannel-np/ready''"

definition adjustNamespacePath :: "string \<Rightarrow> string" where
  "adjustNamespacePath namespacePath =
     (if prefix ''/hostfs'' namespacePath then namespacePath else ''/hostfs'' @ namespacePath)"

definition new_nameserver :: "string \<Rightarrow> bool \<Rightarrow> nameserver" where
  "new_nameserver path hook = \<lparr>networkNamespace = adjustNamespacePath path, portTCP = 0, portUDP = 0,
     listenIP = ''127.0.0.33'', tcpServer = None, udpServer = None, validNetworkIDs = NewConcurrentMap,
     isHookAvailable = hook, readyFile = [], ns_initManager = NewInitManager\<rparr>"

text \<open>\<open>filepath.Join\<close> of a directory and the last part of a path, which has no slash.\<close>

definition NewNameserver :: "'w nshost \<Rightarrow> string \<Rightarrow> bool \<Rightarrow> ('w, nameserver) io" where
  "NewNameserver H path hook w =
     (let result = new_nameserver path hook; namespaceKey = last (split_on CHR ''/'' path)
      in if hook
         then (case WriteFile H (SandboxesPath @ (if namespaceKey = [] then [] else ''/'' @ namespaceKey)) w of
             (Inl e, w1) \<Rightarrow> (Inl e, w1)
           | (Inr _, w1) \<Rightarrow>
               (Inr (result\<lparr>readyFile := ReadyPath @ (if namespaceKey = [] then [] else ''/'' @ namespaceKey)\<rparr>), w1))
         else (Inr result, w))"

definition AddValidNetworkID :: "string \<Rightarrow> nameserver \<Rightarrow> nameserver" where
  "AddValidNetworkID i n = n\<lparr>validNetworkIDs := cm_Set i () (validNetworkIDs n)\<rparr>"

definition RemoveValidNetworkID :: "string \<Rightarrow> nameserver \<Rightarrow> nameserver" where
  "RemoveValidNetworkID i n = n\<lparr>validNetworkIDs := cm_Remove i (validNetworkIDs n)\<rparr>"

section \<open>Starting in the namespace\<close>

definition check_ctx :: "'w nshost \<Rightarrow> ('w, unit) nsprog" where
  "check_ctx H = bindP (effN (Done H)) (\<lambda>d. if d then failP (OtherError ''context canceled'') else returnP ())"

text \<open>
  \<open>setNamespace\<close> tries until the deadline; \<open>tries\<close> is the number of further attempts that begin before
  it.  The handle is closed whether \<open>Set\<close> succeeds or not.
\<close>

definition enter_namespace :: "'w nshost \<Rightarrow> ('w, unit) nsprog" where
  "enter_namespace H = bindP (selfN networkNamespace) (\<lambda>path.
     bindP (ioN (GetFromPath H path)) (\<lambda>ns.
     bindP (attemptP (ioN (SetNs H ns))) (\<lambda>e.
     bindP (effN (CloseNs H ns)) (\<lambda>_. errP e))))"

fun setNamespace :: "'w nshost \<Rightarrow> nat \<Rightarrow> ('w, unit) nsprog" where
  "setNamespace H 0 = bindP (attemptP (enter_namespace H)) (\<lambda>e. case e of
      None \<Rightarrow> returnP ()
    | Some lastErr \<Rightarrow> bindP (check_ctx H) (\<lambda>_. failP lastErr))"
| "setNamespace H (Suc tries) = bindP (attemptP (enter_namespace H)) (\<lambda>e. case e of
      None \<Rightarrow> returnP ()
    | Some lastErr \<Rightarrow> bindP (check_ctx H) (\<lambda>_. setNamespace H tries))"

definition startDNSServer :: "'w nshost \<Rightarrow> string \<Rightarrow> ('w, nat) nsprog" where
  "startDNSServer H connType = bindP (selfN (\<lambda>n. listenIP n @ '':0'')) (\<lambda>listenAddr.
     if connType = ''udp'' then
       bindP (ioN (ListenPacket H listenAddr)) (\<lambda>(udpConn, udpPort).
       bindP (effN (Done H)) (\<lambda>d.
       if d then bindP (effN (CloseSocket H udpConn)) (\<lambda>_. failP (OtherError ''context canceled''))
       else bindP (setN (\<lambda>n. n\<lparr>udpServer := Some udpConn, portUDP := udpPort\<rparr>)) (\<lambda>_.
            bindP (effN (ActivateAndServe H udpConn)) (\<lambda>_. returnP udpPort))))
     else if connType = ''tcp'' then
       bindP (ioN (Listen H listenAddr)) (\<lambda>(tcpListener, tcpPort).
       bindP (effN (Done H)) (\<lambda>d.
       if d then bindP (effN (CloseSocket H tcpListener)) (\<lambda>_. failP (OtherError ''context canceled''))
       else bindP (setN (\<lambda>n. n\<lparr>tcpServer := Some tcpListener, portTCP := tcpPort\<rparr>)) (\<lambda>_.
            bindP (effN (ActivateAndServe H tcpListener)) (\<lambda>_. returnP tcpPort))))
     else failP (OtherError ''unsupported connection type''))"

section \<open>The iptables rules\<close>

definition dns_rules :: "nameserver \<Rightarrow> IptablesRule list" where
  "dns_rules n = [
     \<lparr>Table = [], Chain = ''FLANNEL_DNS_OUTPUT'', RuleSpec = [''-d'', ''127.0.0.11/32'', ''-p'', ''tcp'', ''-m'', ''tcp'',
        ''--dport'', ''53'', ''-j'', ''DNAT'', ''--to-destination'', listenIP n @ '':'' @ format_dec (portTCP n)]\<rparr>,
     \<lparr>Table = [], Chain = ''FLANNEL_DNS_OUTPUT'', RuleSpec = [''-d'', ''127.0.0.11/32'', ''-p'', ''udp'', ''-m'', ''udp'',
        ''--dport'', ''53'', ''-j'', ''DNAT'', ''--to-destination'', listenIP n @ '':'' @ format_dec (portUDP n)]\<rparr>,
     \<lparr>Table = [], Chain = ''FLANNEL_DNS_POSTROUTING'', RuleSpec = [''-s'', listenIP n @ ''/32'', ''-p'', ''tcp'', ''-m'', ''tcp'',
        ''--sport'', format_dec (portTCP n), ''-j'', ''SNAT'', ''--to-source'', '':53'']\<rparr>,
     \<lparr>Table = [], Chain = ''FLANNEL_DNS_POSTROUTING'', RuleSpec = [''-s'', listenIP n @ ''/32'', ''-p'', ''udp'', ''-m'', ''udp'',
        ''--sport'', format_dec (portUDP n), ''-j'', ''SNAT'', ''--to-source'', '':53'']\<rparr>,
     \<lparr>Table = [], Chain = ''OUTPUT'', RuleSpec = [''-d'', ''127.0.0.11'', ''-j'', ''FLANNEL_DNS_OUTPUT'']\<rparr>,
     \<lparr>Table = [], Chain = ''POSTROUTING'', RuleSpec = [''-d'', ''127.0.0.11'', ''-j'', ''FLANNEL_DNS_POSTROUTING'']\<rparr>]"

definition createChainIfNecessary :: "'w nshost \<Rightarrow> string \<Rightarrow> string \<Rightarrow> ('w, unit) nsprog" where
  "createChainIfNecessary H table chain = bindP (ioN (ChainExists H table chain)) (\<lambda>b.
     if b then returnP () else ioN (NewChain H table chain))"

definition insert_rule :: "'w nshost \<Rightarrow> IptablesRule \<Rightarrow> ('w, unit) nsprog" where
  "insert_rule H rule = bindP (createChainIfNecessary H ''nat'' (Chain rule)) (\<lambda>_.
     bindP (ioN (InsertRule H ''nat'' (Chain rule) 1 (RuleSpec rule))) (\<lambda>_. check_ctx H))"

text \<open>A list of rules whose error is logged.\<close>

definition list_rules :: "'w nshost \<Rightarrow> string \<Rightarrow> ('w, string list) nsprog" where
  "list_rules H chain = effN (\<lambda>w. case iptables_List (ns_kernel H) ''nat'' chain w of
      (Inl _, w1) \<Rightarrow> ([], w1) | (Inr rules, w1) \<Rightarrow> (rules, w1))"

text \<open>Whether all chains of a group exist and have a rule; the listing has a header line.\<close>

fun chains_ready :: "'w nshost \<Rightarrow> string \<Rightarrow> string list \<Rightarrow> ('w, bool) nsprog" where
  "chains_ready H table [] = returnP True"
| "chains_ready H table (chain # chainsGroup) = bindP (check_ctx H) (\<lambda>_.
     bindP (ioN (ChainExists H table chain)) (\<lambda>b.
     if \<not> b then returnP False
     else bindP (ioN (iptables_List (ns_kernel H) table chain)) (\<lambda>rules.
          if length rules \<le> 1 then returnP False else chains_ready H table chainsGroup)))"

text \<open>
  \<open>waitForChainsWithRules\<close>: \<open>polls\<close> is the number of further checks of a group that end before the
  deadline.  Without groups it never returns.
\<close>

function wait_groups :: "'w nshost \<Rightarrow> string \<Rightarrow> string list list \<Rightarrow> string list list \<Rightarrow> nat \<Rightarrow> ('w, unit) nsprog" where
  "wait_groups H table groups (chainsGroup # rest) polls = bindP (chains_ready H table chainsGroup) (\<lambda>ready.
     if ready then returnP ()
     else case polls of
         0 \<Rightarrow> failP (OtherError ''timeout waiting for chains with rules'')
       | Suc p \<Rightarrow> wait_groups H table groups rest p)"
| "wait_groups H table [] [] polls = (\<lambda>s. None)"
| "wait_groups H table (g # groups) [] polls = wait_groups H table (g # groups) (g # groups) polls"
  by pat_completeness auto
termination
  by (relation "measures [\<lambda>(H, t, g, r, p). p, \<lambda>(H, t, g, r, p). if r = [] then 1 else 0]") auto

definition waitForChainsWithRules :: "'w nshost \<Rightarrow> string \<Rightarrow> string list list \<Rightarrow> nat \<Rightarrow> ('w, unit) nsprog" where
  "waitForChainsWithRules H table chainsGroups polls = wait_groups H table chainsGroups chainsGroups polls"

text \<open>A rule as it is listed, deleted by its words after the first two; the error is logged.\<close>

definition delete_listed :: "'w nshost \<Rightarrow> string \<Rightarrow> string \<Rightarrow> ('w, unit) nsprog" where
  "delete_listed H chain rawRule = bindP (check_ctx H) (\<lambda>_.
     if length (go_fields rawRule) < 2 then failP (Panic ''slice bounds out of range'')
     else if drop 2 (go_fields rawRule) = [] then returnP ()
     else logE (ioN (iptables_Delete (ns_kernel H) ''nat'' chain (drop 2 (go_fields rawRule)))))"

definition dockerChains :: "string list" where "dockerChains = [''DOCKER_OUTPUT'', ''DOCKER_POSTROUTING'']"

definition replaceDNATSNATRules :: "'w nshost \<Rightarrow> nat \<Rightarrow> ('w, unit) nsprog" where
  "replaceDNATSNATRules H polls =
     bindP (ioN (iptables_New (ns_kernel H))) (\<lambda>_.
     bindP (ioN (ChainExists H ''nat'' ''FLANNEL_DNS_OUTPUT'')) (\<lambda>flannelDnsOutputExists.
     bindP (if flannelDnsOutputExists
            then bindP (list_rules H ''FLANNEL_DNS_OUTPUT'') (\<lambda>rules. returnP [(''FLANNEL_DNS_OUTPUT'', rules)])
            else returnP []) (\<lambda>old.
     bindP (selfN dns_rules) (\<lambda>rules.
     bindP (forP (insert_rule H) rules) (\<lambda>_.
     bindP (if flannelDnsOutputExists then returnP old
            else bindP (waitForChainsWithRules H ''nat'' [dockerChains] polls) (\<lambda>_.
                 foldP (\<lambda>chain m. bindP (list_rules H chain) (\<lambda>rules. returnP (m @ [(chain, rules)]))) dockerChains old)) (\<lambda>rulesToDelete.
     forP (\<lambda>(chain, rules). forP (delete_listed H chain) rules) rulesToDelete))))))"

section \<open>The networks of the container\<close>

definition link_addresses :: "'w nshost \<Rightarrow> string \<Rightarrow> ip list list \<Rightarrow> ('w, ip list list) nsprog" where
  "link_addresses H link acc = effN (\<lambda>w. case ns_AddrList H link w of
      (Inl _, w1) \<Rightarrow> (acc @ [[]], w1) | (Inr addrs, w1) \<Rightarrow> (acc @ [addrs], w1))"

definition add_if_valid :: "ip list list \<Rightarrow> NetworkInfo \<Rightarrow> nameserver \<Rightarrow> nameserver" where
  "add_if_valid linkAddresses network n =
     (if Subnet network = [] then n
      else case ParseCIDR (Subnet network) of
          None \<Rightarrow> n
        | Some (_, subnet) \<Rightarrow> fold (\<lambda>a n. if ipnet_Contains subnet a then AddValidNetworkID (DockerID network) n else n)
            (concat linkAddresses) n)"

definition setAllNetworksAsValid :: "'w nshost \<Rightarrow> data \<Rightarrow> ('w, unit) nsprog" where
  "setAllNetworksAsValid H dockerData =
     bindP (ioN (ns_LinkList H)) (\<lambda>links.
     bindP (foldP (link_addresses H) links []) (\<lambda>linkAddresses.
     forP (\<lambda>network. setN (add_if_valid linkAddresses network)) (map_vals (GetAll (networks dockerData)))))"

definition startDnsServersInNamespace :: "'w nshost \<Rightarrow> nat \<Rightarrow> nat \<Rightarrow> data \<Rightarrow> ('w, unit) nsprog" where
  "startDnsServersInNamespace H tries polls dockerData =
     bindP (setNamespace H tries) (\<lambda>_.
     bindP (startDNSServer H ''tcp'') (\<lambda>_.
     bindP (startDNSServer H ''udp'') (\<lambda>_.
     bindP (replaceDNATSNATRules H polls) (\<lambda>_.
     setAllNetworksAsValid H dockerData))))"

section \<open>Activation and deactivation\<close>

text \<open>
  The goroutine of \<open>Init\<close>, which runs when this call is the first, to its end.  \<open>Wait\<close> blocks
  (\<open>None\<close>) while another initialisation is in progress.
\<close>

definition run_init :: "('w, unit) nsprog \<Rightarrow> ('w, unit) nsprog" where
  "run_init init = bindP (selfN (\<lambda>n. once_fired (ns_initManager n))) (\<lambda>fired.
     if fired then returnP ()
     else bindP (setN (\<lambda>n. n\<lparr>ns_initManager := im_Init (ns_initManager n)\<rparr>)) (\<lambda>_.
          bindP (attemptP init) (\<lambda>e.
          setN (\<lambda>n. n\<lparr>ns_initManager := (ns_initManager n)\<lparr>pc := Closed, outcome := Some e, im_done := True,
            im_err := (case e of None \<Rightarrow> im_err (ns_initManager n) | Some _ \<Rightarrow> e)\<rparr>\<rparr>))))"

definition wait_init :: "('w, err option) nsprog" where
  "wait_init = bindP (selfN (\<lambda>n. im_Wait (ns_initManager n))) (\<lambda>r. case r of
      None \<Rightarrow> (\<lambda>s. None) | Some e \<Rightarrow> returnP e)"

text \<open>
  \<open>Activate\<close>: the goroutine to its end; the result is what it sends on the channel.  The ready file is
  written also when the initialisation failed.
\<close>

definition Activate :: "'w nshost \<Rightarrow> nat \<Rightarrow> nat \<Rightarrow> data \<Rightarrow> ('w, err option) nsprog" where
  "Activate H tries polls dockerData =
     bindP (run_init (startDnsServersInNamespace H tries polls dockerData)) (\<lambda>_.
     bindP wait_init (\<lambda>e.
     bindP (selfN isHookAvailable) (\<lambda>hook.
     bindP (if hook then bindP (selfN readyFile) (\<lambda>f. logE (ioN (WriteFile H f))) else returnP ()) (\<lambda>_.
     returnP e))))"

definition shut_server :: "'w nshost \<Rightarrow> nat option \<Rightarrow> ('w, unit) nsprog" where
  "shut_server H server = (case server of None \<Rightarrow> returnP () | Some s \<Rightarrow> ioN (ShutdownContext H s))"

text \<open>\<open>pending\<close> is the rest of an initialisation that is in progress, which goes on while this waits.\<close>

definition DeactivateAndCleanup :: "'w nshost \<Rightarrow> ('w, unit) nsprog \<Rightarrow> ('w, unit) nsprog" where
  "DeactivateAndCleanup H pending =
     bindP (selfN (\<lambda>n. im_IsDone (ns_initManager n))) (\<lambda>finished.
     bindP (if finished then returnP ()
            else bindP (setN (\<lambda>n. n\<lparr>ns_initManager := im_Cancel (ns_initManager n)\<rparr>)) (\<lambda>_.
                 bindP pending (\<lambda>_. bindP wait_init (\<lambda>_. returnP ())))) (\<lambda>_.
     bindP (selfN udpServer) (\<lambda>udp. bindP (shut_server H udp) (\<lambda>_.
     bindP (selfN tcpServer) (\<lambda>tcp. shut_server H tcp)))))"

section \<open>The answer to a query\<close>

text \<open>Resource records: those of the resolver, and others as opaque text.\<close>

datatype rr = Answer_A dns_A | Foreign string

record dns_question =
  q_Name :: string
  q_Qtype :: nat

record dns_msg =
  m_Id :: nat
  m_Question :: "dns_question list"
  m_Answer :: "rr list"
  m_Ns :: "rr list"
  m_Extra :: "rr list"
  m_Rcode :: nat
  m_Truncated :: bool
  m_Authoritative :: bool
  m_RecursionAvailable :: bool

text \<open>
  The functions of package miekg/dns: \<open>SetReply\<close> is the reply to a request on a new message,
  \<open>SetRcode\<close> takes the reply, the request and the code, and \<open>UDPSize\<close> is the size of the EDNS0 option of
  a request that has one.
\<close>

record 'w dnslib =
  SetReply :: "dns_msg \<Rightarrow> dns_msg"
  SetRcode :: "dns_msg \<Rightarrow> dns_msg \<Rightarrow> nat \<Rightarrow> dns_msg"
  Truncate :: "nat \<Rightarrow> dns_msg \<Rightarrow> dns_msg"
  UDPSize :: "dns_msg \<Rightarrow> nat option"
  Exchange :: "string \<Rightarrow> dns_msg \<Rightarrow> string \<Rightarrow> ('w, dns_msg) io"
  WriteMsg :: "dns_msg \<Rightarrow> ('w, unit) io"

definition TypeA :: nat where "TypeA = 1"
definition TypePTR :: nat where "TypePTR = 12"
definition MinMsgSize :: nat where "MinMsgSize = 512"
definition MaxMsgSize :: nat where "MaxMsgSize = 65535"
definition RcodeServerFailure :: nat where "RcodeServerFailure = 2"

text \<open>The answers of the resolver, whose methods for a name and for an address are arguments.\<close>

type_synonym lookup = "string \<Rightarrow> string list \<Rightarrow> dns_A list"

definition local_answer :: "lookup \<Rightarrow> lookup \<Rightarrow> nameserver \<Rightarrow> dns_question \<Rightarrow> rr list" where
  "local_answer byName byIP n q = map Answer_A
     (if q_Qtype q = TypeA then byName (q_Name q) (cm_Keys (validNetworkIDs n))
      else if q_Qtype q = TypePTR then byIP (q_Name q) (cm_Keys (validNetworkIDs n))
      else [])"

definition forward :: "'w dnslib \<Rightarrow> dns_msg \<Rightarrow> ('w, dns_msg) io" where
  "forward L r w = (case Exchange L ''udp'' r ''8.8.4.4:53'' w of
      (Inr reply, w1) \<Rightarrow> (Inr reply, w1)
    | (Inl _, w1) \<Rightarrow> Exchange L ''tcp'' r ''8.8.4.4:53'' w1)"

definition max_size :: "'w dnslib \<Rightarrow> string \<Rightarrow> dns_msg \<Rightarrow> nat" where
  "max_size L net r = (if net = ''tcp'' then MaxMsgSize
     else case UDPSize L r of None \<Rightarrow> MinMsgSize | Some udpsize \<Rightarrow> if udpsize > MinMsgSize then udpsize else MinMsgSize)"

definition append_answers :: "rr list \<Rightarrow> rr list \<Rightarrow> rr list \<Rightarrow> dns_msg \<Rightarrow> dns_msg" where
  "append_answers a ns x m = m\<lparr>m_Answer := m_Answer m @ a, m_Ns := m_Ns m @ ns, m_Extra := m_Extra m @ x\<rparr>"

fun serve_questions ::
  "'w dnslib \<Rightarrow> (dns_question \<Rightarrow> rr list) \<Rightarrow> string \<Rightarrow> dns_msg \<Rightarrow> dns_question list \<Rightarrow> dns_msg \<Rightarrow> 'w \<Rightarrow> dns_msg \<times> 'w"
where
  "serve_questions L ans net r [] msg w = (msg, w)"
| "serve_questions L ans net r (q # qs) msg w =
     (let msg1 = append_answers (ans q) [] [] msg
      in if m_Answer msg1 = []
         then (case forward L r w of
             (Inl _, w1) \<Rightarrow> (SetRcode L msg1 r RcodeServerFailure, w1)
           | (Inr reply, w1) \<Rightarrow>
               serve_questions L ans net r qs (append_answers (m_Answer reply) (m_Ns reply) (m_Extra reply) msg1) w1)
         else serve_questions L ans net r qs (Truncate L (max_size L net r) msg1) w)"

definition serve_reply :: "'w dnslib \<Rightarrow> dns_msg \<Rightarrow> dns_msg" where
  "serve_reply L r = (SetReply L r)\<lparr>m_Authoritative := False, m_RecursionAvailable := True\<rparr>"

text \<open>\<open>net\<close> is the network of the connection; the error of the write is logged.\<close>

definition ServeDNS ::
  "'w dnslib \<Rightarrow> lookup \<Rightarrow> lookup \<Rightarrow> string \<Rightarrow> dns_msg \<Rightarrow> nameserver \<Rightarrow> 'w \<Rightarrow> 'w"
where
  "ServeDNS L byName byIP net r n w =
     (let (msg, w1) = serve_questions L (local_answer byName byIP n) net r (m_Question r) (serve_reply L r) w
      in snd (WriteMsg L msg w1))"

section \<open>What iptables promises\<close>

text \<open>
  The rules of a chain are kept in the order of evaluation and in the normal form in which they are
  listed (\<open>norm\<close>).  \<open>tb w t c\<close> are the rules of chain \<open>c\<close> of table \<open>t\<close>, if there is such a chain.
\<close>

type_synonym tables = "string \<Rightarrow> string \<Rightarrow> string list list option"

definition set_chain :: "string \<Rightarrow> string \<Rightarrow> string list list \<Rightarrow> tables \<Rightarrow> tables" where
  "set_chain t c rs T = T(t := (T t)(c \<mapsto> rs))"

text \<open>A rule whose words have no spaces: the words can be read back from the listing.\<close>

definition plain_rule :: "string list \<Rightarrow> bool" where
  "plain_rule x \<longleftrightarrow> x \<noteq> [] \<and> (\<forall>word \<in> set x. word \<noteq> [] \<and> (\<forall>ch \<in> set word. \<not> is_space ch))"

definition user_chain :: "string \<Rightarrow> bool" where
  "user_chain c \<longleftrightarrow> c \<notin> {''PREROUTING'', ''INPUT'', ''FORWARD'', ''OUTPUT'', ''POSTROUTING''}"

text \<open>Only the listing of a chain of the user begins with a line of two words.\<close>

definition ns_contract :: "'w nshost \<Rightarrow> ('w \<Rightarrow> tables) \<Rightarrow> (string list \<Rightarrow> string list) \<Rightarrow> bool" where
  "ns_contract H tb norm \<longleftrightarrow>
     (\<forall>w. tb (snd (iptables_New (ns_kernel H) w)) = tb w) \<and> (\<forall>w. tb (snd (Done H w)) = tb w) \<and>
     (\<forall>t c w r w'. ChainExists H t c w = (r, w') \<longrightarrow> tb w' = tb w \<and> (\<forall>b. r = Inr b \<longrightarrow> b = (tb w t c \<noteq> None))) \<and>
     (\<forall>t c w r w'. NewChain H t c w = (r, w') \<longrightarrow> tb w' = (if r = Inr () then set_chain t c [] (tb w) else tb w)) \<and>
     (\<forall>t c x w r w'. InsertRule H t c 1 x w = (r, w') \<longrightarrow>
        (case r of Inl _ \<Rightarrow> tb w' = tb w
         | Inr _ \<Rightarrow> \<exists>rs. tb w t c = Some rs \<and> tb w' = set_chain t c (norm x # rs) (tb w))) \<and>
     (\<forall>t c x w r w'. iptables_Delete (ns_kernel H) t c x w = (r, w') \<longrightarrow>
        (case r of Inl _ \<Rightarrow> tb w' = tb w
         | Inr _ \<Rightarrow> \<exists>rs. tb w t c = Some rs \<and> norm x \<in> set rs \<and> tb w' = set_chain t c (remove1 (norm x) rs) (tb w))) \<and>
     (\<forall>t c w r w'. iptables_List (ns_kernel H) t c w = (r, w') \<longrightarrow> tb w' = tb w \<and>
        (\<forall>ls rs. r = Inr ls \<and> tb w t c = Some rs \<and> user_chain c \<longrightarrow>
           (\<exists>header. drop 2 (go_fields header) = [] \<and> 2 \<le> length (go_fields header) \<and>
              ls = header # map (\<lambda>x. join '' '' (''-A'' # c # x)) rs)))"

text \<open>Chains of the user are listed, and rules that are there are deleted.\<close>

definition ns_answers :: "'w nshost \<Rightarrow> ('w \<Rightarrow> tables) \<Rightarrow> (string list \<Rightarrow> string list) \<Rightarrow> bool" where
  "ns_answers H tb norm \<longleftrightarrow>
     (\<forall>t c w. tb w t c \<noteq> None \<longrightarrow> (\<exists>ls. fst (iptables_List (ns_kernel H) t c w) = Inr ls)) \<and>
     (\<forall>t c x w rs. tb w t c = Some rs \<and> norm x \<in> set rs \<longrightarrow> fst (iptables_Delete (ns_kernel H) t c x w) = Inr ())"

lemma ns_contractD:
  assumes "ns_contract H tb norm"
  shows "iptables_New (ns_kernel H) w = (r0, w') \<Longrightarrow> tb w' = tb w" and "Done H w = (d, w') \<Longrightarrow> tb w' = tb w"
    and "ChainExists H t c w = (r1, w') \<Longrightarrow> tb w' = tb w" and "ChainExists H t c w = (Inr b, w') \<Longrightarrow> b = (tb w t c \<noteq> None)"
    and "NewChain H t c w = (r2, w') \<Longrightarrow> tb w' = (if r2 = Inr () then set_chain t c [] (tb w) else tb w)"
    and "InsertRule H t c 1 x w = (Inr u, w') \<Longrightarrow> \<exists>rs. tb w t c = Some rs \<and> tb w' = set_chain t c (norm x # rs) (tb w)"
    and "iptables_Delete (ns_kernel H) t c x w = (Inr u, w') \<Longrightarrow>
      \<exists>rs. tb w t c = Some rs \<and> norm x \<in> set rs \<and> tb w' = set_chain t c (remove1 (norm x) rs) (tb w)"
    and "iptables_List (ns_kernel H) t c w = (r3, w') \<Longrightarrow> tb w' = tb w"
    and "iptables_List (ns_kernel H) t c w = (Inr ls, w') \<Longrightarrow> tb w t c = Some rs \<Longrightarrow> user_chain c \<Longrightarrow>
      \<exists>header. drop 2 (go_fields header) = [] \<and> 2 \<le> length (go_fields header) \<and>
        ls = header # map (\<lambda>x. join '' '' (''-A'' # c # x)) rs"
proof -
  note K = assms [unfolded ns_contract_def]
  show "iptables_New (ns_kernel H) w = (r0, w') \<Longrightarrow> tb w' = tb w" using K by (metis snd_conv)
  show "Done H w = (d, w') \<Longrightarrow> tb w' = tb w" using K by (metis snd_conv)
  note C = K [THEN conjunct2, THEN conjunct2, THEN conjunct1, rule_format]
  show "ChainExists H t c w = (r1, w') \<Longrightarrow> tb w' = tb w" by (rule C [THEN conjunct1])
  show "ChainExists H t c w = (Inr b, w') \<Longrightarrow> b = (tb w t c \<noteq> None)" by (rule C [THEN conjunct2, rule_format]) simp_all
  show "NewChain H t c w = (r2, w') \<Longrightarrow> tb w' = (if r2 = Inr () then set_chain t c [] (tb w) else tb w)"
    by (rule K [THEN conjunct2, THEN conjunct2, THEN conjunct2, THEN conjunct1, rule_format])
  show "InsertRule H t c 1 x w = (Inr u, w') \<Longrightarrow> \<exists>rs. tb w t c = Some rs \<and> tb w' = set_chain t c (norm x # rs) (tb w)"
    using K [THEN conjunct2, THEN conjunct2, THEN conjunct2, THEN conjunct2, THEN conjunct1] by fastforce
  show "iptables_Delete (ns_kernel H) t c x w = (Inr u, w') \<Longrightarrow>
      \<exists>rs. tb w t c = Some rs \<and> norm x \<in> set rs \<and> tb w' = set_chain t c (remove1 (norm x) rs) (tb w)"
    using K [THEN conjunct2, THEN conjunct2, THEN conjunct2, THEN conjunct2, THEN conjunct2, THEN conjunct1] by fastforce
  note L = K [THEN conjunct2, THEN conjunct2, THEN conjunct2, THEN conjunct2, THEN conjunct2, THEN conjunct2, rule_format]
  show "iptables_List (ns_kernel H) t c w = (r3, w') \<Longrightarrow> tb w' = tb w" using L by blast
  show "iptables_List (ns_kernel H) t c w = (Inr ls, w') \<Longrightarrow> tb w t c = Some rs \<Longrightarrow> user_chain c \<Longrightarrow>
      \<exists>header. drop 2 (go_fields header) = [] \<and> 2 \<le> length (go_fields header) \<and>
        ls = header # map (\<lambda>x. join '' '' (''-A'' # c # x)) rs" using L by blast
qed

lemma go_fields_join:
  assumes "\<forall>word \<in> set ws. word \<noteq> [] \<and> (\<forall>ch \<in> set word. \<not> is_space ch)"
  shows "go_fields (join '' '' ws) = ws"
proof (cases "ws = []")
  case True
  then show ?thesis by (simp add: go_fields_def)
next
  case False
  have "set (join '' '' ws) \<subseteq> {CHR '' ''} \<union> {ch. \<not> is_space ch}"
    using set_join_chars [of "'' ''" ws] assms by auto
  then have "map (\<lambda>c. if is_space c then CHR '' '' else c) (join '' '' ws) = map (\<lambda>c. c) (join '' '' ws)"
    by (intro map_cong refl) (auto split: if_splits)
  moreover have "split_on CHR '' '' (join '' '' ws) = ws"
    by (rule split_on_join [OF False]) (use assms in \<open>auto simp: is_space_def\<close>)
  ultimately show ?thesis using assms by (simp add: go_fields_def)
qed

definition nat_rules :: "tables \<Rightarrow> string \<Rightarrow> string list list" where
  "nat_rules T c = (case T ''nat'' c of None \<Rightarrow> [] | Some rs \<Rightarrow> rs)"

definition put_rule :: "(string list \<Rightarrow> string list) \<Rightarrow> IptablesRule \<Rightarrow> tables \<Rightarrow> tables" where
  "put_rule norm rule T = set_chain ''nat'' (Chain rule) (norm (RuleSpec rule) # nat_rules T (Chain rule)) T"

lemma set_chain_twice [simp]: "set_chain t c b (set_chain t c a T) = set_chain t c b T"
  by (simp add: set_chain_def)

lemma set_chain_get: "set_chain t c a T t' c' = (if t' = t \<and> c' = c then Some a else T t' c')"
  by (simp add: set_chain_def)

lemma check_ctx_after:
  "ns_contract H tb norm \<Longrightarrow> after (check_ctx H) (n, w) (\<lambda>r s. r = Inr () \<longrightarrow> fst s = n \<and> tb (snd s) = tb w)"
  by (auto simp: check_ctx_def dest: ns_contractD(2) split: prod.split)

lemma insert_rule_after:
  assumes "ns_contract H tb norm"
  shows "after (insert_rule H rule) (n, w) (\<lambda>r s. r = Inr () \<longrightarrow> fst s = n \<and> tb (snd s) = put_rule norm rule (tb w))"
proof (rule afterI, rule impI)
  fix r s assume run: "insert_rule H rule (n, w) = Some (r, s)" and "r = Inr ()"
  obtain b w1 w2 w3 where E: "ChainExists H ''nat'' (Chain rule) w = (Inr b, w1)"
    and N: "if b then w2 = w1 else NewChain H ''nat'' (Chain rule) w1 = (Inr (), w2)"
    and I: "InsertRule H ''nat'' (Chain rule) 1 (RuleSpec rule) w2 = (Inr (), w3)"
    and C: "check_ctx H (n, w3) = Some (Inr (), s)"
    using run \<open>r = Inr ()\<close>
    by (auto simp: insert_rule_def createChainIfNecessary_def bindP_def ioN_def returnP_def split: prod.splits sum.splits if_splits)
  have "tb w2 = (if b then tb w else set_chain ''nat'' (Chain rule) [] (tb w))"
    using N ns_contractD(3,5) [OF assms] E by (auto split: if_splits)
  moreover have "b = (tb w ''nat'' (Chain rule) \<noteq> None)" using ns_contractD(4) [OF assms E] .
  ultimately have "tb w3 = put_rule norm rule (tb w)"
    using ns_contractD(6) [OF assms I] by (auto simp: put_rule_def nat_rules_def set_chain_get split: if_splits)
  with after_use [OF check_ctx_after [OF assms] C] show "fst s = n \<and> tb (snd s) = put_rule norm rule (tb w)" by simp
qed

lemma insert_rules_after:
  assumes "ns_contract H tb norm"
  shows "after (forP (insert_rule H) rules) (n, w)
    (\<lambda>r s. r = Inr () \<longrightarrow> fst s = n \<and> tb (snd s) = fold (put_rule norm) rules (tb w))"
proof (rule after_for_done)
  fix before x rest and s :: "nameserver \<times> 'a"
  assume "fst s = n \<and> tb (snd s) = fold (put_rule norm) before (tb w)"
  then show "after (insert_rule H x) s (\<lambda>r s1. r = Inr () \<longrightarrow> fst s1 = n \<and> tb (snd s1) = fold (put_rule norm) (before @ [x]) (tb w))"
    using insert_rule_after [OF assms, of x "fst s" "snd s"] by (cases s) simp
qed simp

lemma delete_listed_after:
  assumes "ns_contract H tb norm" and "ns_answers H tb norm" and "tb w ''nat'' c = Some cur"
    and "plain_rule x" and "norm x = x" and "x \<in> set cur" and "plain_rule [c]"
  shows "after (delete_listed H c (join '' '' (''-A'' # c # x))) (n, w)
    (\<lambda>r s. r = Inr () \<longrightarrow> fst s = n \<and> tb (snd s) = set_chain ''nat'' c (remove1 x cur) (tb w))"
proof (rule afterI, rule impI)
  fix r s assume run: "delete_listed H c (join '' '' (''-A'' # c # x)) (n, w) = Some (r, s)" and "r = Inr ()"
  have f: "go_fields (join '' '' (''-A'' # c # x)) = ''-A'' # c # x"
    by (rule go_fields_join) (use assms(4,7) in \<open>auto simp: plain_rule_def is_space_def\<close>)
  have x: "x \<noteq> []" using assms(4) by (simp add: plain_rule_def)
  obtain s1 where C: "check_ctx H (n, w) = Some (Inr (), s1)"
    and D: "logE (ioN (iptables_Delete (ns_kernel H) ''nat'' c x)) s1 = Some (r, s)"
    using run \<open>r = Inr ()\<close> x unfolding delete_listed_def f by (auto simp: bindP_def split: option.splits sum.splits)
  obtain w1 where s1: "s1 = (n, w1)" "tb w1 = tb w" using after_use [OF check_ctx_after [OF assms(1)] C] by (cases s1) simp
  obtain q w2 where del: "iptables_Delete (ns_kernel H) ''nat'' c x w1 = (q, w2)" by fastforce
  have "q = Inr ()" using assms(2,3,5,6) s1(2) del unfolding ns_answers_def by (metis fst_conv)
  with ns_contractD(7) [OF assms(1), of "''nat''" c x w1 "()" w2] del s1(2) assms(3,5)
  have "tb w2 = set_chain ''nat'' c (remove1 x cur) (tb w)" by auto
  then show "fst s = n \<and> tb (snd s) = set_chain ''nat'' c (remove1 x cur) (tb w)"
    using D del \<open>q = Inr ()\<close> s1(1) by (auto simp: logE_def ioN_def)
qed

lemma delete_rules_after:
  assumes "ns_contract H tb norm" and "ns_answers H tb norm" and "plain_rule [c]"
    and "tb w ''nat'' c = Some cur" and "mset old \<subseteq># mset cur" and "\<forall>x \<in> set old. plain_rule x \<and> norm x = x"
  shows "after (forP (delete_listed H c) (map (\<lambda>x. join '' '' (''-A'' # c # x)) old)) (n, w)
    (\<lambda>r s. r = Inr () \<longrightarrow> fst s = n \<and> (\<exists>rs. mset rs = mset cur - mset old \<and> tb (snd s) = set_chain ''nat'' c rs (tb w)))"
  using assms(4-6)
proof (induction old arbitrary: w cur)
  case Nil
  then have "tb w = set_chain ''nat'' c cur (tb w)" by (intro ext) (simp add: set_chain_get)
  then show ?case by (auto intro!: exI [of _ cur])
next
  case (Cons x old)
  have x: "x \<in> set cur" using Cons.prems(2) by (metis insert_subset_eq_iff mset.simps(2) set_mset_mset)
  have "mset old \<subseteq># mset (remove1 x cur)" using Cons.prems(2) by (simp add: insert_subset_eq_iff)
  note rest = Cons.IH [where cur = "remove1 x cur", OF _ this]
  have step: "after (delete_listed H c (join '' '' (''-A'' # c # x))) (n, w)
      (\<lambda>r s. r = Inr () \<longrightarrow> fst s = n \<and> tb (snd s) = set_chain ''nat'' c (remove1 x cur) (tb w))"
    using delete_listed_after [OF assms(1,2) Cons.prems(1) _ _ x assms(3)] Cons.prems(3) by simp
  have m: "mset (remove1 x cur) - mset old = mset cur - mset (x # old)" by (simp add: diff_diff_add_mset)
  show ?case
    unfolding list.map forP.simps after_bind
  proof (rule after_mono [OF step])
    fix r and s :: "nameserver \<times> 'a"
    show "r = Inr () \<longrightarrow> fst s = n \<and> tb (snd s) = set_chain ''nat'' c (remove1 x cur) (tb w) \<Longrightarrow> case r of Inl e \<Rightarrow> Inl e = Inr () \<longrightarrow> fst s = n \<and> (\<exists>rs. mset rs = mset cur - mset (x # old) \<and> tb (snd s) = set_chain ''nat'' c rs (tb w))
        | Inr _ \<Rightarrow> after (forP (delete_listed H c) (map (\<lambda>x. join '' '' (''-A'' # c # x)) old)) s
            (\<lambda>r s. r = Inr () \<longrightarrow> fst s = n \<and> (\<exists>rs. mset rs = mset cur - mset (x # old) \<and> tb (snd s) = set_chain ''nat'' c rs (tb w)))"
      (is "?step \<Longrightarrow> ?goal")
    proof -
      assume step: ?step
      show ?goal
      proof (cases r)
        case (Inr u)
        then have s: "s = (n, snd s)" "tb (snd s) = set_chain ''nat'' c (remove1 x cur) (tb w)"
          using step by (simp_all add: prod_eq_iff)
        then have "tb (snd s) ''nat'' c = Some (remove1 x cur)" by (simp add: set_chain_get)
        from rest [OF this] Cons.prems(3) m s show ?thesis using Inr by (subst s(1)) simp
      qed simp
    qed
  qed
qed

section \<open>Properties\<close>

text \<open>
  \<open>replaceDNATSNATRules\<close> on a chain of an earlier run: exactly the two new DNAT rules are in
  \<open>FLANNEL_DNS_OUTPUT\<close> afterwards, but the SNAT rules and the jumps are only ever added: those of the
  earlier runs stay below the new ones.  No other chain is touched.
\<close>

theorem dns_rules_replaced:
  assumes C: "ns_contract H tb norm" and A: "ns_answers H tb norm"
    and old: "tb w ''nat'' ''FLANNEL_DNS_OUTPUT'' = Some old" "\<forall>x \<in> set old. plain_rule x \<and> norm x = x"
    and run: "replaceDNATSNATRules H polls (n, w) = Some (Inr (), n', w')"
  shows "n' = n \<and>
    mset (nat_rules (tb w') ''FLANNEL_DNS_OUTPUT'') = mset (map (\<lambda>r. norm (RuleSpec r)) (take 2 (dns_rules n))) \<and>
    nat_rules (tb w') ''FLANNEL_DNS_POSTROUTING'' =
      map (\<lambda>r. norm (RuleSpec r)) [dns_rules n ! 3, dns_rules n ! 2] @ nat_rules (tb w) ''FLANNEL_DNS_POSTROUTING'' \<and>
    (\<forall>c j. (c, j) \<in> {(''OUTPUT'', 4), (''POSTROUTING'', 5)} \<longrightarrow>
      nat_rules (tb w') c = norm (RuleSpec (dns_rules n ! j)) # nat_rules (tb w) c) \<and>
    (\<forall>t c. t \<noteq> ''nat'' \<or> c \<notin> Chain ` set (dns_rules n) \<longrightarrow> tb w' t c = tb w t c)"
proof -
  let ?c = "''FLANNEL_DNS_OUTPUT''"
  obtain r0 w1 where i: "iptables_New (ns_kernel H) w = (r0, w1)" by fastforce
  obtain r1 w2 where e: "ChainExists H ''nat'' ?c w1 = (r1, w2)" by fastforce
  obtain r2 w3 where l: "iptables_List (ns_kernel H) ''nat'' ?c w2 = (r2, w3)" by fastforce
  have t: "tb w1 = tb w" "tb w2 = tb w" "tb w3 = tb w"
    using ns_contractD(1) [OF C i] ns_contractD(3) [OF C e] ns_contractD(8) [OF C l] by simp_all
  obtain ls where ls: "r2 = Inr ls" using A l old(1) t unfolding ns_answers_def by (metis fst_conv option.distinct(1))
  have uc: "user_chain ?c" by (simp add: user_chain_def)
  obtain header where h: "drop 2 (go_fields header) = []" "2 \<le> length (go_fields header)"
    and ls': "ls = header # map (\<lambda>x. join '' '' (''-A'' # ?c # x)) old"
    using ns_contractD(9) [OF C l [unfolded ls] _ uc] old(1) t by auto
  have r0: "r0 = Inr ()" and r1: "r1 = Inr True"
  proof -
    show "r0 = Inr ()" using run i by (cases r0) (simp_all add: replaceDNATSNATRules_def bindP_def ioN_def)
    then show "r1 = Inr True" using run i e ns_contractD(4) [OF C, of "''nat''" ?c w1 _ w2] old(1) t
      by (cases r1) (simp_all add: replaceDNATSNATRules_def bindP_def ioN_def)
  qed
  obtain s4 where ins: "forP (insert_rule H) (dns_rules n) (n, w3) = Some (Inr (), s4)"
    and del: "forP (delete_listed H ?c) ls s4 = Some (Inr (), n', w')"
    using run i e l ls r0 r1
    by (auto simp: replaceDNATSNATRules_def bindP_def ioN_def list_rules_def effN_def returnP_def selfN_def getP_def
        split: option.splits sum.splits)
  obtain w4 where s4: "s4 = (n, w4)" and t4: "tb w4 = fold (put_rule norm) (dns_rules n) (tb w)"
    using after_use [OF insert_rules_after [OF C] ins] t by (cases s4) simp
  have get4: "tb w4 ''nat'' ?c = Some (norm (RuleSpec (dns_rules n ! 1)) # norm (RuleSpec (dns_rules n ! 0)) # old)"
    using old(1) by (simp add: t4 dns_rules_def put_rule_def set_chain_get nat_rules_def)
  obtain w5 where del': "forP (delete_listed H ?c) (map (\<lambda>x. join '' '' (''-A'' # ?c # x)) old) (n, w5) = Some (Inr (), n', w')"
    and t5: "tb w5 = tb w4"
  proof -
    obtain s5 where "delete_listed H ?c header s4 = Some (Inr (), s5)"
      and rest: "forP (delete_listed H ?c) (map (\<lambda>x. join '' '' (''-A'' # ?c # x)) old) s5 = Some (Inr (), n', w')"
      using del by (auto simp: ls' bindP_def split: option.splits sum.splits)
    then have "check_ctx H (n, w4) = Some (Inr (), s5)" unfolding s4
      using h by (auto simp: delete_listed_def bindP_def returnP_def split: option.splits sum.splits)
    from after_use [OF check_ctx_after [OF C] this] have "fst s5 = n" "tb (snd s5) = tb w4" by simp_all
    then show ?thesis using that [of "snd s5"] rest by (metis prod.collapse)
  qed
  have c: "plain_rule [?c]" by (simp add: plain_rule_def is_space_def)
  note D = after_use [OF delete_rules_after [where w = w5 and n = n, OF C A c get4 [folded t5] _ old(2)] del']
  then obtain rs where rs: "n' = n" "mset rs = mset (map (\<lambda>r. norm (RuleSpec r)) (take 2 (dns_rules n)))"
    and t': "tb w' = set_chain ''nat'' ?c rs (tb w4)"
    by (fastforce simp: t5 dns_rules_def)
  have chains: "Chain ` set (dns_rules n) = {?c, ''FLANNEL_DNS_POSTROUTING'', ''OUTPUT'', ''POSTROUTING''}"
    by (auto simp: dns_rules_def)
  show ?thesis unfolding chains
    using rs by (auto simp: nat_rules_def t' t4 set_chain_get put_rule_def dns_rules_def split: option.split)
qed

lemma link_addresses_fold:
  assumes "\<forall>l w. ns_AddrList H l w = (addrs l, w)"
  shows "foldP (link_addresses H) links acc (n, w) =
    Some (Inr (acc @ map (\<lambda>l. case addrs l of Inl _ \<Rightarrow> [] | Inr xs \<Rightarrow> xs) links), n, w)"
  using assms
  by (induction links arbitrary: acc) (simp_all add: returnP_def bindP_def link_addresses_def effN_def split: sum.split)

lemma for_setN: "forP (\<lambda>x. setN (f x)) xs (n, w) = Some (Inr (), fold f xs n, w)"
  by (induction xs arbitrary: n) (simp_all add: returnP_def bindP_def setN_def updP_def)

lemma add_if_valid_keys:
  "i \<in> set (cm_Keys (validNetworkIDs (add_if_valid as network n))) \<longleftrightarrow>
     i \<in> set (cm_Keys (validNetworkIDs n)) \<or>
     DockerID network = i \<and> Subnet network \<noteq> [] \<and>
       (\<exists>x subnet. ParseCIDR (Subnet network) = Some (x, subnet) \<and> (\<exists>a \<in> set (concat as). ipnet_Contains subnet a))"
proof -
  have "i \<in> set (cm_Keys (validNetworkIDs (fold (\<lambda>a n. if ipnet_Contains s a then AddValidNetworkID j n else n) xs m))) \<longleftrightarrow>
      i \<in> set (cm_Keys (validNetworkIDs m)) \<or> j = i \<and> (\<exists>a \<in> set xs. ipnet_Contains s a)" for s j xs m
    by (induction xs arbitrary: m) (auto simp: AddValidNetworkID_def cm_Keys_def cm_Set_def set_map_keys_iff)
  then show ?thesis by (auto simp: add_if_valid_def split: option.splits)
qed

lemma fold_valid:
  assumes "\<And>x n. \<exists>v. f x n = n\<lparr>validNetworkIDs := v\<rparr>"
  shows "\<exists>v. fold f xs n = n\<lparr>validNetworkIDs := v\<rparr>"
proof (induction xs arbitrary: n)
  case Nil
  have "fold f [] n = n\<lparr>validNetworkIDs := validNetworkIDs n\<rparr>" by simp
  then show ?case ..
next
  case (Cons x xs)
  obtain v where "f x n = n\<lparr>validNetworkIDs := v\<rparr>" using assms by blast
  with Cons.IH [of "f x n"] show ?case by auto
qed

lemma add_if_valid_rest: "\<exists>v. add_if_valid as network n = n\<lparr>validNetworkIDs := v\<rparr>"
proof -
  have keep: "\<exists>v. n = n\<lparr>validNetworkIDs := v\<rparr>" for n :: nameserver
    by (rule exI [of _ "validNetworkIDs n"]) simp
  have "\<exists>v. (if c then AddValidNetworkID j n else n) = n\<lparr>validNetworkIDs := v\<rparr>" for c j n
    using keep by (auto simp: AddValidNetworkID_def)
  then show ?thesis
    using keep by (auto simp: add_if_valid_def intro!: fold_valid split: option.split)
qed

text \<open>
  A container may be asked for exactly the networks that it had before and those with a valid subnet
  that contains an address of one of its interfaces; an interface whose addresses cannot be read has none.
\<close>

theorem valid_networks_exact:
  assumes "ns_LinkList H w = (Inr links, w1)" and "\<forall>l w. ns_AddrList H l w = (addrs l, w)"
  shows "\<exists>valid. setAllNetworksAsValid H d (n, w) = Some (Inr (), n\<lparr>validNetworkIDs := valid\<rparr>, w1) \<and>
    set (cm_Keys valid) = set (cm_Keys (validNetworkIDs n)) \<union>
      {DockerID k |k x subnet l as a. k \<in> set (map_vals (GetAll (networks d))) \<and> Subnet k \<noteq> [] \<and>
         ParseCIDR (Subnet k) = Some (x, subnet) \<and> l \<in> set links \<and> addrs l = Inr as \<and> a \<in> set as \<and> ipnet_Contains subnet a}"
proof -
  let ?as = "map (\<lambda>l. case addrs l of Inl _ \<Rightarrow> [] | Inr xs \<Rightarrow> xs) links"
  have run: "setAllNetworksAsValid H d (n, w) = Some (Inr (), fold (add_if_valid ?as) (map_vals (GetAll (networks d))) n, w1)"
    by (simp add: setAllNetworksAsValid_def bindP_def ioN_def assms(1) link_addresses_fold [OF assms(2)] for_setN)
  let ?V = "\<lambda>k. Subnet k \<noteq> [] \<and> (\<exists>x subnet. ParseCIDR (Subnet k) = Some (x, subnet) \<and> (\<exists>a \<in> set (concat ?as). ipnet_Contains subnet a))"
  have keys: "i \<in> set (cm_Keys (validNetworkIDs (fold (add_if_valid ?as) ks m))) \<longleftrightarrow>
      i \<in> set (cm_Keys (validNetworkIDs m)) \<or> (\<exists>k \<in> set ks. ?V k \<and> DockerID k = i)" for i ks m
    by (induction ks arbitrary: m) (simp, simp add: add_if_valid_keys del: set_concat, blast)
  obtain valid where rest: "fold (add_if_valid ?as) (map_vals (GetAll (networks d))) n = n\<lparr>validNetworkIDs := valid\<rparr>"
    using fold_valid [of "add_if_valid ?as", OF add_if_valid_rest] by blast
  have mem: "a \<in> set (concat ?as) \<longleftrightarrow> (\<exists>l \<in> set links. \<exists>as. addrs l = Inr as \<and> a \<in> set as)" for a
    by (force split: sum.splits)
  show ?thesis
  proof (intro exI conjI)
    show "setAllNetworksAsValid H d (n, w) = Some (Inr (), n\<lparr>validNetworkIDs := valid\<rparr>, w1)" using run rest by simp
    have "i \<in> set (cm_Keys valid) \<longleftrightarrow>
        i \<in> set (cm_Keys (validNetworkIDs n)) \<or> (\<exists>k \<in> set (map_vals (GetAll (networks d))). ?V k \<and> DockerID k = i)" for i
      using keys [of i "map_vals (GetAll (networks d))" n] unfolding rest by simp
    note eq = this
    have bex: "(\<exists>a \<in> set (concat ?as). ipnet_Contains s a) \<longleftrightarrow>
        (\<exists>l \<in> set links. \<exists>as. addrs l = Inr as \<and> (\<exists>a \<in> set as. ipnet_Contains s a))" for s
      using mem by blast
    show "set (cm_Keys valid) = set (cm_Keys (validNetworkIDs n)) \<union>
      {DockerID k |k x subnet l as a. k \<in> set (map_vals (GetAll (networks d))) \<and> Subnet k \<noteq> [] \<and>
         ParseCIDR (Subnet k) = Some (x, subnet) \<and> l \<in> set links \<and> addrs l = Inr as \<and> a \<in> set as \<and> ipnet_Contains subnet a}"
      by (rule set_eqI, unfold eq bex Un_iff mem_Collect_eq) blast
  qed
qed


text \<open>The ready file is written whether the initialisation succeeded or not.\<close>

lemma Activate_ready:
  assumes "ns_initManager n = NewInitManager" and "isHookAvailable n1" and "\<forall>t. e \<noteq> Panic t"
    and "startDnsServersInNamespace H tries polls d (n\<lparr>ns_initManager := im_Init NewInitManager\<rparr>, w) = Some (Inl e, n1, w1)"
    and "WriteFile H (readyFile n1) w1 = (Inr (), w2)"
  shows "\<exists>n2. Activate H tries polls d (n, w) = Some (Inr (Some e), n2, w2)"
  using assms
  by (auto simp: Activate_def run_init_def wait_init_def bindP_def selfN_def getP_def setN_def updP_def NewInitManager_def
      attemptP_def returnP_def logE_def ioN_def im_Wait_def split: err.splits)

text \<open>The deactivation of a name server that was never activated waits for ever.\<close>

lemma Deactivate_never_activated: "ns_initManager n = NewInitManager \<Longrightarrow> DeactivateAndCleanup H (returnP ()) (n, w) = None"
  by (simp add: DeactivateAndCleanup_def bindP_def selfN_def getP_def setN_def updP_def returnP_def NewInitManager_def
      im_IsDone_def im_Cancel_def wait_init_def im_Wait_def)
section \<open>Examples\<close>

text \<open>
  A host that keeps the rules of the table nat in the form in which they are given, and whose other
  requests succeed; it shows that the contract can hold.
\<close>

type_synonym ref_ns = "(string, string list list) gomap \<times> ref_kernel_state"

definition ref_tb :: "ref_ns \<Rightarrow> tables" where
  "ref_tb w t c = (if t = ''nat'' then map_get (fst w) c else None)"

definition ref_chain :: "string \<Rightarrow> string \<Rightarrow> (string list list \<Rightarrow> bool) \<Rightarrow> (string list list \<Rightarrow> string list list) \<Rightarrow> (ref_ns, unit) io" where
  "ref_chain t c ok f w = (case ref_tb w t c of
      None \<Rightarrow> (Inl (OtherError ''no chain''), w)
    | Some rs \<Rightarrow> if ok rs then (Inr (), map_put c (f rs) (fst w), snd w) else (Inl (OtherError ''no rule''), w))"

definition ref_ns_kernel :: "ref_ns kernel" where
  "ref_ns_kernel = (lift_kernel ref_kernel)\<lparr>
     iptables_New := (\<lambda>w. (Inr (), w)),
     iptables_Delete := (\<lambda>t c x. ref_chain t c (\<lambda>rs. x \<in> set rs) (remove1 x)),
     iptables_List := (\<lambda>t c w. (case ref_tb w t c of
         None \<Rightarrow> Inl (OtherError ''no chain'')
       | Some rs \<Rightarrow> Inr ((''-N '' @ (if go_fields (''-N '' @ c) = [''-N'', c] then c else ''x'')) #
           map (\<lambda>x. join '' '' (''-A'' # c # x)) rs), w))\<rparr>"

definition ref_nshost :: "ref_ns nshost" where
  "ref_nshost = \<lparr>ns_kernel = ref_ns_kernel, ChainExists = (\<lambda>t c w. (Inr (ref_tb w t c \<noteq> None), w)),
     NewChain = (\<lambda>t c w. if t = ''nat'' then (Inr (), map_put c [] (fst w), snd w) else (Inl (OtherError ''no table''), w)),
     InsertRule = (\<lambda>t c i x. ref_chain t c (\<lambda>_. True) (\<lambda>rs. x # rs)),
     ns_LinkList = (\<lambda>w. (Inr [''lo'', ''eth0''], w)),
     ns_AddrList = (\<lambda>l w. (if l = ''eth0'' then Inr [[10, 1, 0, 7]] else Inl (OtherError ''no address''), w)),
     WriteFile = (\<lambda>f w. (Inr (), w)), GetFromPath = (\<lambda>p w. (Inr 3, w)), SetNs = (\<lambda>i w. (Inr (), w)),
     CloseNs = (\<lambda>i w. ((), w)), ListenPacket = (\<lambda>a w. (Inr (5, 4053), w)), Listen = (\<lambda>a w. (Inr (6, 4054), w)),
     CloseSocket = (\<lambda>i w. ((), w)), ActivateAndServe = (\<lambda>i w. ((), w)), ShutdownContext = (\<lambda>i w. (Inr (), w)),
     Done = (\<lambda>w. (False, w))\<rparr>"

lemma ref_tb_put: "ref_tb (map_put c rs m, k) = set_chain ''nat'' c rs (ref_tb (m, k))"
  by (intro ext) (simp add: ref_tb_def set_chain_get)

lemma ref_tb_nat: "ref_tb w t c = Some rs \<Longrightarrow> t = ''nat''"
  by (simp add: ref_tb_def split: if_splits)

lemma ref_chain_run:
  "ref_chain t c ok f w = (r, w') \<Longrightarrow> (case r of Inl _ \<Rightarrow> ref_tb w' = ref_tb w
    | Inr _ \<Rightarrow> \<exists>rs. ref_tb w t c = Some rs \<and> ok rs \<and> ref_tb w' = set_chain t c (f rs) (ref_tb w))"
  by (auto simp: ref_chain_def ref_tb_put dest: ref_tb_nat split: option.splits if_splits)

lemma ref_header: "go_fields (''-N '' @ (if go_fields (''-N '' @ c) = [''-N'', c] then c else ''x'')) =
    [''-N'', if go_fields (''-N '' @ c) = [''-N'', c] then c else ''x'']"
  by (simp add: go_fields_def is_space_def)

lemma ns_contract_ref: "ns_contract ref_nshost ref_tb id"
  unfolding ns_contract_def
proof (intro conjI allI impI)
  fix t c x and w w' :: ref_ns and r
  show "InsertRule ref_nshost t c 1 x w = (r, w') \<Longrightarrow> case r of Inl _ \<Rightarrow> ref_tb w' = ref_tb w
     | Inr _ \<Rightarrow> \<exists>rs. ref_tb w t c = Some rs \<and> ref_tb w' = set_chain t c (id x # rs) (ref_tb w)"
    using ref_chain_run [of t c "\<lambda>_. True" "\<lambda>rs. x # rs" w r w'] by (simp add: ref_nshost_def split: sum.splits)
  show "iptables_Delete (ns_kernel ref_nshost) t c x w = (r, w') \<Longrightarrow> case r of Inl _ \<Rightarrow> ref_tb w' = ref_tb w
     | Inr _ \<Rightarrow> \<exists>rs. ref_tb w t c = Some rs \<and> id x \<in> set rs \<and> ref_tb w' = set_chain t c (remove1 (id x) rs) (ref_tb w)"
    using ref_chain_run [of t c "\<lambda>rs. x \<in> set rs" "remove1 x" w r w'] by (simp add: ref_nshost_def ref_ns_kernel_def split: sum.splits)
next
  fix t c and w w' :: ref_ns and r :: "string list result" and ls rs
  assume L: "iptables_List (ns_kernel ref_nshost) t c w = (r, w')"
  then show "ref_tb w' = ref_tb w" by (simp add: ref_nshost_def ref_ns_kernel_def)
  assume "r = Inr ls \<and> ref_tb w t c = Some rs \<and> user_chain c"
  with L show "\<exists>header. drop 2 (go_fields header) = [] \<and> 2 \<le> length (go_fields header) \<and>
      ls = header # map (\<lambda>x. join '' '' (''-A'' # c # x)) rs"
    using ref_header [of c] by (auto simp: ref_nshost_def ref_ns_kernel_def)
qed (auto simp: ref_nshost_def ref_ns_kernel_def ref_tb_put split: if_splits)

lemma ns_answers_ref: "ns_answers ref_nshost ref_tb id"
  by (auto simp: ns_answers_def ref_nshost_def ref_ns_kernel_def ref_chain_def split: option.split)

definition demo_nameserver :: nameserver where
  "demo_nameserver = (new_nameserver ''/var/run/docker/netns/abc'' False)\<lparr>portTCP := 4054, portUDP := 4053\<rparr>"

definition demo_ns_world :: ref_ns where
  "demo_ns_world = ([(''FLANNEL_DNS_OUTPUT'', [[''-j'', ''RETURN'']]), (''OUTPUT'', []), (''POSTROUTING'', [])],
     \<lparr>rk_links = [], rk_addrs = [], rk_rules = [], rk_ipvs = []\<rparr>)"

lemma demo_listing: "go_fields (''-N '' @ ''FLANNEL_DNS_OUTPUT'') = [''-N'', ''FLANNEL_DNS_OUTPUT'']"
    "go_fields ''-A FLANNEL_DNS_OUTPUT -j RETURN'' = [''-A'', ''FLANNEL_DNS_OUTPUT'', ''-j'', ''RETURN'']"
  by (simp_all add: go_fields_def is_space_def)

theorem dns_rules_replaced_witness:
  "\<exists>w'. replaceDNATSNATRules ref_nshost 1 (demo_nameserver, demo_ns_world) = Some (Inr (), demo_nameserver, w') \<and>
    mset (nat_rules (ref_tb w') ''FLANNEL_DNS_OUTPUT'') = mset (map RuleSpec (take 2 (dns_rules demo_nameserver)))"
proof -
  have "\<exists>w'. replaceDNATSNATRules ref_nshost 1 (demo_nameserver, demo_ns_world) = Some (Inr (), demo_nameserver, w')"
    by (simp add: replaceDNATSNATRules_def bindP_def ioN_def effN_def returnP_def selfN_def getP_def insert_rule_def
        createChainIfNecessary_def check_ctx_def list_rules_def delete_listed_def logE_def dns_rules_def demo_ns_world_def
        ref_nshost_def ref_ns_kernel_def ref_chain_def ref_tb_def demo_listing demo_listing [simplified] map_put_def)
  then obtain w' where run: "replaceDNATSNATRules ref_nshost 1 (demo_nameserver, demo_ns_world) = Some (Inr (), demo_nameserver, w')" ..
  have "ref_tb demo_ns_world ''nat'' ''FLANNEL_DNS_OUTPUT'' = Some [[''-j'', ''RETURN'']]"
    "\<forall>x \<in> set [[''-j'', ''RETURN'']]. plain_rule x \<and> id x = x"
    by (simp_all add: demo_ns_world_def ref_tb_def plain_rule_def is_space_def)
  from dns_rules_replaced [OF ns_contract_ref ns_answers_ref this run] run show ?thesis by simp
qed

definition demo_question :: dns_msg where
  "demo_question = \<lparr>m_Id = 7, m_Question = [\<lparr>q_Name = ''web.'', q_Qtype = 1\<rparr>, \<lparr>q_Name = ''example.org.'', q_Qtype = 1\<rparr>],
     m_Answer = [], m_Ns = [], m_Extra = [], m_Rcode = 0, m_Truncated = False, m_Authoritative = False,
     m_RecursionAvailable = False\<rparr>"

definition demo_dnslib :: "dns_msg list dnslib" where
  "demo_dnslib = \<lparr>SetReply = (\<lambda>r. r\<lparr>m_Answer := []\<rparr>), SetRcode = (\<lambda>m r c. m\<lparr>m_Rcode := c\<rparr>), Truncate = (\<lambda>k m. m),
     UDPSize = (\<lambda>r. None), Exchange = (\<lambda>net r a w. (Inl (OtherError ''timeout''), w)), WriteMsg = (\<lambda>m w. (Inr (), w @ [m]))\<rparr>"

definition demo_lookup :: lookup where
  "demo_lookup nm ids = (if nm = ''web.'' then [\<lparr>rr_Name = nm, rr_Ttl = 600, rr_A = [10, 1, 0, 7]\<rparr>] else [])"


definition demo_dns_data :: data where
  "demo_dns_data = demo_data\<lparr>networks := (NewWriteOnlyStore net_client all_handlers)\<lparr>st_data :=
     [(''n1'', \<lparr>DockerID = ''n1'', FlannelID = ''f1'', Subnet = dotted [10, 1, 0, 0] @ ''/'' @ format_dec 24, Name = ''web''\<rparr>),
      (''n2'', \<lparr>DockerID = ''n2'', FlannelID = ''f2'', Subnet = [], Name = ''db''\<rparr>)]\<rparr>\<rparr>"

theorem valid_networks_exact_witness:
  "\<exists>n' w'. setAllNetworksAsValid ref_nshost demo_dns_data (demo_nameserver, demo_ns_world) = Some (Inr (), n', w') \<and>
    ''n1'' \<in> set (cm_Keys (validNetworkIDs n')) \<and> ''n2'' \<notin> set (cm_Keys (validNetworkIDs n'))"
proof -
  let ?addrs = "\<lambda>l. if l = ''eth0'' then Inr [[10, 1, 0, 7]] else Inl (OtherError ''no address'') :: ip list result"
  have l: "ns_LinkList ref_nshost demo_ns_world = (Inr [''lo'', ''eth0''], demo_ns_world)"
    and a: "\<forall>l w. ns_AddrList ref_nshost l w = (?addrs l, w)"
    by (simp_all add: ref_nshost_def)
  obtain v where run: "setAllNetworksAsValid ref_nshost demo_dns_data (demo_nameserver, demo_ns_world) =
      Some (Inr (), demo_nameserver\<lparr>validNetworkIDs := v\<rparr>, demo_ns_world)"
    and v: "set (cm_Keys v) = set (cm_Keys (validNetworkIDs demo_nameserver)) \<union>
      {DockerID k |k x subnet l as a. k \<in> set (map_vals (GetAll (networks demo_dns_data))) \<and> Subnet k \<noteq> [] \<and>
         ParseCIDR (Subnet k) = Some (x, subnet) \<and> l \<in> set [''lo'', ''eth0''] \<and> ?addrs l = Inr as \<and> a \<in> set as \<and> ipnet_Contains subnet a}"
    using valid_networks_exact [OF l a, of demo_dns_data demo_nameserver] by blast
  have c: "ipnet_Contains \<lparr>net_ip = ip_and [10, 1, 0, 0] (cidr_mask 24 4), net_mask = cidr_mask 24 4\<rparr> [10, 1, 0, 7]"
    by code_simp
  have p: "ParseCIDR (dotted [10, 1, 0, 0] @ ''/'' @ format_dec 24) =
      Some (v4_prefix @ [10, 1, 0, 0], \<lparr>net_ip = ip_and [10, 1, 0, 0] (cidr_mask 24 4), net_mask = cidr_mask 24 4\<rparr>)"
    by (rule ParseCIDR_dotted) simp_all
  have ks: "map_vals (GetAll (networks demo_dns_data)) =
      [\<lparr>DockerID = ''n1'', FlannelID = ''f1'', Subnet = dotted [10, 1, 0, 0] @ ''/'' @ format_dec 24, Name = ''web''\<rparr>,
       \<lparr>DockerID = ''n2'', FlannelID = ''f2'', Subnet = [], Name = ''db''\<rparr>]"
    by (simp add: demo_dns_data_def NewWriteOnlyStore_def GetAll_def map_vals_def)
  let ?k = "\<lparr>DockerID = ''n1'', FlannelID = ''f1'', Subnet = dotted [10, 1, 0, 0] @ ''/'' @ format_dec 24, Name = ''web''\<rparr>"
  have "''n1'' \<in> set (cm_Keys v)" unfolding v ks
  proof (intro UnI2 CollectI exI conjI)
    show "''n1'' = DockerID ?k" by simp
    show "ParseCIDR (Subnet ?k) =
        Some (v4_prefix @ [10, 1, 0, 0], \<lparr>net_ip = ip_and [10, 1, 0, 0] (cidr_mask 24 4), net_mask = cidr_mask 24 4\<rparr>)"
      using p by simp
    show "?addrs ''eth0'' = Inr [[10, 1, 0, 7]]" by simp
    show "ipnet_Contains \<lparr>net_ip = ip_and [10, 1, 0, 0] (cidr_mask 24 4), net_mask = cidr_mask 24 4\<rparr> [10, 1, 0, 7]" by (rule c)
  qed simp_all
  moreover have "''n2'' \<notin> set (cm_Keys v)" unfolding v ks
    by (auto simp: demo_nameserver_def new_nameserver_def NewConcurrentMap_def cm_Keys_def map_keys_def
        dest!: arg_cong [of _ _ Subnet])
  ultimately show ?thesis using run by simp
qed

text \<open>
  A deactivation takes the mutex of the name server and waits for the initialisation, which takes the same
  mutex for each network that it finds: when it is cancelled after its last look at the context, neither
  can go on.  The steps of the two goroutines between their looks at the mutex and the context:
\<close>

datatype init_at = Checking | AtNetworks | Returned_init
datatype deactivation_at = Idle_deactivation | Waiting_deactivation | Deactivated

record deactivation_race =
  init_at :: init_at
  deactivation_at :: deactivation_at
  ctx_done :: bool
  mutex_held :: bool

inductive race_step :: "deactivation_race \<Rightarrow> deactivation_race \<Rightarrow> bool" where
  race_cancelled: "init_at s = Checking \<Longrightarrow> ctx_done s \<Longrightarrow> race_step s (s\<lparr>init_at := Returned_init\<rparr>)"
| race_checked: "init_at s = Checking \<Longrightarrow> \<not> ctx_done s \<Longrightarrow> race_step s (s\<lparr>init_at := AtNetworks\<rparr>)"
| race_add: "init_at s = AtNetworks \<Longrightarrow> \<not> mutex_held s \<Longrightarrow> race_step s (s\<lparr>init_at := Returned_init\<rparr>)"
| race_deactivate: "deactivation_at s = Idle_deactivation \<Longrightarrow> \<not> mutex_held s \<Longrightarrow>
    race_step s (s\<lparr>deactivation_at := Waiting_deactivation, ctx_done := True, mutex_held := True\<rparr>)"
| race_waited: "deactivation_at s = Waiting_deactivation \<Longrightarrow> init_at s = Returned_init \<Longrightarrow>
    race_step s (s\<lparr>deactivation_at := Deactivated, mutex_held := False\<rparr>)"

definition race_start :: deactivation_race where
  "race_start = \<lparr>init_at = Checking, deactivation_at = Idle_deactivation, ctx_done = False, mutex_held = False\<rparr>"

theorem deactivation_deadlock:
  "\<exists>s. race_step\<^sup>*\<^sup>* race_start s \<and> init_at s = AtNetworks \<and> deactivation_at s = Waiting_deactivation \<and> (\<nexists>t. race_step s t)"
proof -
  let ?s1 = "race_start\<lparr>init_at := AtNetworks\<rparr>"
  let ?s2 = "?s1\<lparr>deactivation_at := Waiting_deactivation, ctx_done := True, mutex_held := True\<rparr>"
  have "race_step race_start ?s1" by (rule race_checked) (simp_all add: race_start_def)
  moreover have "race_step ?s1 ?s2" by (rule race_deactivate) (simp_all add: race_start_def)
  ultimately have "race_step\<^sup>*\<^sup>* race_start ?s2" by (meson converse_rtranclp_into_rtranclp r_into_rtranclp)
  moreover have "\<not> race_step ?s2 t" for t by (auto elim: race_step.cases)
  ultimately show ?thesis by (intro exI [of _ ?s2]) (simp add: race_start_def)
qed

end
