(* ===== verification/Driver.thy ===== *)
theory Driver
  imports Flannel_Network Lb_Management Nameserver Address_Space
begin

text \<open>
  \<open>plugin/pkg/driver/flannel_driver.go\<close>: the driver, which owns the address space, the flannel networks,
  the services, the load balancer management, the docker data, the resolver and the name servers, and
  reacts to what docker reports.  Networks, services and name servers are objects that several maps point to:
  the maps hold references and the state has the heaps.  A handler is one program, since the docker data and the
  stores call it while they hold their mutexes; these are not the mutex of the driver, so a request that
  interleaves with a handler is outside the model.  The goroutines that a handler starts are recorded as tasks,
  which are programs of their own.
\<close>

section \<open>State\<close>

text \<open>The packages and services that the driver reaches, and how many polls fit the waits.\<close>

record 'w drvsys =
  ds_host :: "'w host"
  ds_lb :: "'w sys"
  ds_ns :: "'w nshost"
  ds_docker :: "'w docker"
  ds_codecs :: codecs
  ds_cidr :: "ipnet \<Rightarrow> int \<Rightarrow> nat \<Rightarrow> ipnet result"
  ds_tries :: nat
  ds_polls :: nat
  MkdirAll :: "string \<Rightarrow> ('w, unit) io"

record etcdClients =
  cl_root :: etcdClient
  cl_dockerData :: etcdClient
  cl_serviceLbs :: etcdClient
  cl_addressSpace :: etcdClient
  cl_networks :: etcdClient

text \<open>What a goroutine receives from the channel that \<open>getOrAddNameserver\<close> returns.\<close>

datatype err_chan = Now "err option" | OfActivation nat

text \<open>
  The goroutines: reading the docker data at the start, creating the load balancer of a service, activating
  a name server, recording the name server of an endpoint once it is active, and giving a running container
  a name server, with the part of it that waits for the name server.
\<close>

datatype task =
    T_InitDockerData
  | T_CreateLoadBalancer nat
  | T_Activate nat
  | T_Joined string nat err_chan
  | T_Inject dContainerInfo
  | T_Injected "(string, string) gomap" nat err_chan

text \<open>
  The load balancer management carries the heap of services and the world.  \<open>d_next\<close> is the next
  unused reference.
\<close>

record 'w driver =
  d_addressSpace :: etcdAddressSpace
  d_defaultFlannelOptions :: "string list"
  d_defaultHostSubnetSize :: int
  d_networks :: "(string, string, nat) dkm"
  d_lbm :: "(nat, nat, 'w) lbm"
  d_services :: "(string, nat) cmap"
  d_data :: data
  d_completeAddressSpace :: "ipnet list"
  d_networkSubnetSize :: int
  d_vniStart :: int
  d_isInitialized :: bool
  d_bySandboxKey :: "(string, nat) cmap"
  d_byEndpointID :: "(string, nat) cmap"
  d_resolver :: "nat resolver"
  d_clients :: etcdClients
  d_isHookAvailable :: bool
  d_network_heap :: "nat \<Rightarrow> network"
  d_ns_heap :: "nat \<Rightarrow> nameserver"
  d_activated :: "(nat, err option) gomap"
  d_next :: nat
  d_tasks :: "task list"

type_synonym ('w, 'a) drvP = "('w driver, 'a) prog"

section \<open>Calls of the components\<close>

definition d_world :: "'w driver \<Rightarrow> 'w" where
  "d_world d = world (d_lbm d)"

definition set_world :: "'w \<Rightarrow> 'w driver \<Rightarrow> 'w driver" where
  "set_world w d = d\<lparr>d_lbm := (d_lbm d)\<lparr>world := w\<rparr>\<rparr>"

definition ioD :: "('w, 'a) io \<Rightarrow> ('w, 'a) drvP" where
  "ioD op d = (case op (d_world d) of (r, w1) \<Rightarrow> Some (r, set_world w1 d))"

definition effD :: "('w \<Rightarrow> 'a \<times> 'w) \<Rightarrow> ('w, 'a) drvP" where
  "effD op d = (case op (d_world d) of (r, w1) \<Rightarrow> Some (Inr r, set_world w1 d))"

text \<open>A method of a network.\<close>

definition netD :: "nat \<Rightarrow> ('w, 'a) netP \<Rightarrow> ('w, 'a) drvP" where
  "netD r p d = (case p (d_network_heap d r, d_world d) of
      None \<Rightarrow> None
    | Some (x, n1, w1) \<Rightarrow> Some (x, set_world w1 (d\<lparr>d_network_heap := (d_network_heap d)(r := n1)\<rparr>)))"

text \<open>A method of the pool of a network.\<close>

definition on_pool :: "(etcdPool \<Rightarrow> 'w \<Rightarrow> ('a result \<times> etcdPool \<times> 'w) option) \<Rightarrow> ('w, 'a) netP" where
  "on_pool op s = (case GetPool (fst s) of
      None \<Rightarrow> Some (Inl (Panic ''nil pool''), s)
    | Some p \<Rightarrow> (case op p (snd s) of
        None \<Rightarrow> None
      | Some (x, p1, w1) \<Rightarrow> Some (x, (fst s)\<lparr>nw_pool := Some p1\<rparr>, w1)))"

text \<open>
  A method of the load balancer management, which sees the networks of the driver: their MTU and their
  pool, which every network has that was initialised.
\<close>

definition net_view :: "network \<Rightarrow> flannel_net" where
  "net_view n = \<lparr>fn_mtu = nw_mtu n, fn_pool = the (nw_pool n)\<rparr>"

definition put_view :: "network \<Rightarrow> flannel_net \<Rightarrow> network" where
  "put_view n v = (case nw_pool n of None \<Rightarrow> n | Some _ \<Rightarrow> n\<lparr>nw_pool := Some (fn_pool v)\<rparr>)"

definition lbD :: "((nat, nat, 'w) lbm, 'a) prog \<Rightarrow> ('w, 'a) drvP" where
  "lbD p d = (case p ((d_lbm d)\<lparr>network_heap := (\<lambda>r. net_view (d_network_heap d r))\<rparr>) of
      None \<Rightarrow> None
    | Some (x, l) \<Rightarrow> Some (x, d\<lparr>d_lbm := l,
        d_network_heap := (\<lambda>r. put_view (d_network_heap d r) (network_heap l r))\<rparr>))"

text \<open>A method of a name server.\<close>

definition nsD :: "nat \<Rightarrow> ('w, 'a) nsprog \<Rightarrow> ('w, 'a) drvP" where
  "nsD r p d = (case p (d_ns_heap d r, d_world d) of
      None \<Rightarrow> None
    | Some (x, n1, w1) \<Rightarrow> Some (x, set_world w1 (d\<lparr>d_ns_heap := (d_ns_heap d)(r := n1)\<rparr>)))"

definition resolverD :: "(nat resolver \<Rightarrow> nat resolver) \<Rightarrow> ('w, unit) drvP" where
  "resolverD f = updP (\<lambda>d. d\<lparr>d_resolver := f (d_resolver d)\<rparr>)"

definition go_task :: "task \<Rightarrow> ('w, unit) drvP" where
  "go_task t = updP (\<lambda>d. d\<lparr>d_tasks := d_tasks d @ [t]\<rparr>)"

section \<open>Construction\<close>

definition getEtcdClient :: "string \<Rightarrow> string \<Rightarrow> string list \<Rightarrow> etcdClient" where
  "getEtcdClient rootPrefix pre endPoints = NewEtcdClient endPoints 5 (rootPrefix @ ''/'' @ pre)"

text \<open>\<open>1 << delta\<close> and the sum are those of a 64-bit \<open>int\<close>.\<close>

fun count_subnets :: "int \<Rightarrow> ipnet list \<Rightarrow> 64 word \<Rightarrow> 64 word" where
  "count_subnets psz [] acc = acc"
| "count_subnets psz (subnet # rest) acc =
     (case mask_Size (net_mask subnet) of (maskSize, bits) \<Rightarrow>
        if int maskSize > psz \<or> bits \<noteq> 32 then count_subnets psz rest acc
        else count_subnets psz rest (acc + push_bit (nat (psz - int maskSize)) 1))"

definition countPoolSizeSubnets :: "ipnet list \<Rightarrow> int \<Rightarrow> int" where
  "countPoolSizeSubnets space psz = sint (count_subnets psz space 0)"

text \<open>
  The fields that \<open>Init\<close> and the goroutine it starts fill later are those of \<open>d0\<close>.  Without the folders
  of the hook the process ends.
\<close>

definition new_driver ::
  "string list \<Rightarrow> string \<Rightarrow> string list \<Rightarrow> ipnet list \<Rightarrow> int \<Rightarrow> int \<Rightarrow> int \<Rightarrow> bool \<Rightarrow> bool \<Rightarrow> 'w driver \<Rightarrow> 'w driver" where
  "new_driver endPoints pre options space networkSize hostSize vniStart docker hook d0 = d0\<lparr>
     d_defaultFlannelOptions := options, d_defaultHostSubnetSize := hostSize,
     d_networks := NewConcurrentDualKeyMap, d_services := NewConcurrentMap, d_completeAddressSpace := space,
     d_networkSubnetSize := networkSize, d_vniStart := vniStart, d_isInitialized := False,
     d_bySandboxKey := NewConcurrentMap, d_byEndpointID := NewConcurrentMap, d_resolver := NewResolver docker,
     d_clients := \<lparr>cl_root = getEtcdClient pre '''' endPoints, cl_dockerData = getEtcdClient pre ''docker-data'' endPoints,
        cl_serviceLbs = getEtcdClient pre ''service-lbs'' endPoints,
        cl_addressSpace = getEtcdClient pre ''address-space'' endPoints, cl_networks = getEtcdClient pre ''networks'' endPoints\<rparr>,
     d_isHookAvailable := hook, d_activated := [], d_next := 0, d_tasks := []\<rparr>"

text \<open>\<open>log.Fatalf\<close> ends the process.\<close>

definition fatalP :: "('s, 'a) prog \<Rightarrow> ('s, 'a) prog" where
  "fatalP p s = (case p s of Some (Inl e, s1) \<Rightarrow> Some (Inl (Panic ''fatal''), s1) | r \<Rightarrow> r)"

definition NewFlannelDriver ::
  "'w drvsys \<Rightarrow> string list \<Rightarrow> string \<Rightarrow> string list \<Rightarrow> ipnet list \<Rightarrow> int \<Rightarrow> int \<Rightarrow> int \<Rightarrow> bool \<Rightarrow> bool \<Rightarrow> ('w, unit) drvP"
where
  "NewFlannelDriver S endPoints pre options space networkSize hostSize vniStart docker hook =
     bindP (updP (new_driver endPoints pre options space networkSize hostSize vniStart docker hook)) (\<lambda>_.
     if hook
     then bindP (fatalP (ioD (MkdirAll S SandboxesPath))) (\<lambda>_. fatalP (ioD (MkdirAll S ReadyPath)))
     else returnP ())"

section \<open>Services\<close>

text \<open>
  The events that a method of a service raises.  Every service is made by \<open>createService\<close>, whose
  handler of \<open>OnInitialized\<close> runs in the call; the handlers of the load balancer management are programs
  of its own on the raised events.
\<close>

definition handle_service_event :: "nat \<Rightarrow> svc_event \<Rightarrow> ('w, unit) drvP" where
  "handle_service_event r ev = (case ev of
      OnInitialized info \<Rightarrow>
        bindP (getP (\<lambda>d. service_heap (d_lbm d))) (\<lambda>heap.
        bindP (resolverD (AddService heap r)) (\<lambda>_.
        if si_EndpointMode (GetInfo (heap r)) = ServiceEndpointModeVip then go_task (T_CreateLoadBalancer r) else returnP ()))
    | _ \<Rightarrow> returnP ())"

definition serviceD :: "nat \<Rightarrow> (service \<Rightarrow> service \<times> svc_event list) \<Rightarrow> ('w, unit) drvP" where
  "serviceD r op =
     bindP (getP (\<lambda>d. op (service_heap (d_lbm d) r))) (\<lambda>(s, evs).
     bindP (updP (\<lambda>d. d\<lparr>d_lbm := (d_lbm d)\<lparr>service_heap := (service_heap (d_lbm d))(r := s),
        raised := raised (d_lbm d) @ map (Pair r) evs\<rparr>\<rparr>)) (\<lambda>_.
     forP (handle_service_event r) evs))"

definition createService :: "string \<Rightarrow> string \<Rightarrow> ('w, nat) drvP" where
  "createService i nm =
     bindP (getP d_next) (\<lambda>r.
     bindP (updP (\<lambda>d. d\<lparr>d_next := r + 1, d_lbm := (d_lbm d)\<lparr>
        service_heap := (service_heap (d_lbm d))(r := NewService i nm),
        event_heap := (event_heap (d_lbm d))(r := \<lparr>ev_networks = NewEvent, ev_added = NewEvent,
          ev_removed = NewEvent, ev_mode = NewEvent\<rparr>)\<rparr>\<rparr>)) (\<lambda>_.
     returnP r))"

text \<open>\<open>d.services.GetOrAdd\<close> with \<open>createService\<close> as factory.\<close>

definition get_or_add_service :: "string \<Rightarrow> string \<Rightarrow> ('w, nat) drvP" where
  "get_or_add_service i nm = bindP (getP (\<lambda>d. cm_Get i (d_services d))) (\<lambda>found. case found of
      Some r \<Rightarrow> returnP r
    | None \<Rightarrow>
        bindP (createService i nm) (\<lambda>r.
        bindP (updP (\<lambda>d. d\<lparr>d_services := cm_Set i r (d_services d)\<rparr>)) (\<lambda>_. returnP r)))"

definition handle_service :: "dServiceInfo \<Rightarrow> ('w, unit) drvP" where
  "handle_service info =
     bindP (get_or_add_service (dsi_ID info) (dsi_Name info)) (\<lambda>r.
     bindP (serviceD r (SetEndpointMode (dsi_EndpointMode info))) (\<lambda>_.
     serviceD r (SetNetworks (dsi_Networks info) (Some (dsi_IpamVIPs info)))))"

definition handleServicesAdded :: "(string \<times> dServiceInfo) list \<Rightarrow> ('w, unit) drvP" where
  "handleServicesAdded = forP (\<lambda>(i, info). handle_service info)"

definition handleServicesChanged :: "dServiceInfo item_change list \<Rightarrow> ('w, unit) drvP" where
  "handleServicesChanged = forP (\<lambda>c. handle_service (Current c))"

definition remove_service :: "'w drvsys \<Rightarrow> dServiceInfo \<Rightarrow> ('w, unit) drvP" where
  "remove_service S info = bindP (getP (\<lambda>d. cm_TryRemove (dsi_ID info) (d_services d))) (\<lambda>(found, services1).
     bindP (updP (\<lambda>d. d\<lparr>d_services := services1\<rparr>)) (\<lambda>_. case found of
        None \<Rightarrow> returnP ()
      | Some r \<Rightarrow>
          bindP (if dsi_EndpointMode info = ServiceEndpointModeVip
                 then logE (lbD (DeleteLoadBalancer (ds_lb S) (dsi_ID info))) else returnP ()) (\<lambda>_.
          bindP (getP (\<lambda>d. service_heap (d_lbm d))) (\<lambda>heap. resolverD (RemoveService heap r)))))"

definition handleServicesRemoved :: "'w drvsys \<Rightarrow> (string \<times> dServiceInfo) list \<Rightarrow> ('w, unit) drvP" where
  "handleServicesRemoved S = forP (\<lambda>(i, info). remove_service S info)"

section \<open>Networks\<close>

text \<open>\<open>d.networks.Get\<close>, which may complete the other map.\<close>

definition networks_Get :: "string \<Rightarrow> string \<Rightarrow> ('w, nat option result) drvP" where
  "networks_Get did fid d = (case dkm_Get [] [] fid did (d_networks d) of
      (r, m) \<Rightarrow> Some (Inr r, d\<lparr>d_networks := m\<rparr>))"

text \<open>An error counts as a missing network.\<close>

definition getNetwork :: "string \<Rightarrow> string \<Rightarrow> ('w, nat option) drvP" where
  "getNetwork did fid = bindP (networks_Get did fid) (\<lambda>r. case r of
      Inl _ \<Rightarrow> returnP None | Inr found \<Rightarrow> returnP found)"

definition new_network :: "'w drvsys \<Rightarrow> string \<Rightarrow> ipnet \<Rightarrow> ('w, nat) drvP" where
  "new_network S fid subnet =
     bindP (getP d_next) (\<lambda>r.
     bindP (updP (\<lambda>d. d\<lparr>d_next := r + 1, d_network_heap := (d_network_heap d)(r :=
        NewNetwork (ds_host S) (cl_networks (d_clients d)) fid subnet (d_defaultHostSubnetSize d)
          (d_defaultFlannelOptions d) (d_vniStart d + int (dkm_Count (d_networks d)) + 1))\<rparr>)) (\<lambda>_.
     returnP r))"

definition new_or_existing_pool :: "'w drvsys \<Rightarrow> string \<Rightarrow> ('w, ipnet) drvP" where
  "new_or_existing_pool S i d = (case GetNewOrExistingPool (h_etcd (ds_host S)) i (d_addressSpace d) (d_world d) of
      (r, as1, w1) \<Rightarrow> Some (r, set_world w1 (d\<lparr>d_addressSpace := as1\<rparr>)))"

definition create_network :: "'w drvsys \<Rightarrow> string \<Rightarrow> string \<Rightarrow> ('w, nat) drvP" where
  "create_network S did fid =
     (if fid = [] then failP (OtherError ''no flannel network ID provided when creating network'')
      else bindP (new_or_existing_pool S fid) (\<lambda>subnet.
           bindP (new_network S fid subnet) (\<lambda>r.
           bindP (getP d_data) (\<lambda>dockerData.
           bindP (netD r (nw_Init (ds_host S) dockerData)) (\<lambda>_.
           bindP (updP (\<lambda>d. d\<lparr>d_networks := dkm_Set [] [] fid did r (d_networks d)\<rparr>)) (\<lambda>_.
           returnP r))))))"

definition getOrCreateNetwork :: "'w drvsys \<Rightarrow> string \<Rightarrow> string \<Rightarrow> ('w, nat) drvP" where
  "getOrCreateNetwork S did fid =
     bindP (getNetwork did fid) (\<lambda>found.
     bindP (case found of Some r \<Rightarrow> returnP r | None \<Rightarrow> create_network S did fid) (\<lambda>r.
     bindP (if did \<noteq> [] then lbD (SetFlannelNetwork did r) else returnP ()) (\<lambda>_. returnP r)))"

definition ensure_network :: "'w drvsys \<Rightarrow> string \<Rightarrow> NetworkInfo \<Rightarrow> ('w, unit) drvP" where
  "ensure_network S other info =
     (if IsFlannelNetwork info then logE (bindP (getOrCreateNetwork S (DockerID info) (FlannelID info)) (\<lambda>_. returnP ()))
      else lbD (RegisterOtherNetwork other))"

definition handleNetworksAdded :: "'w drvsys \<Rightarrow> (string \<times> NetworkInfo) list \<Rightarrow> ('w, unit) drvP" where
  "handleNetworksAdded S = forP (\<lambda>(i, info).
     bindP (resolverD (AddNetwork info)) (\<lambda>_. ensure_network S (DockerID info) info))"

text \<open>A change registers another network under its name.\<close>

definition handleNetworksChanged :: "'w drvsys \<Rightarrow> NetworkInfo item_change list \<Rightarrow> ('w, unit) drvP" where
  "handleNetworksChanged S = forP (\<lambda>c. ensure_network S (Name (Current c)) (Current c))"

definition release_pool :: "'w drvsys \<Rightarrow> string \<Rightarrow> ('w, unit) drvP" where
  "release_pool S i d = (case Address_Space.ReleasePool (h_etcd (ds_host S)) i (d_addressSpace d) (d_world d) of
      (e, as1, w1) \<Rightarrow> errP e (set_world w1 (d\<lparr>d_addressSpace := as1\<rparr>)))"

definition networks_Remove :: "string \<Rightarrow> string \<Rightarrow> ('w, unit) drvP" where
  "networks_Remove did fid d = (case dkm_Remove fid did (d_networks d) of
      (e, m) \<Rightarrow> errP e (d\<lparr>d_networks := m\<rparr>))"

definition remove_network :: "'w drvsys \<Rightarrow> NetworkInfo \<Rightarrow> ('w, unit) drvP" where
  "remove_network S info =
     bindP (resolverD (RemoveNetwork info)) (\<lambda>_.
     bindP (logE (lbD (lbm_DeleteNetwork (DockerID info)))) (\<lambda>_.
     bindP (getNetwork (DockerID info) (FlannelID info)) (\<lambda>found.
     bindP (case found of None \<Rightarrow> returnP () | Some r \<Rightarrow> logE (netD r (nw_Delete (ds_host S)))) (\<lambda>_.
     bindP (logE (release_pool S (FlannelID info))) (\<lambda>_.
     logE (networks_Remove (DockerID info) (FlannelID info)))))))"

definition handleNetworksRemoved :: "'w drvsys \<Rightarrow> (string \<times> NetworkInfo) list \<Rightarrow> ('w, unit) drvP" where
  "handleNetworksRemoved S = forP (\<lambda>(i, info). remove_network S info)"

section \<open>Name servers\<close>

text \<open>The reference is missing when the name server could not be made: the interface is nil.\<close>

definition getOrAddNameserver :: "'w drvsys \<Rightarrow> string \<Rightarrow> ('w, nat option \<times> err_chan) drvP" where
  "getOrAddNameserver S sandboxKey =
     bindP (getP (\<lambda>d. cm_Get sandboxKey (d_bySandboxKey d))) (\<lambda>found. case found of
        Some r \<Rightarrow> returnP (Some r, Now None)
      | None \<Rightarrow>
          bindP (getP d_isHookAvailable) (\<lambda>hook.
          bindP (effD (NewNameserver (ds_ns S) sandboxKey hook)) (\<lambda>result. case result of
             Inl e \<Rightarrow> returnP (None, Now (Some e))
           | Inr ns \<Rightarrow>
               bindP (getP d_next) (\<lambda>r.
               bindP (updP (\<lambda>d. d\<lparr>d_next := r + 1, d_ns_heap := (d_ns_heap d)(r := ns),
                  d_bySandboxKey := cm_Set sandboxKey r (d_bySandboxKey d)\<rparr>)) (\<lambda>_.
               bindP (go_task (T_Activate r)) (\<lambda>_. returnP (Some r, OfActivation r)))))))"

definition add_valid :: "nat \<Rightarrow> string \<Rightarrow> ('w, unit) drvP" where
  "add_valid r i = nsD r (setN (AddValidNetworkID i))"

definition remove_valid :: "nat \<Rightarrow> string \<Rightarrow> ('w, unit) drvP" where
  "remove_valid r i = nsD r (setN (RemoveValidNetworkID i))"

definition set_endpoint_nameserver :: "string \<Rightarrow> nat \<Rightarrow> ('w, unit) drvP" where
  "set_endpoint_nameserver endpointID r = updP (\<lambda>d. d\<lparr>d_byEndpointID := cm_Set endpointID r (d_byEndpointID d)\<rparr>)"

definition injectNameserverIntoAlreadyRunningContainers :: "('w, unit) drvP" where
  "injectNameserverIntoAlreadyRunningContainers = bindP (getP d_data) (\<lambda>dockerData.
     let ourNetworkIDs = map_keys (filter (\<lambda>(k, v). IsFlannelNetwork v) (GetAll (networks dockerData)))
     in forP (\<lambda>(shardKey, shardContainers).
          if shardKey \<noteq> localShardKey (containers dockerData) then returnP ()
          else forP (\<lambda>c. if lo_Some ourNetworkIDs (map_keys (c_IPs c)) then go_task (T_Inject c) else returnP ())
                 (map_vals shardContainers))
          (ss_GetAll (containers dockerData)))"

section \<open>Containers\<close>

text \<open>The address that docker's IPAM gave a container and that it does not use is released.\<close>

definition release_ipam_ip :: "'w drvsys \<Rightarrow> dContainerInfo \<Rightarrow> string \<times> ip \<Rightarrow> ('w, unit) drvP" where
  "release_ipam_ip S c entry = (case entry of (n, ipamIP) \<Rightarrow>
     bindP (networks_Get n []) (\<lambda>found. case found of
        Inr (Some r) \<Rightarrow>
          if \<not> ip_Equal ipamIP (case map_get (c_IPs c) n of None \<Rightarrow> [] | Some a \<Rightarrow> a) then
            bindP (getP (\<lambda>d. hostSubnet (d_network_heap d r))) (\<lambda>subnet.
            if ipnet_Contains subnet ipamIP
            then logE (netD r (on_pool (\<lambda>p w. case ReleaseIPIfReserved (h_etcd (ds_host S)) (ip_String ipamIP) p w of
                   ((_, None), p1, w1) \<Rightarrow> Some (Inr (), p1, w1) | ((_, Some e), p1, w1) \<Rightarrow> Some (Inl e, p1, w1))))
            else returnP ())
          else returnP ()
      | _ \<Rightarrow> returnP ()))"

definition common_info :: "dContainerInfo \<Rightarrow> ContainerInfo" where
  "common_info c = ContainerInfo.truncate c"

text \<open>The container is added to its service, which is made when it is not known yet.\<close>

definition register_container :: "dContainerInfo \<Rightarrow> ('w, unit) drvP" where
  "register_container c =
     (if c_ServiceID c \<noteq> [] then
        bindP (get_or_add_service (c_ServiceID c) (c_ServiceName c)) (\<lambda>r. serviceD r (AddContainer (common_info c)))
      else returnP ())"

definition add_container :: "'w drvsys \<Rightarrow> dContainerInfo \<Rightarrow> ('w, unit) drvP" where
  "add_container S c =
     bindP (resolverD (resolver_AddContainer (common_info c))) (\<lambda>_.
     bindP (forP (release_ipam_ip S c) (IpamIPs c)) (\<lambda>_.
     register_container c))"

definition handleContainersAdded :: "'w drvsys \<Rightarrow> dContainerInfo shard_item list \<Rightarrow> ('w, unit) drvP" where
  "handleContainersAdded S = forP (\<lambda>(shardKey, i, c). add_container S c)"

definition endpoint_at :: "dContainerInfo \<Rightarrow> string \<Rightarrow> string" where
  "endpoint_at c n = (case map_get (c_Endpoints c) n of None \<Rightarrow> [] | Some e \<Rightarrow> e)"

definition change_container :: "dContainerInfo \<Rightarrow> dContainerInfo \<Rightarrow> ('w, unit) drvP" where
  "change_container previous current =
     bindP (resolverD (UpdateContainer (common_info current))) (\<lambda>_.
     bindP (getP (\<lambda>d. cm_Get (c_SandboxKey current) (d_bySandboxKey d))) (\<lambda>found. case found of
        None \<Rightarrow> returnP ()
      | Some r \<Rightarrow>
          (case lo_Difference (map_keys (c_Endpoints previous)) (map_keys (c_Endpoints current)) of (removed, added) \<Rightarrow>
             bindP (forP (\<lambda>n.
                 bindP (updP (\<lambda>d. d\<lparr>d_byEndpointID := cm_Remove (endpoint_at previous n) (d_byEndpointID d)\<rparr>)) (\<lambda>_.
                 remove_valid r n)) removed) (\<lambda>_.
             forP (\<lambda>n. bindP (set_endpoint_nameserver (endpoint_at current n) r) (\<lambda>_. add_valid r n)) added))))"

definition handleContainersChanged :: "dContainerInfo shard_change list \<Rightarrow> ('w, unit) drvP" where
  "handleContainersChanged = forP (\<lambda>c. change_container (sc_Previous c) (sc_Current c))"

text \<open>\<open>pending r\<close> is what is left of the initialisation of the name server \<open>r\<close> when it is still running.\<close>

definition remove_container :: "'w drvsys \<Rightarrow> (nat \<Rightarrow> ('w, unit) nsprog) \<Rightarrow> dContainerInfo \<Rightarrow> ('w, unit) drvP" where
  "remove_container S pending c =
     bindP (resolverD (resolver_RemoveContainer (common_info c))) (\<lambda>_.
     bindP (getP (\<lambda>d. cm_Get (c_ServiceID c) (d_services d))) (\<lambda>service.
     bindP (case service of None \<Rightarrow> returnP () | Some r \<Rightarrow> serviceD r (RemoveContainer (c_ID c))) (\<lambda>_.
     bindP (getP (\<lambda>d. cm_TryRemove (c_SandboxKey c) (d_bySandboxKey d))) (\<lambda>(found, m1).
     bindP (updP (\<lambda>d. d\<lparr>d_bySandboxKey := m1\<rparr>)) (\<lambda>_. case found of
        None \<Rightarrow> returnP ()
      | Some r \<Rightarrow> logE (nsD r (DeactivateAndCleanup (ds_ns S) (pending r))))))))"

definition handleContainersRemoved ::
  "'w drvsys \<Rightarrow> (nat \<Rightarrow> ('w, unit) nsprog) \<Rightarrow> dContainerInfo shard_item list \<Rightarrow> ('w, unit) drvP" where
  "handleContainersRemoved S pending = forP (\<lambda>(shardKey, i, c). remove_container S pending c)"

section \<open>Start\<close>

text \<open>The handlers that the driver gives to the docker data.\<close>

definition handle_note :: "'w drvsys \<Rightarrow> (nat \<Rightarrow> ('w, unit) nsprog) \<Rightarrow> docker_note \<Rightarrow> ('w, unit) drvP" where
  "handle_note S pending n = (case n of
      DContainers (SAdded xs) \<Rightarrow> handleContainersAdded S xs
    | DContainers (SChanged xs) \<Rightarrow> handleContainersChanged xs
    | DContainers (SRemoved xs) \<Rightarrow> handleContainersRemoved S pending xs
    | DServices (NAdded xs) \<Rightarrow> handleServicesAdded xs
    | DServices (NChanged xs) \<Rightarrow> handleServicesChanged xs
    | DServices (NRemoved xs) \<Rightarrow> handleServicesRemoved S xs
    | DNetworks (NAdded xs) \<Rightarrow> handleNetworksAdded S xs
    | DNetworks (NChanged xs) \<Rightarrow> handleNetworksChanged S xs
    | DNetworks (NRemoved xs) \<Rightarrow> handleNetworksRemoved S xs)"

text \<open>An operation of the docker data, whose notes are handled in order.\<close>

definition dataD :: "'w drvsys \<Rightarrow> (nat \<Rightarrow> ('w, unit) nsprog) \<Rightarrow> (data \<Rightarrow> 'w \<Rightarrow> 'w data_res) \<Rightarrow> ('w, unit) drvP" where
  "dataD S pending op d = (case op (d_data d) (d_world d) of (e, ns, data1, w1) \<Rightarrow>
     bindP (forP (handle_note S pending) ns) (\<lambda>_. errP e) (set_world w1 (d\<lparr>d_data := data1\<rparr>)))"

definition init_docker_data :: "'w drvsys \<Rightarrow> (nat \<Rightarrow> ('w, unit) nsprog) \<Rightarrow> ('w, unit) drvP" where
  "init_docker_data S pending =
     bindP (getP d_clients) (\<lambda>clients.
     bindP (fatalP (ioD (NewData (ds_docker S) (cl_dockerData clients)))) (\<lambda>dockerData.
     bindP (updP (\<lambda>d. d\<lparr>d_data := dockerData\<rparr>)) (\<lambda>_.
     bindP (fatalP (dataD S pending (data_Init (h_etcd (ds_host S)) (ds_docker S) (ds_codecs S)))) (\<lambda>_.
     bindP (getP (\<lambda>d. map_vals (GetAll (networks (d_data d))))) (\<lambda>existingNetworks.
     bindP (getP (\<lambda>d. map_vals (GetAll (dservices (d_data d))))) (\<lambda>existingServices.
     bindP (fatalP (ioD (CleanupStaleNetworks (ds_host S) (cl_networks clients) existingNetworks))) (\<lambda>_.
     bindP (effD (Hostname (ds_docker S))) (\<lambda>host.
     bindP (fatalP (ioD (CleanUpStaleLoadBalancers (ds_lb S) host (cl_serviceLbs clients) (map dsi_ID existingServices)))) (\<lambda>_.
     injectNameserverIntoAlreadyRunningContainers)))))))))"

definition new_service_lb_management :: "'w drvsys \<Rightarrow> ('w, unit) drvP" where
  "new_service_lb_management S = bindP (effD (Hostname (ds_docker S))) (\<lambda>host d.
     case NewServiceLbManagement (ds_lb S) host (cl_serviceLbs (d_clients d)) (service_heap (d_lbm d))
         (event_heap (d_lbm d)) (\<lambda>r. net_view (d_network_heap d r)) (d_world d) of
       Inl e \<Rightarrow> Some (Inl e, d)
     | Inr l \<Rightarrow> Some (Inr (), d\<lparr>d_lbm := l\<rparr>))"

text \<open>
  \<open>Init\<close>; the error of \<open>WaitUntilAvailable\<close> is overwritten.  The docker data is read by a goroutine, for
  which it waits at most five seconds.
\<close>

definition drv_Init :: "'w drvsys \<Rightarrow> ('w, unit) drvP" where
  "drv_Init S =
     bindP (logE (ioD (WaitUntilAvailable (h_etcd (ds_host S)) 6))) (\<lambda>_.
     bindP (getP (\<lambda>d. (d_completeAddressSpace d, d_networkSubnetSize d, cl_addressSpace (d_clients d)))) (\<lambda>(space, sz, client).
     bindP (ioD (NewEtcdBasedAddressSpace (h_etcd (ds_host S)) (ds_cidr S) space sz client)) (\<lambda>as.
     bindP (updP (\<lambda>d. d\<lparr>d_addressSpace := as\<rparr>)) (\<lambda>_.
     bindP (new_service_lb_management S) (\<lambda>_.
     bindP (go_task T_InitDockerData) (\<lambda>_.
     updP (\<lambda>d. d\<lparr>d_isInitialized := True\<rparr>)))))))"

definition IsDriverInitialized :: "'w driver \<Rightarrow> bool" where
  "IsDriverInitialized d = d_isInitialized d"

section \<open>Goroutines\<close>

text \<open>A receive that would wait does not return.\<close>

definition await :: "err_chan \<Rightarrow> ('w, err option) drvP" where
  "await c = (case c of
      Now e \<Rightarrow> returnP e
    | OfActivation r \<Rightarrow> bindP (getP (\<lambda>d. map_get (d_activated d) r)) (\<lambda>x. case x of
        None \<Rightarrow> (\<lambda>s. None) | Some e \<Rightarrow> returnP e))"

text \<open>\<open>others\<close> are the steps of other goroutines while the creation of a load balancer waits.\<close>

definition run_task ::
  "'w drvsys \<Rightarrow> ((nat, nat, 'w) lbm \<Rightarrow> (nat, nat, 'w) lbm) \<Rightarrow> (nat \<Rightarrow> ('w, unit) nsprog) \<Rightarrow> task \<Rightarrow> ('w, unit) drvP"
where
  "run_task S others pending t = (case t of
      T_InitDockerData \<Rightarrow> init_docker_data S pending
    | T_CreateLoadBalancer r \<Rightarrow> logE (lbD (CreateLoadBalancer (ds_lb S) others r))
    | T_Activate r \<Rightarrow>
        bindP (getP d_data) (\<lambda>dockerData.
        bindP (nsD r (Activate (ds_ns S) (ds_tries S) (ds_polls S) dockerData)) (\<lambda>e.
        updP (\<lambda>d. d\<lparr>d_activated := map_put r e (d_activated d)\<rparr>)))
    | T_Joined endpointID r chan \<Rightarrow> bindP (await chan) (\<lambda>e. case e of
        Some _ \<Rightarrow> returnP () | None \<Rightarrow> set_endpoint_nameserver endpointID r)
    | T_Inject c \<Rightarrow> bindP (getOrAddNameserver S (c_SandboxKey c)) (\<lambda>(ns, chan). case ns of
        None \<Rightarrow> returnP () | Some r \<Rightarrow> go_task (T_Injected (c_Endpoints c) r chan))
    | T_Injected eps r chan \<Rightarrow> bindP (await chan) (\<lambda>e. case e of
        Some _ \<Rightarrow> returnP ()
      | None \<Rightarrow> forP (\<lambda>(n, endpointID). bindP (set_endpoint_nameserver endpointID r) (\<lambda>_. add_valid r n)) eps))"

end
