(* ===== verification/Driver_Requests.thy ===== *)
theory Driver_Requests
  imports Driver
begin

text \<open>
  \<open>plugin/pkg/driver/ipam.go\<close> and \<open>network.go\<close>: the requests of docker to the IPAM and the network
  driver.  A request takes the mutex of the driver to its end, so it is one program over the state of
  theory \<open>Driver\<close>.  The requests that do nothing are the constant responses at the end.
\<close>

section \<open>Requests and responses\<close>

record RequestPoolRequest =
  rp_V6 :: bool
  rp_Options :: "(string, string) gomap"

record RequestPoolResponse =
  rpr_PoolID :: string
  rpr_Pool :: string

record RequestAddressRequest =
  ra_PoolID :: string
  ra_Address :: string
  ra_Options :: "(string, string) gomap"

record ReleaseAddressRequest =
  rl_PoolID :: string
  rl_Address :: string

record EndpointInterface =
  if_Address :: string
  if_MacAddress :: string

record CreateEndpointRequest =
  ce_NetworkID :: string
  ce_EndpointID :: string
  ce_Interface :: "EndpointInterface option"

record JoinResponse =
  jr_SrcName :: string
  jr_DstPrefix :: string
  jr_Destination :: string
  jr_NextHop :: string
  jr_DisableGatewayService :: bool

section \<open>IPAM\<close>

definition poolIDtoNetworkID :: "string \<Rightarrow> string" where
  "poolIDtoNetworkID pid = join ''-'' (drop 1 (split_on CHR ''-'' pid))"

text \<open>Reading a key that a map does not have gives the empty string.\<close>

definition option_at :: "(string, string) gomap \<Rightarrow> string \<Rightarrow> string" where
  "option_at m k = (case map_get m k of None \<Rightarrow> [] | Some v \<Rightarrow> v)"

definition networkInfoD :: "nat \<Rightarrow> ('w, FlannelNetworkInfo) drvP" where
  "networkInfoD r = getP (\<lambda>d. nw_GetInfo (d_network_heap d r))"

definition subnet_of :: "ipnet option \<Rightarrow> ('w, ipnet) drvP" where
  "subnet_of s = (case s of None \<Rightarrow> failP (Panic ''nil subnet'') | Some n \<Rightarrow> returnP n)"

definition RequestPool :: "'w drvsys \<Rightarrow> RequestPoolRequest \<Rightarrow> ('w, RequestPoolResponse) drvP" where
  "RequestPool S request =
     (if rp_V6 request then failP (OtherError ''flannel plugin does not support ipv6'')
      else let fid = option_at (rp_Options request) ''flannel-id''
           in if map_has (rp_Options request) ''flannel-id'' \<and> fid \<noteq> []
              then bindP (getOrCreateNetwork S [] fid) (\<lambda>r.
                   bindP (networkInfoD r) (\<lambda>info.
                   bindP (subnet_of (fi_Network info)) (\<lambda>n.
                   returnP \<lparr>rpr_PoolID = ''FlannelPool'' @ ''-'' @ fid, rpr_Pool = ipnet_String n\<rparr>)))
              else failP (OtherError ''the IPAM driver option 'flannel-id' needs to be set to a unique ID''))"

text \<open>\<open>d.networks.Get\<close> by one of the two IDs, whose error is ignored: a conflict is a missing network.\<close>

definition network_by_id :: "string \<Rightarrow> string \<Rightarrow> ('w, nat) drvP" where
  "network_by_id did fid = bindP (getNetwork did fid) (\<lambda>found. case found of
      None \<Rightarrow> failP (OtherError ''network is missing in internal state'') | Some r \<Rightarrow> returnP r)"

definition RequestAddress :: "'w drvsys \<Rightarrow> RequestAddressRequest \<Rightarrow> ('w, string) drvP" where
  "RequestAddress S request =
     bindP (network_by_id [] (poolIDtoNetworkID (ra_PoolID request))) (\<lambda>r.
     bindP (networkInfoD r) (\<lambda>info.
     if map_get (ra_Options request) ''RequestAddressType'' = Some ''com.docker.network.gateway''
     then returnP (ip_String (fi_LocalGateway info) @ ''/32'')
     else
       (let mac = option_at (ra_Options request) ''com.docker.network.endpoint.macaddress''; E = h_etcd (ds_host S)
        in bindP (netD r (on_pool (if ra_Address request \<noteq> [] \<and> mac \<noteq> []
                    then AllocateContainerIP E (ra_Address request) mac True
                    else ReserveIP E True))) (\<lambda>address.
           bindP (subnet_of (fi_HostSubnet info)) (\<lambda>n.
           returnP (ip_String address @ ''/'' @ format_dec (fst (mask_Size (net_mask n)))))))))"

text \<open>The error of \<open>ReleaseIP\<close> is ignored.\<close>

definition ReleaseAddress :: "'w drvsys \<Rightarrow> ReleaseAddressRequest \<Rightarrow> ('w, unit) drvP" where
  "ReleaseAddress S request =
     (if rl_Address request = [] then returnP ()
      else bindP (network_by_id [] (poolIDtoNetworkID (rl_PoolID request))) (\<lambda>r.
           logE (netD r (on_pool (\<lambda>p w. case ReleaseIP (h_etcd (ds_host S)) (rl_Address request) p w of
             (None, p1, w1) \<Rightarrow> Some (Inr (), p1, w1) | (Some e, p1, w1) \<Rightarrow> Some (Inl e, p1, w1))))))"

definition drv_ReleasePool :: "'q \<Rightarrow> ('w, unit) drvP" where
  "drv_ReleasePool request = returnP ()"

definition GetIpamCapabilities :: bool where
  "GetIpamCapabilities = True" \<comment> \<open>\<open>RequiresMACAddress\<close>\<close>

definition GetDefaultAddressSpaces :: "string \<times> string" where
  "GetDefaultAddressSpaces = (''FlannelLocal'', ''FlannelGlobal'')"

section \<open>Network driver\<close>

text \<open>A method of an endpoint of a network.\<close>

definition endpointD ::
  "nat \<Rightarrow> string \<Rightarrow> (endpoint \<Rightarrow> 'w \<Rightarrow> err option \<times> endpoint \<times> 'w) \<Rightarrow> endpoint \<Rightarrow> ('w, unit) drvP" where
  "endpointD r i op e = netD r (endpointN i op e)"

definition getEndpoint :: "string \<Rightarrow> string \<Rightarrow> ('w, nat \<times> endpoint) drvP" where
  "getEndpoint did i = bindP (network_by_id did []) (\<lambda>r.
     bindP (getP (\<lambda>d. GetEndpoint i (d_network_heap d r))) (\<lambda>e. case e of
        None \<Rightarrow> failP (OtherError ''endpoint does not exist for network'') | Some e \<Rightarrow> returnP (r, e)))"

definition CreateEndpoint :: "'w drvsys \<Rightarrow> CreateEndpointRequest \<Rightarrow> ('w, unit) drvP" where
  "CreateEndpoint S request = (case ce_Interface request of
      None \<Rightarrow> failP (OtherError ''need interface info'')
    | Some i \<Rightarrow>
        if if_Address i = [] \<or> if_MacAddress i = [] then failP (OtherError ''need interface info'')
        else bindP (network_by_id (ce_NetworkID request) []) (\<lambda>r. case ParseCIDR (if_Address i) of
            None \<Rightarrow> failP (OtherError ''failed to parse IP address'')
          | Some (ip, _) \<Rightarrow>
              bindP (netD r (AddEndpoint (ds_host S) (ce_EndpointID request) ip (if_MacAddress i))) (\<lambda>_. returnP ())))"

definition DeleteEndpoint :: "'w drvsys \<Rightarrow> string \<Rightarrow> string \<Rightarrow> ('w, unit) drvP" where
  "DeleteEndpoint S did i = bindP (network_by_id did []) (\<lambda>r. netD r (nw_DeleteEndpoint (ds_host S) i))"

definition EndpointInfo :: "string \<Rightarrow> string \<Rightarrow> ('w, (string, string) gomap) drvP" where
  "EndpointInfo did i = bindP (getEndpoint did i) (\<lambda>(r, e).
     returnP [(''ip_address'', ip_String (ei_IpAddress (ep_GetInfo e))), (''mac_address'', ei_MacAddress (ep_GetInfo e))])"

text \<open>
  \<open>Join\<close>: the name server is asked to answer for the network whether it could be made or not; a nil
  interface panics there.  The goroutine that waits for it is a task.
\<close>

definition drv_Join :: "'w drvsys \<Rightarrow> string \<Rightarrow> string \<Rightarrow> string \<Rightarrow> ('w, JoinResponse) drvP" where
  "drv_Join S did i sandboxKey = bindP (getEndpoint did i) (\<lambda>(r, e).
     bindP (endpointD r i (Join (h_etcd (ds_host S)) (h_netlink (ds_host S)) (json_endpoint (h_codecs (ds_host S))) sandboxKey) e) (\<lambda>_.
     bindP (networkInfoD r) (\<lambda>networkInfo.
     bindP (getP (\<lambda>d. map_option ep_GetInfo (GetEndpoint i (d_network_heap d r)))) (\<lambda>endpointInfo.
     bindP (getOrAddNameserver S sandboxKey) (\<lambda>(ns, errChan). case ns of
        None \<Rightarrow> failP (Panic ''nil name server'')
      | Some ns \<Rightarrow>
          bindP (add_valid ns did) (\<lambda>_.
          bindP (go_task (T_Joined i ns errChan)) (\<lambda>_.
          bindP (subnet_of (fi_Network networkInfo)) (\<lambda>n.
          returnP \<lparr>jr_SrcName = (case endpointInfo of None \<Rightarrow> [] | Some info \<Rightarrow> ei_VethInside info), jr_DstPrefix = ''eth'',
            jr_Destination = ipnet_String n, jr_NextHop = ip_String (fi_LocalGateway networkInfo),
            jr_DisableGatewayService = False\<rparr>))))))))"

definition drv_Leave :: "'w drvsys \<Rightarrow> string \<Rightarrow> string \<Rightarrow> ('w, unit) drvP" where
  "drv_Leave S did i = bindP (getEndpoint did i) (\<lambda>(r, e).
     bindP (endpointD r i (Leave (h_etcd (ds_host S)) (h_netlink (ds_host S)) (json_endpoint (h_codecs (ds_host S)))) e) (\<lambda>_.
     bindP (getP (\<lambda>d. cm_TryRemove i (d_byEndpointID d))) (\<lambda>(found, m1).
     bindP (updP (\<lambda>d. d\<lparr>d_byEndpointID := m1\<rparr>)) (\<lambda>_. case found of
        None \<Rightarrow> returnP () | Some ns \<Rightarrow> remove_valid ns did))))"

text \<open>The requests that have nothing to do: their responses are empty.\<close>

definition no_op :: "'q \<Rightarrow> ('w, unit) drvP" where
  "no_op request = returnP ()"

definition GetCapabilities :: "string \<times> string" where
  "GetCapabilities = (''global'', ''global'')" \<comment> \<open>\<open>Scope\<close> and \<open>ConnectivityScope\<close>\<close>

section \<open>Lemmas\<close>

lemma bindP_Inr_iff: "bindP p f s = Some (Inr y, t) \<longleftrightarrow> (\<exists>x s1. p s = Some (Inr x, s1) \<and> f x s1 = Some (Inr y, t))"
  by (auto simp: bindP_def split: option.splits sum.splits)

lemma bindP_get [simp]: "bindP (getP f) k s = k (f s) s"
  by (simp add: bindP_def getP_def)

lemma bindP_upd [simp]: "bindP (updP f) k s = k () (f s)"
  by (simp add: bindP_def updP_def)

lemma bindP_return [simp]: "bindP (returnP x) k s = k x s"
  by (simp add: bindP_def returnP_def)

lemma return_Inr_iff [simp]: "returnP x s = Some (Inr y, t) \<longleftrightarrow> x = y \<and> s = t"
  by (simp add: returnP_def)

lemma fail_not_Inr [simp]: "failP e s \<noteq> Some (Inr y, t)"
  by (simp add: failP_def)

text \<open>The identifier of a network comes back from the identifier of its pool, also when it has dashes.\<close>

lemma poolID_roundtrip: "poolIDtoNetworkID (''FlannelPool'' @ ''-'' @ fid) = fid"
proof -
  have "CHR ''-'' \<notin> set ''FlannelPool''" by simp
  from split_on_append [OF this, of fid]
  have "split_on CHR ''-'' (''FlannelPool'' @ ''-'' @ fid) = ''FlannelPool'' # split_on CHR ''-'' fid" by simp
  then show ?thesis unfolding poolIDtoNetworkID_def by (simp add: join_split_on)
qed

lemma count_subnets_v4nets:
  assumes "q \<le> 32" and "\<forall>(base, p) \<in> set nets. base < 2 ^ 32 \<and> base mod 2 ^ (32 - p) = 0 \<and> p \<le> q"
  shows "count_subnets (int q) (map (\<lambda>(base, p). v4net base p) nets) acc =
    acc + of_nat (length (concat (map (blocks q) nets)))"
  using assms(2)
proof (induction nets arbitrary: acc)
  case (Cons n nets)
  obtain base p where n: "n = (base, p)" "p \<le> q" using Cons.prems by (cases n) auto
  then have p: "p \<le> 32" using assms(1) by simp
  have s: "nat (int q - int p) = q - p" by simp
  have l: "length (blocks q n) = 2 ^ (q - p)" by (simp add: blocks_def n)
  show ?case
    using Cons n l by (simp add: mask_Size_cidr_mask [OF p] s push_bit_eq_mult algebra_simps)
qed simp
section \<open>Properties\<close>

text \<open>
  The number of networks that the driver announces at its start is the number of subnets that the address
  space then hands out, for IPv4 networks that are not smaller than a pool, as long as the number fits
  into an \<open>int\<close>.
\<close>

theorem announced_networks_exact:
  assumes "cidr_contract cidr_Subnet" and "q \<le> 32"
    and "\<forall>(base, p) \<in> set nets. base < 2 ^ 32 \<and> base mod 2 ^ (32 - p) = 0 \<and> p \<le> q"
    and "generateAllSubnets cidr_Subnet (map (\<lambda>(base, p). v4net base p) nets) (int q) = Inr ss" and "length ss < 2 ^ 63"
  shows "countPoolSizeSubnets (map (\<lambda>(base, p). v4net base p) nets) (int q) = int (length ss)"
proof -
  have ss: "ss = concat (map (blocks q) nets)"
    using generateAllSubnets_v4nets [OF assms(1,2,3)] assms(4) by simp
  have "countPoolSizeSubnets (map (\<lambda>(base, p). v4net base p) nets) (int q) = sint (of_nat (length ss) :: 64 word)"
    by (simp only: countPoolSizeSubnets_def count_subnets_v4nets [OF assms(2,3)] ss add_0)
  also have "\<dots> = int (length ss)"
    using assms(5) by (simp add: signed_of_nat signed_take_bit_int_eq_self)
  finally show ?thesis .
qed

theorem announced_networks_exact_witness:
  "\<exists>ss. generateAllSubnets ref_cidr_Subnet [v4net 167772160 16, v4net 2886729728 20] 20 = Inr ss \<and>
     countPoolSizeSubnets [v4net 167772160 16, v4net 2886729728 20] 20 = int (length ss) \<and> length ss = 17"
proof -
  let ?nets = "[(167772160, 16), (2886729728, 20)] :: (nat \<times> nat) list"
  have v: "\<forall>(base, p) \<in> set ?nets. base < 2 ^ 32 \<and> base mod 2 ^ (32 - p) = 0 \<and> p \<le> (20 :: nat)" by simp
  obtain ss where ss: "generateAllSubnets ref_cidr_Subnet (map (\<lambda>(base, p). v4net base p) ?nets) (int 20) = Inr ss"
    and l: "length ss = 17"
    using generateAllSubnets_v4nets [OF cidr_contract_ref _ v] by simp
  with announced_networks_exact [OF cidr_contract_ref _ v ss] show ?thesis by simp
qed

text \<open>What a look at the networks by a flannel ID finds.\<close>

lemma getNetwork_flannel:
  assumes "dkm_ok [] [] (d_networks d)"
  shows "getNetwork [] fid d = Some (Inr (map_get (dkm_m1 (d_networks d)) fid), d)"
  using assms
  by (auto simp: getNetwork_def networks_Get_def bindP_def returnP_def dkm_Get_def dkm_ok_def split: option.split)

lemma getNetwork_docker:
  assumes "dkm_ok [] [] (d_networks d)"
  shows "getNetwork did [] d = Some (Inr (map_get (dkm_m2 (d_networks d)) did), d)"
  using assms
  by (auto simp: getNetwork_def networks_Get_def bindP_def returnP_def dkm_Get_def dkm_ok_def split: option.split)

lemma SetFlannelNetwork_driver:
  "lbD (SetFlannelNetwork did r) d = Some (x, d1) \<Longrightarrow> d_networks d1 = d_networks d"
  by (auto simp: lbD_def split: option.splits)

text \<open>A call of a component leaves the map of the networks alone.\<close>

lemma frame_networks:
  "netD r p d = Some (x, d1) \<Longrightarrow> d_networks d1 = d_networks d"
  "lbD q d = Some (y, d1) \<Longrightarrow> d_networks d1 = d_networks d"
  "ioD op d = Some (z, d1) \<Longrightarrow> d_networks d1 = d_networks d"
  "new_or_existing_pool S i d = Some (u, d1) \<Longrightarrow> d_networks d1 = d_networks d"
  "new_network S i n d = Some (v, d1) \<Longrightarrow> d_networks d1 = d_networks d"
  by (auto simp: netD_def lbD_def ioD_def set_world_def new_or_existing_pool_def new_network_def returnP_def
      split: option.splits prod.splits)

lemma getOrCreateNetwork_known:
  assumes "dkm_ok [] [] (d_networks d)" and "fid \<noteq> []" and "getOrCreateNetwork S [] fid d = Some (Inr r, d1)"
  shows "map_get (dkm_m1 (d_networks d1)) fid = Some r \<and> dkm_ok [] [] (d_networks d1)"
proof (cases "map_get (dkm_m1 (d_networks d)) fid")
  case (Some r0)
  then show ?thesis
    using assms getNetwork_flannel [OF assms(1), of fid] by (simp add: getOrCreateNetwork_def bindP_Inr_iff)
next
  case None
  then obtain s where c: "create_network S [] fid d = Some (Inr r, s)" and s: "d1 = s"
    using assms getNetwork_flannel [OF assms(1), of fid] by (auto simp: getOrCreateNetwork_def bindP_Inr_iff)
  obtain d2 n x d3 y d4 where *: "new_or_existing_pool S fid d = Some (Inr n, d2)" "new_network S fid n d2 = Some (Inr r, d3)"
      "netD r (nw_Init (ds_host S) x) d3 = Some (Inr y, d4)"
      "s = d4\<lparr>d_networks := dkm_Set [] [] fid [] r (d_networks d4)\<rparr>"
    using c assms(2) by (auto simp: create_network_def bindP_Inr_iff)
  have "d_networks d4 = d_networks d"
    using frame_networks(4) [OF *(1)] frame_networks(5) [OF *(2)] frame_networks(1) [OF *(3)] by simp
  with * assms(1,2) show ?thesis unfolding s
    by (simp add: dkm_ok_Set) (simp add: dkm_Set_def Let_def)
qed

text \<open>
  C7: After a pool was given out, the request for the gateway of the pool with the identifier that was
  returned finds the network, whatever its flannel ID is, and answers with the address of the network on
  this node; it changes nothing.
\<close>

theorem pool_then_gateway:
  assumes "dkm_ok [] [] (d_networks d)" and "RequestPool S q d = Some (Inr resp, d1)"
  shows "\<exists>r. map_get (dkm_m1 (d_networks d1)) (option_at (rp_Options q) ''flannel-id'') = Some r \<and>
    RequestAddress S \<lparr>ra_PoolID = rpr_PoolID resp, ra_Address = a,
        ra_Options = [(''RequestAddressType'', ''com.docker.network.gateway'')]\<rparr> d1 =
      Some (Inr (ip_String (localGateway (d_network_heap d1 r)) @ ''/32''), d1)"
proof -
  let ?fid = "option_at (rp_Options q) ''flannel-id''"
  have f: "?fid \<noteq> []" using assms(2) by (auto simp: RequestPool_def Let_def split: if_splits)
  obtain r where g: "getOrCreateNetwork S [] ?fid d = Some (Inr r, d1)" and p: "rpr_PoolID resp = ''FlannelPool'' @ ''-'' @ ?fid"
    using assms(2)
    by (auto simp: RequestPool_def Let_def bindP_Inr_iff networkInfoD_def subnet_of_def getP_def split: if_splits option.splits)
  note K = getOrCreateNetwork_known [OF assms(1) f g]
  have n: "network_by_id [] ?fid d1 = Some (Inr r, d1)"
    using getNetwork_flannel [of d1 ?fid] K by (simp add: network_by_id_def bindP_def returnP_def)
  have "RequestAddress S \<lparr>ra_PoolID = rpr_PoolID resp, ra_Address = a,
        ra_Options = [(''RequestAddressType'', ''com.docker.network.gateway'')]\<rparr> d1 =
      Some (Inr (ip_String (localGateway (d_network_heap d1 r)) @ ''/32''), d1)"
    unfolding RequestAddress_def RequestAddressRequest.simps p poolID_roundtrip
    using n by (simp add: bindP_def networkInfoD_def getP_def returnP_def nw_GetInfo_def)
  with K show ?thesis by blast
qed
lemma logE_Inr: "logE p s = Some (Inr (), t) \<Longrightarrow> \<exists>x. p s = Some (x, t)"
  by (auto simp: logE_def split: option.splits sum.splits err.splits)

lemma frame_vniStart:
  "netD r p d = Some (x, d1) \<Longrightarrow> d_vniStart d1 = d_vniStart d"
  "lbD q d = Some (y, d1) \<Longrightarrow> d_vniStart d1 = d_vniStart d"
  by (auto simp: netD_def lbD_def set_world_def split: option.splits prod.splits)

lemma release_pool_frame:
  "release_pool S i d = Some (x, d1) \<Longrightarrow> d_networks d1 = d_networks d \<and> d_vniStart d1 = d_vniStart d"
  by (auto simp: release_pool_def errP_def failP_def returnP_def set_world_def split: prod.splits option.splits)

lemma remove_network_networks:
  assumes "remove_network S info d = Some (Inr (), d1)"
    and "map_get (dkm_m1 (d_networks d)) (FlannelID info) = Some r" and "map_get (dkm_m2 (d_networks d)) (DockerID info) = Some r"
  shows "d_networks d1 = \<lparr>dkm_m1 = map_del (FlannelID info) (dkm_m1 (d_networks d)),
      dkm_m2 = map_del (DockerID info) (dkm_m2 (d_networks d))\<rparr> \<and> d_vniStart d1 = d_vniStart d"
proof -
  let ?d0 = "d\<lparr>d_resolver := RemoveNetwork info (d_resolver d)\<rparr>"
  have get: "dkm_Get [] [] (FlannelID info) (DockerID info) (d_networks d) = (Inr (Some r), d_networks d)"
    using assms(2,3) by (simp add: dkm_Get_def)
  obtain d2 d3 d4 d5 where *: "logE (lbD (lbm_DeleteNetwork (DockerID info))) ?d0 = Some (Inr (), d2)"
      "getNetwork (DockerID info) (FlannelID info) d2 = Some (Inr (Some r), d3)"
      "logE (netD r (nw_Delete (ds_host S))) d3 = Some (Inr (), d4)"
      "logE (release_pool S (FlannelID info)) d4 = Some (Inr (), d5)"
      "logE (networks_Remove (DockerID info) (FlannelID info)) d5 = Some (Inr (), d1)"
  proof -
    obtain d2 found d3 d4 d5 where *: "logE (lbD (lbm_DeleteNetwork (DockerID info))) ?d0 = Some (Inr (), d2)"
      "getNetwork (DockerID info) (FlannelID info) d2 = Some (Inr found, d3)"
      "(case found of None \<Rightarrow> returnP () | Some r \<Rightarrow> logE (netD r (nw_Delete (ds_host S)))) d3 = Some (Inr (), d4)"
      "logE (release_pool S (FlannelID info)) d4 = Some (Inr (), d5)"
      "logE (networks_Remove (DockerID info) (FlannelID info)) d5 = Some (Inr (), d1)"
      using assms(1) by (auto simp: remove_network_def resolverD_def bindP_Inr_iff)
    have "d_networks d2 = d_networks d" using logE_Inr [OF *(1)] frame_networks(2) by fastforce
    then have "found = Some r" using *(2) get by (auto simp: getNetwork_def networks_Get_def bindP_def returnP_def)
    with * that show ?thesis by simp
  qed
  have 2: "d_networks d2 = d_networks d \<and> d_vniStart d2 = d_vniStart d"
    using logE_Inr [OF *(1)] frame_networks(2) frame_vniStart(2) by fastforce
  then have 3: "d_networks d3 = d_networks d \<and> d_vniStart d3 = d_vniStart d"
    using *(2) get by (auto simp: getNetwork_def networks_Get_def bindP_def returnP_def)
  have "d_networks d4 = d_networks d3 \<and> d_vniStart d4 = d_vniStart d3"
    using logE_Inr [OF *(3)] frame_networks(1) frame_vniStart(1) by blast
  moreover have "d_networks d5 = d_networks d4 \<and> d_vniStart d5 = d_vniStart d4"
    using logE_Inr [OF *(4)] release_pool_frame by blast
  ultimately show ?thesis using logE_Inr [OF *(5)] 3 assms(2,3)
    by (auto simp: networks_Remove_def dkm_Remove_def errP_def returnP_def)
qed

lemma length_map_del: "map_ok m \<Longrightarrow> map_get m k = Some v \<Longrightarrow> length (map_del k m) = length m - 1"
proof -
  assume m: "map_ok m" and k: "map_get m k = Some v"
  have "map fst (map_del k m) = remove1 k (map fst m)"
    using m unfolding map_del_def delete_keys map_ok_def by (rule distinct_remove1_removeAll [symmetric])
  moreover have "k \<in> set (map fst m)" using map_get_in_set [OF k] by force
  ultimately show ?thesis by (metis length_map length_remove1)
qed


text \<open>
  A join fails with a panic when the sandbox file of the hook cannot be written: the name server is nil then,
  and it is asked to answer for the network before the error is looked at.
\<close>

theorem join_without_nameserver_panics:
  assumes "getEndpoint did i d = Some (Inr (r, e), d0)"
    and "endpointD r i (Join (h_etcd (ds_host S)) (h_netlink (ds_host S)) (json_endpoint (h_codecs (ds_host S))) key) e d0 = Some (Inr (), d1)"
    and "cm_Get key (d_bySandboxKey d1) = None" and "NewNameserver (ds_ns S) key (d_isHookAvailable d1) (d_world d1) = (Inl x, w1)"
  shows "drv_Join S did i key d = Some (Inl (Panic ''nil name server''), set_world w1 d1)"
  using assms
  by (simp add: drv_Join_def bindP_def networkInfoD_def getP_def getOrAddNameserver_def effD_def returnP_def failP_def)

text \<open>The effect of a method of a service on the driver: it never fails.\<close>

definition note_event :: "nat \<Rightarrow> svc_event \<Rightarrow> 'w driver \<Rightarrow> 'w driver" where
  "note_event r ev d = (case ev of
      OnInitialized info \<Rightarrow> d\<lparr>d_resolver := AddService (service_heap (d_lbm d)) r (d_resolver d),
        d_tasks := d_tasks d @ (if s_endpointMode (service_heap (d_lbm d) r) = ServiceEndpointModeVip
          then [T_CreateLoadBalancer r] else [])\<rparr>
    | _ \<Rightarrow> d)"

lemma handle_service_event_run: "handle_service_event r ev d = Some (Inr (), note_event r ev d)"
  by (simp add: handle_service_event_def note_event_def resolverD_def go_task_def updP_def returnP_def GetInfo_def
      split: svc_event.split)

lemma serviceD_run:
  "serviceD r op d = (case op (service_heap (d_lbm d) r) of (s, evs) \<Rightarrow>
     Some (Inr (), fold (note_event r) evs (d\<lparr>d_lbm := (d_lbm d)\<lparr>service_heap := (service_heap (d_lbm d))(r := s),
        raised := raised (d_lbm d) @ map (Pair r) evs\<rparr>\<rparr>)))"
proof -
  have "forP (handle_service_event r) evs s = Some (Inr (), fold (note_event r) evs s)" for evs and s :: "'a driver"
    by (induction evs arbitrary: s) (simp_all add: bindP_def handle_service_event_run returnP_def)
  then show ?thesis by (simp add: serviceD_def split: prod.split)
qed

text \<open>
  C8: Docker reports a new service and its first container in any order, and the driver ends with the same
  service, the same names in the resolver and the same goroutines: the load balancer of a service with a
  virtual address is created once.
\<close>

theorem service_and_container_any_order:
  assumes "cm_Get (dsi_ID info) (d_services d) = None" and "dsi_ID info \<noteq> []"
    and "c_ServiceID c = dsi_ID info" and "c_ServiceName c = dsi_Name info"
  shows "\<exists>d1 d2. bindP (handle_service info) (\<lambda>_. register_container c) d = Some (Inr (), d1) \<and>
    bindP (register_container c) (\<lambda>_. handle_service info) d = Some (Inr (), d2) \<and>
    d_services d1 = d_services d2 \<and> d_resolver d1 = d_resolver d2 \<and> d_tasks d1 = d_tasks d2 \<and>
    (\<forall>r. service_heap (d_lbm d1) r = service_heap (d_lbm d2) r) \<and>
    d_tasks d1 = d_tasks d @ (if IsInitialized (service_heap (d_lbm d1) (d_next d)) \<and> dsi_EndpointMode info = ServiceEndpointModeVip
      then [T_CreateLoadBalancer (d_next d)] else [])"
  using assms
  by (simp add: handle_service_def register_container_def get_or_add_service_def createService_def serviceD_run
      cm_Get_def cm_Set_def SetEndpointMode_def SetNetworks_def AddContainer_def NewService_def IsInitialized_def GetInfo_def
      note_event_def bindP_def returnP_def getP_def updP_def Let_def AddService_def case_prod_unfold
      ServiceEndpointModeVip_def ServiceEndpointModeDnsrr_def) auto
section \<open>Examples\<close>

text \<open>A driver with two networks, made one after the other.\<close>

definition demo_net_of :: "string \<Rightarrow> int \<Rightarrow> network" where
  "demo_net_of i v = running_network\<lparr>flannelID := i, localGateway := [10, 1, 0, 1], nw_vni := v\<rparr>"

definition demo_driver :: "'w \<Rightarrow> 'w driver" where
  "demo_driver w = \<lparr>d_addressSpace = demo_space, d_defaultFlannelOptions = [], d_defaultHostSubnetSize = 25,
     d_networks = \<lparr>dkm_m1 = [(''net-1'', 0), (''net-2'', 1)], dkm_m2 = [(''d1'', 0), (''d2'', 1)]\<rparr>,
     d_lbm = \<lparr>services = [], unsubscribers = [], loadBalancers = [],
        loadBalancersData = \<lparr>st_client = NewEtcdClient [] 5 ''/lb'', st_data = [],
          st_handlers = \<lparr>has_OnChanged = False, has_OnAdded = False, has_OnRemoved = False\<rparr>\<rparr>,
        fwmarksManagement = NewFwmarksManagement (NewEtcdClient [] 5 ''/fwmarks''), flannelNetworksByDockerID = [],
        otherNetworksByDockerID = [], service_heap = (\<lambda>_. web), event_heap = (\<lambda>_. no_events),
        network_heap = (\<lambda>_. demo_net), raised = [], world = w\<rparr>,
     d_services = [], d_data = running_data, d_completeAddressSpace = [v4net 167772160 8], d_networkSubnetSize = 20,
     d_vniStart = 6514, d_isInitialized = True, d_bySandboxKey = [], d_byEndpointID = [], d_resolver = NewResolver False,
     d_clients = \<lparr>cl_root = net_client, cl_dockerData = net_client, cl_serviceLbs = net_client, cl_addressSpace = net_client,
        cl_networks = net_client\<rparr>,
     d_isHookAvailable = True, d_network_heap = (\<lambda>r. demo_net_of (if r = 0 then ''net-1'' else ''net-2'') (6515 + int r)),
     d_ns_heap = (\<lambda>_. demo_nameserver), d_activated = [], d_next = 2, d_tasks = []\<rparr>"

lemma demo_driver_networks:
  "d_networks (demo_driver w) = \<lparr>dkm_m1 = [(''net-1'', 0), (''net-2'', 1)], dkm_m2 = [(''d1'', 0), (''d2'', 1)]\<rparr>"
  by (simp add: demo_driver_def)

lemma demo_driver_ok: "dkm_ok [] [] (d_networks (demo_driver w))"
  by (simp add: demo_driver_def dkm_ok_def map_ok_def)

theorem pool_then_gateway_witness:
  "\<forall>S :: nat drvsys. \<exists>resp d1. RequestPool S \<lparr>rp_V6 = False, rp_Options = [(''flannel-id'', ''net-1'')]\<rparr> (demo_driver 0) = Some (Inr resp, d1) \<and>
    (\<exists>x. RequestAddress S \<lparr>ra_PoolID = rpr_PoolID resp, ra_Address = [],
        ra_Options = [(''RequestAddressType'', ''com.docker.network.gateway'')]\<rparr> d1 = Some (Inr (x @ ''/32''), d1))"
proof
  fix S :: "nat drvsys"
  let ?q = "\<lparr>rp_V6 = False, rp_Options = [(''flannel-id'', ''net-1'')]\<rparr>"
  have "\<exists>resp d1. RequestPool S ?q (demo_driver 0) = Some (Inr resp, d1)"
  proof -
    have "getNetwork [] ''net-1'' (demo_driver 0) = Some (Inr (Some 0), demo_driver (0 :: nat))"
      using getNetwork_flannel [OF demo_driver_ok, of "''net-1''" "0 :: nat"] by (simp add: demo_driver_networks)
    then show ?thesis
      by (simp add: RequestPool_def option_at_def getOrCreateNetwork_def bindP_def networkInfoD_def subnet_of_def nw_GetInfo_def
          returnP_def getP_def Let_def)
  qed
  then obtain resp d1 where run: "RequestPool S ?q (demo_driver 0) = Some (Inr resp, d1)" by blast
  from pool_then_gateway [OF demo_driver_ok run] run
  show "\<exists>resp d1. RequestPool S ?q (demo_driver 0) = Some (Inr resp, d1) \<and>
    (\<exists>x. RequestAddress S \<lparr>ra_PoolID = rpr_PoolID resp, ra_Address = [],
        ra_Options = [(''RequestAddressType'', ''com.docker.network.gateway'')]\<rparr> d1 = Some (Inr (x @ ''/32''), d1))"
    by blast
qed

theorem service_and_container_any_order_witness:
  "\<exists>d1. bindP (handle_service \<lparr>dsi_ID = ''s1'', dsi_Name = ''web'', dsi_EndpointMode = ''vip'', dsi_Networks = [''n1''],
        dsi_IpamVIPs = [(''n1'', [10, 0, 0, 2])]\<rparr>)
      (\<lambda>_. register_container ((new_container_info ''c1'' demo_container)\<lparr>c_ServiceID := ''s1'', c_ServiceName := ''web''\<rparr>))
      (demo_driver (0 :: nat)) = Some (Inr (), d1) \<and> length (d_tasks d1) \<le> 1"
proof -
  let ?i = "\<lparr>dsi_ID = ''s1'', dsi_Name = ''web'', dsi_EndpointMode = ''vip'', dsi_Networks = [''n1''],
        dsi_IpamVIPs = [(''n1'', [10, 0, 0, 2])]\<rparr>"
  let ?c = "(new_container_info ''c1'' demo_container)\<lparr>c_ServiceID := ''s1'', c_ServiceName := ''web''\<rparr>"
  have *: "cm_Get (dsi_ID ?i) (d_services (demo_driver (0 :: nat))) = None" "dsi_ID ?i \<noteq> []"
    "c_ServiceID ?c = dsi_ID ?i" "c_ServiceName ?c = dsi_Name ?i"
    by (simp_all add: demo_driver_def cm_Get_def)
  have t: "d_tasks (demo_driver (0 :: nat)) = []" by (simp add: demo_driver_def)
  obtain d1 and P :: bool where "bindP (handle_service ?i) (\<lambda>_. register_container ?c) (demo_driver (0 :: nat)) = Some (Inr (), d1)"
    and "d_tasks d1 = (if P then [T_CreateLoadBalancer (d_next (demo_driver (0 :: nat)))] else [])"
    using service_and_container_any_order [OF *] unfolding t append_Nil by blast
  then show ?thesis by (auto split: if_splits)
qed

definition stuck_host :: "ref_pair host" where
  "stuck_host = (ref_host BootstrapDone [] demo_ncodecs)\<lparr>SignalTerm := (\<lambda>p w. (Inl (OtherError ''no such process''), w))\<rparr>"


end
