(* ===== verification/Driver_Invariant.thy ===== *)
theory Driver_Invariant
  imports Driver_Requests
begin

text \<open>
  What every reachable state of the driver satisfies, whatever docker reports and requests, in whatever order the
  handlers, the requests and the goroutines run, and whatever fails: the references of its maps are objects
  that were made, the network under a flannel ID has that ID, the service under an ID has that ID, and the name
  server of a sandbox is that of the sandbox.
\<close>

section \<open>What the methods of the components leave alone\<close>

lemma keeps_ioN [keeps_intros]: "keeps (\<lambda>s. P (fst s)) (ioN op)"
  by (auto simp: keeps_def split: prod.split)

lemma keeps_ioN_opt [keeps_intros]: "keeps (\<lambda>s. P (fst s)) (ioN_opt op)"
  by (auto simp: keeps_def after_def ioN_opt_def split: option.split prod.split)

lemma keeps_effN [keeps_intros]: "keeps (\<lambda>s. P (fst s)) (effN op)"
  by (auto simp: keeps_def split: prod.split)

lemma keeps_selfN [keeps_intros]: "keeps I (selfN f)"
  by (simp add: selfN_def keeps_get)

lemma keeps_setN [keeps_intros]: "(\<And>n. P n \<Longrightarrow> P (f n)) \<Longrightarrow> keeps (\<lambda>s. P (fst s)) (setN f)"
  by (simp add: keeps_def)

lemma keeps_err [keeps_intros]: "keeps I (errP e)"
  by (simp add: keeps_def)

lemma keeps_result [keeps_intros]: "keeps I (resultP e)"
  by (simp add: keeps_def)

lemma keeps_logE [keeps_intros]: "keeps I p \<Longrightarrow> keeps I (logE p)"
  unfolding keeps_def by (blast intro: after_logE)

lemma keeps_attempt [keeps_intros]: "keeps I p \<Longrightarrow> keeps I (attemptP p)"
  by (auto simp: keeps_def after_def attemptP_def split: option.splits sum.splits err.splits)

lemma keeps_stuck [keeps_intros]: "keeps I (\<lambda>s. None)"
  by (simp add: keeps_def after_def)

lemma keeps_if [keeps_intros]: "(b \<Longrightarrow> keeps I p) \<Longrightarrow> (\<not> b \<Longrightarrow> keeps I q) \<Longrightarrow> keeps I (if b then p else q)"
  by simp

lemma keeps_option [keeps_intros]:
  "keeps I p \<Longrightarrow> (\<And>x. keeps I (f x)) \<Longrightarrow> keeps I (case v of None \<Rightarrow> p | Some x \<Rightarrow> f x)"
  by (simp split: option.split)

lemma keeps_sum [keeps_intros]:
  "(\<And>x. keeps I (f x)) \<Longrightarrow> (\<And>x. keeps I (g x)) \<Longrightarrow> keeps I (case v of Inl x \<Rightarrow> f x | Inr x \<Rightarrow> g x)"
  by (simp split: sum.split)

lemma keeps_prod [keeps_intros]: "(\<And>x y. keeps I (f x y)) \<Longrightarrow> keeps I (case v of (x, y) \<Rightarrow> f x y)"
  by (simp split: prod.split)

lemma keeps_bool [keeps_intros]:
  "keeps I p \<Longrightarrow> keeps I q \<Longrightarrow> keeps I (case v of True \<Rightarrow> p | False \<Rightarrow> q)"
  by (simp split: bool.split)

section \<open>Networks\<close>

text \<open>No method changes the flannel ID or the VNI of its network.\<close>

definition net_is :: "string \<Rightarrow> int \<Rightarrow> network \<Rightarrow> bool" where
  "net_is i v n \<longleftrightarrow> flannelID n = i \<and> nw_vni n = v"

abbreviation same_network :: "string \<Rightarrow> int \<Rightarrow> ('w, 'a) netP \<Rightarrow> bool" where
  "same_network i v \<equiv> keeps (\<lambda>s. net_is i v (fst s))"

lemma net_is_upd [simp]:
  "net_is i v (n\<lparr>flannelDaemonProcess := a\<rparr>) = net_is i v n" "net_is i v (n\<lparr>networkSubnet := b\<rparr>) = net_is i v n"
  "net_is i v (n\<lparr>hostSubnet := b\<rparr>) = net_is i v n" "net_is i v (n\<lparr>localGateway := c\<rparr>) = net_is i v n"
  "net_is i v (n\<lparr>nw_mtu := d\<rparr>) = net_is i v n" "net_is i v (n\<lparr>nw_pool := e\<rparr>) = net_is i v n"
  "net_is i v (n\<lparr>nw_bridge := f\<rparr>) = net_is i v n" "net_is i v (n\<lparr>nw_endpoints := g\<rparr>) = net_is i v n"
  by (simp_all add: net_is_def)

lemma same_connN [keeps_intros]: "keeps (\<lambda>s. P (fst s)) p \<Longrightarrow> keeps (\<lambda>s. P (fst s)) (connN H p)"
proof (rule keepsI)
  fix s :: "network \<times> 'a"
  assume p: "keeps (\<lambda>s. P (fst s)) p" and s: "P (fst s)"
  then have run: "p (fst s, w1) = Some (a, n, w2) \<Longrightarrow> P n" for w1 a n w2
    using keepsD [OF p, of "(fst s, w1)"] by (simp add: after_def)
  show "after (connN H p) s (\<lambda>_ t. P (fst t))"
    using s by (auto simp: after_def connN_def intro: run split: option.split prod.split)
qed

lemma same_unlocking [keeps_intros]: "keeps (\<lambda>s. P (fst s)) p \<Longrightarrow> keeps (\<lambda>s. P (fst s)) (unlocking H p)"
  by (fastforce simp: keeps_def after_def unlocking_def split: option.splits prod.splits)

lemma same_endpointN [keeps_intros]: "same_network i v (endpointN j op e)"
  by (auto simp: keeps_def after_def endpointN_def errP_def failP_def returnP_def split: prod.splits option.splits)

lemma same_end [keeps_intros]: "same_network i v (endFlannelDaemonProcess H)"
  unfolding endFlannelDaemonProcess_def by (intro keeps_intros) simp

lemma same_load_line [keeps_intros]: "same_network i v (load_line H t)"
  unfolding load_line_def Let_def set_network_subnet_def set_host_subnet_def set_mtu_def
  by (intro keeps_intros) simp_all

lemma same_load [keeps_intros]: "same_network i v (loadFlannelConfig H f)"
  unfolding loadFlannelConfig_def by (intro keeps_intros) simp

lemma same_bootstrap [keeps_intros]:
  "(\<And>e. keeps I (f e)) \<Longrightarrow> keeps I p \<Longrightarrow> keeps I q \<Longrightarrow>
    keeps I (case b of FlanneldExited e \<Rightarrow> f e | BootstrapDone \<Rightarrow> p | BootstrapTimeout \<Rightarrow> q)"
  by (simp split: bootstrap.split)

lemma same_start [keeps_intros]: "same_network i v (startFlannel H)"
  unfolding startFlannel_def start_daemon_def by (intro keeps_intros) simp_all

lemma same_Ensure [keeps_intros]: "same_network i v (nw_Ensure H)"
  unfolding nw_Ensure_def isFlannelDaemonProcessRunning_def by (intro keeps_intros)

lemma same_release_ip [keeps_intros]: "same_network i v (release_ip H a)"
  by (auto simp: keeps_def after_def release_ip_def errP_def failP_def returnP_def split: prod.splits option.splits)

lemma same_release_all [keeps_intros]: "same_network i v (release_all H)"
  by (auto simp: keeps_def after_def release_all_def errP_def failP_def returnP_def split: prod.splits option.splits)

lemma same_Init [keeps_intros]: "same_network i v (nw_Init H dd)"
  unfolding nw_Init_def init_endpoint_def init_allocation_def by (intro keeps_intros) simp_all

lemma same_Delete [keeps_intros]: "same_network i v (nw_Delete H)"
  unfolding nw_Delete_def cleanupFlannelEnvFile_def cleanupInterfaces_def cleanupEndpoints_def Let_def
  by (intro keeps_intros) simp_all

lemma same_AddEndpoint [keeps_intros]: "same_network i v (AddEndpoint H j a mac)"
  unfolding AddEndpoint_def by (intro keeps_intros) simp

lemma same_DeleteEndpoint [keeps_intros]: "same_network i v (nw_DeleteEndpoint H j)"
  unfolding nw_DeleteEndpoint_def by (intro keeps_intros) simp

lemma same_on_pool [keeps_intros]: "same_network i v (on_pool op)"
  by (auto simp: keeps_def after_def on_pool_def split: prod.splits option.splits)

section \<open>Name servers\<close>

text \<open>No method changes the namespace of its name server.\<close>

definition ns_is :: "string \<Rightarrow> nameserver \<Rightarrow> bool" where
  "ns_is p n \<longleftrightarrow> networkNamespace n = p"

abbreviation same_ns :: "string \<Rightarrow> ('w, 'a) nsprog \<Rightarrow> bool" where
  "same_ns p \<equiv> keeps (\<lambda>s. ns_is p (fst s))"

lemma ns_is_upd [simp]:
  "ns_is p (n\<lparr>portTCP := a\<rparr>) = ns_is p n" "ns_is p (n\<lparr>portUDP := a\<rparr>) = ns_is p n"
  "ns_is p (n\<lparr>tcpServer := b\<rparr>) = ns_is p n" "ns_is p (n\<lparr>udpServer := b\<rparr>) = ns_is p n"
  "ns_is p (n\<lparr>validNetworkIDs := c\<rparr>) = ns_is p n" "ns_is p (n\<lparr>ns_initManager := d\<rparr>) = ns_is p n"
  by (simp_all add: ns_is_def)

lemma same_check_ctx [keeps_intros]: "same_ns p (check_ctx H)"
  unfolding check_ctx_def by (intro keeps_intros)

lemma same_setNamespace [keeps_intros]: "same_ns p (setNamespace H tries)"
proof (induction tries)
  case 0
  show ?case unfolding setNamespace.simps enter_namespace_def by (intro keeps_intros)
next
  case (Suc tries)
  show ?case unfolding setNamespace.simps enter_namespace_def by (intro keeps_intros Suc)
qed

lemma same_startDNSServer [keeps_intros]: "same_ns p (startDNSServer H t)"
  unfolding startDNSServer_def by (intro keeps_intros) simp_all

lemma same_chains_ready [keeps_intros]: "same_ns p (chains_ready H t cs)"
  by (induction cs) (simp_all add: keeps_intros)

lemma same_wait_groups: "same_ns p (wait_groups H t gs rest polls)"
proof (induction H t gs rest polls rule: wait_groups.induct)
  case (1 H table groups chainsGroup rest polls)
  then show ?case unfolding wait_groups.simps by (auto intro!: keeps_intros split: nat.split)
qed (simp_all add: keeps_intros)

lemma same_replace [keeps_intros]: "same_ns p (replaceDNATSNATRules H polls)"
  unfolding replaceDNATSNATRules_def list_rules_def insert_rule_def createChainIfNecessary_def
    waitForChainsWithRules_def delete_listed_def
  by (intro keeps_intros same_wait_groups)

lemma ns_is_add_if_valid: "ns_is p n \<Longrightarrow> ns_is p (add_if_valid as net n)"
proof -
  have "ns_is p n \<Longrightarrow> ns_is p (fold (\<lambda>a n. if ipnet_Contains u a then AddValidNetworkID j n else n) as n)" for u j as n
    by (induction as arbitrary: n) (simp_all add: AddValidNetworkID_def)
  then show "ns_is p n \<Longrightarrow> ?thesis" by (auto simp: add_if_valid_def split: option.split)
qed

lemma same_startDns [keeps_intros]: "same_ns p (startDnsServersInNamespace H tries polls dd)"
  unfolding startDnsServersInNamespace_def setAllNetworksAsValid_def link_addresses_def
  by (intro keeps_intros ns_is_add_if_valid)

lemma same_wait_init [keeps_intros]: "keeps I wait_init"
  unfolding wait_init_def by (intro keeps_intros)

lemma same_Activate [keeps_intros]: "same_ns p (Activate H tries polls dd)"
  unfolding Activate_def run_init_def by (intro keeps_intros) simp_all

lemma same_Deactivate: "same_ns p pending \<Longrightarrow> same_ns p (DeactivateAndCleanup H pending)"
  unfolding DeactivateAndCleanup_def shut_server_def by (intro keeps_intros) simp_all

section \<open>Load balancers\<close>

text \<open>No method of the load balancer management changes the ID of a service.\<close>

definition ids_are :: "('r \<Rightarrow> string) \<Rightarrow> ('r, 'n, 'w) lbm \<Rightarrow> bool" where
  "ids_are f l \<longleftrightarrow> (\<forall>r. s_id (service_heap l r) = f r)"

abbreviation same_ids :: "('r \<Rightarrow> string) \<Rightarrow> (('r, 'n, 'w) lbm, 'a) prog \<Rightarrow> bool" where
  "same_ids f \<equiv> keeps (ids_are f)"

lemma ids_are_heap: "service_heap l1 = service_heap l \<Longrightarrow> ids_are f l1 = ids_are f l"
  by (simp add: ids_are_def)

lemma same_calls [keeps_intros]:
  "same_ids f (ioP op1)" "same_ids f (io_optP op2)" "same_ids f (io_errP op3)" "same_ids f (lbP sid n slb op4)"
  "same_ids f (poolP nw op5)" "same_ids f (storeP op6)"
  by (auto simp: keeps_def after_def ioP_def io_optP_def io_errP_def lbP_def poolP_def storeP_def errP_def returnP_def
      failP_def ids_are_def put_lb_def put_pool_def split: prod.splits option.splits)

lemma same_networks [keeps_intros]:
  "same_ids f (SetFlannelNetwork n nw)" "same_ids f (RegisterOtherNetwork n)" "same_ids f (lbm_DeleteNetwork n)"
  unfolding SetFlannelNetwork_def RegisterOtherNetwork_def lbm_DeleteNetwork_def
  by (intro keeps_intros, simp add: ids_are_def)+

lemma same_deleteForNetwork [keeps_intros]: "same_ids f (deleteForNetwork S info slb n)"
  unfolding deleteForNetwork_def by (intro keeps_intros)

lemma same_DeleteLoadBalancer [keeps_intros]: "same_ids f (DeleteLoadBalancer S sid)"
  unfolding DeleteLoadBalancer_def
  by (intro keeps_intros) (simp_all add: ids_are_def run_unsubscriber_def unsubscribe_all_def split: option.split prod.split)

lemma SetVIPs_id: "s_id (fst (SetVIPs vips s)) = s_id s"
  by (simp add: SetVIPs_def Let_def)

lemma ids_are_vips: "ids_are f s \<Longrightarrow> ids_are f (set_vips r vips s)"
  using SetVIPs_id [of "Some vips" "service_heap s r"] by (auto simp: ids_are_def set_vips_def split: prod.split)

lemma same_createOrUpdate [keeps_intros]: "same_ids f (createOrUpdate_locked S r info)"
  unfolding createOrUpdate_locked_def ensure_lb_def drop_lb_def assign_vip_def set_frontend_def Let_def
  by (intro keeps_intros ids_are_vips) (simp_all add: ids_are_def put_lb_def split: option.split)

lemma same_CreateLoadBalancer:
  assumes "\<And>l. ids_are f l \<Longrightarrow> ids_are f (others l)"
  shows "same_ids f (CreateLoadBalancer S others r)" and "same_ids f (on_networks_changed S others r)"
    and "same_ids f (on_container_added S r c)" and "same_ids f (on_container_removed S r c)"
    and "same_ids f (on_endpoint_mode_changed S others r)"
proof -
  have wait: "same_ids f (\<lambda>s. if hasMissingNetworks r s then None else createOrUpdate_locked S r info s)" for info
    using same_createOrUpdate [of f S r info] by (auto simp: keeps_def after_def)
  have upd: "same_ids f (createOrUpdateLoadBalancer S others r)"
    unfolding createOrUpdateLoadBalancer_def by (intro keeps_intros wait assms)
  show create: "same_ids f (CreateLoadBalancer S others r)"
    unfolding CreateLoadBalancer_def
    by (intro keeps_intros upd) (simp add: ids_are_def subscribe_all_def Let_def split: prod.split)
  show "same_ids f (on_networks_changed S others r)"
    unfolding on_networks_changed_def by (intro keeps_intros upd)
  show "same_ids f (on_container_added S r c)" "same_ids f (on_container_removed S r c)"
    unfolding on_container_added_def on_container_removed_def addBackendIPsToLoadBalancer_def
      removeBackendIPsFromLoadBalancer_def backendsP_def by (intro keeps_intros)+
  show "same_ids f (on_endpoint_mode_changed S others r)"
    unfolding on_endpoint_mode_changed_def by (intro keeps_intros create)
qed

section \<open>The invariant\<close>

definition task_ok :: "nat \<Rightarrow> task \<Rightarrow> bool" where
  "task_ok n t \<longleftrightarrow> (case t of
      T_InitDockerData \<Rightarrow> True | T_CreateLoadBalancer r \<Rightarrow> r < n | T_Activate r \<Rightarrow> r < n
    | T_Joined e r c \<Rightarrow> r < n | T_Inject c \<Rightarrow> True | T_Injected eps r c \<Rightarrow> r < n)"

text \<open>\<open>F\<close> gives the flannel ID that docker reports for a network.\<close>

definition driver_ok :: "(string \<Rightarrow> string) \<Rightarrow> 'w driver \<Rightarrow> bool" where
  "driver_ok F d \<longleftrightarrow> dkm_ok [] [] (d_networks d) \<and>
     (\<forall>i r. map_get (dkm_m1 (d_networks d)) i = Some r \<longrightarrow> r < d_next d \<and> flannelID (d_network_heap d r) = i) \<and>
     (\<forall>k r. map_get (dkm_m2 (d_networks d)) k = Some r \<longrightarrow> r < d_next d \<and> flannelID (d_network_heap d r) = F k) \<and>
     (\<forall>i r. cm_Get i (d_services d) = Some r \<longrightarrow> r < d_next d \<and> s_id (service_heap (d_lbm d) r) = i) \<and>
     (\<forall>k r. cm_Get k (d_bySandboxKey d) = Some r \<longrightarrow>
        r < d_next d \<and> networkNamespace (d_ns_heap d r) = adjustNamespacePath k) \<and>
     (\<forall>e r. cm_Get e (d_byEndpointID d) = Some r \<longrightarrow> r < d_next d) \<and>
     (\<forall>t \<in> set (d_tasks d). task_ok (d_next d) t)"

definition made :: "(string \<Rightarrow> string) \<Rightarrow> nat \<Rightarrow> 'w driver \<Rightarrow> bool" where
  "made F r d \<longleftrightarrow> driver_ok F d \<and> r < d_next d"

definition made_network :: "(string \<Rightarrow> string) \<Rightarrow> nat \<Rightarrow> string \<Rightarrow> 'w driver \<Rightarrow> bool" where
  "made_network F r i d \<longleftrightarrow> made F r d \<and> flannelID (d_network_heap d r) = i"

text \<open>The part of the state that the invariant is about.\<close>

definition driver_frame :: "'w driver \<Rightarrow> 'w driver \<Rightarrow> bool" where
  "driver_frame d d1 \<longleftrightarrow> d_networks d1 = d_networks d \<and> d_services d1 = d_services d \<and>
     d_bySandboxKey d1 = d_bySandboxKey d \<and> d_byEndpointID d1 = d_byEndpointID d \<and> d_next d1 = d_next d \<and>
     d_tasks d1 = d_tasks d \<and> (\<forall>r. flannelID (d_network_heap d1 r) = flannelID (d_network_heap d r)) \<and>
     (\<forall>r. s_id (service_heap (d_lbm d1) r) = s_id (service_heap (d_lbm d) r)) \<and>
     (\<forall>r. networkNamespace (d_ns_heap d1 r) = networkNamespace (d_ns_heap d r))"

definition frame_stable :: "('w driver \<Rightarrow> bool) \<Rightarrow> bool" where
  "frame_stable I \<longleftrightarrow> (\<forall>d d1. driver_frame d d1 \<longrightarrow> I d \<longrightarrow> I d1)"

lemma stable_ok [keeps_intros]: "frame_stable (driver_ok F)"
  by (simp add: frame_stable_def driver_frame_def driver_ok_def)

lemma stable_made [keeps_intros]: "frame_stable (made F r)"
  using stable_ok [of F] by (auto simp: frame_stable_def made_def driver_frame_def)

lemma stable_made_network [keeps_intros]: "frame_stable (made_network F r i)"
  using stable_made [of F r] by (auto simp: frame_stable_def made_network_def driver_frame_def)

lemma keeps_frame:
  assumes "frame_stable I" and "\<And>d x d1. p d = Some (x, d1) \<Longrightarrow> driver_frame d d1"
  shows "keeps I p"
proof (rule keepsI, rule afterI)
  fix d x d1
  assume "I d" "p d = Some (x, d1)"
  with assms(2) [of d x d1] assms(1) show "I d1" unfolding frame_stable_def by blast
qed

lemma frame_world [simp]: "driver_frame d (set_world w d1) = driver_frame d d1"
  by (simp add: driver_frame_def set_world_def)

lemma keeps_ioD [keeps_intros]: "frame_stable I \<Longrightarrow> keeps I (ioD op)" and keeps_effD [keeps_intros]: "frame_stable I \<Longrightarrow> keeps I (effD op1)"
  by (erule keeps_frame, force simp: ioD_def effD_def driver_frame_def set_world_def split: prod.splits)+

lemma keeps_netD [keeps_intros]:
  assumes "frame_stable I" and "\<And>i v. same_network i v p"
  shows "keeps I (netD r p)"
proof (rule keeps_frame [OF assms(1)])
  fix d x d1
  assume run: "netD r p d = Some (x, d1)"
  let ?n = "d_network_heap d r"
  obtain n1 w1 where p: "p (?n, d_world d) = Some (x, n1, w1)"
    and d1: "d1 = set_world w1 (d\<lparr>d_network_heap := (d_network_heap d)(r := n1)\<rparr>)"
    using run by (auto simp: netD_def split: option.splits)
  have "after p (?n, d_world d) (\<lambda>_ t. net_is (flannelID ?n) (nw_vni ?n) (fst t))"
    by (rule keepsD [OF assms(2)]) (simp add: net_is_def)
  then have "flannelID n1 = flannelID ?n" using p by (simp add: after_def net_is_def)
  then show "driver_frame d d1" unfolding d1 frame_world by (simp add: driver_frame_def)
qed

lemma keeps_nsD [keeps_intros]:
  assumes "frame_stable I" and "\<And>k. same_ns k p"
  shows "keeps I (nsD r p)"
proof (rule keeps_frame [OF assms(1)])
  fix d x d1
  assume run: "nsD r p d = Some (x, d1)"
  let ?n = "d_ns_heap d r"
  obtain n1 w1 where p: "p (?n, d_world d) = Some (x, n1, w1)"
    and d1: "d1 = set_world w1 (d\<lparr>d_ns_heap := (d_ns_heap d)(r := n1)\<rparr>)"
    using run by (auto simp: nsD_def split: option.splits)
  have "after p (?n, d_world d) (\<lambda>_ t. ns_is (networkNamespace ?n) (fst t))"
    by (rule keepsD [OF assms(2)]) (simp add: ns_is_def)
  then have "networkNamespace n1 = networkNamespace ?n" using p by (simp add: after_def ns_is_def)
  then show "driver_frame d d1" unfolding d1 frame_world by (simp add: driver_frame_def)
qed

lemma keeps_lbD [keeps_intros]:
  assumes "frame_stable I" and "\<And>f. same_ids f p"
  shows "keeps I (lbD p)"
proof (rule keeps_frame [OF assms(1)])
  fix d x d1
  assume run: "lbD p d = Some (x, d1)"
  let ?l = "(d_lbm d)\<lparr>network_heap := \<lambda>r. net_view (d_network_heap d r)\<rparr>"
  obtain l where p: "p ?l = Some (x, l)"
    and d1: "d1 = d\<lparr>d_lbm := l, d_network_heap := \<lambda>r. put_view (d_network_heap d r) (network_heap l r)\<rparr>"
    using run by (auto simp: lbD_def split: option.splits)
  have "after p ?l (\<lambda>_ t. ids_are (\<lambda>r. s_id (service_heap (d_lbm d) r)) t)"
    by (rule keepsD [OF assms(2)]) (simp add: ids_are_def)
  then have "\<forall>r. s_id (service_heap l r) = s_id (service_heap (d_lbm d) r)" using p by (simp add: after_def ids_are_def)
  moreover have "flannelID (put_view n v) = flannelID n" for n v by (simp add: put_view_def split: option.split)
  ultimately show "driver_frame d d1" by (simp add: d1 driver_frame_def)
qed

lemma keeps_new_pool [keeps_intros]: "frame_stable I \<Longrightarrow> keeps I (new_or_existing_pool S i)"
  by (erule keeps_frame) (auto simp: new_or_existing_pool_def driver_frame_def set_world_def split: prod.splits)

lemma keeps_release_pool [keeps_intros]: "frame_stable I \<Longrightarrow> keeps I (release_pool S i)"
  by (erule keeps_frame)
    (auto simp: release_pool_def errP_def failP_def returnP_def driver_frame_def set_world_def split: prod.splits option.splits)

lemma keeps_resolverD [keeps_intros]: "frame_stable I \<Longrightarrow> keeps I (resolverD f)"
  by (erule keeps_frame) (auto simp: resolverD_def updP_def driver_frame_def)

lemma keeps_fatal [keeps_intros]: "keeps I p \<Longrightarrow> keeps I (fatalP p)"
  by (auto simp: keeps_def after_def fatalP_def split: option.splits sum.splits)
section \<open>Steps that extend the maps\<close>

lemma keeps_bind_gives:
  assumes "\<And>d. I d \<Longrightarrow> after p d (\<lambda>x t. case x of Inl e \<Rightarrow> I t | Inr v \<Rightarrow> R v t)"
    and "\<And>v. keeps (R v) (f v)" and "\<And>v d. R v d \<Longrightarrow> I d"
  shows "keeps I (bindP p f)"
proof (rule keepsI)
  fix d
  assume "I d"
  then have "after p d (\<lambda>x t. case x of Inl e \<Rightarrow> I t | Inr v \<Rightarrow> R v t)" by (rule assms(1))
  then show "after (bindP p f) d (\<lambda>_ t. I t)"
    unfolding after_bind
  proof (rule after_mono)
    fix r d1
    assume "case r of Inl e \<Rightarrow> I d1 | Inr v \<Rightarrow> R v d1"
    moreover have "after (f v) d1 (\<lambda>_ t. I t)" if "R v d1" for v
      by (rule after_mono [OF keepsD [OF assms(2) that]]) (rule assms(3))
    ultimately show "case r of Inl e \<Rightarrow> I d1 | Inr v \<Rightarrow> after (f v) d1 (\<lambda>_ t. I t)" by (auto split: sum.splits)
  qed
qed

text \<open>A lookup whose result is a reference that was made, or none.\<close>

definition found_ok :: "(string \<Rightarrow> string) \<Rightarrow> nat option \<Rightarrow> 'w driver \<Rightarrow> bool" where
  "found_ok F x d \<longleftrightarrow> driver_ok F d \<and> (case x of None \<Rightarrow> True | Some r \<Rightarrow> r < d_next d)"

lemma keeps_found:
  fixes p :: "('w, 'a) drvP"
  assumes "keeps (driver_ok F) p" and "\<And>r. keeps (made F r) (f r)"
  shows "keeps (found_ok F x) (case x of None \<Rightarrow> p | Some r \<Rightarrow> f r)"
proof (cases x)
  case None
  then have "found_ok F x = (driver_ok F :: 'w driver \<Rightarrow> bool)" by (auto simp: found_ok_def fun_eq_iff)
  then show ?thesis using assms(1) None by simp
next
  case (Some r)
  then have "found_ok F x = (made F r :: 'w driver \<Rightarrow> bool)" by (auto simp: found_ok_def made_def fun_eq_iff)
  then show ?thesis using assms(2) Some by simp
qed

lemma found_ok_D: "found_ok F x d \<Longrightarrow> driver_ok F d"
  by (simp add: found_ok_def)

lemma made_D: "made F r d \<Longrightarrow> driver_ok F d"
  by (simp add: made_def)

text \<open>Two programs that need the reference of a lookup.\<close>

lemma keeps_made_weaken: "keeps (driver_ok F) p \<Longrightarrow> (\<And>d x d1. p d = Some (x, d1) \<Longrightarrow> d_next d \<le> d_next d1) \<Longrightarrow> keeps (made F r) p"
  by (fastforce simp: keeps_def after_def made_def split: option.splits)

lemma task_more: "task_ok n t \<Longrightarrow> n \<le> m \<Longrightarrow> task_ok m t"
  by (auto simp: task_ok_def split: task.splits)

lemma driver_ok_task: "driver_ok F d \<Longrightarrow> task_ok (d_next d) t \<Longrightarrow> driver_ok F (d\<lparr>d_tasks := d_tasks d @ [t]\<rparr>)"
  by (simp add: driver_ok_def)

lemma keeps_go_task:
  "task_ok 0 t \<Longrightarrow> keeps (driver_ok F) (go_task t)" and keeps_go_task_made: "task_ok (Suc r) t \<Longrightarrow> keeps (made F r) (go_task t)"
proof -
  show "keeps (driver_ok F) (go_task t)" if "task_ok 0 t"
    unfolding go_task_def
    by (rule keeps_upd) (rule driver_ok_task, assumption, rule task_more [OF that], simp)
  show "keeps (made F r) (go_task t)" if t: "task_ok (Suc r) t"
    unfolding go_task_def made_def
    by (rule keeps_upd) (simp add: driver_ok_task task_more [OF t])
qed

lemma keeps_serviceD:
  assumes "\<And>s. s_id (fst (op s)) = s_id s"
  shows "keeps (made F r) (serviceD r op)"
proof -
  have ev: "keeps (made F r) (handle_service_event r ev)" for ev
    unfolding handle_service_event_def
    by (cases ev) (auto intro!: keeps_intros keeps_go_task_made simp: task_ok_def)
  show ?thesis
    unfolding serviceD_def
  proof (rule keepsI)
    fix d
    assume d: "made F r d"
    obtain s evs where o: "op (service_heap (d_lbm d) r) = (s, evs)" by fastforce
    let ?d = "d\<lparr>d_lbm := (d_lbm d)\<lparr>service_heap := (service_heap (d_lbm d))(r := s), raised := raised (d_lbm d) @ map (Pair r) evs\<rparr>\<rparr>"
    have "s_id s = s_id (service_heap (d_lbm d) r)" using assms [of "service_heap (d_lbm d) r"] o by simp
    then have "driver_frame d ?d" by (simp add: driver_frame_def)
    then have "made F r ?d" using stable_made [of F r] d unfolding frame_stable_def by blast
    then have "after (forP (handle_service_event r) evs) ?d (\<lambda>_ t. made F r t)"
      using keepsD [OF keeps_for [where f = "handle_service_event r", OF ev]] by blast
    then show "after (bindP (getP (\<lambda>d. op (service_heap (d_lbm d) r))) (\<lambda>(s, evs).
       bindP (updP (\<lambda>d. d\<lparr>d_lbm := (d_lbm d)\<lparr>service_heap := (service_heap (d_lbm d))(r := s),
          raised := raised (d_lbm d) @ map (Pair r) evs\<rparr>\<rparr>)) (\<lambda>_. forP (handle_service_event r) evs))) d (\<lambda>_ t. made F r t)"
      by (simp add: o)
  qed
qed

lemma driver_okI:
  assumes "dkm_ok [] [] (d_networks d)"
    and "\<And>i r. map_get (dkm_m1 (d_networks d)) i = Some r \<Longrightarrow> r < d_next d \<and> flannelID (d_network_heap d r) = i"
    and "\<And>k r. map_get (dkm_m2 (d_networks d)) k = Some r \<Longrightarrow> r < d_next d \<and> flannelID (d_network_heap d r) = F k"
    and "\<And>i r. cm_Get i (d_services d) = Some r \<Longrightarrow> r < d_next d \<and> s_id (service_heap (d_lbm d) r) = i"
    and "\<And>k r. cm_Get k (d_bySandboxKey d) = Some r \<Longrightarrow> r < d_next d \<and> networkNamespace (d_ns_heap d r) = adjustNamespacePath k"
    and "\<And>e r. cm_Get e (d_byEndpointID d) = Some r \<Longrightarrow> r < d_next d"
    and "\<And>t. t \<in> set (d_tasks d) \<Longrightarrow> task_ok (d_next d) t"
  shows "driver_ok F d"
  unfolding driver_ok_def using assms by blast

lemma driver_okD:
  assumes "driver_ok F d"
  shows "dkm_ok [] [] (d_networks d)"
    and "map_get (dkm_m1 (d_networks d)) i = Some r \<Longrightarrow> r < d_next d \<and> flannelID (d_network_heap d r) = i"
    and "map_get (dkm_m2 (d_networks d)) k = Some r \<Longrightarrow> r < d_next d \<and> flannelID (d_network_heap d r) = F k"
    and "cm_Get i (d_services d) = Some r \<Longrightarrow> r < d_next d \<and> s_id (service_heap (d_lbm d) r) = i"
    and "cm_Get k (d_bySandboxKey d) = Some r \<Longrightarrow> r < d_next d \<and> networkNamespace (d_ns_heap d r) = adjustNamespacePath k"
    and "cm_Get e (d_byEndpointID d) = Some r \<Longrightarrow> r < d_next d"
    and "t \<in> set (d_tasks d) \<Longrightarrow> task_ok (d_next d) t"
  using assms unfolding driver_ok_def by blast+

text \<open>A new object at the next reference.\<close>

lemma driver_ok_new:
  assumes "driver_ok F d" and "\<And>r. r < d_next d \<Longrightarrow> nh r = d_network_heap d r"
    and "\<And>r. r < d_next d \<Longrightarrow> sh r = d_ns_heap d r" and "\<And>r. r < d_next d \<Longrightarrow> service_heap l r = service_heap (d_lbm d) r"
  shows "driver_ok F (d\<lparr>d_next := Suc (d_next d), d_network_heap := nh, d_ns_heap := sh, d_lbm := l\<rparr>)"
proof (rule driver_okI; (simp)?)
  note D = driver_okD [OF assms(1)]
  show "dkm_ok [] [] (d_networks d)" by (rule D(1))
  show "r < Suc (d_next d) \<and> flannelID (nh r) = i" if "map_get (dkm_m1 (d_networks d)) i = Some r" for i r
    using D(2) [OF that] assms(2) by simp
  show "r < Suc (d_next d) \<and> flannelID (nh r) = F k" if "map_get (dkm_m2 (d_networks d)) k = Some r" for k r
    using D(3) [OF that] assms(2) by simp
  show "r < Suc (d_next d) \<and> s_id (service_heap l r) = i" if "cm_Get i (d_services d) = Some r" for i r
    using D(4) [OF that] assms(4) by simp
  show "r < Suc (d_next d) \<and> networkNamespace (sh r) = adjustNamespacePath k" if "cm_Get k (d_bySandboxKey d) = Some r" for k r
    using D(5) [OF that] assms(3) by simp
  show "r < Suc (d_next d)" if "cm_Get e (d_byEndpointID d) = Some r" for e r
    using D(6) [OF that] by simp
  show "task_ok (Suc (d_next d)) t" if "t \<in> set (d_tasks d)" for t
    using D(7) [OF that] by (rule task_more) simp
qed

section \<open>Services\<close>

lemma get_or_add_service_made:
  assumes "driver_ok F d"
  shows "after (get_or_add_service i nm) d (\<lambda>x t. case x of Inl e \<Rightarrow> driver_ok F t | Inr r \<Rightarrow> made F r t)"
proof (cases "cm_Get i (d_services d)")
  case None
  let ?r = "d_next d"
  let ?l = "(d_lbm d)\<lparr>service_heap := (service_heap (d_lbm d))(?r := NewService i nm),
      event_heap := (event_heap (d_lbm d))(?r := \<lparr>ev_networks = NewEvent, ev_added = NewEvent, ev_removed = NewEvent, ev_mode = NewEvent\<rparr>)\<rparr>"
  let ?d = "d\<lparr>d_next := Suc ?r, d_lbm := ?l\<rparr>"
  have n: "driver_ok F ?d"
    using driver_ok_new [OF assms, of "d_network_heap d" "d_ns_heap d" ?l] by simp
  have "driver_ok F (?d\<lparr>d_services := cm_Set i ?r (d_services d)\<rparr>)"
  proof (rule driver_okI; (use driver_okD [OF n] in simp; fail)?)
    fix j r
    assume "cm_Get j (d_services (?d\<lparr>d_services := cm_Set i ?r (d_services d)\<rparr>)) = Some r"
    then show "r < d_next (?d\<lparr>d_services := cm_Set i ?r (d_services d)\<rparr>) \<and>
        s_id (service_heap (d_lbm (?d\<lparr>d_services := cm_Set i ?r (d_services d)\<rparr>)) r) = j"
      using driver_okD(4) [OF n, of j r] by (auto simp: cm_Set_def cm_Get_def NewService_def split: if_splits)
  qed
  with None show ?thesis by (simp add: get_or_add_service_def createService_def made_def)
next
  case (Some r)
  with driver_okD(4) [OF assms Some] assms show ?thesis by (simp add: get_or_add_service_def made_def)
qed

lemma service_ops_id:
  "s_id (fst (SetEndpointMode m s)) = s_id s" "s_id (fst (SetNetworks ns vips s)) = s_id s"
  "s_id (fst (AddContainer c s)) = s_id s" "s_id (fst (RemoveContainer j s)) = s_id s"
  by (simp_all add: SetEndpointMode_def SetNetworks_def AddContainer_def RemoveContainer_def Let_def split: prod.split option.split)

lemma ok_handle_service [keeps_intros]: "keeps (driver_ok F) (handle_service info)"
  unfolding handle_service_def
  by (rule keeps_bind_gives [OF get_or_add_service_made])
    (auto intro!: keeps_bind keeps_serviceD simp: service_ops_id made_D)

lemma ok_register_container [keeps_intros]: "keeps (driver_ok F) (register_container c)"
  unfolding register_container_def
  by (rule keeps_if, rule keeps_bind_gives [OF get_or_add_service_made])
    (auto intro!: keeps_serviceD keeps_return simp: service_ops_id made_D)

lemma ok_del:
  assumes "driver_ok F d"
  shows "driver_ok F (d\<lparr>d_services := cm_Remove i (d_services d)\<rparr>)" "driver_ok F (d\<lparr>d_bySandboxKey := cm_Remove i (d_bySandboxKey d)\<rparr>)"
    "driver_ok F (d\<lparr>d_byEndpointID := cm_Remove i (d_byEndpointID d)\<rparr>)"
  by (rule driver_okI; use driver_okD [OF assms] in \<open>simp add: cm_Remove_def cm_Get_def split: if_splits\<close>)+

lemma TryRemove_snd: "snd (cm_TryRemove k m) = (if cm_Get k m = None then m else cm_Remove k m)"
  by (simp add: cm_TryRemove_def cm_Get_def cm_Remove_def split: option.split)

lemma TryRemove_fst: "fst (cm_TryRemove k m) = cm_Get k m"
  by (simp add: cm_TryRemove_def cm_Get_def split: option.split)

lemma ok_try_remove:
  assumes "driver_ok F d"
  shows "driver_ok F (d\<lparr>d_services := snd (cm_TryRemove i (d_services d))\<rparr>)"
    "driver_ok F (d\<lparr>d_bySandboxKey := snd (cm_TryRemove i (d_bySandboxKey d))\<rparr>)"
    "driver_ok F (d\<lparr>d_byEndpointID := snd (cm_TryRemove i (d_byEndpointID d))\<rparr>)"
  using assms ok_del [OF assms, of i] by (simp_all add: TryRemove_snd)

lemma ok_remove_service [keeps_intros]: "keeps (driver_ok F) (remove_service S info)"
proof (rule keepsI)
  fix d :: "'a driver"
  assume d: "driver_ok F d"
  let ?d = "d\<lparr>d_services := snd (cm_TryRemove (dsi_ID info) (d_services d))\<rparr>"
  let ?rest = "\<lambda>r. bindP (if dsi_EndpointMode info = ServiceEndpointModeVip
                 then logE (lbD (DeleteLoadBalancer (ds_lb S) (dsi_ID info))) else returnP ()) (\<lambda>_.
          bindP (getP (\<lambda>d. service_heap (d_lbm d))) (\<lambda>heap. resolverD (RemoveService heap r)))"
  have "keeps (driver_ok F) (case fst (cm_TryRemove (dsi_ID info) (d_services d)) of None \<Rightarrow> returnP () | Some r \<Rightarrow> ?rest r)"
    by (intro keeps_intros)
  from keepsD [OF this ok_try_remove(1) [OF d, of "dsi_ID info"]]
  show "after (remove_service S info) d (\<lambda>_ t. driver_ok F t)"
    by (simp add: remove_service_def case_prod_unfold del: after_bind add: after_bind_upd after_bind_get)
qed

section \<open>Networks of the driver\<close>

lemma after_bind_gives:
  assumes "after p d (\<lambda>x t. case x of Inl e \<Rightarrow> I t | Inr v \<Rightarrow> R v t)"
    and "\<And>v t. R v t \<Longrightarrow> after (f v) t Q" and "\<And>e t. I t \<Longrightarrow> Q (Inl e) t"
  shows "after (bindP p f) d Q"
  unfolding after_bind by (rule after_mono [OF assms(1)]) (auto split: sum.splits intro: assms(2,3))

lemma after_bind_keeps:
  assumes "keeps I p" and "I d" and "\<And>v t. I t \<Longrightarrow> after (f v) t Q" and "\<And>e t. I t \<Longrightarrow> Q (Inl e) t"
  shows "after (bindP p f) d Q"
  by (rule after_bind_gives [where I = I and R = "\<lambda>_. I"])
    (use keepsD [OF assms(1,2)] in \<open>auto intro: assms(3,4) elim: after_mono split: sum.split\<close>)

text \<open>The two IDs of a key agree with what docker reports.\<close>

definition ids_ok :: "(string \<Rightarrow> string) \<Rightarrow> string \<Rightarrow> string \<Rightarrow> bool" where
  "ids_ok F did fid \<longleftrightarrow> did = [] \<or> fid = [] \<or> F did = fid"

lemma networks_Get_ok:
  assumes "driver_ok F d" and "ids_ok F did fid"
  shows "after (networks_Get did fid) d (\<lambda>x t. case x of Inl e \<Rightarrow> driver_ok F t
    | Inr y \<Rightarrow> (case y of Inl _ \<Rightarrow> driver_ok F t | Inr z \<Rightarrow> found_ok F z t))"
proof -
  note D = driver_okD [OF assms(1)]
  have z: "map_get (dkm_m1 (d_networks d)) [] = None" "map_get (dkm_m2 (d_networks d)) [] = None"
    using D(1) by (simp_all add: dkm_ok_def)
  have 1: "driver_ok F (d\<lparr>d_networks := (d_networks d)\<lparr>dkm_m2 := map_put did v (dkm_m2 (d_networks d))\<rparr>\<rparr>)"
    if "map_get (dkm_m1 (d_networks d)) fid = Some v" "did \<noteq> []" for v
  proof (rule driver_okI; (use D in simp; fail)?)
    show "dkm_ok [] [] (d_networks (d\<lparr>d_networks := (d_networks d)\<lparr>dkm_m2 := map_put did v (dkm_m2 (d_networks d))\<rparr>\<rparr>))"
      using D(1) that by (simp add: dkm_ok_def)
    have "v < d_next d \<and> flannelID (d_network_heap d v) = F did"
      using D(2) [OF that(1)] that assms(2) z by (auto simp: ids_ok_def)
    then show "r < d_next (d\<lparr>d_networks := (d_networks d)\<lparr>dkm_m2 := map_put did v (dkm_m2 (d_networks d))\<rparr>\<rparr>) \<and>
        flannelID (d_network_heap (d\<lparr>d_networks := (d_networks d)\<lparr>dkm_m2 := map_put did v (dkm_m2 (d_networks d))\<rparr>\<rparr>) r) = F k"
      if "map_get (dkm_m2 (d_networks (d\<lparr>d_networks := (d_networks d)\<lparr>dkm_m2 := map_put did v (dkm_m2 (d_networks d))\<rparr>\<rparr>))) k = Some r" for k r
      using that D(3) [of k r] by (auto split: if_splits)
  qed
  have 2: "driver_ok F (d\<lparr>d_networks := (d_networks d)\<lparr>dkm_m1 := map_put fid v (dkm_m1 (d_networks d))\<rparr>\<rparr>)"
    if "map_get (dkm_m2 (d_networks d)) did = Some v" "fid \<noteq> []" for v
  proof (rule driver_okI; (use D in simp; fail)?)
    show "dkm_ok [] [] (d_networks (d\<lparr>d_networks := (d_networks d)\<lparr>dkm_m1 := map_put fid v (dkm_m1 (d_networks d))\<rparr>\<rparr>))"
      using D(1) that by (simp add: dkm_ok_def)
    have "v < d_next d \<and> flannelID (d_network_heap d v) = fid"
      using D(3) [OF that(1)] that assms(2) z by (auto simp: ids_ok_def)
    then show "r < d_next (d\<lparr>d_networks := (d_networks d)\<lparr>dkm_m1 := map_put fid v (dkm_m1 (d_networks d))\<rparr>\<rparr>) \<and>
        flannelID (d_network_heap (d\<lparr>d_networks := (d_networks d)\<lparr>dkm_m1 := map_put fid v (dkm_m1 (d_networks d))\<rparr>\<rparr>) r) = k"
      if "map_get (dkm_m1 (d_networks (d\<lparr>d_networks := (d_networks d)\<lparr>dkm_m1 := map_put fid v (dkm_m1 (d_networks d))\<rparr>\<rparr>))) k = Some r" for k r
      using that D(2) [of k r] by (auto split: if_splits)
  qed
  have next1: "v < d_next d" if "map_get (dkm_m1 (d_networks d)) fid = Some v" for v using D(2) [OF that] by simp
  have next2: "v < d_next d" if "map_get (dkm_m2 (d_networks d)) did = Some v" for v using D(3) [OF that] by simp
  show ?thesis
    using assms(1) 1 2 next1 next2
    by (cases "map_get (dkm_m1 (d_networks d)) fid"; cases "map_get (dkm_m2 (d_networks d)) did")
      (simp_all add: after_def networks_Get_def dkm_Get_def found_ok_def)
qed

lemma getNetwork_ok:
  assumes "driver_ok F d" and "ids_ok F did fid"
  shows "after (getNetwork did fid) d (\<lambda>x t. case x of Inl e \<Rightarrow> driver_ok F t | Inr z \<Rightarrow> found_ok F z t)"
  unfolding getNetwork_def
  by (rule after_bind_gives [OF networks_Get_ok [OF assms]]) (auto simp: found_ok_def split: sum.splits)

lemma ids_ok_empty [simp]: "ids_ok F [] fid" "ids_ok F did []"
  by (simp_all add: ids_ok_def)

lemma made_Set:
  assumes "made_network F r fid d" and "ids_ok F did fid" and "fid \<noteq> []"
  shows "made F r (d\<lparr>d_networks := dkm_Set [] [] fid did r (d_networks d)\<rparr>)"
proof -
  have d: "driver_ok F d" and r: "r < d_next d" "flannelID (d_network_heap d r) = fid"
    using assms(1) by (simp_all add: made_network_def made_def)
  note D = driver_okD [OF d]
  let ?d = "d\<lparr>d_networks := dkm_Set [] [] fid did r (d_networks d)\<rparr>"
  have "driver_ok F ?d"
  proof (rule driver_okI; (use D in simp; fail)?)
    show "dkm_ok [] [] (d_networks ?d)" using D(1) by (simp add: dkm_ok_Set)
    show "r' < d_next ?d \<and> flannelID (d_network_heap ?d r') = i" if "map_get (dkm_m1 (d_networks ?d)) i = Some r'" for i r'
      using that D(2) [of i r'] r by (auto simp: dkm_Set_def Let_def split: if_splits)
    show "r' < d_next ?d \<and> flannelID (d_network_heap ?d r') = F k" if "map_get (dkm_m2 (d_networks ?d)) k = Some r'" for k r'
      using that D(3) [of k r'] r assms(2,3) by (auto simp: dkm_Set_def Let_def ids_ok_def split: if_splits)
  qed
  then show ?thesis using r by (simp add: made_def)
qed

lemma made_network_D: "made_network F r i d \<Longrightarrow> driver_ok F d"
  by (simp add: made_network_def made_def)

lemma create_network_made:
  assumes "driver_ok F d" and "ids_ok F did fid"
  shows "after (create_network S did fid) d (\<lambda>x t. case x of Inl e \<Rightarrow> driver_ok F t | Inr r \<Rightarrow> made F r t)"
proof (cases "fid = []")
  case True
  then show ?thesis using assms(1) by (simp add: create_network_def)
next
  case False
  have new: "after (new_network S fid subnet) t (\<lambda>x t. case x of Inl e \<Rightarrow> driver_ok F t | Inr r \<Rightarrow> made_network F r fid t)"
    if "driver_ok F t" for subnet and t :: "'a driver"
    using driver_ok_new [OF that, of "(d_network_heap t)(d_next t := n)" "d_ns_heap t" "d_lbm t" for n]
    by (simp add: new_network_def made_network_def made_def NewNetwork_def)
  have init: "after (bindP (getP d_data) (\<lambda>dockerData. bindP (netD r (nw_Init (ds_host S) dockerData)) (\<lambda>_.
      bindP (updP (\<lambda>d. d\<lparr>d_networks := dkm_Set [] [] fid did r (d_networks d)\<rparr>)) (\<lambda>_. returnP r)))) t
      (\<lambda>x t. case x of Inl e \<Rightarrow> driver_ok F t | Inr r \<Rightarrow> made F r t)" if t: "made_network F r fid t" for r and t :: "'a driver"
    unfolding after_bind_get
  proof (rule after_bind_keeps [where I = "made_network F r fid", OF _ t])
    show "keeps (made_network F r fid) (netD r (nw_Init (ds_host S) (d_data t)))" by (intro keeps_intros)
  qed (auto dest: made_Set [OF _ assms(2) False] simp: made_network_D)
  show ?thesis
    unfolding create_network_def using False
    by (simp del: after_bind, intro after_bind_keeps [where I = "driver_ok F", OF _ assms(1)] keeps_intros)
      (auto simp del: after_bind intro!: after_bind_gives [OF new] init)
qed

lemma getOrCreateNetwork_made:
  assumes "driver_ok F d" and "ids_ok F did fid"
  shows "after (getOrCreateNetwork S did fid) d (\<lambda>x t. case x of Inl e \<Rightarrow> driver_ok F t | Inr r \<Rightarrow> made F r t)"
  unfolding getOrCreateNetwork_def
proof (rule after_bind_gives [OF getNetwork_ok [OF assms]])
  fix found and t :: "'a driver"
  assume found: "found_ok F found t"
  show "after (bindP (case found of None \<Rightarrow> create_network S did fid | Some r \<Rightarrow> returnP r)
      (\<lambda>r. bindP (if did \<noteq> [] then lbD (SetFlannelNetwork did r) else returnP ()) (\<lambda>_. returnP r))) t
      (\<lambda>x t. case x of Inl e \<Rightarrow> driver_ok F t | Inr r \<Rightarrow> made F r t)"
  proof (rule after_bind_gives [where I = "driver_ok F" and R = "made F"])
    show "after (case found of None \<Rightarrow> create_network S did fid | Some r \<Rightarrow> returnP r) t
        (\<lambda>x t. case x of Inl e \<Rightarrow> driver_ok F t | Inr r \<Rightarrow> made F r t)"
      using found create_network_made [OF _ assms(2)] by (cases found) (simp_all add: found_ok_def made_def)
    show "after (bindP (if did \<noteq> [] then lbD (SetFlannelNetwork did r) else returnP ()) (\<lambda>_. returnP r)) t
        (\<lambda>x t. case x of Inl e \<Rightarrow> driver_ok F t | Inr r \<Rightarrow> made F r t)" if "made F r t" for r and t :: "'a driver"
      by (rule after_bind_keeps [where I = "made F r", OF _ that], intro keeps_intros) (simp_all add: made_def)
  qed simp
qed simp

lemma ok_ensure_network: "ids_ok F (DockerID info) (FlannelID info) \<Longrightarrow> keeps (driver_ok F) (ensure_network S other info)"
proof -
  assume "ids_ok F (DockerID info) (FlannelID info)"
  then have "keeps (driver_ok F) (getOrCreateNetwork S (DockerID info) (FlannelID info))"
    by (intro keepsI after_mono [OF getOrCreateNetwork_made]) (auto simp: made_def split: sum.splits)
  then show ?thesis unfolding ensure_network_def by (intro keeps_intros)
qed

lemma ok_networks_Remove [keeps_intros]: "keeps (driver_ok F) (networks_Remove did fid)"
proof (rule keepsI)
  fix d :: "'a driver"
  assume d: "driver_ok F d"
  note D = driver_okD [OF d]
  have "driver_ok F (d\<lparr>d_networks := snd (dkm_Remove fid did (d_networks d))\<rparr>)"
  proof (rule driver_okI; (use D in simp; fail)?)
    show "dkm_ok [] [] (d_networks (d\<lparr>d_networks := snd (dkm_Remove fid did (d_networks d))\<rparr>))"
      using dkm_ok_Remove [OF D(1)] by simp
    show "r < d_next (d\<lparr>d_networks := snd (dkm_Remove fid did (d_networks d))\<rparr>) \<and>
        flannelID (d_network_heap (d\<lparr>d_networks := snd (dkm_Remove fid did (d_networks d))\<rparr>) r) = i"
      if "map_get (dkm_m1 (d_networks (d\<lparr>d_networks := snd (dkm_Remove fid did (d_networks d))\<rparr>))) i = Some r" for i r
      using that D(2) [of i r] by (auto simp: dkm_Remove_def split: option.splits if_splits)
    show "r < d_next (d\<lparr>d_networks := snd (dkm_Remove fid did (d_networks d))\<rparr>) \<and>
        flannelID (d_network_heap (d\<lparr>d_networks := snd (dkm_Remove fid did (d_networks d))\<rparr>) r) = F k"
      if "map_get (dkm_m2 (d_networks (d\<lparr>d_networks := snd (dkm_Remove fid did (d_networks d))\<rparr>))) k = Some r" for k r
      using that D(3) [of k r] by (auto simp: dkm_Remove_def split: option.splits if_splits)
  qed
  then show "after (networks_Remove did fid) d (\<lambda>_ t. driver_ok F t)"
    by (auto simp: after_def networks_Remove_def errP_def returnP_def failP_def split: prod.split option.split)
qed

lemma ok_getNetwork: "ids_ok F did fid \<Longrightarrow> keeps (driver_ok F) (getNetwork did fid)"
  by (intro keepsI after_mono [OF getNetwork_ok]) (auto simp: found_ok_def split: sum.splits)

lemma ok_remove_network: "ids_ok F (DockerID info) (FlannelID info) \<Longrightarrow> keeps (driver_ok F) (remove_network S info)"
  unfolding remove_network_def by (intro keeps_intros ok_getNetwork)

section \<open>Name servers and containers\<close>

lemma NewNameserver_namespace: "NewNameserver N path hook w = (Inr ns, w1) \<Longrightarrow> networkNamespace ns = adjustNamespacePath path"
  by (auto simp: NewNameserver_def new_nameserver_def Let_def split: if_splits prod.splits sum.splits)

lemma getOrAddNameserver_found:
  assumes "driver_ok F d"
  shows "after (getOrAddNameserver S key) d (\<lambda>x t. case x of Inl e \<Rightarrow> driver_ok F t | Inr v \<Rightarrow> found_ok F (fst v) t)"
proof (cases "cm_Get key (d_bySandboxKey d)")
  case (Some r)
  then show ?thesis using driver_okD(5) [OF assms Some] assms by (simp add: getOrAddNameserver_def found_ok_def)
next
  case None
  obtain result w1 where new: "NewNameserver (ds_ns S) key (d_isHookAvailable d) (d_world d) = (result, w1)" by fastforce
  let ?d = "set_world w1 d"
  have d: "driver_ok F ?d" using stable_ok [of F] assms unfolding frame_stable_def by (metis frame_world driver_frame_def)
  show ?thesis
  proof (cases result)
    case (Inl e)
    with None new d show ?thesis by (simp add: getOrAddNameserver_def effD_def after_def bindP_def getP_def returnP_def found_ok_def)
  next
    case (Inr ns)
    let ?r = "d_next ?d"
    let ?d1 = "?d\<lparr>d_next := Suc ?r, d_ns_heap := (d_ns_heap ?d)(?r := ns)\<rparr>"
    let ?d2 = "?d1\<lparr>d_bySandboxKey := cm_Set key ?r (d_bySandboxKey ?d1)\<rparr>"
    have 1: "driver_ok F ?d1"
      using driver_ok_new [OF d, of "d_network_heap ?d" "(d_ns_heap ?d)(?r := ns)" "d_lbm ?d"] by simp
    have 2: "driver_ok F ?d2"
    proof (rule driver_okI; (use driver_okD [OF 1] in simp; fail)?)
      fix k r
      assume "cm_Get k (d_bySandboxKey ?d2) = Some r"
      then show "r < d_next ?d2 \<and> networkNamespace (d_ns_heap ?d2 r) = adjustNamespacePath k"
        using driver_okD(5) [OF 1, of k r] NewNameserver_namespace [OF new [unfolded Inr]]
        by (auto simp: cm_Set_def cm_Get_def split: if_splits)
    qed
    have "driver_ok F (?d2\<lparr>d_tasks := d_tasks ?d2 @ [T_Activate ?r]\<rparr>)"
      by (rule driver_ok_task [OF 2]) (simp add: task_ok_def)
    with None new Inr show ?thesis
      by (simp add: getOrAddNameserver_def effD_def after_def bindP_def getP_def updP_def returnP_def go_task_def found_ok_def)
  qed
qed

lemma ok_valid [keeps_intros]: "frame_stable I \<Longrightarrow> keeps I (add_valid r i)" "frame_stable I \<Longrightarrow> keeps I (remove_valid r i)"
  unfolding add_valid_def remove_valid_def
  by (intro keeps_intros; simp add: AddValidNetworkID_def RemoveValidNetworkID_def)+

lemma made_set_endpoint [keeps_intros]: "keeps (made F r) (set_endpoint_nameserver e r)"
proof -
  have "driver_ok F (d\<lparr>d_byEndpointID := cm_Set e r (d_byEndpointID d)\<rparr>)" if "driver_ok F d" "r < d_next d" for d :: "'a driver"
    by (rule driver_okI; use driver_okD [OF that(1)] that(2) in \<open>auto simp: cm_Set_def cm_Get_def split: if_splits\<close>)
  then show ?thesis unfolding set_endpoint_nameserver_def by (intro keeps_upd) (simp add: made_def)
qed

lemma ok_release_ipam_ip [keeps_intros]: "keeps (driver_ok F) (release_ipam_ip S c entry)"
proof -
  have get: "keeps (driver_ok F) (networks_Get n [])" for n
    by (intro keepsI after_mono [OF networks_Get_ok]) (auto simp: found_ok_def split: sum.splits)
  show ?thesis unfolding release_ipam_ip_def by (intro keeps_intros get)
qed

lemma ok_add_container [keeps_intros]: "keeps (driver_ok F) (add_container S c)"
  unfolding add_container_def by (intro keeps_intros)

lemma after_found:
  assumes "found_ok F x d" and "keeps (driver_ok F) p" and "\<And>r. keeps (made F r) (f r)"
  shows "after (case x of None \<Rightarrow> p | Some r \<Rightarrow> f r) d (\<lambda>_ t. driver_ok F t)"
  using assms keepsD [OF assms(2), of d] after_mono [OF keepsD [OF assms(3), of r d for r] made_D]
  by (cases x) (auto simp: found_ok_def made_def)

lemma ok_change_container [keeps_intros]: "keeps (driver_ok F) (change_container previous current)"
  unfolding change_container_def
proof (rule keeps_bind [OF keeps_resolverD [OF stable_ok]], rule keepsI, unfold after_bind_get)
  fix d :: "'a driver"
  assume d: "driver_ok F d"
  have found: "found_ok F (cm_Get (c_SandboxKey current) (d_bySandboxKey d)) d"
    using d driver_okD(5) [OF d, of "c_SandboxKey current"] by (auto simp: found_ok_def split: option.split)
  have del: "made F r (t\<lparr>d_byEndpointID := cm_Remove e (d_byEndpointID t)\<rparr>)" if "made F r t" for r e and t :: "'a driver"
    using that ok_del(3) [of F t e] by (simp add: made_def)
  show "after (case cm_Get (c_SandboxKey current) (d_bySandboxKey d) of None \<Rightarrow> returnP ()
      | Some r \<Rightarrow> (case lo_Difference (map_keys (c_Endpoints previous)) (map_keys (c_Endpoints current)) of (removed, added) \<Rightarrow>
             bindP (forP (\<lambda>n.
                 bindP (updP (\<lambda>d. d\<lparr>d_byEndpointID := cm_Remove (endpoint_at previous n) (d_byEndpointID d)\<rparr>)) (\<lambda>_.
                 remove_valid r n)) removed) (\<lambda>_.
             forP (\<lambda>n. bindP (set_endpoint_nameserver (endpoint_at current n) r) (\<lambda>_. add_valid r n)) added))) d
      (\<lambda>_ t. driver_ok F t)"
    by (rule after_found [OF found]) (intro keeps_intros del; assumption?)+
qed

lemma ok_remove_container:
  assumes "\<And>r k. same_ns k (pending r)"
  shows "keeps (driver_ok F) (remove_container S pending c)"
proof -
  let ?stop = "\<lambda>found. case found of None \<Rightarrow> returnP () | Some r \<Rightarrow> logE (nsD r (DeactivateAndCleanup (ds_ns S) (pending r)))"
  let ?tail = "bindP (getP (\<lambda>d. cm_TryRemove (c_SandboxKey c) (d_bySandboxKey d))) (\<lambda>(found, m1).
     bindP (updP (\<lambda>d. d\<lparr>d_bySandboxKey := m1\<rparr>)) (\<lambda>_. ?stop found))"
  have stop: "keeps (driver_ok F) (?stop found)" for found
    by (intro keeps_intros same_Deactivate assms)
  have tail: "keeps (driver_ok F) ?tail"
  proof (rule keepsI)
    fix d :: "'a driver"
    assume d: "driver_ok F d"
    from keepsD [OF stop ok_try_remove(2) [OF d, of "c_SandboxKey c"]]
    show "after ?tail d (\<lambda>_ t. driver_ok F t)"
      unfolding case_prod_unfold after_bind_get after_bind_upd .
  qed
  show ?thesis
    unfolding remove_container_def
  proof (rule keeps_bind [OF keeps_resolverD [OF stable_ok]], rule keepsI, unfold after_bind_get)
    fix d :: "'a driver"
    assume d: "driver_ok F d"
    have found: "found_ok F (cm_Get (c_ServiceID c) (d_services d)) d"
      using d driver_okD(4) [OF d, of "c_ServiceID c"] by (auto simp: found_ok_def split: option.split)
    have "after (case cm_Get (c_ServiceID c) (d_services d) of None \<Rightarrow> returnP () | Some r \<Rightarrow> serviceD r (RemoveContainer (c_ID c))) d
        (\<lambda>_ t. driver_ok F t)"
      by (rule after_found [OF found]) (intro keeps_intros, rule keeps_serviceD, rule service_ops_id)
    then have "after (case cm_Get (c_ServiceID c) (d_services d) of None \<Rightarrow> returnP () | Some r \<Rightarrow> serviceD r (RemoveContainer (c_ID c))) d
        (\<lambda>x t. case x of Inl e \<Rightarrow> driver_ok F t | Inr v \<Rightarrow> driver_ok F t)"
      by (rule after_mono) (simp split: sum.split)
    then show "after (bindP (case cm_Get (c_ServiceID c) (d_services d) of None \<Rightarrow> returnP () | Some r \<Rightarrow> serviceD r (RemoveContainer (c_ID c)))
        (\<lambda>_. ?tail)) d (\<lambda>_ t. driver_ok F t)"
      by (rule after_bind_gives) (rule keepsD [OF tail], assumption+)
  qed
qed

section \<open>Requests\<close>

lemma ok_getOrCreate: "ids_ok F did fid \<Longrightarrow> keeps (driver_ok F) (getOrCreateNetwork S did fid)"
  by (intro keepsI after_mono [OF getOrCreateNetwork_made]) (auto simp: made_def split: sum.splits)

lemma keeps_infoD [keeps_intros]: "keeps I (networkInfoD r)" "keeps I (subnet_of s)"
  unfolding networkInfoD_def subnet_of_def by (intro keeps_intros)+

lemma ok_network_by_id [keeps_intros]: "keeps (driver_ok F) (network_by_id did [])" "keeps (driver_ok F) (network_by_id [] fid)"
  unfolding network_by_id_def by (intro keeps_intros ok_getNetwork; simp)+

lemma ok_getEndpoint [keeps_intros]: "keeps (driver_ok F) (getEndpoint did i)"
  unfolding getEndpoint_def by (intro keeps_intros)

lemma ok_RequestPool [keeps_intros]: "keeps (driver_ok F) (RequestPool S q)"
  unfolding RequestPool_def Let_def by (intro keeps_intros ok_getOrCreate; simp)

lemma ok_RequestAddress [keeps_intros]: "keeps (driver_ok F) (RequestAddress S q)"
  unfolding RequestAddress_def Let_def by (intro keeps_intros)

lemma ok_ReleaseAddress [keeps_intros]: "keeps (driver_ok F) (ReleaseAddress S q)"
  unfolding ReleaseAddress_def by (intro keeps_intros)

lemma ok_CreateEndpoint [keeps_intros]: "keeps (driver_ok F) (CreateEndpoint S q)"
  unfolding CreateEndpoint_def by (intro keeps_intros)

lemma ok_DeleteEndpoint [keeps_intros]: "keeps (driver_ok F) (DeleteEndpoint S did i)"
  unfolding DeleteEndpoint_def by (intro keeps_intros)

lemma ok_EndpointInfo [keeps_intros]: "keeps (driver_ok F) (EndpointInfo did i)"
  unfolding EndpointInfo_def by (intro keeps_intros)

lemma ok_endpointD [keeps_intros]: "frame_stable I \<Longrightarrow> keeps I (endpointD r i op e)"
  unfolding endpointD_def by (intro keeps_intros)

text \<open>What follows the name server of a sandbox.\<close>

lemma ok_with_nameserver:
  assumes "\<And>chan. keeps (driver_ok F) (p chan)" and "\<And>chan r. keeps (made F r) (f chan r)"
  shows "keeps (driver_ok F) (bindP (getOrAddNameserver S key) (\<lambda>(ns, chan). case ns of None \<Rightarrow> p chan | Some r \<Rightarrow> f chan r))"
proof (rule keepsI)
  fix d :: "'a driver"
  assume "driver_ok F d"
  from getOrAddNameserver_found [OF this]
  show "after (bindP (getOrAddNameserver S key) (\<lambda>(ns, chan). case ns of None \<Rightarrow> p chan | Some r \<Rightarrow> f chan r)) d (\<lambda>_ t. driver_ok F t)"
    by (rule after_bind_gives) (auto simp: case_prod_unfold intro: after_found assms)
qed

lemma ok_Join [keeps_intros]: "keeps (driver_ok F) (drv_Join S did i key)"
  unfolding drv_Join_def
  by (intro keeps_intros ok_with_nameserver keeps_go_task_made) (simp add: task_ok_def)

lemma ok_Leave [keeps_intros]:
  fixes S :: "'w drvsys"
  shows "keeps (driver_ok F) (drv_Leave S did i)"
proof -
  have "keeps (driver_ok F) (bindP (getP (\<lambda>d :: 'w driver. cm_TryRemove i (d_byEndpointID d))) (\<lambda>(found, m1).
      bindP (updP (\<lambda>d. d\<lparr>d_byEndpointID := m1\<rparr>)) (\<lambda>_. case found of None \<Rightarrow> returnP () | Some ns \<Rightarrow> remove_valid ns did)))"
  proof (rule keepsI)
    fix d :: "'w driver"
    assume d: "driver_ok F d"
    have rest: "keeps (driver_ok F) (case fst (cm_TryRemove i (d_byEndpointID d)) of None \<Rightarrow> returnP () | Some ns \<Rightarrow> remove_valid ns did)"
      by (intro keeps_intros)
    from keepsD [OF rest ok_try_remove(3) [OF d, of i]]
    show "after (bindP (getP (\<lambda>d. cm_TryRemove i (d_byEndpointID d))) (\<lambda>(found, m1).
        bindP (updP (\<lambda>d. d\<lparr>d_byEndpointID := m1\<rparr>)) (\<lambda>_. case found of None \<Rightarrow> returnP () | Some ns \<Rightarrow> remove_valid ns did))) d
        (\<lambda>_ t. driver_ok F t)"
      by (simp add: case_prod_unfold del: after_bind add: after_bind_upd after_bind_get)
  qed
  then show ?thesis
    unfolding drv_Leave_def by (intro keeps_bind [OF ok_getEndpoint] keeps_prod keeps_bind [OF ok_endpointD [OF stable_ok]])
qed

section \<open>Docker data, start and goroutines\<close>

text \<open>The networks of a note have the flannel ID that docker reports for them.\<close>

definition note_ok :: "(string \<Rightarrow> string) \<Rightarrow> docker_note \<Rightarrow> bool" where
  "note_ok F n \<longleftrightarrow> (case n of
      DNetworks (NAdded xs) \<Rightarrow> \<forall>(i, info) \<in> set xs. ids_ok F (DockerID info) (FlannelID info)
    | DNetworks (NChanged xs) \<Rightarrow> \<forall>c \<in> set xs. ids_ok F (DockerID (Current c)) (FlannelID (Current c))
    | DNetworks (NRemoved xs) \<Rightarrow> \<forall>(i, info) \<in> set xs. ids_ok F (DockerID info) (FlannelID info)
    | _ \<Rightarrow> True)"

lemma keeps_for_set: "(\<And>x. x \<in> set xs \<Longrightarrow> keeps I (f x)) \<Longrightarrow> keeps I (forP f xs)"
  by (induction xs) (auto intro!: keeps_intros)

lemma ok_network_notes:
  "\<forall>(i, info) \<in> set xs. ids_ok F (DockerID info) (FlannelID info) \<Longrightarrow> keeps (driver_ok F) (handleNetworksAdded S xs)"
  "\<forall>c \<in> set ys. ids_ok F (DockerID (Current c)) (FlannelID (Current c)) \<Longrightarrow> keeps (driver_ok F) (handleNetworksChanged S ys)"
  "\<forall>(i, info) \<in> set xs. ids_ok F (DockerID info) (FlannelID info) \<Longrightarrow> keeps (driver_ok F) (handleNetworksRemoved S xs)"
  unfolding handleNetworksAdded_def handleNetworksChanged_def handleNetworksRemoved_def
  by (rule keeps_for_set, auto intro!: keeps_bind keeps_resolverD stable_ok ok_ensure_network ok_remove_network)+

lemma ok_other_notes:
  assumes "\<And>r k. same_ns k (pending r)"
  shows "keeps (driver_ok F) (handleContainersAdded S cs)" "keeps (driver_ok F) (handleContainersChanged cc)"
    "keeps (driver_ok F) (handleContainersRemoved S pending cs)" "keeps (driver_ok F) (handleServicesAdded ss)"
    "keeps (driver_ok F) (handleServicesChanged sc)" "keeps (driver_ok F) (handleServicesRemoved S ss)"
  unfolding handleContainersAdded_def handleContainersChanged_def handleContainersRemoved_def handleServicesAdded_def
    handleServicesChanged_def handleServicesRemoved_def
  by (intro keeps_intros ok_remove_container assms)+

lemma ok_handle_note:
  assumes "note_ok F n" and "\<And>r k. same_ns k (pending r)"
  shows "keeps (driver_ok F) (handle_note S pending n)"
  using assms(1) ok_other_notes [OF assms(2)] unfolding handle_note_def note_ok_def
  by (auto split: docker_note.split shard_note.split notification.split intro: ok_network_notes)

text \<open>An operation of the docker data that reports consistent IDs.\<close>

definition data_op_ok :: "(string \<Rightarrow> string) \<Rightarrow> (data \<Rightarrow> 'w \<Rightarrow> 'w data_res) \<Rightarrow> bool" where
  "data_op_ok F op \<longleftrightarrow> (\<forall>d w. \<forall>n \<in> set (fst (snd (op d w))). note_ok F n)"

lemma ok_dataD:
  assumes "data_op_ok F op" and "\<And>r k. same_ns k (pending r)"
  shows "keeps (driver_ok F) (dataD S pending op)"
proof (rule keepsI)
  fix d :: "'a driver"
  assume d: "driver_ok F d"
  obtain e ns data1 w1 where o: "op (d_data d) (d_world d) = (e, ns, data1, w1)" by (metis prod_cases4)
  have ns: "note_ok F n" if "n \<in> set ns" for n
    using assms(1) [unfolded data_op_ok_def, rule_format, of n "d_data d" "d_world d"] o that by simp
  have d1: "driver_ok F (set_world w1 (d\<lparr>d_data := data1\<rparr>))"
    by (rule stable_ok [of F, unfolded frame_stable_def, rule_format, OF _ d]) (simp add: driver_frame_def set_world_def)
  have p: "keeps (driver_ok F) (bindP (forP (handle_note S pending) ns) (\<lambda>_. errP e))"
    by (intro keeps_bind keeps_for_set keeps_err ok_handle_note ns assms(2))
  from keepsD [OF p d1] show "after (dataD S pending op) d (\<lambda>_ t. driver_ok F t)"
    unfolding dataD_def after_def o prod.case .
qed

lemma ok_inject [keeps_intros]: "keeps (driver_ok F) injectNameserverIntoAlreadyRunningContainers"
  unfolding injectNameserverIntoAlreadyRunningContainers_def Let_def
  by (intro keeps_intros keeps_go_task) (simp add: task_ok_def)

lemma ok_upd_frame: "(\<And>d. driver_frame d (f d)) \<Longrightarrow> keeps (driver_ok F) (updP f)"
  by (rule keeps_upd) (use stable_ok [of F] in \<open>auto simp: frame_stable_def\<close>)

lemma ok_init_docker_data:
  assumes "data_op_ok F (data_Init (h_etcd (ds_host S)) (ds_docker S) (ds_codecs S))" and "\<And>r k. same_ns k (pending r)"
  shows "keeps (driver_ok F) (init_docker_data S pending)"
  unfolding init_docker_data_def
  by (intro keeps_bind [OF keeps_get] keeps_bind [OF ok_upd_frame] keeps_bind [OF keeps_fatal [OF keeps_ioD [OF stable_ok]]]
      keeps_bind [OF keeps_fatal [OF ok_dataD]] keeps_bind [OF keeps_effD [OF stable_ok]] ok_inject assms)
    (simp add: driver_frame_def)

lemma NewServiceLb_heap: "NewServiceLbManagement S h c sh eh nh w = Inr l \<Longrightarrow> service_heap l = sh"
  by (auto simp: NewServiceLbManagement_def split: sum.splits prod.splits option.splits)

lemma ok_new_lbm: "keeps (driver_ok F) (new_service_lb_management S)"
proof -
  have "keeps (driver_ok F) (\<lambda>d. case NewServiceLbManagement (ds_lb S) host (cl_serviceLbs (d_clients d)) (service_heap (d_lbm d))
         (event_heap (d_lbm d)) (\<lambda>r. net_view (d_network_heap d r)) (d_world d) of
       Inl e \<Rightarrow> Some (Inl e, d) | Inr l \<Rightarrow> Some (Inr (), d\<lparr>d_lbm := l\<rparr>))" for host
    by (rule keeps_frame [OF stable_ok]) (auto simp: driver_frame_def split: sum.splits dest: NewServiceLb_heap)
  then show ?thesis unfolding new_service_lb_management_def by (intro keeps_bind [OF keeps_effD [OF stable_ok]])
qed

lemma ok_drv_Init: "keeps (driver_ok F) (drv_Init S)"
  unfolding drv_Init_def
  by (intro keeps_bind [OF keeps_logE [OF keeps_ioD [OF stable_ok]]] keeps_bind [OF keeps_get] keeps_prod
      keeps_bind [OF keeps_ioD [OF stable_ok]] keeps_bind [OF ok_upd_frame] keeps_bind [OF ok_new_lbm]
      keeps_bind [OF keeps_go_task] ok_upd_frame)
    (simp_all add: driver_frame_def task_ok_def)

lemma keeps_await [keeps_intros]: "keeps I (await c)"
  unfolding await_def by (cases c) (auto intro!: keeps_intros)

lemma ok_run_task:
  assumes "task_ok (d_next d) t" and "driver_ok F d" and "\<And>f l. ids_are f l \<Longrightarrow> ids_are f (others l)"
    and "\<And>r k. same_ns k (pending r)" and "data_op_ok F (data_Init (h_etcd (ds_host S)) (ds_docker S) (ds_codecs S))"
  shows "after (run_task S others pending t) d (\<lambda>_ u. driver_ok F u)"
proof -
  have made: "made F r d" if "r < d_next d" for r using assms(2) that by (simp add: made_def)
  have by_made: "after p d (\<lambda>_ u. driver_ok F u)" if "keeps (made F r) p" "r < d_next d" for p and r
    by (rule after_mono [OF keepsD [OF that(1) made [OF that(2)]]]) (rule made_D)
  show ?thesis
  proof (cases t)
    case T_InitDockerData
    then show ?thesis using keepsD [OF ok_init_docker_data [OF assms(5,4)] assms(2)] by (simp add: run_task_def)
  next
    case (T_CreateLoadBalancer r)
    have "keeps (driver_ok F) (logE (lbD (CreateLoadBalancer (ds_lb S) others r)))"
      by (intro keeps_intros same_CreateLoadBalancer assms(3))
    then show ?thesis unfolding T_CreateLoadBalancer run_task_def task.case by (rule keepsD) (rule assms(2))
  next
    case (T_Activate r)
    have "keeps (driver_ok F) (bindP (getP d_data) (\<lambda>dockerData.
        bindP (nsD r (Activate (ds_ns S) (ds_tries S) (ds_polls S) dockerData)) (\<lambda>e.
        updP (\<lambda>d. d\<lparr>d_activated := map_put r e (d_activated d)\<rparr>))))"
      by (intro keeps_bind [OF keeps_get] keeps_bind [OF keeps_nsD [OF stable_ok same_Activate]] ok_upd_frame)
        (simp add: driver_frame_def)
    then show ?thesis unfolding T_Activate run_task_def task.case by (rule keepsD) (rule assms(2))
  next
    case (T_Joined e r chan)
    have "keeps (made F r) (bindP (await chan) (\<lambda>x. case x of Some _ \<Rightarrow> returnP () | None \<Rightarrow> set_endpoint_nameserver e r))"
      by (intro keeps_intros)
    then show ?thesis using assms(1) unfolding T_Joined run_task_def task.case task_ok_def by (rule by_made)
  next
    case (T_Inject c)
    have "keeps (driver_ok F) (bindP (getOrAddNameserver S (c_SandboxKey c)) (\<lambda>(ns, chan). case ns of
        None \<Rightarrow> returnP () | Some r \<Rightarrow> go_task (T_Injected (c_Endpoints c) r chan)))"
      by (intro ok_with_nameserver keeps_intros keeps_go_task_made) (simp add: task_ok_def)
    then show ?thesis unfolding T_Inject run_task_def task.case by (rule keepsD) (rule assms(2))
  next
    case (T_Injected eps r chan)
    have "keeps (made F r) (bindP (await chan) (\<lambda>x. case x of Some _ \<Rightarrow> returnP ()
      | None \<Rightarrow> forP (\<lambda>(n, endpointID). bindP (set_endpoint_nameserver endpointID r) (\<lambda>_. add_valid r n)) eps))"
      by (intro keeps_intros)
    then show ?thesis using assms(1) unfolding T_Injected run_task_def task.case task_ok_def by (rule by_made)
  qed
qed

section \<open>Reachable states\<close>

text \<open>What the load balancer management does on an event of a service that it has subscribed to.\<close>

definition lb_handler ::
  "'w sys \<Rightarrow> ((nat, nat, 'w) lbm \<Rightarrow> (nat, nat, 'w) lbm) \<Rightarrow> nat \<Rightarrow> svc_event \<Rightarrow> ((nat, nat, 'w) lbm, unit) prog" where
  "lb_handler S others r ev = (case ev of
      OnNetworksChanged _ \<Rightarrow> on_networks_changed S others r
    | OnContainerAdded c \<Rightarrow> on_container_added S r c
    | OnContainerRemoved c \<Rightarrow> on_container_removed S r c
    | OnEndpointModeChanged _ \<Rightarrow> on_endpoint_mode_changed S others r
    | _ \<Rightarrow> returnP ())"

text \<open>
  The steps of the driver: an operation of the docker data with its notes, a request, an event of a service for the
  load balancer management, and a goroutine, which is the one at a position of the list of tasks.
\<close>

datatype 'w driver_op =
    Op_Init
  | Op_Data "data \<Rightarrow> 'w \<Rightarrow> 'w data_res" "nat \<Rightarrow> ('w, unit) nsprog"
  | Op_RequestPool RequestPoolRequest
  | Op_RequestAddress RequestAddressRequest
  | Op_ReleaseAddress ReleaseAddressRequest
  | Op_CreateEndpoint CreateEndpointRequest
  | Op_DeleteEndpoint string string
  | Op_EndpointInfo string string
  | Op_Join string string string
  | Op_Leave string string
  | Op_ServiceEvent "(nat, nat, 'w) lbm \<Rightarrow> (nat, nat, 'w) lbm" nat svc_event
  | Op_Task "(nat, nat, 'w) lbm \<Rightarrow> (nat, nat, 'w) lbm" "nat \<Rightarrow> ('w, unit) nsprog" nat

definition ignoring :: "('s, 'a) prog \<Rightarrow> ('s, unit) prog" where
  "ignoring p = bindP p (\<lambda>_. returnP ())"

definition run_op :: "'w drvsys \<Rightarrow> 'w driver_op \<Rightarrow> ('w, unit) drvP" where
  "run_op S op = (case op of
      Op_Init \<Rightarrow> drv_Init S
    | Op_Data f pending \<Rightarrow> dataD S pending f
    | Op_RequestPool q \<Rightarrow> ignoring (RequestPool S q)
    | Op_RequestAddress q \<Rightarrow> ignoring (RequestAddress S q)
    | Op_ReleaseAddress q \<Rightarrow> ReleaseAddress S q
    | Op_CreateEndpoint q \<Rightarrow> CreateEndpoint S q
    | Op_DeleteEndpoint n e \<Rightarrow> DeleteEndpoint S n e
    | Op_EndpointInfo n e \<Rightarrow> ignoring (EndpointInfo n e)
    | Op_Join n e k \<Rightarrow> ignoring (drv_Join S n e k)
    | Op_Leave n e \<Rightarrow> drv_Leave S n e
    | Op_ServiceEvent others r ev \<Rightarrow> lbD (lb_handler (ds_lb S) others r ev)
    | Op_Task others pending i \<Rightarrow> bindP (getP d_tasks) (\<lambda>ts.
        if i < length ts
        then bindP (updP (\<lambda>d. d\<lparr>d_tasks := take i ts @ drop (Suc i) ts\<rparr>)) (\<lambda>_. run_task S others pending (ts ! i))
        else returnP ()))"

text \<open>
  What the steps rely on: docker reports a network with one flannel ID, and what runs in between changes
  neither the ID of a service nor the namespace of a name server.
\<close>

definition op_ok :: "'w drvsys \<Rightarrow> (string \<Rightarrow> string) \<Rightarrow> 'w driver_op \<Rightarrow> bool" where
  "op_ok S F op \<longleftrightarrow> (case op of
      Op_Data f pending \<Rightarrow> data_op_ok F f \<and> (\<forall>r k. same_ns k (pending r))
    | Op_ServiceEvent others r ev \<Rightarrow> (\<forall>f l. ids_are f l \<longrightarrow> ids_are f (others l))
    | Op_Task others pending i \<Rightarrow> (\<forall>f l. ids_are f l \<longrightarrow> ids_are f (others l)) \<and> (\<forall>r k. same_ns k (pending r)) \<and>
        data_op_ok F (data_Init (h_etcd (ds_host S)) (ds_docker S) (ds_codecs S))
    | _ \<Rightarrow> True)"

inductive driver_reachable :: "'w drvsys \<Rightarrow> (string \<Rightarrow> string) \<Rightarrow> 'w driver \<Rightarrow> bool" for S :: "'w drvsys" and F where
  start: "NewFlannelDriver S endPoints pre options space networkSize hostSize vniStart docker hook d0 = Some (Inr (), d) \<Longrightarrow>
    driver_reachable S F d"
| step: "driver_reachable S F d \<Longrightarrow> op_ok S F op \<Longrightarrow> run_op S op d = Some (r, d1) \<Longrightarrow> driver_reachable S F d1"

lemma new_driver_ok: "driver_ok F (new_driver endPoints pre options space networkSize hostSize vniStart docker hook d0)"
  by (rule driver_okI) (simp_all add: new_driver_def NewConcurrentDualKeyMap_def NewConcurrentMap_def dkm_ok_def cm_Get_def)

lemma start_ok:
  "after (NewFlannelDriver S endPoints pre options space networkSize hostSize vniStart docker hook) d0 (\<lambda>_ t. driver_ok F t)"
proof -
  have "keeps (driver_ok F) (if hook then bindP (fatalP (ioD (MkdirAll S SandboxesPath))) (\<lambda>_. fatalP (ioD (MkdirAll S ReadyPath)))
      else returnP ())"
    by (intro keeps_intros)
  from keepsD [OF this new_driver_ok] show ?thesis unfolding NewFlannelDriver_def after_bind_upd .
qed

lemma ok_lb_handler:
  assumes "\<And>f l. ids_are f l \<Longrightarrow> ids_are f (others l)"
  shows "keeps (driver_ok F) (lbD (lb_handler S others r ev))"
  by (rule keeps_lbD [OF stable_ok])
    (cases ev; simp add: lb_handler_def keeps_return same_CreateLoadBalancer [OF assms])

lemma ok_task_removed: "driver_ok F d \<Longrightarrow> driver_ok F (d\<lparr>d_tasks := take i (d_tasks d) @ drop (Suc i) (d_tasks d)\<rparr>)"
  unfolding driver_ok_def by (auto dest: in_set_takeD in_set_dropD)

lemma ok_run_op:
  assumes "op_ok S F op" and "driver_ok F d"
  shows "after (run_op S op) d (\<lambda>_ t. driver_ok F t)"
proof -
  have kept: "after p d (\<lambda>_ t. driver_ok F t)" if "keeps (driver_ok F) p" for p
    using that assms(2) by (rule keepsD)
  have ign: "after (ignoring p) d (\<lambda>_ t. driver_ok F t)" if "keeps (driver_ok F) p" for p
    unfolding ignoring_def by (intro kept keeps_bind that keeps_return)
  show ?thesis
  proof (cases op)
    case (Op_Data f pending)
    then have "keeps (driver_ok F) (dataD S pending f)" using assms(1) by (intro ok_dataD) (simp_all add: op_ok_def)
    then show ?thesis by (simp add: Op_Data run_op_def kept)
  next
    case (Op_ServiceEvent others r ev)
    then have "keeps (driver_ok F) (lbD (lb_handler (ds_lb S) others r ev))" using assms(1) by (intro ok_lb_handler) (simp add: op_ok_def)
    then show ?thesis by (simp add: Op_ServiceEvent run_op_def kept)
  next
    case (Op_Task others pending i)
    let ?d = "d\<lparr>d_tasks := take i (d_tasks d) @ drop (Suc i) (d_tasks d)\<rparr>"
    have "after (run_task S others pending (d_tasks d ! i)) ?d (\<lambda>_ t. driver_ok F t)" if "i < length (d_tasks d)"
    proof (rule ok_run_task [OF _ ok_task_removed [OF assms(2)]])
      show "task_ok (d_next ?d) (d_tasks d ! i)" using driver_okD(7) [OF assms(2)] that by simp
    qed (use assms(1) Op_Task in \<open>simp_all add: op_ok_def\<close>)
    then show ?thesis using assms(2) unfolding Op_Task run_op_def driver_op.case after_bind_get
      by (auto simp del: after_bind simp: after_bind_upd)
  qed (simp_all add: run_op_def kept ign ok_drv_Init ok_RequestPool ok_RequestAddress ok_ReleaseAddress ok_CreateEndpoint
      ok_DeleteEndpoint ok_EndpointInfo ok_Join ok_Leave del: after_bind)
qed

lemma reachable_driver_ok: "driver_reachable S F d \<Longrightarrow> driver_ok F d"
proof (induction rule: driver_reachable.induct)
  case (start endPoints pre options space networkSize hostSize vniStart docker hook d0 d)
  then show ?case using start_ok [of S endPoints pre options space networkSize hostSize vniStart docker hook d0 F]
    by (simp add: after_def)
next
  case (step d op r d1)
  then show ?case using ok_run_op [OF step.hyps(2) step.IH] by (simp add: after_def)
qed

section \<open>Properties\<close>


lemma getOrAddNameserver_known:
  assumes "getOrAddNameserver S key d = Some (Inr (Some r, chan), d1)"
  shows "cm_Get key (d_bySandboxKey d1) = Some r"
proof (cases "cm_Get key (d_bySandboxKey d)")
  case None
  obtain result w1 where new: "NewNameserver (ds_ns S) key (d_isHookAvailable d) (d_world d) = (result, w1)" by fastforce
  show ?thesis
    using assms None new
    by (cases result)
      (auto simp: getOrAddNameserver_def effD_def bindP_def getP_def updP_def returnP_def go_task_def set_world_def cm_Get_def cm_Set_def)
qed (use assms in \<open>simp add: getOrAddNameserver_def\<close>)

lemma add_valid_result:
  "add_valid r i d = Some (Inr (), d1) \<Longrightarrow> d_bySandboxKey d1 = d_bySandboxKey d \<and> d_tasks d1 = d_tasks d \<and>
    d_ns_heap d1 = (d_ns_heap d)(r := AddValidNetworkID i (d_ns_heap d r))"
  by (auto simp: add_valid_def nsD_def setN_def updP_def set_world_def)

text \<open>
  C11: After a successful join the sandbox has a name server that enters this sandbox and may answer for the
  network, and the goroutine that records it for the endpoint is there.
\<close>

theorem Join_nameserver:
  assumes "driver_ok F d" and "drv_Join S did i key d = Some (Inr resp, d1)"
  shows "\<exists>r chan. cm_Get key (d_bySandboxKey d1) = Some r \<and> networkNamespace (d_ns_heap d1 r) = adjustNamespacePath key \<and>
    cm_Get did (validNetworkIDs (d_ns_heap d1 r)) = Some () \<and> T_Joined i r chan \<in> set (d_tasks d1)"
proof -
  have ok: "driver_ok F d1"
    using keepsD [OF ok_Join assms(1), of S did i key] assms(2) by (simp add: after_def)
  obtain d2 r chan d3 d4 where *: "getOrAddNameserver S key d2 = Some (Inr (Some r, chan), d3)"
    "add_valid r did d3 = Some (Inr (), d4)" "d1 = d4\<lparr>d_tasks := d_tasks d4 @ [T_Joined i r chan]\<rparr>"
    using assms(2)
    by (auto simp: drv_Join_def bindP_Inr_iff go_task_def updP_def subnet_of_def returnP_def failP_def split: option.splits prod.splits)
  have k: "cm_Get key (d_bySandboxKey d1) = Some r"
    using getOrAddNameserver_known [OF *(1)] add_valid_result [OF *(2)] *(3) by simp
  moreover have "cm_Get did (validNetworkIDs (d_ns_heap d1 r)) = Some ()"
    using add_valid_result [OF *(2)] *(3) by (simp add: AddValidNetworkID_def cm_Get_def cm_Set_def)
  moreover have "T_Joined i r chan \<in> set (d_tasks d1)" using *(3) by simp
  ultimately show ?thesis using driver_okD(5) [OF ok k] by blast
qed

text \<open>Looking up an endpoint and calling it leaves the name servers and the goroutines alone.\<close>

lemma netD_names:
  "netD n p d = Some (x, d1) \<Longrightarrow> d_ns_heap d1 = d_ns_heap d \<and> d_byEndpointID d1 = d_byEndpointID d \<and> d_tasks d1 = d_tasks d"
  by (auto simp: netD_def set_world_def split: option.splits prod.splits)

lemma endpointD_names:
  "endpointD n i op e d = Some (x, d1) \<Longrightarrow> d_ns_heap d1 = d_ns_heap d \<and> d_byEndpointID d1 = d_byEndpointID d \<and> d_tasks d1 = d_tasks d"
  unfolding endpointD_def by (rule netD_names)

lemma getNetwork_networks: "getNetwork did fid d = Some (x, d1) \<Longrightarrow> \<exists>m. d1 = d\<lparr>d_networks := m\<rparr>"
proof -
  obtain y m where g: "dkm_Get [] [] fid did (d_networks d) = (y, m)" by fastforce
  show "getNetwork did fid d = Some (x, d1) \<Longrightarrow> ?thesis"
    by (cases y) (auto simp: g getNetwork_def networks_Get_def bindP_def returnP_def)
qed

lemma getEndpoint_names:
  assumes "getEndpoint did i d = Some (Inr y, d1)"
  shows "d_ns_heap d1 = d_ns_heap d \<and> d_byEndpointID d1 = d_byEndpointID d \<and> d_tasks d1 = d_tasks d"
proof -
  obtain x where "getNetwork did [] d = Some (x, d1)"
    using assms by (auto simp: getEndpoint_def network_by_id_def bindP_Inr_iff split: option.splits)
  from getNetwork_networks [OF this] show ?thesis by auto
qed

text \<open>
  C38: A leave before the name server of the sandbox is active has no effect on it: the name server goes on answering
  for the network, and the goroutine of the join records it for the endpoint that has left.
\<close>

theorem leave_before_activation:
  assumes "cm_Get i (d_byEndpointID d) = None" and "drv_Leave S did i d = Some (Inr (), d1)"
    and "T_Joined i r (OfActivation a) \<in> set (d_tasks d)"
  shows "T_Joined i r (OfActivation a) \<in> set (d_tasks d1) \<and> d_ns_heap d1 = d_ns_heap d \<and>
    (\<exists>d2. run_task S others pending (T_Joined i r (OfActivation a)) (d1\<lparr>d_activated := map_put a None (d_activated d1)\<rparr>) =
        Some (Inr (), d2) \<and> cm_Get i (d_byEndpointID d2) = Some r \<and> d_ns_heap d2 = d_ns_heap d)"
proof -
  obtain n e d2 d3 where *: "getEndpoint did i d = Some (Inr (n, e), d2)"
    "endpointD n i (Leave (h_etcd (ds_host S)) (h_netlink (ds_host S)) (json_endpoint (h_codecs (ds_host S)))) e d2 = Some (Inr (), d3)"
    "(case cm_TryRemove i (d_byEndpointID d3) of (found, m1) \<Rightarrow> bindP (updP (\<lambda>d. d\<lparr>d_byEndpointID := m1\<rparr>))
        (\<lambda>_. case found of None \<Rightarrow> returnP () | Some ns \<Rightarrow> remove_valid ns did)) d3 = Some (Inr (), d1)"
    using assms(2) by (auto simp: drv_Leave_def bindP_Inr_iff)
  note F = getEndpoint_names [OF *(1)] endpointD_names [OF *(2)]
  have "cm_TryRemove i (d_byEndpointID d3) = (None, d_byEndpointID d3)"
    using F assms(1) by (simp add: cm_TryRemove_def cm_Get_def)
  then have "d1 = d3" using *(3) by simp
  with F have d1: "d_ns_heap d1 = d_ns_heap d" "d_tasks d1 = d_tasks d" by simp_all
  with assms(3) show ?thesis
    by (simp add: run_task_def await_def set_endpoint_nameserver_def bindP_def getP_def updP_def returnP_def cm_Get_def cm_Set_def)
qed

section \<open>Examples\<close>

text \<open>A system whose etcd and kernel do what they are asked, and a driver with an endpoint in its first network.\<close>

definition easy_system :: "'w drvsys \<Rightarrow> 'w drvsys" where
  "easy_system S = (let H = ds_host S; N = h_netlink H; K = nl_kernel N in S\<lparr>ds_host := H\<lparr>
     h_etcd := (h_etcd H)\<lparr>conn_new := (\<lambda>w. (None, w)), commit := (\<lambda>cs ts es w. (Inr \<lparr>Succeeded = True, Responses = [RespPut]\<rparr>, w))\<rparr>,
     h_codecs := (h_codecs H)\<lparr>json_endpoint := (\<lambda>x. Some ''{}'', \<lambda>s. None)\<rparr>,
     h_netlink := N\<lparr>nl_kernel := K\<lparr>LinkByName := (\<lambda>n w. (Inr \<lparr>link_Name = n, link_Type = [], link_MTU = 0, link_Up = True\<rparr>, w)),
         LinkSetUp := (\<lambda>l w. (Inr (), w))\<rparr>,
       LinkDel := (\<lambda>n w. (Inr (), w)), LinkAddVeth := (\<lambda>i out mac mtu w. (Inr (), w)), LinkSetMaster := (\<lambda>l m w. (Inr (), w)),
       NewRandom := (\<lambda>w. (''0'', w)), ParseMAC := Some\<rparr>\<rparr>\<rparr>)"

definition easy_endpoint :: "vethPair option \<Rightarrow> endpoint" where
  "easy_endpoint v = \<lparr>ep_id = ''e1'', ep_ip = [10, 1, 0, 5], ep_mac = ''m'', ep_veth = v, ep_sandboxKey = [],
     ep_etcdClient = Some net_client, ep_bridge = Some (NewBridgeInterface (nw_GetInfo running_network))\<rparr>"

definition easy_driver :: "vethPair option \<Rightarrow> task list \<Rightarrow> nat driver" where
  "easy_driver v ts = (demo_driver 0)\<lparr>d_isHookAvailable := False, d_tasks := ts,
     d_network_heap := (\<lambda>r. (demo_net_of (if r = 0 then ''net-1'' else ''net-2'') (6515 + int r))\<lparr>nw_endpoints := [(''e1'', easy_endpoint v)]\<rparr>)\<rparr>"

lemma easy_driver_ok: "(\<And>t. t \<in> set ts \<Longrightarrow> task_ok 2 t) \<Longrightarrow> driver_ok (\<lambda>k. if k = ''d1'' then ''net-1'' else ''net-2'') (easy_driver v ts)"
  by (rule driver_okI) (auto simp: easy_driver_def demo_driver_def dkm_ok_def map_ok_def cm_Get_def demo_net_of_def split: if_splits)

lemma easy_getEndpoint: "getEndpoint ''d1'' ''e1'' (easy_driver v ts) = Some (Inr (0, easy_endpoint v), easy_driver v ts)"
proof -
  have "driver_ok (\<lambda>k. if k = ''d1'' then ''net-1'' else ''net-2'') (easy_driver v ([] :: task list))" by (rule easy_driver_ok) simp
  then have "dkm_ok [] [] (d_networks (easy_driver v ts))" by (auto simp: easy_driver_def dest: driver_okD(1))
  from getNetwork_docker [OF this, of "''d1''"]
  have "getNetwork ''d1'' [] (easy_driver v ts) = Some (Inr (Some 0), easy_driver v ts)"
    by (simp add: easy_driver_def demo_driver_def)
  then show ?thesis
    by (simp add: getEndpoint_def network_by_id_def bindP_def getP_def returnP_def GetEndpoint_def easy_driver_def)
qed

lemma endpointD_result:
  assumes "\<And>w. op e w = (None, e1, w)"
  shows "endpointD r i op e d = Some (Inr (), d\<lparr>d_network_heap := (d_network_heap d)
    (r := (d_network_heap d r)\<lparr>nw_endpoints := map_put i e1 (nw_endpoints (d_network_heap d r))\<rparr>)\<rparr>)"
  by (simp add: endpointD_def netD_def endpointN_def errP_def set_world_def d_world_def returnP_def assms)

lemma easy_Join: "\<exists>resp d1. drv_Join (easy_system S) ''d1'' ''e1'' ''/var/run/docker/netns/abc'' (easy_driver None []) = Some (Inr resp, d1)"
proof -
  let ?S = "easy_system S" and ?d = "easy_driver None []"
  let ?op = "Join (h_etcd (ds_host ?S)) (h_netlink (ds_host ?S)) (json_endpoint (h_codecs (ds_host ?S))) ''/var/run/docker/netns/abc''"
  obtain e1 w1 where j: "?op (easy_endpoint None) w = (None, e1, w)" for w
    by (simp add: easy_system_def Let_def easy_endpoint_def Join_def CreateAttachedVethPair_def randomVethName_def
        attachInterfaceToBridge_def writeToEtcd_def with_client_def WithConnection_def MarshalJSON_def etcd_Put_def)
  have ns: "getOrAddNameserver ?S ''/var/run/docker/netns/abc'' d = Some (Inr (Some (d_next d), OfActivation (d_next d)),
     d\<lparr>d_next := d_next d + 1, d_ns_heap := (d_ns_heap d)(d_next d := new_nameserver ''/var/run/docker/netns/abc'' False),
       d_bySandboxKey := cm_Set ''/var/run/docker/netns/abc'' (d_next d) (d_bySandboxKey d), d_tasks := d_tasks d @ [T_Activate (d_next d)]\<rparr>)"
    if "cm_Get ''/var/run/docker/netns/abc'' (d_bySandboxKey d) = None" "d_isHookAvailable d = False" for d
    using that by (simp add: getOrAddNameserver_def bindP_def getP_def updP_def returnP_def effD_def NewNameserver_def go_task_def set_world_def d_world_def)
  have na: "add_valid r ''d1'' d = Some (Inr (), d\<lparr>d_ns_heap := (d_ns_heap d)(r := AddValidNetworkID ''d1'' (d_ns_heap d r))\<rparr>)" for r and d :: "nat driver"
    by (simp add: add_valid_def nsD_def setN_def updP_def set_world_def d_world_def)
  have "cm_Get ''/var/run/docker/netns/abc'' (d_bySandboxKey ?d) = None" "d_isHookAvailable ?d = False"
    by (simp_all add: easy_driver_def demo_driver_def cm_Get_def)
  then show ?thesis
    by (simp add: drv_Join_def bindP_def easy_getEndpoint endpointD_result [where op = ?op, OF j] networkInfoD_def getP_def ns na
      go_task_def updP_def nw_GetInfo_def subnet_of_def returnP_def)
qed

lemma Join_nameserver_witness:
  "\<forall>S. \<exists>resp d1 r chan. drv_Join (easy_system S) ''d1'' ''e1'' ''/var/run/docker/netns/abc'' (easy_driver None []) = Some (Inr resp, d1) \<and>
    cm_Get ''/var/run/docker/netns/abc'' (d_bySandboxKey d1) = Some r \<and> T_Joined ''e1'' r chan \<in> set (d_tasks d1)"
proof
  fix S :: "nat drvsys"
  obtain resp d1 where j: "drv_Join (easy_system S) ''d1'' ''e1'' ''/var/run/docker/netns/abc'' (easy_driver None []) = Some (Inr resp, d1)"
    using easy_Join by blast
  have "driver_ok (\<lambda>k. if k = ''d1'' then ''net-1'' else ''net-2'') (easy_driver None [])"
    by (rule easy_driver_ok) simp
  from Join_nameserver [OF this j] j
  show "\<exists>resp d1 r chan. drv_Join (easy_system S) ''d1'' ''e1'' ''/var/run/docker/netns/abc'' (easy_driver None []) = Some (Inr resp, d1) \<and>
    cm_Get ''/var/run/docker/netns/abc'' (d_bySandboxKey d1) = Some r \<and> T_Joined ''e1'' r chan \<in> set (d_tasks d1)"
    by blast
qed

definition easy_veth :: vethPair where
  "easy_veth = \<lparr>insideName = ''veth0-0'', outsideName = ''veth1-0''\<rparr>"

lemma easy_Leave:
  "\<exists>d1. drv_Leave (easy_system S) ''d1'' ''e1'' (easy_driver (Some easy_veth) [T_Joined ''e1'' 0 (OfActivation 0)]) = Some (Inr (), d1)"
proof -
  let ?S = "easy_system S" and ?d = "easy_driver (Some easy_veth) [T_Joined ''e1'' 0 (OfActivation 0)]"
  let ?op = "Leave (h_etcd (ds_host ?S)) (h_netlink (ds_host ?S)) (json_endpoint (h_codecs (ds_host ?S)))"
  obtain e1 w1 where j: "?op (easy_endpoint (Some easy_veth)) w = (None, e1, w)" for w
    by (simp add: easy_system_def Let_def easy_endpoint_def Leave_def veth_Delete_def easy_veth_def
        writeToEtcd_def with_client_def WithConnection_def MarshalJSON_def etcd_Put_def)
  have "d_byEndpointID ?d = []" by (simp add: easy_driver_def demo_driver_def)
  then show ?thesis
    by (simp add: drv_Leave_def bindP_def easy_getEndpoint endpointD_result [where op = ?op, OF j] getP_def updP_def returnP_def
      cm_TryRemove_def cm_Get_def)
qed

lemma leave_before_activation_witness:
  "\<forall>S. \<exists>d1 d2. drv_Leave (easy_system S) ''d1'' ''e1'' (easy_driver (Some easy_veth) [T_Joined ''e1'' 0 (OfActivation 0)]) = Some (Inr (), d1) \<and>
    run_task (easy_system S) id (\<lambda>_. returnP ()) (T_Joined ''e1'' 0 (OfActivation 0)) (d1\<lparr>d_activated := map_put 0 None (d_activated d1)\<rparr>) = Some (Inr (), d2) \<and>
    cm_Get ''e1'' (d_byEndpointID d2) = Some 0"
proof
  fix S :: "nat drvsys"
  let ?d = "easy_driver (Some easy_veth) [T_Joined ''e1'' 0 (OfActivation 0)]"
  obtain d1 where l: "drv_Leave (easy_system S) ''d1'' ''e1'' ?d = Some (Inr (), d1)" using easy_Leave by blast
  have "cm_Get ''e1'' (d_byEndpointID ?d) = None" "T_Joined ''e1'' 0 (OfActivation 0) \<in> set (d_tasks ?d)"
    by (simp_all add: easy_driver_def demo_driver_def cm_Get_def)
  from leave_before_activation [OF this(1) l this(2)] l
  show "\<exists>d1 d2. drv_Leave (easy_system S) ''d1'' ''e1'' ?d = Some (Inr (), d1) \<and>
    run_task (easy_system S) id (\<lambda>_. returnP ()) (T_Joined ''e1'' 0 (OfActivation 0)) (d1\<lparr>d_activated := map_put 0 None (d_activated d1)\<rparr>) = Some (Inr (), d2) \<and>
    cm_Get ''e1'' (d_byEndpointID d2) = Some 0"
    by blast
qed

text \<open>A driver that has started and has then heard of a service.\<close>

definition first_service :: dServiceInfo where
  "first_service = \<lparr>dsi_ID = ''s1'', dsi_Name = ''web'', dsi_EndpointMode = ''dnsrr'', dsi_Networks = [], dsi_IpamVIPs = []\<rparr>"

lemma quiet_service:
  assumes "op (service_heap (d_lbm d) r) = (s, [])"
  shows "serviceD r op d = Some (Inr (), d\<lparr>d_lbm := (d_lbm d)\<lparr>service_heap := (service_heap (d_lbm d))(r := s)\<rparr>\<rparr>)"
  using assms by (simp add: serviceD_def forP.simps returnP_def)

lemma new_service:
  assumes "cm_Get i (d_services d) = None"
  shows "\<exists>d1. handle_service \<lparr>dsi_ID = i, dsi_Name = nm, dsi_EndpointMode = mode, dsi_Networks = [], dsi_IpamVIPs = vips\<rparr> d =
    Some (Inr (), d1) \<and> cm_Get i (d_services d1) = Some (d_next d)"
proof -
  obtain d2 where d2: "get_or_add_service i nm d = Some (Inr (d_next d), d2)" "cm_Get i (d_services d2) = Some (d_next d)"
    "service_heap (d_lbm d2) (d_next d) = NewService i nm"
    using assms by (simp add: get_or_add_service_def createService_def bindP_def getP_def updP_def returnP_def cm_Get_def cm_Set_def)
  show ?thesis
    by (simp add: handle_service_def bindP_def d2 quiet_service SetEndpointMode_def SetNetworks_def NewService_def IsInitialized_def Let_def)
qed

lemma first_service_step:
  "\<exists>d1. run_op S (Op_Data (\<lambda>d w. (None, [DServices (NAdded [(''s1'', first_service)])], d, w)) (\<lambda>_. returnP ()))
      (new_driver [] [] [] [] 24 25 6514 False False (demo_driver (0::nat))) = Some (Inr (), d1) \<and> cm_Get ''s1'' (d_services d1) = Some 0"
proof -
  let ?d = "new_driver [] [] [] [] 24 25 6514 False False (demo_driver (0::nat))"
  have *: "cm_Get ''s1'' (d_services ?d) = None" "d_next ?d = 0" "set_world (d_world ?d) (?d\<lparr>d_data := d_data ?d\<rparr>) = ?d"
    by (simp_all add: new_driver_def NewConcurrentMap_def cm_Get_def set_world_def d_world_def)
  from new_service [OF *(1), of "''web''" "''dnsrr''" "[]"]
  obtain d1 where "handle_service first_service ?d = Some (Inr (), d1)" "cm_Get ''s1'' (d_services d1) = Some 0"
    unfolding *(2) first_service_def by blast
  then show ?thesis
    using * by (simp add: run_op_def dataD_def handle_note_def handleServicesAdded_def bindP_def errP_def returnP_def)
qed


end
