(* ===== verification/Api.thy ===== *)
theory Api
  imports Driver_Requests
begin

text \<open>
  \<open>plugin/pkg/api/util.go\<close>, \<open>ipam_api.go\<close> and \<open>network_api.go\<close>: the HTTP handlers around the requests of theory
  \<open>Driver_Requests\<close> and the paths they are registered under.  The server and the JSON coding of the
  sdk package are parameters: a body is decoded by the record \<open>decoders\<close> and a reply is the value that is
  encoded.
\<close>

section \<open>Handlers\<close>

datatype 'a http_reply = ErrorResponse err | Response 'a

text \<open>
  An error of a request becomes an error response.  A panic is no reply: the server drops the connection, and
  the deferred unlock has released the mutex.
\<close>

definition respond :: "('s, 'a) prog \<Rightarrow> ('s, 'a http_reply) prog" where
  "respond p s = (case p s of
      None \<Rightarrow> None
    | Some (Inl (Panic m), s1) \<Rightarrow> Some (Inl (Panic m), s1)
    | Some (Inl e, s1) \<Rightarrow> Some (Inr (ErrorResponse e), s1)
    | Some (Inr x, s1) \<Rightarrow> Some (Inr (Response x), s1))"

definition not_initialized :: err where
  "not_initialized = OtherError ''driver is not yet initialized''"

definition MakeHandlerWithOutput :: "('s \<Rightarrow> bool) \<Rightarrow> ('s, 'a) prog \<Rightarrow> ('s, 'a http_reply) prog" where
  "MakeHandlerWithOutput isInitialized process =
     bindP (getP isInitialized) (\<lambda>i. respond (if \<not> i then failP not_initialized else process))"

definition MakeHandlerWithInputAndOutput ::
  "('s \<Rightarrow> bool) \<Rightarrow> ('b \<Rightarrow> 'q result) \<Rightarrow> ('q \<Rightarrow> ('s, 'a) prog) \<Rightarrow> 'b \<Rightarrow> ('s, 'a http_reply) prog" where
  "MakeHandlerWithInputAndOutput isInitialized decode process body = (case decode body of
      Inl e \<Rightarrow> returnP (ErrorResponse e)
    | Inr decodedReq \<Rightarrow>
        bindP (getP isInitialized) (\<lambda>i. respond (if \<not> i then failP not_initialized else process decodedReq)))"

definition MakeHandlerWithInput ::
  "('s \<Rightarrow> bool) \<Rightarrow> ('b \<Rightarrow> 'q result) \<Rightarrow> ('q \<Rightarrow> ('s, unit) prog) \<Rightarrow> 'b \<Rightarrow> ('s, unit http_reply) prog" where
  "MakeHandlerWithInput isInitialized decode process body = (case decode body of
      Inl e \<Rightarrow> returnP (ErrorResponse e)
    | Inr decodedReq \<Rightarrow>
        bindP (getP isInitialized) (\<lambda>i. respond (if \<not> i then failP not_initialized else process decodedReq)))"

text \<open>The name of a method in the log: what follows the last dot.\<close>

definition getFunctionName :: "string option \<Rightarrow> string" where
  "getFunctionName fullName = (case fullName of
      None \<Rightarrow> ''unknown''
    | Some s \<Rightarrow> (let part = last (split_on CHR ''.'' s)
                 in if length part \<ge> 3 \<and> drop (length part - 3) part = ''-fm'' then take (length part - 3) part else part))"

section \<open>Paths\<close>

record 'b decoders =
  dec_RequestPool :: "'b \<Rightarrow> RequestPoolRequest result"
  dec_RequestAddress :: "'b \<Rightarrow> RequestAddressRequest result"
  dec_ReleaseAddress :: "'b \<Rightarrow> ReleaseAddressRequest result"
  dec_CreateEndpoint :: "'b \<Rightarrow> CreateEndpointRequest result"
  dec_endpoint :: "'b \<Rightarrow> (string \<times> string) result" \<comment> \<open>\<open>NetworkID\<close> and \<open>EndpointID\<close>\<close>
  dec_Join :: "'b \<Rightarrow> (string \<times> string \<times> string) result"
  dec_any :: "'b \<Rightarrow> unit result"

datatype reply =
    V_IpamCapabilities bool
  | V_AddressSpaces "string \<times> string"
  | V_Pool RequestPoolResponse
  | V_Address string
  | V_Capabilities "string \<times> string"
  | V_Info "(string, string) gomap"
  | V_Join JoinResponse
  | V_Empty

definition as_reply :: "('a \<Rightarrow> 'c) \<Rightarrow> ('s, 'a) prog \<Rightarrow> ('s, 'c) prog" where
  "as_reply f p = bindP p (\<lambda>x. returnP (f x))"

definition no_reply :: "unit http_reply \<Rightarrow> reply http_reply" where
  "no_reply r = (case r of ErrorResponse e \<Rightarrow> ErrorResponse e | Response _ \<Rightarrow> Response V_Empty)"

type_synonym ('w, 'b) handler = "'b \<Rightarrow> ('w, reply http_reply) drvP"

text \<open>The path of \<open>ReleasePool\<close> is registered with \<open>ReleaseAddress\<close>.\<close>

definition InitIpamMux :: "'w drvsys \<Rightarrow> 'b decoders \<Rightarrow> (string \<times> ('w, 'b) handler) list" where
  "InitIpamMux S D = (let o0 = (\<lambda>_. True); o1 = IsDriverInitialized in
    [(''/IpamDriver.GetCapabilities'', \<lambda>_. MakeHandlerWithOutput o0 (returnP (V_IpamCapabilities GetIpamCapabilities))),
     (''/IpamDriver.GetDefaultAddressSpaces'', \<lambda>_. MakeHandlerWithOutput o0 (returnP (V_AddressSpaces GetDefaultAddressSpaces))),
     (''/IpamDriver.RequestPool'', MakeHandlerWithInputAndOutput o1 (dec_RequestPool D) (\<lambda>q. as_reply V_Pool (RequestPool S q))),
     (''/IpamDriver.ReleasePool'', \<lambda>b. as_reply no_reply (MakeHandlerWithInput o1 (dec_ReleaseAddress D) (ReleaseAddress S) b)),
     (''/IpamDriver.RequestAddress'', MakeHandlerWithInputAndOutput o1 (dec_RequestAddress D) (\<lambda>q. as_reply V_Address (RequestAddress S q))),
     (''/IpamDriver.ReleaseAddress'', \<lambda>b. as_reply no_reply (MakeHandlerWithInput o1 (dec_ReleaseAddress D) (ReleaseAddress S) b))])"

definition InitNetworkMux :: "'w drvsys \<Rightarrow> 'b decoders \<Rightarrow> (string \<times> ('w, 'b) handler) list" where
  "InitNetworkMux S D = (let o0 = (\<lambda>_. True); o1 = IsDriverInitialized;
      nothing = (\<lambda>b. as_reply no_reply (MakeHandlerWithInput o1 (dec_any D) no_op b)) in
    [(''/NetworkDriver.GetCapabilities'', \<lambda>_. MakeHandlerWithOutput o0 (returnP (V_Capabilities GetCapabilities))),
     (''/NetworkDriver.CreateNetwork'', nothing),
     (''/NetworkDriver.AllocateNetwork'', MakeHandlerWithInputAndOutput o1 (dec_any D) (\<lambda>q. as_reply (\<lambda>_. V_Empty) (no_op q))),
     (''/NetworkDriver.DeleteNetwork'', nothing),
     (''/NetworkDriver.FreeNetwork'', nothing),
     (''/NetworkDriver.CreateEndpoint'', MakeHandlerWithInputAndOutput o1 (dec_CreateEndpoint D)
        (\<lambda>q. as_reply (\<lambda>_. V_Empty) (CreateEndpoint S q))),
     (''/NetworkDriver.DeleteEndpoint'', \<lambda>b. as_reply no_reply
        (MakeHandlerWithInput o1 (dec_endpoint D) (\<lambda>(n, e). DeleteEndpoint S n e) b)),
     (''/NetworkDriver.EndpointOperInfo'', MakeHandlerWithInputAndOutput o1 (dec_endpoint D)
        (\<lambda>(n, e). as_reply V_Info (EndpointInfo n e))),
     (''/NetworkDriver.Join'', MakeHandlerWithInputAndOutput o1 (dec_Join D) (\<lambda>(n, e, k). as_reply V_Join (drv_Join S n e k))),
     (''/NetworkDriver.Leave'', \<lambda>b. as_reply no_reply
        (MakeHandlerWithInput o1 (dec_endpoint D) (\<lambda>(n, e). drv_Leave S n e) b)),
     (''/NetworkDriver.DiscoverNew'', nothing),
     (''/NetworkDriver.DiscoverDelete'', nothing),
     (''/NetworkDriver.ProgramExternalConnectivity'', nothing),
     (''/NetworkDriver.RevokeExternalConnectivity'', nothing)])"

text \<open>\<open>Serve\<close> registers both groups; a request for another path is not answered by a handler.\<close>

definition Serve :: "'w drvsys \<Rightarrow> 'b decoders \<Rightarrow> string \<Rightarrow> ('w, 'b) handler option" where
  "Serve S D path = map_of (InitIpamMux S D @ InitNetworkMux S D) path"

section \<open>Properties\<close>

lemma respond_return [simp]: "respond (returnP x) s = Some (Inr (Response x), s)"
  by (simp add: respond_def returnP_def)

lemma respond_not_initialized [simp]: "respond (failP not_initialized) s = Some (Inr (ErrorResponse not_initialized), s)"
  by (simp add: respond_def failP_def not_initialized_def)

lemma as_reply_Inr [simp]: "p s = Some (Inr x, t) \<Longrightarrow> as_reply f p s = Some (Inr (f x), t)"
  by (simp add: as_reply_def bindP_def returnP_def)

text \<open>Registering a path twice would be a panic.\<close>

lemma paths_distinct: "distinct (map fst (InitIpamMux S D @ InitNetworkMux S D))"
  by (simp add: InitIpamMux_def InitNetworkMux_def Let_def)

lemmas handlers = MakeHandlerWithOutput_def MakeHandlerWithInputAndOutput_def MakeHandlerWithInput_def

text \<open>A handler that is called before the driver is initialised.\<close>

definition refuses :: "('w, 'b) handler \<Rightarrow> bool" where
  "refuses h \<longleftrightarrow> (\<forall>body d. \<not> d_isInitialized d \<longrightarrow> (\<exists>e. h body d = Some (Inr (ErrorResponse e), d)))"

lemma refuses_InputAndOutput: "refuses (MakeHandlerWithInputAndOutput IsDriverInitialized dec p)"
  by (auto simp: refuses_def handlers IsDriverInitialized_def returnP_def split: sum.split)

lemma refuses_Input:
  fixes p :: "'q \<Rightarrow> ('w, unit) drvP"
  shows "refuses (\<lambda>b. as_reply no_reply (MakeHandlerWithInput IsDriverInitialized dec p b))"
  unfolding refuses_def
proof (intro allI impI)
  fix b and d :: "'w driver"
  assume "\<not> d_isInitialized d"
  then have "\<exists>e. MakeHandlerWithInput IsDriverInitialized dec p b d = Some (Inr (ErrorResponse e), d)"
    by (auto simp: handlers IsDriverInitialized_def returnP_def split: sum.split)
  then show "\<exists>e. as_reply no_reply (MakeHandlerWithInput IsDriverInitialized dec p b) d = Some (Inr (ErrorResponse e), d)"
    by (auto simp: no_reply_def)
qed

lemma routes_refuse:
  "\<forall>(path, h) \<in> set (drop 2 (InitIpamMux S D) @ drop 1 (InitNetworkMux S D)). refuses h"
  by (simp add: InitIpamMux_def InitNetworkMux_def Let_def refuses_InputAndOutput refuses_Input)

text \<open>
  C12: Until the driver is initialised no request does anything: every path but the three constant capability
  requests is answered with an error, and the state and the world are as before.
\<close>

theorem uninitialized_no_effect:
  assumes "\<not> d_isInitialized d" and "Serve S D path = Some h"
  shows "\<exists>r. h body d = Some (Inr r, d) \<and> ((\<exists>e. r = ErrorResponse e) \<or>
    path \<in> {''/IpamDriver.GetCapabilities'', ''/IpamDriver.GetDefaultAddressSpaces'', ''/NetworkDriver.GetCapabilities''})"
proof -
  let ?routes = "InitIpamMux S D @ InitNetworkMux S D" and ?const = "take 2 (InitIpamMux S D) @ take 1 (InitNetworkMux S D)"
  have "(path, h) \<in> set ?routes" using assms(2) by (simp only: Serve_def map_of_SomeD)
  moreover have "set ?routes = set ?const \<union> set (drop 2 (InitIpamMux S D) @ drop 1 (InitNetworkMux S D))"
    by (metis (no_types, lifting) append_take_drop_id set_append sup.assoc sup.left_commute)
  ultimately consider "(path, h) \<in> set ?const" | "refuses h" using routes_refuse [of S D] by blast
  then show ?thesis
  proof cases
    case 1
    then show ?thesis by (auto simp: InitIpamMux_def InitNetworkMux_def Let_def handlers)
  next
    case 2
    with assms(1) show ?thesis unfolding refuses_def by blast
  qed
qed

text \<open>
  A request to release a pool reaches \<open>ReleaseAddress\<close>.  Its body has no address, so it does nothing, which is
  what \<open>ReleasePool\<close> is meant to do.
\<close>

lemma ReleasePool_path:
  assumes "d_isInitialized d" and "dec_ReleaseAddress D body = Inr \<lparr>rl_PoolID = pid, rl_Address = []\<rparr>"
  shows "\<exists>h. Serve S D ''/IpamDriver.ReleasePool'' = Some h \<and> h body d = Some (Inr (Response V_Empty), d)"
  using assms
  by (simp add: Serve_def InitIpamMux_def Let_def handlers IsDriverInitialized_def ReleaseAddress_def no_reply_def)

theorem uninitialized_no_effect_witness:
  "\<forall>(S :: nat drvsys) (D :: string decoders). let d = (demo_driver (0 :: nat))\<lparr>d_isInitialized := False\<rparr> in
     \<exists>h r. Serve S D ''/NetworkDriver.Join'' = Some h \<and> h ''{}'' d = Some (Inr r, d) \<and> (\<exists>e. r = ErrorResponse e)"
  unfolding Let_def
proof (intro allI)
  fix S :: "nat drvsys" and D :: "string decoders"
  let ?d = "(demo_driver (0 :: nat))\<lparr>d_isInitialized := False\<rparr>"
  obtain h where h: "Serve S D ''/NetworkDriver.Join'' = Some h"
    by (simp add: Serve_def InitIpamMux_def InitNetworkMux_def Let_def)
  have "\<not> d_isInitialized ?d" by simp
  from uninitialized_no_effect [OF this h, of "''{}''"] h
  show "\<exists>h r. Serve S D ''/NetworkDriver.Join'' = Some h \<and> h ''{}'' ?d = Some (Inr r, ?d) \<and> (\<exists>e. r = ErrorResponse e)"
    by auto
qed

end
