(* ===== verification/Plugin_Main.thy ===== *)
theory Plugin_Main
  imports Api
begin

text \<open>
  \<open>plugin/main.go\<close>: the settings of the plugin, which are environment variables, and its start.  An unset
  variable is an empty one, as \<open>os.Getenv\<close> returns it.
\<close>

section \<open>Environment\<close>

text \<open>\<open>strings.ToLower\<close> on ASCII; no other letter has a letter of \<open>true\<close> as its lower case.\<close>

definition to_lower :: "char \<Rightarrow> char" where
  "to_lower c = (let n = of_char c :: nat in if 65 \<le> n \<and> n \<le> 90 then char_of (n + 32) else c)"

definition ToLower :: "string \<Rightarrow> string" where
  "ToLower = map to_lower"

definition getEnvAsInt :: "(string \<Rightarrow> string) \<Rightarrow> string \<Rightarrow> int \<Rightarrow> int" where
  "getEnvAsInt Getenv name defaultVal = (let valueStr = Getenv name
     in if valueStr \<noteq> [] then (case Atoi valueStr of Some v \<Rightarrow> v | None \<Rightarrow> defaultVal) else defaultVal)"

definition getEnvAsBool :: "(string \<Rightarrow> string) \<Rightarrow> string \<Rightarrow> bool \<Rightarrow> bool" where
  "getEnvAsBool Getenv name defaultVal = (let valueStr = Getenv name
     in if valueStr \<noteq> [] then ToLower valueStr = ''true'' else defaultVal)"

record settings =
  set_endPoints :: "string list"
  set_prefix :: string
  set_flannelOptions :: "string list"
  set_subnets :: "ipnet list"
  set_networkSubnetSize :: int
  set_hostSubnetSize :: int
  set_vniStart :: int
  set_dockerCompatibility :: bool
  set_hook :: bool

text \<open>The first subnet that cannot be parsed ends the process.\<close>

fun parse_subnets :: "string list \<Rightarrow> ipnet list result" where
  "parse_subnets [] = Inr []"
| "parse_subnets (s # rest) = (case ParseCIDR s of
      None \<Rightarrow> Inl (Panic ''fatal'')
    | Some (_, parsed) \<Rightarrow> map_sum id ((#) parsed) (parse_subnets rest))"

definition read_settings :: "(string \<Rightarrow> string) \<Rightarrow> settings result" where
  "read_settings Getenv = map_sum id (\<lambda>availableSubnets. \<lparr>
      set_endPoints = split_on CHR '','' (Getenv ''ETCD_ENDPOINTS''),
      set_prefix = trim_right CHR ''/'' (Getenv ''ETCD_PREFIX''),
      set_flannelOptions = split_on CHR '','' (Getenv ''DEFAULT_FLANNEL_OPTIONS''),
      set_subnets = availableSubnets,
      set_networkSubnetSize = getEnvAsInt Getenv ''NETWORK_SUBNET_SIZE'' 20,
      set_hostSubnetSize = getEnvAsInt Getenv ''DEFAULT_HOST_SUBNET_SIZE'' 25,
      set_vniStart = getEnvAsInt Getenv ''VNI_START'' 6514,
      set_dockerCompatibility = (ToLower (Getenv ''DNS_DOCKER_COMPATIBILITY_MODE'') = ''true''),
      set_hook = getEnvAsBool Getenv ''IS_HOOK_AVAILABLE'' False\<rparr>)
    (parse_subnets (split_on CHR '','' (Getenv ''AVAILABLE_SUBNETS'')))"

section \<open>Start\<close>

text \<open>What \<open>main\<close> does before it serves requests; every error ends the process.\<close>

definition plugin_main :: "'w drvsys \<Rightarrow> (string \<Rightarrow> string) \<Rightarrow> ('w, unit) drvP" where
  "plugin_main S Getenv = bindP (resultP (read_settings Getenv)) (\<lambda>s.
     bindP (NewFlannelDriver S (set_endPoints s) (set_prefix s) (set_flannelOptions s) (set_subnets s)
        (set_networkSubnetSize s) (set_hostSubnetSize s) (set_vniStart s) (set_dockerCompatibility s) (set_hook s)) (\<lambda>_.
     fatalP (drv_Init S)))"

section \<open>Properties\<close>

lemma getEnvAsInt_number: "getEnvAsInt E x k = int n" if "E x = format_dec n" "n < 2 ^ 63"
  using that by (simp add: getEnvAsInt_def Atoi_format_dec)

lemma getEnvAsInt_unset: "E x = [] \<Longrightarrow> getEnvAsInt E x k = k"
  by (simp add: getEnvAsInt_def)

lemma parse_subnets_map:
  assumes "\<forall>(base, p) \<in> set nets. base < 2 ^ 32 \<and> p \<le> 32 \<and> base mod 2 ^ (32 - p) = 0"
  shows "parse_subnets (map (\<lambda>(base, p). ipnet_String (v4net base p)) nets) = Inr (map (\<lambda>(base, p). v4net base p) nets)"
  using assms
proof (induction nets)
  case (Cons n nets)
  obtain base p where n: "n = (base, p)" by (cases n)
  with Cons.prems have v: "base < 2 ^ 32" "p \<le> 32" "base mod 2 ^ (32 - p) = 0" by auto
  have "ParseCIDR (ipnet_String (v4net base p)) = Some (v4_prefix @ ip_of 4 base, v4net base p)"
    unfolding ipnet_String_v4net [OF v(2)] by (rule ParseCIDR_v4net [OF v])
  with Cons show ?case by (simp add: n)
qed simp

lemma ipnet_String_no_comma: "p \<le> 32 \<Longrightarrow> CHR '','' \<notin> set (ipnet_String (v4net base p))"
proof -
  assume p: "p \<le> 32"
  have "CHR '','' \<notin> set (format_dec n)" for n by (rule not_digit_not_in_format) (simp add: is_digit_def)
  then show ?thesis by (auto simp: ipnet_String_v4net [OF p] dotted_def dest!: set_join_chars [THEN subsetD])
qed

text \<open>
  The plugin reads back the settings it was given: the subnets written as addresses with a prefix and separated by
  commas, the end points, and the sizes as decimal numbers; an unset size has its default.
\<close>

theorem settings_read:
  assumes "nets \<noteq> []" and "\<forall>(base, p) \<in> set nets. base < 2 ^ 32 \<and> p \<le> 32 \<and> base mod 2 ^ (32 - p) = 0"
    and "Getenv ''AVAILABLE_SUBNETS'' = join '','' (map (\<lambda>(base, p). ipnet_String (v4net base p)) nets)"
    and "eps \<noteq> []" and "\<forall>e \<in> set eps. CHR '','' \<notin> set e" and "Getenv ''ETCD_ENDPOINTS'' = join '','' eps"
    and "Getenv ''NETWORK_SUBNET_SIZE'' = format_dec q" and "q < 2 ^ 63" and "Getenv ''VNI_START'' = []"
  shows "\<exists>s. read_settings Getenv = Inr s \<and> set_subnets s = map (\<lambda>(base, p). v4net base p) nets \<and> set_endPoints s = eps \<and>
    set_networkSubnetSize s = int q \<and> set_vniStart s = 6514"
proof -
  have "split_on CHR '','' (Getenv ''AVAILABLE_SUBNETS'') = map (\<lambda>(base, p). ipnet_String (v4net base p)) nets"
    unfolding assms(3) using assms(1,2) by (intro split_on_join) (auto simp: ipnet_String_no_comma)
  then have "parse_subnets (split_on CHR '','' (Getenv ''AVAILABLE_SUBNETS'')) = Inr (map (\<lambda>(base, p). v4net base p) nets)"
    using parse_subnets_map [OF assms(2)] by simp
  moreover have "split_on CHR '','' (Getenv ''ETCD_ENDPOINTS'') = eps"
    unfolding assms(6) using assms(4,5) by (intro split_on_join) auto
  ultimately show ?thesis
    using getEnvAsInt_number [of Getenv, OF assms(7,8)] getEnvAsInt_unset [of Getenv, OF assms(9)]
    by (simp add: read_settings_def)
qed

theorem settings_read_witness:
  "\<exists>s. read_settings (\<lambda>x. if x = ''AVAILABLE_SUBNETS'' then join '','' (map (\<lambda>(base, p). ipnet_String (v4net base p)) [(167772160, 8), (2886729728, 12)])
      else if x = ''ETCD_ENDPOINTS'' then ''http://a:2379,http://b:2379'' else if x = ''NETWORK_SUBNET_SIZE'' then format_dec 22 else []) = Inr s \<and>
     set_subnets s = [v4net 167772160 8, v4net 2886729728 12] \<and> set_networkSubnetSize s = 22 \<and> length (set_endPoints s) = 2"
proof -
  let ?nets = "[(167772160, 8), (2886729728, 12)] :: (nat \<times> nat) list" and ?eps = "[''http://a:2379'', ''http://b:2379'']"
  let ?E = "\<lambda>x. if x = ''AVAILABLE_SUBNETS'' then join '','' (map (\<lambda>(base, p). ipnet_String (v4net base p)) ?nets)
      else if x = ''ETCD_ENDPOINTS'' then ''http://a:2379,http://b:2379'' else if x = ''NETWORK_SUBNET_SIZE'' then format_dec 22 else []"
  have "\<exists>s. read_settings ?E = Inr s \<and> set_subnets s = map (\<lambda>(base, p). v4net base p) ?nets \<and> set_endPoints s = ?eps \<and>
      set_networkSubnetSize s = int 22 \<and> set_vniStart s = 6514"
    by (rule settings_read) simp_all
  then show ?thesis by auto
qed

text \<open>An unset list is one empty string, not an empty list: flanneld then gets an empty argument.\<close>

lemma unset_options:
  "Getenv ''DEFAULT_FLANNEL_OPTIONS'' = [] \<Longrightarrow> read_settings Getenv = Inr s \<Longrightarrow> set_flannelOptions s = [[]]"
  by (auto simp: read_settings_def map_sum_def split: sum.splits)

text \<open>A subnet that cannot be read ends the process before anything is done.\<close>

lemma main_rejects: "read_settings Getenv = Inl e \<Longrightarrow> plugin_main S Getenv d = Some (Inl e, d)"
  by (simp add: plugin_main_def bindP_def resultP_def failP_def)

end
