(* ===== verification/Hook.thy ===== *)
theory Hook
  imports Nameserver
begin

text \<open>
  \<open>hook/main.go\<close>: the hook that the container runtime starts in the network namespace of a new container.  It
  holds the start of the container until the plugin has written the ready file of the namespace, at most 20 s.  The
  file system and the watcher of fsnotify are the record \<open>hookhost\<close>; the messages of the journal are left out.
\<close>

section \<open>Host\<close>

text \<open>\<open>StatInode\<close> is \<open>os.Stat\<close>, whose error says whether the file does not exist, with the inode.\<close>

record 'w hookhost =
  Readlink :: "string \<Rightarrow> ('w, string) io"
  StatInode :: "string \<Rightarrow> ('w, nat) io"
  ReadDir :: "string \<Rightarrow> ('w, string list) io"
  RemoveFile :: "string \<Rightarrow> ('w, unit) io"
  hook_MkdirAll :: "string \<Rightarrow> ('w, unit) io"
  NewWatcher :: "('w, unit) io"
  AddWatch :: "string \<Rightarrow> ('w, unit) io"

definition ioW :: "('w, 'a) io \<Rightarrow> ('w, 'a) prog" where
  "ioW op w = Some (op w)"

definition sandboxesDir :: string where "sandboxesDir = ''/var/run/flannel-np/sandboxes''"

definition readyDir :: string where "readyDir = ''/var/run/flannel-np/ready''"

definition netnsDir :: string where "netnsDir = ''/var/run/docker/netns''"

text \<open>A call of package \<open>os\<close> whose error is printed or ignored; these calls do not panic.\<close>

definition unreportedP :: "('s, 'a) prog \<Rightarrow> ('s, unit) prog" where
  "unreportedP p s = (case p s of None \<Rightarrow> None | Some (_, s1) \<Rightarrow> Some (Inr (), s1))"

text \<open>\<open>filepath.Join\<close> of a directory and the name of one of its entries.\<close>

definition file_in :: "string \<Rightarrow> string \<Rightarrow> string" where
  "file_in dir x = dir @ ''/'' @ x"

section \<open>Namespaces\<close>

definition getCurrentNetNS :: "'w hookhost \<Rightarrow> ('w, string) prog" where
  "getCurrentNetNS H = bindP (ioW (Readlink H ''/proc/self/ns/net'')) (\<lambda>link.
     let parts = split_on CHR ''['' link
     in if length parts < 2 then failP (OtherError ''unexpected format for network namespace'')
        else let s = parts ! 1 in returnP (if s \<noteq> [] \<and> last s = CHR '']'' then butlast s else s))"

text \<open>
  The first \<open>os.Stat\<close> only looks for a missing file, which is an error of the second one as well unless it
  appears in between.
\<close>

definition getSandboxNetNS :: "'w hookhost \<Rightarrow> string \<Rightarrow> ('w, string) prog" where
  "getSandboxNetNS H sandboxID = (let netnsPath = file_in netnsDir sandboxID in
     bindP (attemptP (bindP (ioW (StatInode H netnsPath)) (\<lambda>_. returnP ()))) (\<lambda>e.
     if e = Some (OtherError ''not exist'') then failP (OtherError ''no docker netns file found'')
     else bindP (ioW (StatInode H netnsPath)) (\<lambda>inode. returnP (format_dec inode))))"

section \<open>Waiting for the ready file\<close>

text \<open>What the \<open>select\<close> receives; a file event says whether it creates or writes, and its name.\<close>

datatype wake = FileEvent bool string | WatcherError | TimedOut | Tick

text \<open>
  The loop along a schedule: before each receive other processes run.  When the schedule is over it still
  waits.
\<close>

fun watch_loop :: "'w hookhost \<Rightarrow> string \<Rightarrow> (('w \<Rightarrow> 'w) \<times> wake) list \<Rightarrow> ('w, bool) prog" where
  "watch_loop H filePath [] w = None"
| "watch_loop H filePath ((others, x) # rest) w = (case x of
      FileEvent op name \<Rightarrow> if op \<and> name = filePath then Some (Inr True, others w) else watch_loop H filePath rest (others w)
    | WatcherError \<Rightarrow> Some (Inr False, others w)
    | TimedOut \<Rightarrow> Some (Inr False, others w)
    | Tick \<Rightarrow> (case StatInode H filePath (others w) of
        (Inr _, w1) \<Rightarrow> Some (Inr True, w1) | (Inl _, w1) \<Rightarrow> watch_loop H filePath rest w1))"

text \<open>\<open>filepath.Dir\<close> of the ready file is the directory it was joined to.\<close>

definition watchForFile :: "'w hookhost \<Rightarrow> string \<Rightarrow> string \<Rightarrow> (('w \<Rightarrow> 'w) \<times> wake) list \<Rightarrow> ('w, bool) prog" where
  "watchForFile H dir filePath schedule =
     bindP (attemptP (ioW (NewWatcher H))) (\<lambda>e. case e of Some _ \<Rightarrow> returnP False | None \<Rightarrow>
     bindP (attemptP (ioW (AddWatch H dir))) (\<lambda>e. case e of Some _ \<Rightarrow> returnP False | None \<Rightarrow>
     watch_loop H filePath schedule))"

section \<open>The hook\<close>

text \<open>The result is the exit code.\<close>

definition hold_container :: "'w hookhost \<Rightarrow> (('w \<Rightarrow> 'w) \<times> wake) list \<Rightarrow> string \<Rightarrow> ('w, nat) prog" where
  "hold_container H schedule sandboxID =
     bindP (watchForFile H readyDir (file_in readyDir sandboxID) schedule) (\<lambda>ready.
     if \<not> ready then returnP 0
     else bindP (unreportedP (ioW (RemoveFile H (file_in readyDir sandboxID)))) (\<lambda>_.
          bindP (unreportedP (ioW (RemoveFile H (file_in sandboxesDir sandboxID)))) (\<lambda>_.
          returnP 0)))"

fun hook_loop :: "'w hookhost \<Rightarrow> (('w \<Rightarrow> 'w) \<times> wake) list \<Rightarrow> string \<Rightarrow> string list \<Rightarrow> ('w, nat) prog" where
  "hook_loop H schedule currentNetNS [] w = Some (Inr 0, w)"
| "hook_loop H schedule currentNetNS (sandboxID # rest) w = (case getSandboxNetNS H sandboxID w of
      None \<Rightarrow> None
    | Some (Inl _, w1) \<Rightarrow> hook_loop H schedule currentNetNS rest w1
    | Some (Inr sandboxNetNS, w1) \<Rightarrow>
        if currentNetNS \<noteq> sandboxNetNS then hook_loop H schedule currentNetNS rest w1
        else hold_container H schedule sandboxID w1)"

definition hook_main :: "'w hookhost \<Rightarrow> (('w \<Rightarrow> 'w) \<times> wake) list \<Rightarrow> ('w, nat) prog" where
  "hook_main H schedule =
     bindP (unreportedP (ioW (hook_MkdirAll H sandboxesDir))) (\<lambda>_.
     bindP (unreportedP (ioW (hook_MkdirAll H readyDir))) (\<lambda>_ w. case getCurrentNetNS H w of
        None \<Rightarrow> None
      | Some (Inl _, w1) \<Rightarrow> Some (Inr 1, w1)
      | Some (Inr currentNetNS, w1) \<Rightarrow> (case ReadDir H sandboxesDir w1 of
          (Inl _, w2) \<Rightarrow> Some (Inr 1, w2)
        | (Inr sandboxFiles, w2) \<Rightarrow> hook_loop H schedule currentNetNS sandboxFiles w2)))"

section \<open>Properties\<close>

text \<open>
  A host whose files are \<open>files\<close>: \<open>os.Stat\<close> finds them and changes nothing, the sandbox directory lists
  its files, and the watcher can be made.
\<close>

definition hook_contract ::
  "'w hookhost \<Rightarrow> ('w \<Rightarrow> string set) \<Rightarrow> ('w \<Rightarrow> string \<Rightarrow> nat) \<Rightarrow> ('w \<Rightarrow> string list) \<Rightarrow> string \<Rightarrow> bool" where
  "hook_contract H files inode names link \<longleftrightarrow>
     (\<forall>w p. StatInode H p w = (if p \<in> files w then (Inr (inode w p), w) else (Inl (OtherError ''not exist''), w))) \<and>
     (\<forall>w d. hook_MkdirAll H d w = (Inr (), w)) \<and> (\<forall>w. NewWatcher H w = (Inr (), w)) \<and> (\<forall>w d. AddWatch H d w = (Inr (), w)) \<and>
     (\<forall>w. Readlink H ''/proc/self/ns/net'' w = (Inr link, w)) \<and> (\<forall>w. ReadDir H sandboxesDir w = (Inr (names w), w))"

text \<open>The world after the receives of a part of the schedule, before the next one.\<close>

definition moment :: "(('w \<Rightarrow> 'w) \<times> wake) list \<Rightarrow> 'w \<Rightarrow> 'w" where
  "moment pre w = fold fst pre w"

text \<open>The watcher reports only files that are there, and neither fails nor runs out of time.\<close>

definition truthful :: "('w \<Rightarrow> string set) \<Rightarrow> (('w \<Rightarrow> 'w) \<times> wake) list \<Rightarrow> bool" where
  "truthful files schedule \<longleftrightarrow> (\<forall>(f, x) \<in> set schedule. case x of
      FileEvent op name \<Rightarrow> op \<longrightarrow> (\<forall>w. name \<in> files (f w)) | Tick \<Rightarrow> True | _ \<Rightarrow> False)"

lemma getCurrentNetNS_link:
  assumes "hook_contract H files inode names (''net:['' @ format_dec n @ '']'')"
  shows "getCurrentNetNS H w = Some (Inr (format_dec n), w)"
proof -
  have "CHR ''['' \<notin> set (format_dec n @ '']'')"
    by (simp add: not_digit_not_in_format is_digit_def)
  then have "split_on CHR ''['' (''net:'' @ CHR ''['' # format_dec n @ '']'') = [''net:'', format_dec n @ '']'']"
    by (subst split_on_append) simp_all
  with assms show ?thesis
    by (simp add: getCurrentNetNS_def ioW_def bindP_def returnP_def Let_def hook_contract_def)
qed

lemma getSandboxNetNS_stat:
  assumes "hook_contract H files inode names link"
  shows "getSandboxNetNS H i w = Some (if file_in netnsDir i \<in> files w then (Inr (format_dec (inode w (file_in netnsDir i))), w)
    else (Inl (OtherError ''no docker netns file found''), w))"
  using assms by (simp add: getSandboxNetNS_def ioW_def bindP_def returnP_def failP_def attemptP_def Let_def hook_contract_def)

lemma watch_loop_found:
  assumes "hook_contract H files inode names link" and "truthful files schedule" and "watch_loop H p schedule w = Some (r, w')"
  shows "r = Inr True \<and> (\<exists>pre f x post. schedule = pre @ (f, x) # post \<and> p \<in> files (f (moment pre w)))"
  using assms(2,3)
proof (induction schedule arbitrary: w)
  case (Cons g rest)
  obtain h x where g: "g = (h, x)" by (cases g)
  have S: "StatInode H p v = (if p \<in> files v then (Inr (inode v p), v) else (Inl (OtherError ''not exist''), v))" for v
    using assms(1) by (simp add: hook_contract_def)
  have t: "truthful files rest" using Cons.prems(1) by (auto simp: truthful_def g)
  consider "p \<in> files (h w)" "r = Inr True" | "watch_loop H p rest (h w) = Some (r, w')"
    using Cons.prems by (auto simp: g S truthful_def split: wake.splits if_splits)
  then show ?case
  proof cases
    case 1
    then have "g # rest = [] @ (h, x) # rest \<and> p \<in> files (h (moment [] w))" by (simp add: g moment_def)
    with 1(2) show ?thesis by blast
  next
    case 2
    from Cons.IH [OF t 2] obtain pre f y post where r: "r = Inr True" and
      "rest = pre @ (f, y) # post" "p \<in> files (f (moment pre (h w)))" by blast
    then have "g # rest = (g # pre) @ (f, y) # post \<and> p \<in> files (f (moment (g # pre) w))" by (simp add: g moment_def)
    with r show ?thesis by blast
  qed
qed simp

lemma watch_loop_returns:
  assumes "hook_contract H files inode names link" and "p \<in> files (f (moment pre w))"
  shows "\<exists>b w'. watch_loop H p (pre @ (f, Tick) # post) w = Some (Inr b, w')"
  using assms(2)
proof (induction pre arbitrary: w)
  case Nil
  then show ?case using assms(1) by (auto simp: moment_def hook_contract_def)
next
  case (Cons g pre)
  obtain h x where g: "g = (h, x)" by (cases g)
  have "p \<in> files (f (moment pre (h w)))" using Cons.prems by (simp add: g moment_def)
  then obtain b w' where "watch_loop H p (pre @ (f, Tick) # post) (h w) = Some (Inr b, w')" using Cons.IH by blast
  then show ?case using assms(1) by (auto simp: g hook_contract_def split: wake.split)
qed

text \<open>The hook of a container finds its sandbox, when no other one has its namespace, and holds the container.\<close>

definition own_sandbox ::
  "('w \<Rightarrow> string set) \<Rightarrow> ('w \<Rightarrow> string \<Rightarrow> nat) \<Rightarrow> ('w \<Rightarrow> string list) \<Rightarrow> nat \<Rightarrow> string \<Rightarrow> 'w \<Rightarrow> bool" where
  "own_sandbox files inode names n i w \<longleftrightarrow> i \<in> set (names w) \<and>
     (\<forall>j \<in> set (names w). file_in netnsDir j \<in> files w \<and> inode w (file_in netnsDir j) = n \<longleftrightarrow> j = i)"

lemma hook_loop_own:
  assumes "hook_contract H files inode names link" and "i \<in> set ids"
    and "\<forall>j \<in> set ids. file_in netnsDir j \<in> files w \<and> inode w (file_in netnsDir j) = n \<longleftrightarrow> j = i"
  shows "hook_loop H schedule (format_dec n) ids w = hold_container H schedule i w"
  using assms(2,3)
proof (induction ids)
  case (Cons j ids)
  have ns: "getSandboxNetNS H j w = Some (if file_in netnsDir j \<in> files w then (Inr (format_dec (inode w (file_in netnsDir j))), w)
      else (Inl (OtherError ''no docker netns file found''), w))" by (rule getSandboxNetNS_stat [OF assms(1)])
  show ?case
  proof (cases "j = i")
    case True
    then show ?thesis using Cons.prems(2) ns by simp
  next
    case False
    then have "\<not> (file_in netnsDir j \<in> files w \<and> inode w (file_in netnsDir j) = n)" "i \<in> set ids"
      using Cons.prems by auto
    then show ?thesis using Cons ns by (auto simp: format_dec_inj)
  qed
qed simp

lemma hook_main_own:
  assumes H: "hook_contract H files inode names (''net:['' @ format_dec n @ '']'')" and "own_sandbox files inode names n i w"
  shows "hook_main H schedule w = hold_container H schedule i w"
proof -
  have "hook_loop H schedule (format_dec n) (names w) w = hold_container H schedule i w"
    using assms(2) by (intro hook_loop_own [OF H]) (simp_all add: own_sandbox_def)
  with H getCurrentNetNS_link [OF H, of w] show ?thesis
    by (simp add: hook_main_def bindP_def unreportedP_def ioW_def hook_contract_def)
qed

lemma hold_container_watch:
  assumes "hook_contract H files inode names link"
  shows "hold_container H schedule i w = (case watch_loop H (file_in readyDir i) schedule w of
      None \<Rightarrow> None
    | Some (Inl e, w1) \<Rightarrow> Some (Inl e, w1)
    | Some (Inr False, w1) \<Rightarrow> Some (Inr 0, w1)
    | Some (Inr True, w1) \<Rightarrow> Some (Inr 0, snd (RemoveFile H (file_in sandboxesDir i) (snd (RemoveFile H (file_in readyDir i) w1)))))"
  using assms by (auto simp: hold_container_def watchForFile_def attemptP_def ioW_def bindP_def unreportedP_def returnP_def hook_contract_def
      split: option.splits sum.splits bool.splits prod.splits)

text \<open>
  C9: The hook lets a container start only when its ready file is there: if it ends, without an error of the
  watcher and within its time, the file existed at one of the moments at which it looked.
\<close>

theorem hook_waits_for_ready:
  assumes "hook_contract H files inode names (''net:['' @ format_dec n @ '']'')" and "own_sandbox files inode names n i w"
    and "truthful files schedule" and "hook_main H schedule w = Some (r, w')"
  shows "r = Inr 0 \<and> (\<exists>pre f x post. schedule = pre @ (f, x) # post \<and> file_in readyDir i \<in> files (f (moment pre w)))"
proof -
  have "hold_container H schedule i w = Some (r, w')" using assms(4) hook_main_own [OF assms(1,2)] by simp
  then obtain r1 w1 where l: "watch_loop H (file_in readyDir i) schedule w = Some (r1, w1)"
    unfolding hold_container_watch [OF assms(1)] by (auto split: option.splits)
  from watch_loop_found [OF assms(1,3) l] have "r1 = Inr True" and "\<exists>pre f x post. schedule = pre @ (f, x) # post \<and>
      file_in readyDir i \<in> files (f (moment pre w))" by simp_all
  moreover from this(1) l \<open>hold_container H schedule i w = Some (r, w')\<close> have "r = Inr 0"
    unfolding hold_container_watch [OF assms(1)] by simp
  ultimately show ?thesis by blast
qed

text \<open>
  C35: Once the ready file is there the next tick of the hook ends it, whatever it received before, so the
  container starts.
\<close>

theorem hook_released:
  assumes "hook_contract H files inode names (''net:['' @ format_dec n @ '']'')" and "own_sandbox files inode names n i w"
    and "file_in readyDir i \<in> files (f (moment pre w))"
  shows "\<exists>w'. hook_main H (pre @ (f, Tick) # post) w = Some (Inr 0, w')"
proof -
  obtain b w1 where "watch_loop H (file_in readyDir i) (pre @ (f, Tick) # post) w = Some (Inr b, w1)"
    using watch_loop_returns [where f = f, OF assms(1,3)] by blast
  then show ?thesis unfolding hook_main_own [OF assms(1,2)] hold_container_watch [OF assms(1)]
    by (auto split: sum.split bool.split)
qed

text \<open>
  C36: The hook and the plugin agree on the files of a sandbox: for the sandbox key that docker gives, the name
  server writes the sandbox file that the hook lists and its ready file is the one the hook waits for, both
  seen from the plugin under \<open>/hostfs\<close>, and it enters the namespace whose inode the hook compares.
\<close>

theorem hook_and_nameserver_agree:
  assumes "i \<noteq> []" and "CHR ''/'' \<notin> set i" and "NewNameserver N (file_in netnsDir i) True w = (Inr ns, w1)"
  shows "WriteFile N (''/hostfs'' @ file_in sandboxesDir i) w = (Inr (), w1) \<and>
    readyFile ns = ''/hostfs'' @ file_in readyDir i \<and> networkNamespace ns = ''/hostfs'' @ file_in netnsDir i"
proof -
  have split: "split_on CHR ''/'' (file_in netnsDir i) = [[], ''var'', ''run'', ''docker'', ''netns'', i]"
    using assms(2) by (simp add: file_in_def netnsDir_def)
  have [simp]: "\<not> prefix ''/hostfs'' (file_in netnsDir i)"
    by (simp add: file_in_def netnsDir_def)
  have "WriteFile N (SandboxesPath @ ''/'' @ i) w = (Inr (), w1) \<and>
      ns = (new_nameserver (file_in netnsDir i) True)\<lparr>readyFile := ReadyPath @ ''/'' @ i\<rparr>"
    using assms(1,3) unfolding NewNameserver_def split Let_def last.simps
    by (simp del: append.simps split: prod.splits sum.splits)
  then show ?thesis
    by (simp add: new_nameserver_def adjustNamespacePath_def SandboxesPath_def ReadyPath_def
        file_in_def sandboxesDir_def readyDir_def netnsDir_def)
qed

section \<open>Examples\<close>

text \<open>A host that is its list of files, with one container namespace, inode 7.\<close>

definition demo_hook :: "string list hookhost" where
  "demo_hook = \<lparr>Readlink = (\<lambda>p w. (Inr (''net:['' @ format_dec 7 @ '']''), w)),
     StatInode = (\<lambda>p w. if p \<in> set w then (Inr 7, w) else (Inl (OtherError ''not exist''), w)),
     ReadDir = (\<lambda>d w. (Inr [''a'', ''b''], w)),
     RemoveFile = (\<lambda>p w. (Inr (), removeAll p w)), hook_MkdirAll = (\<lambda>d w. (Inr (), w)),
     NewWatcher = (\<lambda>w. (Inr (), w)), AddWatch = (\<lambda>d w. (Inr (), w))\<rparr>"

lemma demo_hook_contract: "hook_contract demo_hook set (\<lambda>_ _. 7) (\<lambda>_. [''a'', ''b'']) (''net:['' @ format_dec 7 @ '']'')"
  by (simp add: hook_contract_def demo_hook_def)

lemma demo_own_sandbox: "own_sandbox set (\<lambda>_ _. 7) (\<lambda>_. [''a'', ''b'']) 7 ''b'' [file_in netnsDir ''b'']"
  by (simp add: own_sandbox_def file_in_def)

text \<open>The plugin writes the ready file between two ticks.\<close>

definition demo_schedule :: "((string list \<Rightarrow> string list) \<times> wake) list" where
  "demo_schedule = [(id, Tick), (\<lambda>w. file_in readyDir ''b'' # w, Tick)]"

theorem hook_waits_for_ready_witness:
  "\<exists>w'. hook_main demo_hook demo_schedule [file_in netnsDir ''b''] = Some (Inr 0, w') \<and>
     (\<exists>pre f x post. demo_schedule = pre @ (f, x) # post \<and> file_in readyDir ''b'' \<in> set (f (moment pre [file_in netnsDir ''b''])))"
proof -
  have t: "truthful set demo_schedule" by (simp add: truthful_def demo_schedule_def)
  have "\<exists>r w'. hook_main demo_hook demo_schedule [file_in netnsDir ''b''] = Some (r, w')"
    unfolding hook_main_own [OF demo_hook_contract demo_own_sandbox] hold_container_watch [OF demo_hook_contract]
    by (simp add: demo_schedule_def demo_hook_def file_in_def)
  then obtain r w' where run: "hook_main demo_hook demo_schedule [file_in netnsDir ''b''] = Some (r, w')" by blast
  from hook_waits_for_ready [OF demo_hook_contract demo_own_sandbox t run] run show ?thesis by blast
qed

theorem hook_released_witness:
  "\<exists>w'. hook_main demo_hook ([(id, Tick)] @ (\<lambda>w. file_in readyDir ''b'' # w, Tick) # [(id, TimedOut)]) [file_in netnsDir ''b''] =
     Some (Inr 0, w')"
  by (rule hook_released [OF demo_hook_contract demo_own_sandbox]) simp

theorem hook_and_nameserver_agree_witness:
  "\<forall>N :: nat nshost. let M = N\<lparr>WriteFile := (\<lambda>p w. (Inr (), w + 1))\<rparr> in
     \<exists>ns. NewNameserver M (file_in netnsDir ''b'') True 0 = (Inr ns, 1) \<and> readyFile ns = ''/hostfs'' @ file_in readyDir ''b''"
  unfolding Let_def
proof
  fix N :: "nat nshost"
  let ?M = "N\<lparr>WriteFile := (\<lambda>p w. (Inr (), w + 1))\<rparr>"
  obtain ns where n: "NewNameserver ?M (file_in netnsDir ''b'') True 0 = (Inr ns, 1)"
    by (simp add: NewNameserver_def Let_def)
  have "''b'' \<noteq> []" "CHR ''/'' \<notin> set ''b''" by simp_all
  from hook_and_nameserver_agree [OF this n] n
  show "\<exists>ns. NewNameserver ?M (file_in netnsDir ''b'') True 0 = (Inr ns, 1) \<and> readyFile ns = ''/hostfs'' @ file_in readyDir ''b''"
    by blast
qed

end
