(* ===== verification/Etcd_Mutex.thy ===== *)
theory Etcd_Mutex
  imports Etcd
begin

text \<open>
  \<open>LockNewMutex\<close> of \<open>plugin/pkg/etcd/connection.go\<close> and \<open>mutex.go\<close>: a lock of the cluster, held by a session
  of etcd's concurrency package, which is the record \<open>locks\<close>.  Theory \<open>Flannel_Network\<close> takes the two methods as
  one of its parameters.
\<close>

section \<open>The mutex\<close>

text \<open>\<open>WithDeadline\<close> makes the context of a mutex and \<open>CancelCtx\<close> ends it.\<close>

record 'w locks =
  NewSession :: "nat \<Rightarrow> ('w, nat) io"
  CloseSession :: "nat \<Rightarrow> ('w, unit) io"
  LockKey :: "nat \<Rightarrow> string \<Rightarrow> nat \<Rightarrow> ('w, unit) io"
  UnlockKey :: "nat \<Rightarrow> string \<Rightarrow> nat \<Rightarrow> ('w, unit) io"
  WithDeadline :: "nat \<Rightarrow> 'w \<Rightarrow> nat \<times> 'w"
  CancelCtx :: "nat \<Rightarrow> 'w \<Rightarrow> 'w"

record Mutex =
  mx_session :: nat
  mx_key :: string
  mx_ctx :: nat

definition NewMutex :: "nat \<Rightarrow> string \<Rightarrow> nat \<Rightarrow> Mutex" where
  "NewMutex session key ctx = \<lparr>mx_session = session, mx_key = key, mx_ctx = ctx\<rparr>"

text \<open>The time limit is in seconds; the session has a TTL of 5 s.\<close>

definition LockNewMutex :: "'w locks \<Rightarrow> string \<Rightarrow> nat \<Rightarrow> ('w, Mutex) io" where
  "LockNewMutex L lockKey lockTimeout w = (case NewSession L 5 w of
      (Inl e, w1) \<Rightarrow> (Inl e, w1)
    | (Inr session, w1) \<Rightarrow> (case WithDeadline L lockTimeout w1 of
        (ctx, w2) \<Rightarrow> (case LockKey L session lockKey ctx w2 of
            (Inl e, w3) \<Rightarrow> (Inl e, CancelCtx L ctx w3)
          | (Inr _, w3) \<Rightarrow> (Inr (NewMutex session lockKey ctx), w3))))"

definition UnlockAndCloseSession :: "'w locks \<Rightarrow> Mutex \<Rightarrow> ('w, unit) io" where
  "UnlockAndCloseSession L m w = (case UnlockKey L (mx_session m) (mx_key m) (mx_ctx m) w of
      (Inl e, w1) \<Rightarrow> (Inl e, w1)
    | (Inr _, w1) \<Rightarrow> (case CloseSession L (mx_session m) w1 of
        (Inl e, w2) \<Rightarrow> (Inl e, w2)
      | (Inr _, w2) \<Rightarrow> (Inr (), CancelCtx L (mx_ctx m) w2)))"

section \<open>Properties\<close>

text \<open>
  The lock service as the cluster sees it: the open sessions and, for each key, the session that holds it.  A request
  without an error does what it says; one with an error may have done it or not, except that a session that could not be
  made is not open, and a lock that was not got in time is not held.  A closed session holds nothing.
\<close>

definition locks_contract :: "'w locks \<Rightarrow> ('w \<Rightarrow> nat set) \<Rightarrow> ('w \<Rightarrow> string \<Rightarrow> nat option) \<Rightarrow> bool" where
  "locks_contract L opened holder \<longleftrightarrow>
     (\<forall>ttl w e w1. NewSession L ttl w = (Inl e, w1) \<longrightarrow> opened w1 = opened w \<and> holder w1 = holder w) \<and>
     (\<forall>ttl w s w1. NewSession L ttl w = (Inr s, w1) \<longrightarrow> s \<notin> opened w \<and> opened w1 = insert s (opened w) \<and> holder w1 = holder w) \<and>
     (\<forall>s k c w e w1. LockKey L s k c w = (Inl e, w1) \<longrightarrow> opened w1 = opened w \<and> holder w1 = holder w) \<and>
     (\<forall>s k c w x w1. LockKey L s k c w = (Inr x, w1) \<longrightarrow>
        opened w1 = opened w \<and> holder w k = None \<and> holder w1 = (holder w)(k := Some s)) \<and>
     (\<forall>s k c w e w1. UnlockKey L s k c w = (Inl e, w1) \<longrightarrow> opened w1 = opened w) \<and>
     (\<forall>s k c w x w1. UnlockKey L s k c w = (Inr x, w1) \<longrightarrow> opened w1 = opened w \<and> holder w1 = (holder w)(k := None)) \<and>
     (\<forall>s w x w1. CloseSession L s w = (Inr x, w1) \<longrightarrow> opened w1 = opened w - {s} \<and>
        holder w1 = (\<lambda>k. if holder w k = Some s then None else holder w k)) \<and>
     (\<forall>t w c w1. WithDeadline L t w = (c, w1) \<longrightarrow> opened w1 = opened w \<and> holder w1 = holder w) \<and>
     (\<forall>c w. opened (CancelCtx L c w) = opened w \<and> holder (CancelCtx L c w) = holder w)"

lemma LockNewMutex_Inr:
  assumes "locks_contract L opened holder" and "LockNewMutex L k t w = (Inr m, w1)"
  shows "mx_key m = k \<and> mx_session m \<notin> opened w \<and> opened w1 = insert (mx_session m) (opened w) \<and>
    holder w k = None \<and> holder w1 = (holder w)(k := Some (mx_session m))"
proof -
  obtain s w2 c w3 x where *: "NewSession L 5 w = (Inr s, w2)" "WithDeadline L t w2 = (c, w3)" "LockKey L s k c w3 = (Inr x, w1)"
    "m = NewMutex s k c"
    using assms(2) by (auto simp: LockNewMutex_def split: prod.splits sum.splits)
  note C = assms(1) [unfolded locks_contract_def]
  have "s \<notin> opened w \<and> opened w2 = insert s (opened w) \<and> holder w2 = holder w" using C *(1) by metis
  moreover have "opened w3 = opened w2 \<and> holder w3 = holder w2" using C *(2) by metis
  moreover have "opened w1 = opened w3 \<and> holder w3 k = None \<and> holder w1 = (holder w3)(k := Some s)" using C *(3) by metis
  ultimately show ?thesis using *(4) by (simp add: NewMutex_def)
qed

text \<open>
  A mutex that was locked and unlocked without an error was free, was held by a session of its own in between,
  and afterwards every lock and every session is as before.
\<close>

theorem mutex_lock_unlock:
  assumes "locks_contract L opened holder" and "\<forall>k' s. holder w k' = Some s \<longrightarrow> s \<in> opened w"
    and "LockNewMutex L k t w = (Inr m, w1)" and "UnlockAndCloseSession L m w1 = (Inr (), w2)"
  shows "holder w k = None \<and> holder w1 = (holder w)(k := Some (mx_session m)) \<and> holder w2 = holder w \<and> opened w2 = opened w"
proof -
  note N = LockNewMutex_Inr [OF assms(1,3)]
  obtain x y v2 v3 where *: "UnlockKey L (mx_session m) (mx_key m) (mx_ctx m) w1 = (Inr x, v2)"
    "CloseSession L (mx_session m) v2 = (Inr y, v3)" "w2 = CancelCtx L (mx_ctx m) v3"
    using assms(4) by (auto simp: UnlockAndCloseSession_def split: prod.splits sum.splits)
  note C = assms(1) [unfolded locks_contract_def]
  have "opened v2 = opened w1 \<and> holder v2 = (holder w1)(mx_key m := None)" using C *(1) by metis
  moreover have "opened v3 = opened v2 - {mx_session m} \<and>
      holder v3 = (\<lambda>k. if holder v2 k = Some (mx_session m) then None else holder v2 k)" using C *(2) by metis
  moreover have "opened w2 = opened v3 \<and> holder w2 = holder v3" using C *(3) by metis
  ultimately have "opened w2 = opened w" and h: "holder w2 = (\<lambda>j. if (if j = k then None else holder w j) = Some (mx_session m)
      then None else if j = k then None else holder w j)"
    using N by auto
  moreover have "holder w2 = holder w"
  proof
    fix j
    show "holder w2 j = holder w j" using N assms(2) unfolding h by (cases "holder w j") auto
  qed
  ultimately show ?thesis using N by simp
qed

text \<open>When the lock is not got in time only the context is cancelled: the session stays open.\<close>

lemma lock_failure_keeps_session:
  assumes "locks_contract L opened holder" and "NewSession L 5 w = (Inr s, v)" and "LockNewMutex L k t w = (Inl e, w1)"
  shows "s \<notin> opened w \<and> opened w1 = insert s (opened w) \<and> holder w1 = holder w"
proof -
  obtain c v1 v2 where *: "WithDeadline L t v = (c, v1)" "LockKey L s k c v1 = (Inl e, v2)" "w1 = CancelCtx L c v2"
    using assms(2,3) by (auto simp: LockNewMutex_def split: prod.splits sum.splits)
  note C = assms(1) [unfolded locks_contract_def]
  have "s \<notin> opened w \<and> opened v = insert s (opened w) \<and> holder v = holder w" using C assms(2) by metis
  moreover have "opened v1 = opened v \<and> holder v1 = holder v" using C *(1) by metis
  moreover have "opened v2 = opened v1 \<and> holder v2 = holder v1" using C *(2) by metis
  moreover have "opened w1 = opened v2 \<and> holder w1 = holder v2" using C *(3) by metis
  ultimately show ?thesis by simp
qed

text \<open>An error of the unlock, for instance because the time limit is over by then, keeps the session open as well.\<close>

lemma unlock_failure_keeps_session:
  assumes "locks_contract L opened holder" and "UnlockKey L (mx_session m) (mx_key m) (mx_ctx m) w = (Inl e, w1)"
  shows "UnlockAndCloseSession L m w = (Inl e, w1) \<and> opened w1 = opened w"
  using assms unfolding locks_contract_def by (auto simp: UnlockAndCloseSession_def)

section \<open>Example\<close>

text \<open>A lock service in memory: the open sessions and the locks.\<close>

type_synonym lock_world = "nat list \<times> (string \<Rightarrow> nat option)"

definition demo_locks :: "lock_world locks" where
  "demo_locks = \<lparr>NewSession = (\<lambda>ttl w. let s = Suc (fold max (fst w) 0) in (Inr s, s # fst w, snd w)),
     CloseSession = (\<lambda>s w. (Inr (), removeAll s (fst w), \<lambda>k. if snd w k = Some s then None else snd w k)),
     LockKey = (\<lambda>s k c w. if snd w k = None then (Inr (), fst w, (snd w)(k := Some s)) else (Inl (OtherError ''deadline''), w)),
     UnlockKey = (\<lambda>s k c w. (Inr (), fst w, (snd w)(k := None))),
     WithDeadline = (\<lambda>t w. (0, w)), CancelCtx = (\<lambda>c w. w)\<rparr>"

lemma fold_max_ge_acc: "(a :: nat) \<le> fold max xs a"
proof (induction xs arbitrary: a)
  case (Cons x xs)
  from Cons [of "max x a"] show ?case by simp
qed simp

lemma fold_max_ge: "x \<in> set xs \<Longrightarrow> (x :: nat) \<le> fold max xs a"
proof (induction xs arbitrary: a)
  case (Cons y xs)
  from fold_max_ge_acc [of "max y a" xs] Cons show ?case by auto
qed simp

lemma demo_locks_contract: "locks_contract demo_locks (\<lambda>w. set (fst w)) snd"
proof -
  have "Suc (fold max ss 0) \<notin> set ss" for ss :: "nat list"
    using fold_max_ge [of "Suc (fold max ss 0)" ss 0] by auto
  then show ?thesis
    unfolding locks_contract_def demo_locks_def locks.simps Let_def
    by (intro conjI) (auto split: if_splits)
qed

theorem mutex_lock_unlock_witness:
  "\<exists>m w1 w2. LockNewMutex demo_locks ''k'' 15 ([], \<lambda>_. None) = (Inr m, w1) \<and> UnlockAndCloseSession demo_locks m w1 = (Inr (), w2) \<and>
     fst w2 = [] \<and> snd w1 ''k'' \<noteq> None"
proof -
  obtain m w1 where l: "LockNewMutex demo_locks ''k'' 15 ([], \<lambda>_. None) = (Inr m, w1)"
    by (simp add: LockNewMutex_def demo_locks_def Let_def)
  obtain w2 where u: "UnlockAndCloseSession demo_locks m w1 = (Inr (), w2)"
    by (simp add: UnlockAndCloseSession_def demo_locks_def)
  from mutex_lock_unlock [OF demo_locks_contract _ l u] have "fst w2 = []" "snd w1 ''k'' \<noteq> None" by simp_all
  with l u show ?thesis by blast
qed

end
