(* ===== verification/Spec2Isabelle.thy ===== *)
theory Spec2Isabelle
  imports Prelude Go_Strings Net Ipam_Util Common Service Init_Manager Etcd Stores Sharded_Store
    Address_Space Pool_Etcd Pool Fwmarks Resolver Networking Service_Lb Programs Lb_Management Lock_Order
    Docker_Data Bridge Endpoints Flannel_Network Nameserver Driver_Requests Driver_Invariant Api Plugin_Main Hook Etcd_Mutex
begin

text \<open>
  Verification development of the Flannel network plugin for Docker swarm (\<open>src/plugin\<close> and \<open>src/hook\<close>).

  THE PROGRAM.  The plugin runs on every node of a swarm and is docker's IPAM and network driver.  It splits the
  configured address space into pools, one for each network, and the nodes agree in etcd on who has which pool.
  For each network it writes the configuration of flannel, starts \<open>flanneld\<close>, which gives the node a subnet of the
  pool, and keeps a bridge on the node; the containers of the node get addresses of the subnet, a veth pair and
  an endpoint record.  The node publishes its containers, and a manager the services and networks, in etcd and
  follows what the others publish.  From this it answers DNS queries with a name server in the network
  namespace of each container, and makes for each service with a virtual address a load balancer of
  ipvs and iptables in every network of the service.  The hook is a program of its own that holds the start of a
  container until the plugin has set up its name server.

  THE THEORIES.  Paths are below \<open>src/plugin/pkg\<close> where nothing else is said.

  \<^item> \<open>Prelude\<close> (Go maps, errors, io), \<open>Go_Strings\<close> and \<open>Net\<close> (the parts of Go's strings, strconv and net
    packages that are used), \<open>Programs\<close> (programs over a state and rules for what they establish) and \<open>Worlds\<close> (an etcd
    beside a kernel): shared vocabulary, no file of the repository.
  \<^item> \<open>Common\<close>: \<open>common/common.go\<close>, \<open>concurrent_map.go\<close>, \<open>dualkey_concurrent_map.go\<close>.  A concurrent map is the Go map
    it guards, a dual-key map the record \<open>dkm\<close> of its two maps.
  \<^item> \<open>Service\<close>: \<open>common/event.go\<close>, \<open>common/service.go\<close>; \<open>Init_Manager\<close>: \<open>common/init_manager.go\<close>.
  \<^item> \<open>Etcd\<close>, \<open>Etcd_Mutex\<close>: \<open>etcd/client.go\<close>, \<open>connection.go\<close>, \<open>mutex.go\<close>; \<open>Stores\<close>: \<open>etcd/store.go\<close>,
    \<open>readonly_store.go\<close>, \<open>writeonly_store.go\<close>; \<open>Sharded_Store\<close>: \<open>etcd/sharded_distributed_store.go\<close>.
  \<^item> \<open>Ipam_Util\<close>: \<open>ipam/util.go\<close>; \<open>Address_Space\<close>: \<open>ipam/address_space.go\<close>, \<open>address_space_etcd.go\<close>;
    \<open>Pool_Etcd\<close>, \<open>Pool\<close>: \<open>ipam/pool_etcd.go\<close>, \<open>ipam/pool.go\<close>.
  \<^item> \<open>Networking\<close>: \<open>networking\<close>; \<open>Bridge\<close>: \<open>bridge\<close>; \<open>Endpoints\<close>: \<open>flannel_network/endpoint.go\<close>;
    \<open>Flannel_Network\<close>: \<open>flannel_network/network.go\<close>, \<open>util.go\<close>.
  \<^item> \<open>Fwmarks\<close>, \<open>Service_Lb\<close>, \<open>Lb_Management\<close>: \<open>service_lb/fwmarks.go\<close>, \<open>network_specific_service_lb.go\<close>,
    \<open>service_lbs_management.go\<close>; \<open>Lock_Order\<close>: the order in which two of its methods take two mutexes.
  \<^item> \<open>Resolver\<close>, \<open>Nameserver\<close>: \<open>dns/resolver.go\<close>, \<open>dns/server.go\<close>; \<open>Docker_Data\<close>: \<open>docker\<close>.
  \<^item> \<open>Driver\<close>, \<open>Driver_Requests\<close>: \<open>driver/flannel_driver.go\<close>, \<open>driver/ipam.go\<close>, \<open>driver/network.go\<close>;
    \<open>Driver_Invariant\<close>: runs of the driver and what every reachable state satisfies; \<open>Api\<close>: \<open>api\<close>;
    \<open>Plugin_Main\<close>: \<open>src/plugin/main.go\<close>; \<open>Hook\<close>: \<open>src/hook/main.go\<close>.

  HOW IT IS MODELLED.  A struct is a record with the names of its fields, a map an association list with distinct
  keys (\<open>map_ok\<close>) whose order is the order of \<open>range\<close>, so theorems hold for every order.  An address is its
  list of bytes, \<open>[]\<close> being nil.  Numbers that may wrap are reduced by hand or are words: the hash of
  \<open>Fwmarks\<close> is over 32-bit words, \<open>countPoolSizeSubnets\<close> computes in 64 bits.  A method is a function from the state and
  a world \<open>'w\<close> to its result, the new state and the new world; the world is everything outside the process.  An
  error is a value of \<open>err\<close>, a panic the value \<open>Panic\<close> of it, and \<open>log.Fatalf\<close> ends the process with \<open>Panic ''fatal''\<close>.

  What is not under \<open>src\<close> is a parameter: the record \<open>env\<close> (etcd and its client, the clock, the random source),
  \<open>locks\<close> (its sessions and mutexes), \<open>kernel\<close>, \<open>netlink\<close> and \<open>host\<close> (netlink, iptables, ipvs, flanneld and files),
  \<open>docker\<close> (its client), \<open>nshost\<close> and \<open>dnslib\<close> (namespaces, sockets, miekg/dns), \<open>hookhost\<close> (files and fsnotify),
  \<open>decoders\<close>, \<open>codecs\<close>, \<open>network_codecs\<close>, \<open>item_ops\<close> (JSON), \<open>cidr.Subnet\<close>, \<open>sort.Slice\<close>, the shuffle and the random
  reader.  \<open>etcd_contract E kv rely\<close> says what is relied on of etcd: \<open>kv\<close> reads the keyspace off a world, a transaction
  is atomic, a failed one may or may not have been carried out, and before each one the other nodes change the
  keyspace as \<open>rely\<close> allows.  \<open>kernel_contract\<close> does the same for the kernel.  Both hold of the reference functions
  \<open>ref_env\<close> and \<open>ref_kernel\<close>, on which the witnesses evaluate.

  A method that holds its mutex from start to end is one program.  Where a method gives the mutex up in between, or
  another process can act, the change is an argument (\<open>GetOrAdd\<close>, \<open>rely\<close>, the functions \<open>others\<close> of the load balancers, the
  schedules of the hook).  Handlers are called in the order in which the code raises their events.  The driver has heaps
  of networks, services and name servers, since several of its maps point to one object, and each goroutine that a
  handler starts is a \<open>task\<close> that runs later, in any order.  \<open>Init_Manager\<close>, \<open>Lock_Order\<close> and the race of
  \<open>Nameserver\<close> are step relations with one step per operation on a lock or channel.

  LOOPS.  The loops over the addresses of a network, over candidate addresses (\<open>allocateFreeIP\<close>) and over candidate marks
  (\<open>get_loop\<close>) are partial functions with \<open>None\<close> for a run that never ends; that they return is
  proved for IPv4 networks with a prefix, for a pool and for marks without another writer, and so are the inputs on which
  they do not (theories \<open>Ipam_Util\<close>, \<open>Pool\<close>, \<open>Fwmarks\<close>).  A loop that the code bounds by a number has that number (\<open>WaitUntilAvailable\<close>).  A loop that
  it bounds by a time-out has the number of rounds that fit: 50 polls of 100 ms for the 5 s in which
  \<open>flanneld\<close> writes its file, and arguments \<open>tries\<close> and \<open>polls\<close>, for which the theorems hold whatever they are, for the name
  server.  The hook receives what a schedule says and waits for ever (\<open>None\<close>) at its end.

  WHAT IS PROVED.  The properties are numbered C1 to C40 in the theories.

  \<^item> Agreement of the nodes, with any number of other nodes that keep to the protocol and any request failing: no
    node takes another pool's subnet, an address that is in use, a service's mark, or another node's flannel
    configuration.  Without other writers what a node remembers is what etcd records.
  \<^item> Stores mirror etcd: after a write etcd encodes the items, after any sequence of watch events the memory agrees
    with the keyspace again.  What a service announces is enough for a subscriber to know it exactly.
  \<^item> Arithmetic: the subnets of a pool are disjoint and cover it, the addresses handed out are exactly the host
    addresses.  Round trips: what is written to etcd or by \<open>flanneld\<close> is read back; a pool that was requested is found
    again by the request for its gateway.
  \<^item> Effects on the node: bridges, endpoints and load balancers set exactly what they should and touch nothing
    else, and undo it.
  \<^item> DNS: what a query is answered with; the hook and the name server agree on files and namespaces.
  \<^item> The driver as a whole: until it is initialised no request has an effect; whatever docker reports and requests,
    its maps and goroutines refer to the objects they should; two orders of events give the same state.
  \<^item> Failures of the code: deadlocks, leaks, lost updates and panics that modelling showed are theorems too
    (their names say what goes wrong).

  INTERFACES.  The locale \<open>equaler\<close> is what the comparisons share, \<open>concurrent_map\<close> what users of the maps rely on, \<open>item_keys\<close> the
  layout of keys of the two kinds of stores, \<open>holder\<close> the record of an address with its owner and \<open>allocator\<close> what
  \<open>allocateFreeIP\<close> needs of the step it retries.  Each is interpreted on the definitions of the code in the theory that has
  them.

  NOT MODELLED.  The HTTP server and JSON of docker's sdk and of the standard library, the wire formats of netlink and
  DNS and the processes themselves are outside the repository.  Log and journal messages and durations in them are left
  out; contexts and time-outs appear as errors of the requests they bound.  The text of IPv6 addresses is not
  parsed, since the plugin refuses IPv6 pools.  Goroutines inside one critical section (the readers of the pipes of \<open>flanneld\<close>,
  the watch loops) are functions of what they receive.  A handler of docker events, a request and a task of the driver
  each run to their end: the mutexes keep two requests or two handlers of one store apart, but not a request and a
  handler, and their interleavings are not modelled beyond the arguments named above.  A goroutine's unsynchronised access to a field (a data race) is not modelled.
\<close>

end
